(* ===== verification/ET_Prelude.thy ===== *)
theory ET_Prelude
  imports Main "HOL-Library.Word"
begin

text \<open>
  Prelude of the development. It holds what every component shares:
  \<^item> the result of running a piece of C++ (\<open>outcome\<close>): a value, a thrown exception, an
    abort by \<^verbatim>\<open>STFATAL\<close> / \<^verbatim>\<open>LOG(FATAL)\<close>, a call of \<^verbatim>\<open>exit\<close>, or \<open>Blocked\<close> (the
    environment has not answered a system call yet), and the state-passing programs over it;
  \<^item> fixed-width integers (\<^verbatim>\<open>int32_t\<close>, \<^verbatim>\<open>int64_t\<close>) and their byte encodings;
  \<^item> \<^verbatim>\<open>std::map\<close> / \<^verbatim>\<open>std::unordered_map\<close> as association lists;
  \<^item> the generic transition system with its invariant rule, and the frames programs respect, as locales.
  A C++ \<^verbatim>\<open>string\<close> is a byte string: HOL's \<^typ>\<open>char\<close> is an 8-bit character, so \<^typ>\<open>string\<close>
  is used for text and for binary data alike.
\<close>

named_theorems et_defs \<open>definitions unfolded to evaluate a program\<close>
named_theorems script_simps \<open>how an operation consumes the answers of the environment\<close>

section \<open>Outcomes and programs\<close>

text \<open>
  The exceptions the code throws. \<open>OutOfRange\<close>, \<open>LengthError\<close> and \<open>InvalidArgument\<close> are
  the \<^verbatim>\<open>std::logic_error\<close>s of the C++ library (\<^verbatim>\<open>substr\<close>, the string constructor,
  \<^verbatim>\<open>stoi\<close>): a handler for \<^verbatim>\<open>std::runtime_error\<close> does not catch them.
\<close>

datatype exn =
    RuntimeError string
  | OutOfRange
  | LengthError
  | InvalidArgument
  | TunnelParseException string

definition is_runtime_error :: "exn \<Rightarrow> bool" where
  "is_runtime_error e = (case e of RuntimeError _ \<Rightarrow> True | _ \<Rightarrow> False)"

definition is_logic_error :: "exn \<Rightarrow> bool" where
  "is_logic_error e = (e = OutOfRange \<or> e = LengthError \<or> e = InvalidArgument)"

datatype 'a outcome =
    Ok 'a
  | Throw exn
  | Abort string
  | Exit int
  | Blocked

type_synonym ('s, 'a) prog = "'s \<Rightarrow> 'a outcome \<times> 's"

definition ret :: "'a \<Rightarrow> ('s, 'a) prog" where
  "ret x s = (Ok x, s)"

definition fail :: "'a outcome \<Rightarrow> ('s, 'a) prog" where
  "fail r s = (r, s)"

text \<open>Carries the non-value outcomes over to another result type.\<close>

fun lift_bad :: "'a outcome \<Rightarrow> 'b outcome" where
  "lift_bad (Ok x) = Blocked"
| "lift_bad (Throw e) = Throw e"
| "lift_bad (Abort m) = Abort m"
| "lift_bad (Exit n) = Exit n"
| "lift_bad Blocked = Blocked"

definition bnd :: "('s, 'a) prog \<Rightarrow> ('a \<Rightarrow> ('s, 'b) prog) \<Rightarrow> ('s, 'b) prog" where
  "bnd m f s = (case m s of (Ok x, s') \<Rightarrow> f x s' | (r, s') \<Rightarrow> (lift_bad r, s'))"

text \<open>\<^verbatim>\<open>try { m } catch (const std::runtime_error&) { h }\<close>.\<close>

definition catch_runtime :: "('s, 'a) prog \<Rightarrow> (string \<Rightarrow> ('s, 'a) prog) \<Rightarrow> ('s, 'a) prog" where
  "catch_runtime m h s =
     (case m s of (Throw (RuntimeError e), s') \<Rightarrow> h e s' | r \<Rightarrow> r)"

definition is_ok :: "'a outcome \<Rightarrow> bool" where
  "is_ok r = (case r of Ok _ \<Rightarrow> True | _ \<Rightarrow> False)"

lemma ret_simp [simp]: "ret x s = (Ok x, s)"
  by (simp add: ret_def)

lemma fail_simp [simp]: "fail r s = (r, s)"
  by (simp add: fail_def)

lemma bnd_ret [simp]: "bnd (ret x) f = f x"
  by (simp add: bnd_def fun_eq_iff)

lemma bnd_Pair [simp]: "bnd (Pair (Ok x)) f = f x"
  by (rule ext) (simp add: bnd_def)

lemma bnd_assoc: "bnd (bnd m f) g = bnd m (\<lambda>x. bnd (f x) g)"
proof
  fix s
  obtain r s' where m: "m s = (r, s')" by force
  show "bnd (bnd m f) g s = bnd m (\<lambda>x. bnd (f x) g) s"
    by (cases r) (simp_all add: bnd_def m)
qed

lemma bnd_Ok: "m s = (Ok x, s') \<Longrightarrow> bnd m f s = f x s'"
  by (simp add: bnd_def)

text \<open>Lets \<^theory_text>\<open>function\<close> see through \<open>bnd\<close>: a recursive call sits below the value it depends on.\<close>

lemma bnd_cong [fundef_cong]:
  assumes "m s = m' s'" and "\<And>x t. m' s' = (Ok x, t) \<Longrightarrow> f x t = f' x t"
  shows "bnd m f s = bnd m' f' s'"
proof -
  obtain r t where "m' s' = (r, t)" by force
  with assms show ?thesis by (cases r) (simp_all add: bnd_def)
qed

text \<open>
  Postconditions: \<open>post Q (m s)\<close> says that whatever \<open>m\<close> ends with from \<open>s\<close> satisfies \<open>Q\<close>. The
  introduction rules follow the structure of the program.
\<close>

definition post :: "('a outcome \<Rightarrow> 's \<Rightarrow> bool) \<Rightarrow> 'a outcome \<times> 's \<Rightarrow> bool" where
  "post Q p \<longleftrightarrow> Q (fst p) (snd p)"

lemma post_pair [simp]: "post Q (r, s) \<longleftrightarrow> Q r s"
  by (simp add: post_def)

lemma postD: "post Q p \<Longrightarrow> p = (r, s) \<Longrightarrow> Q r s"
  by simp

lemma postI: "(\<And>r t. m s = (r, t) \<Longrightarrow> Q r t) \<Longrightarrow> post Q (m s)"
  by (metis post_def prod.collapse)

lemma post_bnd:
  assumes "\<And>x t. m s = (Ok x, t) \<Longrightarrow> post Q (f x t)"
    and "\<And>q t. m s = (q, t) \<Longrightarrow> \<not> is_ok q \<Longrightarrow> Q (lift_bad q) t"
  shows "post Q (bnd m f s)"
proof -
  obtain r t where m: "m s = (r, t)" by force
  show ?thesis using assms m by (cases r) (auto simp: bnd_def is_ok_def split: outcome.splits)
qed

lemma lift_bad_neq_Ok [simp]: "lift_bad q \<noteq> Ok x" "\<not> is_ok (lift_bad q)"
  by (cases q; simp add: is_ok_def)+

lemma bnd_cases:
  assumes "bnd m f w = (r, w')"
  obtains (val) x u where "m w = (Ok x, u)" "f x u = (r, w')"
    | (bad) q where "m w = (q, w')" "\<not> is_ok q" "r = lift_bad q"
proof -
  obtain q u where "m w = (q, u)" by force
  then show ?thesis using assms that by (cases q) (auto simp: bnd_def is_ok_def)
qed

lemma bnd_eq_Ok:
  "bnd m f s = (Ok y, t) \<longleftrightarrow> (\<exists>x s'. m s = (Ok x, s') \<and> f x s' = (Ok y, t))"
proof -
  obtain r s' where m: "m s = (r, s')" by force
  show ?thesis by (cases r) (simp_all add: bnd_def m)
qed

lemma bnd_eq_OkE:
  assumes "bnd m f s = (Ok y, t)"
  obtains x s' where "m s = (Ok x, s')" and "f x s' = (Ok y, t)"
  using assms by (auto simp: bnd_eq_Ok)

lemma is_ok_simps [simp]:
  "is_ok (Ok x)" "\<not> is_ok (Throw e)" "\<not> is_ok (Abort m)" "\<not> is_ok (Exit n)" "\<not> is_ok Blocked"
  by (simp_all add: is_ok_def)

section \<open>Fixed-width integers\<close>

text \<open>Conversion to \<^verbatim>\<open>int32_t\<close> and \<^verbatim>\<open>int64_t\<close>: two's complement, as every target does.\<close>

definition to_int32 :: "int \<Rightarrow> int" where
  "to_int32 x = (x + 2 ^ 31) mod 2 ^ 32 - 2 ^ 31"

definition to_int64 :: "int \<Rightarrow> int" where
  "to_int64 x = (x + 2 ^ 63) mod 2 ^ 64 - 2 ^ 63"

lemma to_int32_id: "- (2 ^ 31) \<le> x \<Longrightarrow> x < 2 ^ 31 \<Longrightarrow> to_int32 x = x"
  by (simp add: to_int32_def)

lemma to_int64_id: "- (2 ^ 63) \<le> x \<Longrightarrow> x < 2 ^ 63 \<Longrightarrow> to_int64 x = x"
  by (simp add: to_int64_def)

lemma to_int32_bounds: "- (2 ^ 31) \<le> to_int32 x \<and> to_int32 x < 2 ^ 31"
proof -
  have "0 \<le> (x + 2 ^ 31) mod 2 ^ 32" and "(x + 2 ^ 31) mod 2 ^ 32 < 2 ^ 32"
    by simp_all
  then show ?thesis by (simp add: to_int32_def)
qed

lemma to_int32_le: "2 ^ 31 \<le> x \<Longrightarrow> to_int32 x \<le> x - 2 ^ 32"
proof -
  assume "2 ^ 31 \<le> x"
  then have "1 \<le> (x + 2 ^ 31) div 2 ^ 32"
    using zdiv_mono1 [of "2 ^ 32" "x + 2 ^ 31" "2 ^ 32"] by simp
  then have "2 ^ 32 \<le> 2 ^ 32 * ((x + 2 ^ 31) div 2 ^ 32)" by simp
  moreover have "(x + 2 ^ 31) mod 2 ^ 32 = (x + 2 ^ 31) - 2 ^ 32 * ((x + 2 ^ 31) div 2 ^ 32)"
    by (simp add: minus_mult_div_eq_mod)
  ultimately show ?thesis by (simp add: to_int32_def)
qed

text \<open>
  \<^verbatim>\<open>htonl\<close> followed by \<^verbatim>\<open>memcpy\<close>: four bytes, most significant first. \<^verbatim>\<open>int64_t\<close>
  lengths are copied in host order; the hosts are little-endian.
\<close>

fun le_bytes :: "nat \<Rightarrow> int \<Rightarrow> string" where
  "le_bytes 0 x = []"
| "le_bytes (Suc n) x = char_of x # le_bytes n (x div 256)"

fun le_val :: "string \<Rightarrow> int" where
  "le_val [] = 0"
| "le_val (c # cs) = of_char c + 256 * le_val cs"

definition be32 :: "int \<Rightarrow> string" where
  "be32 x = rev (le_bytes 4 x)"

definition be32_dec :: "string \<Rightarrow> int" where
  "be32_dec s = to_int32 (le_val (rev s))"

definition le64 :: "int \<Rightarrow> string" where
  "le64 x = le_bytes 8 x"

definition le64_dec :: "string \<Rightarrow> int" where
  "le64_dec s = to_int64 (le_val s)"

lemma length_le_bytes [simp]: "length (le_bytes n x) = n"
  by (induction n arbitrary: x) auto

lemma length_be32 [simp]: "length (be32 x) = 4"
  by (simp add: be32_def)

lemma length_le64 [simp]: "length (le64 x) = 8"
  by (simp add: le64_def)

lemma le_val_le_bytes: "le_val (le_bytes n x) = x mod 256 ^ n"
proof (induction n arbitrary: x)
  case 0
  then show ?case by simp
next
  case (Suc n)
  have "x mod 256 + 256 * (x div 256 mod 256 ^ n) = x mod (256 * 256 ^ n)"
    by (simp add: mod_mult2_eq' zmod_zmult2_eq)
  then show ?case by (simp add: Suc.IH)
qed

lemma be32_roundtrip:
  assumes "0 \<le> x" and "x < 2 ^ 31"
  shows "be32_dec (be32 x) = x"
proof -
  have "x mod 256 ^ 4 = x" using assms by simp
  then show ?thesis using assms by (simp add: be32_def be32_dec_def le_val_le_bytes to_int32_id)
qed

lemma le64_roundtrip:
  assumes "0 \<le> x" and "x < 2 ^ 63"
  shows "le64_dec (le64 x) = x"
proof -
  have "x mod 256 ^ 8 = x" using assms by simp
  then show ?thesis using assms by (simp add: le64_def le64_dec_def le_val_le_bytes to_int64_id)
qed

section \<open>Bytes and characters\<close>

definition char_of_u8 :: "8 word \<Rightarrow> char" where
  "char_of_u8 b = char_of (unat b)"

definition u8_of_char :: "char \<Rightarrow> 8 word" where
  "u8_of_char c = of_nat (of_char c)"

lemma u8_of_char_of_u8 [simp]: "u8_of_char (char_of_u8 b) = b"
proof -
  have "unat b < 256" by (rule order_less_le_trans [OF unsigned_less]) simp
  then show ?thesis by (simp add: u8_of_char_def char_of_u8_def)
qed

lemma char_of_u8_of_char [simp]: "char_of_u8 (u8_of_char c) = c"
proof -
  have "unat (of_nat (of_char c) :: 8 word) = of_char c"
    by (simp add: unat_of_nat)
  then show ?thesis by (simp add: u8_of_char_def char_of_u8_def)
qed

section \<open>Maps of the C++ library as association lists\<close>

text \<open>
  \<^verbatim>\<open>std::map\<close> and \<^verbatim>\<open>std::unordered_map\<close> where the code iterates over them: an association
  list with distinct keys, iterated front to back. For an unordered map the order of the list
  is arbitrary; for \<^verbatim>\<open>std::map\<close> it is the order of the keys (\<open>om_insert\<close>).
\<close>

definition al_erase :: "'k \<Rightarrow> ('k \<times> 'v) list \<Rightarrow> ('k \<times> 'v) list" where
  "al_erase k xs = filter (\<lambda>p. fst p \<noteq> k) xs"

text \<open>\<^verbatim>\<open>m[k] = v\<close>: overwrite in place, or add.\<close>

fun al_set :: "'k \<Rightarrow> 'v \<Rightarrow> ('k \<times> 'v) list \<Rightarrow> ('k \<times> 'v) list" where
  "al_set k v [] = [(k, v)]"
| "al_set k v (p # xs) = (if fst p = k then (k, v) # xs else p # al_set k v xs)"

text \<open>\<^verbatim>\<open>std::map\<close>'s assignment: overwrite, or add at the key's place in the order \<open>lt\<close>.\<close>

fun om_set :: "('k \<Rightarrow> 'k \<Rightarrow> bool) \<Rightarrow> 'k \<Rightarrow> 'v \<Rightarrow> ('k \<times> 'v) list \<Rightarrow> ('k \<times> 'v) list" where
  "om_set lt k v [] = [(k, v)]"
| "om_set lt k v (p # xs) =
     (if fst p = k then (k, v) # xs
      else if lt k (fst p) then (k, v) # p # xs
      else p # om_set lt k v xs)"

text \<open>\<^verbatim>\<open>m.insert(make_pair(k, v))\<close> leaves an existing entry as it is.\<close>

definition om_insert :: "('k \<Rightarrow> 'k \<Rightarrow> bool) \<Rightarrow> 'k \<Rightarrow> 'v \<Rightarrow> ('k \<times> 'v) list \<Rightarrow> ('k \<times> 'v) list" where
  "om_insert lt k v xs = (if map_of xs k = None then om_set lt k v xs else xs)"

text \<open>The order of \<^verbatim>\<open>std::string\<close> keys: lexicographic on the byte values.\<close>

fun str_less :: "string \<Rightarrow> string \<Rightarrow> bool" where
  "str_less xs [] = False"
| "str_less [] (y # ys) = True"
| "str_less (x # xs) (y # ys) =
     ((of_char x :: nat) < of_char y \<or> (x = y \<and> str_less xs ys))"

text \<open>Update of the value at a key through the pointer the map holds.\<close>

definition al_map :: "'k \<Rightarrow> ('v \<Rightarrow> 'v) \<Rightarrow> ('k \<times> 'v) list \<Rightarrow> ('k \<times> 'v) list" where
  "al_map k f xs = map (\<lambda>p. if fst p = k then (k, f (snd p)) else p) xs"

lemma map_of_al_erase [simp]: "map_of (al_erase k xs) k' = (if k' = k then None else map_of xs k')"
  by (induction xs) (auto simp: al_erase_def)

lemma map_of_al_set [simp]: "map_of (al_set k v xs) k' = (if k' = k then Some v else map_of xs k')"
  by (induction xs) auto

lemma keys_al_set: "fst ` set (al_set k v xs) = insert k (fst ` set xs)"
  by (induction xs) auto

lemma distinct_al_set [simp]: "distinct (map fst xs) \<Longrightarrow> distinct (map fst (al_set k v xs))"
  by (induction xs) (auto simp: keys_al_set image_iff)

lemma distinct_al_erase [simp]: "distinct (map fst xs) \<Longrightarrow> distinct (map fst (al_erase k xs))"
  by (induction xs) (auto simp: al_erase_def)

lemma set_al_erase: "set (al_erase k xs) = {p \<in> set xs. fst p \<noteq> k}"
  by (auto simp: al_erase_def)

lemma map_of_om_set:
  "distinct (map fst xs) \<Longrightarrow> map_of (om_set lt k v xs) k' = (if k' = k then Some v else map_of xs k')"
  by (induction xs) auto

lemma keys_om_set: "fst ` set (om_set lt k v xs) = insert k (fst ` set xs)"
  by (induction xs) auto

lemma map_of_None_notin: "map_of xs k = None \<longleftrightarrow> k \<notin> fst ` set xs"
  by (simp add: map_of_eq_None_iff)

lemma map_of_om_insert:
  "map_of (om_insert lt k v xs) k' =
     (if k' = k \<and> map_of xs k = None then Some v else map_of xs k')"
proof (cases "map_of xs k = None")
  case True
  have "k \<notin> fst ` set xs \<Longrightarrow> map_of (om_set lt k v xs) k' = (if k' = k then Some v else map_of xs k')"
    by (induction xs) auto
  with True show ?thesis by (simp add: om_insert_def map_of_None_notin)
qed (auto simp: om_insert_def)

lemma distinct_om_set [simp]: "distinct (map fst xs) \<Longrightarrow> k \<notin> fst ` set xs \<Longrightarrow>
    distinct (map fst (om_set lt k v xs))"
  by (induction xs) (auto simp: keys_om_set image_iff)

lemma distinct_om_insert [simp]: "distinct (map fst xs) \<Longrightarrow> distinct (map fst (om_insert lt k v xs))"
  by (simp add: om_insert_def map_of_None_notin)

lemma map_of_al_map [simp]:
  "map_of (al_map k f xs) k' = (if k' = k then map_option f (map_of xs k) else map_of xs k')"
  by (induction xs) (auto simp: al_map_def)

lemma keys_al_map [simp]: "map fst (al_map k f xs) = map fst xs"
  by (induction xs) (auto simp: al_map_def)

section \<open>Transition systems\<close>

text \<open>
  The interface every state machine of the development offers: initial states and labelled
  steps. \<open>inductive_invariant\<close> adds a predicate that the initial states satisfy and the steps
  keep; its lemma lifts the predicate to every reachable state.
\<close>

locale transition_system =
  fixes init :: "'s \<Rightarrow> bool"
    and step :: "'s \<Rightarrow> 'l \<Rightarrow> 's \<Rightarrow> bool"
begin

inductive reach :: "'s \<Rightarrow> bool" where
  reach_init: "init s \<Longrightarrow> reach s"
| reach_step: "reach s \<Longrightarrow> step s l t \<Longrightarrow> reach t"

fun run :: "'s \<Rightarrow> 'l list \<Rightarrow> 's \<Rightarrow> bool" where
  "run s [] t = (s = t)"
| "run s (l # ls) t = (\<exists>u. step s l u \<and> run u ls t)"

lemma reach_run: "reach s \<Longrightarrow> run s ls t \<Longrightarrow> reach t"
  by (induction ls arbitrary: s) (auto intro: reach_step)

end

locale inductive_invariant = transition_system init step
  for init :: "'s \<Rightarrow> bool" and step :: "'s \<Rightarrow> 'l \<Rightarrow> 's \<Rightarrow> bool" +
  fixes inv :: "'s \<Rightarrow> bool"
  assumes inv_init: "init s \<Longrightarrow> inv s"
    and inv_step: "inv s \<Longrightarrow> step s l t \<Longrightarrow> inv t"
begin

lemma reach_inv: "reach s \<Longrightarrow> inv s"
  by (induction rule: reach.induct) (auto intro: inv_init inv_step)

lemma run_inv: "inv s \<Longrightarrow> run s ls t \<Longrightarrow> inv t"
  by (induction ls arbitrary: s) (auto intro: inv_step)

end

section \<open>What a program does to its state\<close>

text \<open>
  A relation between the states before and after a program that holds of doing nothing and
  composes. \<open>keeps m\<close> says that \<open>m\<close> respects it, whatever its outcome. The rules go through the
  structure of a program, so that each instance below is proved of every operation once, by
  \<open>auto\<close> with the rules.
\<close>

locale frame =
  fixes R :: "'s \<Rightarrow> 's \<Rightarrow> bool"
  assumes R_refl: "R w w"
    and R_trans: "R u v \<Longrightarrow> R v w \<Longrightarrow> R u w"
begin

definition keeps :: "('s, 'a) prog \<Rightarrow> bool" where
  "keeps m \<longleftrightarrow> (\<forall>w. R w (snd (m w)))"

lemma keepsD: "keeps m \<Longrightarrow> m w = (r, w') \<Longrightarrow> R w w'"
  by (metis keeps_def snd_conv)

lemma keepsI: "(\<And>w r w'. m w = (r, w') \<Longrightarrow> R w w') \<Longrightarrow> keeps m"
  by (metis keeps_def prod.collapse)

lemma keeps_ret: "keeps (ret x)" and keeps_fail: "keeps (fail r)"
  by (simp_all add: keeps_def R_refl)

lemma keeps_bnd_at:
  assumes "keeps m" and "\<And>x w'. m w = (Ok x, w') \<Longrightarrow> R w' (snd (f x w'))"
  shows "R w (snd (bnd m f w))"
proof -
  obtain r w' where m: "m w = (r, w')" by force
  have "R w w'" using assms(1) m by (rule keepsD)
  then show ?thesis using assms(2) m R_trans by (cases r) (auto simp: bnd_def)
qed

lemma keeps_bnd: "keeps m \<Longrightarrow> (\<And>x. keeps (f x)) \<Longrightarrow> keeps (bnd m f)"
  unfolding keeps_def by (metis keeps_bnd_at keeps_def)

lemma keeps_catch: "keeps m \<Longrightarrow> (\<And>e. keeps (h e)) \<Longrightarrow> keeps (catch_runtime m h)"
  unfolding keeps_def catch_runtime_def
  by (auto split: prod.splits outcome.splits exn.splits) (metis R_trans snd_conv)+

lemma keeps_if: "(b \<Longrightarrow> keeps m) \<Longrightarrow> (\<not> b \<Longrightarrow> keeps n) \<Longrightarrow> keeps (if b then m else n)"
  by simp

lemma keeps_prod: "(\<And>x y. keeps (f x y)) \<Longrightarrow> keeps (case p of (x, y) \<Rightarrow> f x y)"
  by (cases p) simp

lemma keeps_option: "keeps m \<Longrightarrow> (\<And>x. keeps (f x)) \<Longrightarrow> keeps (case p of None \<Rightarrow> m | Some x \<Rightarrow> f x)"
  by (cases p) simp_all

lemmas keeps_structure = keeps_ret keeps_fail keeps_bnd keeps_catch keeps_if keeps_prod keeps_option

end

end
