(* ===== verification/ET_Kernel.thy ===== *)
theory ET_Kernel
  imports ET_Prelude
begin

text \<open>
  The environment of the program: the operating system. Nothing is assumed about it. Every
  system call takes the next answer of a \<open>script\<close>, which the theorems quantify over: a return
  value (with the bytes it delivers, for reads) or an error number. An empty script means that
  the call has not returned yet (\<open>Blocked\<close>), so a loop that waits for the system is a total
  function: each round uses up an answer. What the program does to the outside is recorded in
  the \<open>trace\<close>. \<open>waitOnSocketData\<close> and \<open>isSocketWritable\<close> are the two helpers of
  \<^verbatim>\<open>Headers.hpp\<close> that wrap \<^verbatim>\<open>select\<close>.
\<close>

section \<open>Error numbers, endpoints, answers\<close>

datatype errno =
    EAGAIN | EWOULDBLOCK | EINTR | EPIPE | ECONNRESET | ETIMEDOUT | EHOSTUNREACH | ENOTCONN
  | ECONNABORTED | ENETDOWN | ENETUNREACH | ENETRESET | EHOSTDOWN | EPROTOTYPE | EBADF
  | ECONNREFUSED | EINPROGRESS | EEXIST | EINVAL | ECHILD | EOther nat

text \<open>\<^verbatim>\<open>message SocketEndpoint\<close>: both fields are optional.\<close>

record SocketEndpoint =
  ep_name :: "string option"
  ep_port :: "int option"

datatype answer = Ret int string | Err errno

abbreviation Val :: "int \<Rightarrow> answer" where
  "Val n \<equiv> Ret n []"

abbreviation Data :: "string \<Rightarrow> answer" where
  "Data bs \<equiv> Ret 0 bs"

text \<open>
  \<open>GaveUp fd k e\<close> is a ghost event: \<^verbatim>\<open>UnixSocketHandler::write\<close> returned \<open>-1\<close> with error
  number \<open>e\<close> after \<open>k\<close> bytes of its buffer had gone out. The code does not report \<open>k\<close>.
\<close>

datatype effect =
    Sent int string
  | Received int string
  | OpenedFd int
  | ClosedFd int
  | GaveUp int nat errno
  | Console string
  | Note string

text \<open>
  The socket handler objects live in a store, because several components share one handler.
  A handler keeps the descriptors it has opened (the keys of \<^verbatim>\<open>activeSocketMutexes\<close>) and its
  listening sockets, by port (\<^verbatim>\<open>portServerSockets\<close>) or by path (\<^verbatim>\<open>pipeServerSockets\<close>).
\<close>

datatype handler_kind = Tcp | Pipe

record handler =
  kind :: handler_kind
  activeSockets :: "int set"
  portServerSockets :: "int \<rightharpoonup> int list"
  pipeServerSockets :: "string \<rightharpoonup> int list"

record world =
  script :: "answer list"
  trace :: "effect list"
  errno_now :: errno
  handlers :: "nat \<Rightarrow> handler"

section \<open>System calls\<close>

definition syscall :: "(world, answer) prog" where
  "syscall w =
     (case script w of
        [] \<Rightarrow> (Blocked, w)
      | a # as \<Rightarrow>
          (Ok a, w\<lparr>script := as, errno_now := (case a of Err e \<Rightarrow> e | Ret _ _ \<Rightarrow> errno_now w)\<rparr>))"

definition emit :: "effect \<Rightarrow> (world, unit) prog" where
  "emit e w = (Ok (), w\<lparr>trace := trace w @ [e]\<rparr>)"

definition GetErrno :: "(world, errno) prog" where
  "GetErrno w = (Ok (errno_now w), w)"

definition SetErrno :: "errno \<Rightarrow> (world, unit) prog" where
  "SetErrno e w = (Ok (), w\<lparr>errno_now := e\<rparr>)"

text \<open>\<^verbatim>\<open>time(NULL)\<close>.\<close>

definition time_now :: "(world, int) prog" where
  "time_now = bnd syscall (\<lambda>a. case a of Ret t _ \<Rightarrow> ret t | Err _ \<Rightarrow> ret (-1))"

text \<open>
  \<^verbatim>\<open>::read(fd, buf, count)\<close>: the number of bytes (\<open>-1\<close> for an error) and the bytes; the
  kernel never delivers more than was asked for.
\<close>

definition sys_read :: "int \<Rightarrow> nat \<Rightarrow> (world, int \<times> string) prog" where
  "sys_read fd count = bnd syscall (\<lambda>a. case a of
      Err _ \<Rightarrow> ret (-1, [])
    | Ret _ bs \<Rightarrow> bnd (emit (Received fd (take count bs)))
                  (\<lambda>_. ret (int (length (take count bs)), take count bs)))"

text \<open>\<^verbatim>\<open>::send(fd, buf, count)\<close>: how many bytes of \<open>buf\<close> the kernel took, \<open>-1\<close> for an error.\<close>

definition sys_send :: "int \<Rightarrow> string \<Rightarrow> (world, int) prog" where
  "sys_send fd buf = bnd syscall (\<lambda>a. case a of
      Err _ \<Rightarrow> ret (-1)
    | Ret n _ \<Rightarrow> bnd (emit (Sent fd (take (nat n) buf)))
                  (\<lambda>_. ret (int (length (take (nat n) buf)))))"

definition sys_close :: "int \<Rightarrow> (world, int) prog" where
  "sys_close fd = bnd syscall (\<lambda>a. case a of
      Err _ \<Rightarrow> ret (-1)
    | Ret _ _ \<Rightarrow> bnd (emit (ClosedFd fd)) (\<lambda>_. ret 0))"

text \<open>A call whose only result is its return value (\<^verbatim>\<open>fcntl\<close>, \<^verbatim>\<open>setsockopt\<close>, \<^verbatim>\<open>bind\<close>, ...).\<close>

definition sys_int :: "(world, int) prog" where
  "sys_int = bnd syscall (\<lambda>a. case a of Ret n _ \<Rightarrow> ret n | Err _ \<Rightarrow> ret (-1))"

text \<open>\<^verbatim>\<open>::socket\<close> and \<^verbatim>\<open>::accept\<close>: a new descriptor, or \<open>-1\<close>.\<close>

definition sys_open :: "(world, int) prog" where
  "sys_open = bnd syscall (\<lambda>a. case a of
      Ret n _ \<Rightarrow> (if 0 \<le> n then bnd (emit (OpenedFd n)) (\<lambda>_. ret n) else ret (-1))
    | Err _ \<Rightarrow> ret (-1))"

text \<open>The standard descriptors.\<close>

definition STDIN_FILENO :: int where "STDIN_FILENO = 0"
definition STDOUT_FILENO :: int where "STDOUT_FILENO = 1"

text \<open>\<^verbatim>\<open>FATAL_FAIL(X)\<close>, \<^verbatim>\<open>FATAL_FAIL_UNLESS_EINVAL(X)\<close>: abort when the call \<open>X\<close> returned \<open>-1\<close>.\<close>

definition FATAL_FAIL :: "(world, int) prog \<Rightarrow> (world, int) prog" where
  "FATAL_FAIL m = bnd m (\<lambda>n. if n = -1 then fail (Abort ''Error'') else ret n)"

definition FATAL_FAIL_UNLESS_EINVAL :: "(world, int) prog \<Rightarrow> (world, int) prog" where
  "FATAL_FAIL_UNLESS_EINVAL m = bnd m (\<lambda>n. bnd GetErrno (\<lambda>e.
     if n = -1 \<and> e \<noteq> EINVAL then fail (Abort ''Error'') else ret n))"

text \<open>\<^verbatim>\<open>waitOnSocketData\<close> and \<^verbatim>\<open>isSocketWritable\<close>: \<^verbatim>\<open>select\<close> on one descriptor.\<close>

definition waitOnSocketData :: "int \<Rightarrow> (world, bool) prog" where
  "waitOnSocketData fd = bnd syscall (\<lambda>a. case a of
      Ret n _ \<Rightarrow> ret (0 < n)
    | Err e \<Rightarrow> (if e = EINTR then ret False else fail (Abort ''select'')))"

definition isSocketWritable :: "int \<Rightarrow> (world, bool) prog" where
  "isSocketWritable fd = bnd syscall (\<lambda>a. case a of
      Ret n _ \<Rightarrow> ret (0 < n)
    | Err e \<Rightarrow> (if e = EINTR then ret False else fail (Abort ''select'')))"

section \<open>Bytes on a descriptor\<close>

definition sent_on :: "int \<Rightarrow> effect list \<Rightarrow> string" where
  "sent_on fd tr = concat (map (\<lambda>e. case e of Sent f bs \<Rightarrow> (if f = fd then bs else []) | _ \<Rightarrow> []) tr)"

definition received_on :: "int \<Rightarrow> effect list \<Rightarrow> string" where
  "received_on fd tr =
     concat (map (\<lambda>e. case e of Received f bs \<Rightarrow> (if f = fd then bs else []) | _ \<Rightarrow> []) tr)"

lemma sent_on_append [simp]: "sent_on fd (a @ b) = sent_on fd a @ sent_on fd b"
  by (simp add: sent_on_def)

lemma received_on_append [simp]: "received_on fd (a @ b) = received_on fd a @ received_on fd b"
  by (simp add: received_on_def)

lemma sent_on_simps [simp]:
  "sent_on fd [] = []"
  "sent_on fd (e # tr) = (case e of Sent f bs \<Rightarrow> (if f = fd then bs else []) | _ \<Rightarrow> []) @ sent_on fd tr"
  by (simp_all add: sent_on_def)

lemma received_on_simps [simp]:
  "received_on fd [] = []"
  "received_on fd (e # tr) =
     (case e of Received f bs \<Rightarrow> (if f = fd then bs else []) | _ \<Rightarrow> []) @ received_on fd tr"
  by (simp_all add: received_on_def)

lemmas kernel_defs = syscall_def emit_def GetErrno_def SetErrno_def time_now_def sys_read_def
  sys_send_def sys_close_def sys_int_def sys_open_def FATAL_FAIL_def FATAL_FAIL_UNLESS_EINVAL_def waitOnSocketData_def isSocketWritable_def

declare kernel_defs [et_defs] bnd_def [et_defs]

section \<open>What a program may do to the environment\<close>

context frame
begin

lemma keeps_answer:
  "(\<And>n bs. keeps (f n bs)) \<Longrightarrow> (\<And>e. keeps (g e)) \<Longrightarrow> keeps (case a of Ret n bs \<Rightarrow> f n bs | Err e \<Rightarrow> g e)"
  by (cases a) simp_all

lemmas keeps_rules = keeps_structure keeps_answer

end

text \<open>
  \<open>consumes w w'\<close>: some answers are used up and effects are only added. The weaker
  \<open>script_le\<close> is what the termination proofs need.
\<close>

definition consumes :: "world \<Rightarrow> world \<Rightarrow> bool" where
  "consumes w w' \<longleftrightarrow>
     (\<exists>k. script w' = drop k (script w)) \<and> (\<exists>es. trace w' = trace w @ es)"

definition script_le :: "world \<Rightarrow> world \<Rightarrow> bool" where
  "script_le w w' \<longleftrightarrow> length (script w') \<le> length (script w)"

definition same_handlers :: "world \<Rightarrow> world \<Rightarrow> bool" where
  "same_handlers w w' \<longleftrightarrow> handlers w' = handlers w"

definition sends_nothing :: "world \<Rightarrow> world \<Rightarrow> bool" where
  "sends_nothing w w' \<longleftrightarrow> (\<forall>fd. sent_on fd (trace w') = sent_on fd (trace w))"

definition receives_nothing :: "world \<Rightarrow> world \<Rightarrow> bool" where
  "receives_nothing w w' \<longleftrightarrow> (\<forall>fd. received_on fd (trace w') = received_on fd (trace w))"

interpretation con: frame consumes
proof unfold_locales
  show "consumes w w" for w unfolding consumes_def by (metis append_Nil2 drop0)
  show "consumes u v \<Longrightarrow> consumes v w \<Longrightarrow> consumes u w" for u v w
    unfolding consumes_def by (metis append_assoc drop_drop)
qed

interpretation sle: frame script_le
  by unfold_locales (auto simp: script_le_def)

interpretation shd: frame same_handlers
  by unfold_locales (auto simp: same_handlers_def)

interpretation snn: frame sends_nothing
  by unfold_locales (auto simp: sends_nothing_def)

interpretation rnn: frame receives_nothing
  by unfold_locales (auto simp: receives_nothing_def)

lemma consumes_script_le: "consumes w w' \<Longrightarrow> script_le w w'"
  by (auto simp: consumes_def script_le_def)

lemma con_sle: "con.keeps m \<Longrightarrow> sle.keeps m"
  unfolding con.keeps_def sle.keeps_def using consumes_script_le by blast

named_theorems keeps_intros \<open>which programs respect which frame\<close>

declare con.keeps_rules [keeps_intros] sle.keeps_rules [keeps_intros] shd.keeps_rules [keeps_intros]
  snn.keeps_rules [keeps_intros] rnn.keeps_rules [keeps_intros]

lemma syscall_keeps [keeps_intros]:
  "con.keeps syscall" "sle.keeps syscall" "shd.keeps syscall" "snn.keeps syscall" "rnn.keeps syscall"
proof -
  show c: "con.keeps syscall"
    unfolding con.keeps_def consumes_def syscall_def
    by (auto split: list.split intro: exI [of _ "1 :: nat"] exI [of _ "0 :: nat"])
  then show "sle.keeps syscall" by (rule con_sle)
qed (auto simp: shd.keeps_def same_handlers_def snn.keeps_def sends_nothing_def
      rnn.keeps_def receives_nothing_def syscall_def split: list.split)

lemma emit_keeps [keeps_intros]:
  "con.keeps (emit e)" "sle.keeps (emit e)" "shd.keeps (emit e)"
  "(\<And>fd bs. e \<noteq> Sent fd bs) \<Longrightarrow> snn.keeps (emit e)"
  "(\<And>fd bs. e \<noteq> Received fd bs) \<Longrightarrow> rnn.keeps (emit e)"
proof -
  show "con.keeps (emit e)" unfolding con.keeps_def consumes_def emit_def
    by (auto intro: exI [of _ "0 :: nat"])
qed (auto simp: sle.keeps_def script_le_def shd.keeps_def same_handlers_def snn.keeps_def
    sends_nothing_def rnn.keeps_def receives_nothing_def emit_def split: effect.split)

lemma errno_keeps [keeps_intros]:
  "con.keeps GetErrno" "sle.keeps GetErrno" "shd.keeps GetErrno" "snn.keeps GetErrno" "rnn.keeps GetErrno"
  "con.keeps (SetErrno e)" "sle.keeps (SetErrno e)" "shd.keeps (SetErrno e)" "snn.keeps (SetErrno e)"
  "rnn.keeps (SetErrno e)"
proof -
  show "con.keeps GetErrno" "con.keeps (SetErrno e)"
    unfolding con.keeps_def consumes_def GetErrno_def SetErrno_def
    by (auto intro: exI [of _ "0 :: nat"])
qed (auto simp: sle.keeps_def script_le_def shd.keeps_def same_handlers_def snn.keeps_def
    sends_nothing_def rnn.keeps_def receives_nothing_def GetErrno_def SetErrno_def)

lemma time_now_keeps [keeps_intros]:
  "con.keeps time_now" "sle.keeps time_now" "shd.keeps time_now" "snn.keeps time_now" "rnn.keeps time_now"
  unfolding time_now_def by (auto intro!: keeps_intros)

lemma sys_int_keeps [keeps_intros]:
  "con.keeps sys_int" "sle.keeps sys_int" "shd.keeps sys_int" "snn.keeps sys_int" "rnn.keeps sys_int"
  unfolding sys_int_def by (auto intro!: keeps_intros)

lemma sys_open_keeps [keeps_intros]:
  "con.keeps sys_open" "sle.keeps sys_open" "shd.keeps sys_open" "snn.keeps sys_open" "rnn.keeps sys_open"
  unfolding sys_open_def by (auto intro!: keeps_intros)

lemma sys_close_keeps [keeps_intros]:
  "con.keeps (sys_close fd)" "sle.keeps (sys_close fd)" "shd.keeps (sys_close fd)" "snn.keeps (sys_close fd)" "rnn.keeps (sys_close fd)"
  unfolding sys_close_def by (auto intro!: keeps_intros)

lemma waitOnSocketData_keeps [keeps_intros]:
  "con.keeps (waitOnSocketData fd)" "sle.keeps (waitOnSocketData fd)" "shd.keeps (waitOnSocketData fd)" "snn.keeps (waitOnSocketData fd)" "rnn.keeps (waitOnSocketData fd)"
  unfolding waitOnSocketData_def by (auto intro!: keeps_intros)

lemma isSocketWritable_keeps [keeps_intros]:
  "con.keeps (isSocketWritable fd)" "sle.keeps (isSocketWritable fd)" "shd.keeps (isSocketWritable fd)" "snn.keeps (isSocketWritable fd)" "rnn.keeps (isSocketWritable fd)"
  unfolding isSocketWritable_def by (auto intro!: keeps_intros)

lemma sys_read_keeps [keeps_intros]:
  "con.keeps (sys_read fd n)" "sle.keeps (sys_read fd n)" "shd.keeps (sys_read fd n)" "snn.keeps (sys_read fd n)"
  unfolding sys_read_def by (auto intro!: keeps_intros)

lemma sys_send_keeps [keeps_intros]:
  "con.keeps (sys_send fd bs)" "sle.keeps (sys_send fd bs)" "shd.keeps (sys_send fd bs)" "rnn.keeps (sys_send fd bs)"
  unfolding sys_send_def by (auto intro!: keeps_intros)

lemma FATAL_FAIL_keeps [keeps_intros]:
  "con.keeps m \<Longrightarrow> con.keeps (FATAL_FAIL m)" "sle.keeps m \<Longrightarrow> sle.keeps (FATAL_FAIL m)"
  "shd.keeps m \<Longrightarrow> shd.keeps (FATAL_FAIL m)" "snn.keeps m \<Longrightarrow> snn.keeps (FATAL_FAIL m)"
  "rnn.keeps m \<Longrightarrow> rnn.keeps (FATAL_FAIL m)"
  "con.keeps m \<Longrightarrow> con.keeps (FATAL_FAIL_UNLESS_EINVAL m)"
  "sle.keeps m \<Longrightarrow> sle.keeps (FATAL_FAIL_UNLESS_EINVAL m)"
  "shd.keeps m \<Longrightarrow> shd.keeps (FATAL_FAIL_UNLESS_EINVAL m)"
  "snn.keeps m \<Longrightarrow> snn.keeps (FATAL_FAIL_UNLESS_EINVAL m)"
  "rnn.keeps m \<Longrightarrow> rnn.keeps (FATAL_FAIL_UNLESS_EINVAL m)"
  unfolding FATAL_FAIL_def FATAL_FAIL_UNLESS_EINVAL_def by (auto intro!: keeps_intros)

text \<open>A call that returned used up an answer: the measure of every loop that waits.\<close>

lemma script_shrinks:
  "syscall w = (Ok a, w') \<Longrightarrow> length (script w') < length (script w)"
  "time_now w = (Ok t, w') \<Longrightarrow> length (script w') < length (script w)"
  "sys_int w = (Ok n, w') \<Longrightarrow> length (script w') < length (script w)"
  "sys_open w = (Ok n, w') \<Longrightarrow> length (script w') < length (script w)"
  "sys_read fd k w = (Ok r, w') \<Longrightarrow> length (script w') < length (script w)"
  "sys_send fd bs w = (Ok n, w') \<Longrightarrow> length (script w') < length (script w)"
  "waitOnSocketData fd w = (Ok b, w') \<Longrightarrow> length (script w') < length (script w)"
  by (auto simp: kernel_defs bnd_def split: list.splits answer.splits if_splits)

end
