(* ===== verification/ET_Packet.thy ===== *)
theory ET_Packet
  imports ET_Prelude
begin

text \<open>
  \<^verbatim>\<open>base/CryptoHandler\<close> and \<^verbatim>\<open>base/Packet\<close>. libsodium is not part of the repository: its two
  functions are the parameter \<open>sodium\<close>, and \<open>sodium_ok\<close> states the documented contract the
  code relies on (opening a sealed box under the same nonce and key gives the message back, and
  the box is \<open>MACBYTES\<close> longer than the message). The nonce is the real 24-byte counter.
\<close>

section \<open>CryptoHandler\<close>

definition NONCEBYTES :: nat where "NONCEBYTES = 24"
definition KEYBYTES :: nat where "KEYBYTES = 32"
definition MACBYTES :: nat where "MACBYTES = 16"

definition CLIENT_SERVER_NONCE_MSB :: "8 word" where "CLIENT_SERVER_NONCE_MSB = 0"
definition SERVER_CLIENT_NONCE_MSB :: "8 word" where "SERVER_CLIENT_NONCE_MSB = 1"

text \<open>\<^verbatim>\<open>crypto_secretbox_easy\<close> and \<^verbatim>\<open>crypto_secretbox_open_easy\<close>: message, nonce, key; \<open>None\<close> is \<open>-1\<close>.\<close>

record sodium =
  sodium_init :: int
  secretbox_easy :: "string \<Rightarrow> 8 word list \<Rightarrow> string \<Rightarrow> string option"
  secretbox_open_easy :: "string \<Rightarrow> 8 word list \<Rightarrow> string \<Rightarrow> string option"

definition sodium_ok :: "sodium \<Rightarrow> bool" where
  "sodium_ok na \<longleftrightarrow> sodium_init na \<noteq> -1 \<and>
     (\<forall>m n k. \<exists>c. secretbox_easy na m n k = Some c \<and> length c = length m + MACBYTES \<and>
                  secretbox_open_easy na c n k = Some m)"

record CryptoHandler =
  nonce :: "8 word list"
  key :: string

definition CryptoHandler_new :: "sodium \<Rightarrow> string \<Rightarrow> 8 word \<Rightarrow> CryptoHandler outcome" where
  "CryptoHandler_new na k nonceMSB =
     (if sodium_init na = -1 then Abort ''libsodium init failed''
      else if length k \<noteq> KEYBYTES then Abort ''Invalid key length''
      else Ok \<lparr>nonce = (replicate NONCEBYTES 0)[NONCEBYTES - 1 := nonceMSB], key = k\<rparr>)"

text \<open>The loop of \<^verbatim>\<open>incrementNonce\<close>: carry into the next byte while a byte rolls over to 0.\<close>

fun increment_bytes :: "8 word list \<Rightarrow> 8 word list" where
  "increment_bytes [] = []"
| "increment_bytes (b # bs) = (if b + 1 \<noteq> 0 then (b + 1) # bs else (b + 1) # increment_bytes bs)"

definition incrementNonce :: "CryptoHandler \<Rightarrow> CryptoHandler" where
  "incrementNonce ch = ch\<lparr>nonce := increment_bytes (nonce ch)\<rparr>"

definition encrypt :: "sodium \<Rightarrow> string \<Rightarrow> (CryptoHandler, string) prog" where
  "encrypt na buffer ch0 =
     (let ch = incrementNonce ch0 in
      case secretbox_easy na buffer (nonce ch) (key ch) of
        None \<Rightarrow> (Abort ''Crypto Error'', ch)
      | Some c \<Rightarrow> (Ok c, ch))"

text \<open>
  A ciphertext shorter than the MAC makes \<^verbatim>\<open>buffer.length() - crypto_secretbox_MACBYTES\<close> wrap
  around, and the string constructor throws \<^verbatim>\<open>length_error\<close>.
\<close>

definition decrypt :: "sodium \<Rightarrow> string \<Rightarrow> (CryptoHandler, string) prog" where
  "decrypt na buffer ch0 =
     (let ch = incrementNonce ch0 in
      if length buffer < MACBYTES then (Throw LengthError, ch)
      else case secretbox_open_easy na buffer (nonce ch) (key ch) of
        None \<Rightarrow> (Abort ''Decrypt failed.  Possible key mismatch?'', ch)
      | Some m \<Rightarrow> (Ok m, ch))"

section \<open>Packet\<close>

definition HEADER_SIZE :: int where "HEADER_SIZE = 2"

record Packet =
  encrypted :: bool
  header :: "8 word"
  payload :: string

definition mkPacket :: "8 word \<Rightarrow> string \<Rightarrow> Packet" where
  "mkPacket h p = \<lparr>encrypted = False, header = h, payload = p\<rparr>"

text \<open>
  \<^verbatim>\<open>Packet(const string&)\<close>: \<^verbatim>\<open>substr(2)\<close> throws \<^verbatim>\<open>out_of_range\<close> on fewer than two bytes.
\<close>

definition Packet_of_string :: "string \<Rightarrow> Packet outcome" where
  "Packet_of_string s =
     (if length s < 2 then Throw OutOfRange
      else Ok \<lparr>encrypted = (u8_of_char (s ! 0) \<noteq> 0), header = u8_of_char (s ! 1), payload = drop 2 s\<rparr>)"

definition Packet_decrypt :: "sodium \<Rightarrow> Packet \<Rightarrow> (CryptoHandler, Packet) prog" where
  "Packet_decrypt na p =
     (if encrypted p then
        bnd (decrypt na (payload p)) (\<lambda>m. ret (p\<lparr>encrypted := False, payload := m\<rparr>))
      else fail (Abort ''Tried to decrypt a packet that wasn't encrypted''))"

definition Packet_encrypt :: "sodium \<Rightarrow> Packet \<Rightarrow> (CryptoHandler, Packet) prog" where
  "Packet_encrypt na p =
     (if encrypted p then fail (Abort ''Tried to encrypt a packet that was already encrypted'')
      else bnd (encrypt na (payload p)) (\<lambda>c. ret (p\<lparr>encrypted := True, payload := c\<rparr>)))"

definition packet_length :: "Packet \<Rightarrow> int" where
  "packet_length p = HEADER_SIZE + int (length (payload p))"

definition serialize :: "Packet \<Rightarrow> string" where
  "serialize p =
     char_of_u8 (if encrypted p then 1 else 0) # char_of_u8 (header p) # payload p"

declare CryptoHandler_new_def [et_defs] incrementNonce_def [et_defs] encrypt_def [et_defs]
  decrypt_def [et_defs] Packet_of_string_def [et_defs] Packet_decrypt_def [et_defs]
  Packet_encrypt_def [et_defs] serialize_def [et_defs] NONCEBYTES_def [et_defs]
  KEYBYTES_def [et_defs] MACBYTES_def [et_defs] packet_length_def [et_defs] HEADER_SIZE_def [et_defs]

section \<open>Packets round-trip\<close>

lemma length_serialize: "int (length (serialize p)) = packet_length p"
  by (simp add: serialize_def packet_length_def HEADER_SIZE_def)

lemma Packet_of_string_serialize [simp]: "Packet_of_string (serialize p) = Ok p"
  by (cases p) (simp add: Packet_of_string_def serialize_def)

lemma serialize_inject: "serialize p = serialize q \<Longrightarrow> p = q"
  by (metis Packet_of_string_serialize outcome.inject(1))

section \<open>The nonce is a counter\<close>

fun nonce_val :: "8 word list \<Rightarrow> nat" where
  "nonce_val [] = 0"
| "nonce_val (b # bs) = unat b + 256 * nonce_val bs"

lemma unat_u8_less: "unat (b :: 8 word) < 256"
  by (rule order_less_le_trans [OF unsigned_less]) simp

lemma nonce_val_less: "nonce_val bs < 256 ^ length bs"
proof (induction bs)
  case (Cons b bs)
  have "nonce_val (b # bs) < 256 + 256 * nonce_val bs"
    using unat_u8_less [of b] by simp
  also have "\<dots> = 256 * Suc (nonce_val bs)" by simp
  also have "\<dots> \<le> 256 * 256 ^ length bs"
    using Cons.IH by (intro mult_le_mono2) simp
  finally show ?case by simp
qed simp

lemma nonce_val_inject:
  "length as = length bs \<Longrightarrow> nonce_val as = nonce_val bs \<Longrightarrow> as = bs"
proof (induction as bs rule: list_induct2)
  case (Cons a as b bs)
  have "unat a = unat b"
    using arg_cong [OF Cons.prems, of "\<lambda>x. x mod 256"] unat_u8_less [of a] unat_u8_less [of b]
    by simp
  moreover have "nonce_val as = nonce_val bs"
    using Cons.prems calculation by simp
  ultimately show ?case using Cons.IH by (simp add: word_unat_eq_iff)
qed simp

lemma length_increment [simp]: "length (increment_bytes bs) = length bs"
  by (induction bs) auto

lemma unat_inc_u8: "(b :: 8 word) + 1 \<noteq> 0 \<Longrightarrow> unat (b + 1) = unat b + 1"
proof -
  assume "b + 1 \<noteq> 0"
  then have "1 + b \<noteq> 0" by (simp add: add.commute)
  then have "unat (1 + b) = Suc (unat b)" by (rule unatSuc)
  then show ?thesis by (simp add: add.commute)
qed

lemma unat_rollover_u8: "(b :: 8 word) + 1 = 0 \<Longrightarrow> unat b = 255"
proof -
  assume "b + 1 = 0"
  then have "b = - 1" by (simp add: eq_neg_iff_add_eq_0)
  then show ?thesis by (simp add: unsigned_minus_1_eq_mask mask_eq_exp_minus_1)
qed

lemma nonce_val_increment:
  "nonce_val (increment_bytes bs) = (nonce_val bs + 1) mod 256 ^ length bs"
proof (induction bs)
  case (Cons b bs)
  show ?case
  proof (cases "b + 1 = 0")
    case True
    then have u: "unat b = 255" by (rule unat_rollover_u8)
    have "nonce_val (increment_bytes (b # bs)) = 256 * ((nonce_val bs + 1) mod 256 ^ length bs)"
      using True Cons.IH by simp
    also have "\<dots> = (256 * (nonce_val bs + 1)) mod (256 * 256 ^ length bs)"
      by (rule mult_mod_right)
    finally show ?thesis using u by (simp add: algebra_simps)
  next
    case False
    have "nonce_val (increment_bytes (b # bs)) = nonce_val (b # bs) + 1"
      using False unat_inc_u8 [OF False] by simp
    moreover have "nonce_val (increment_bytes (b # bs)) < 256 ^ length (b # bs)"
      by (metis length_increment nonce_val_less)
    ultimately show ?thesis by simp
  qed
qed simp

lemma nonce_val_iterate:
  "nonce_val ((increment_bytes ^^ i) bs) = (nonce_val bs + i) mod 256 ^ length bs"
proof (induction i)
  case 0
  then show ?case using nonce_val_less [of bs] by simp
next
  case (Suc i)
  have "length ((increment_bytes ^^ i) bs) = length bs" by (induction i) auto
  then show ?case by (simp add: nonce_val_increment Suc.IH mod_Suc_eq)
qed

lemma nonce_val_append: "nonce_val (as @ bs) = nonce_val as + 256 ^ length as * nonce_val bs"
  by (induction as) (simp_all add: algebra_simps)

lemma nonce_val_zeros [simp]: "nonce_val (replicate n 0) = 0"
  by (induction n) auto

lemma initial_nonce_val:
  assumes "CryptoHandler_new na k msb = Ok ch"
  shows "nonce_val (nonce ch) = unat msb * 256 ^ 23" and "length (nonce ch) = 24"
proof -
  have "nonce ch = replicate 23 0 @ [msb]"
    using assms by (auto simp: CryptoHandler_new_def NONCEBYTES_def eval_nat_numeral split: if_splits)
  then show "nonce_val (nonce ch) = unat msb * 256 ^ 23" and "length (nonce ch) = 24"
    by (simp_all add: nonce_val_append del: replicate.simps)
qed

text \<open>The \<open>i\<close>-th message of a stream is sealed with the nonce of \<open>(incrementNonce ^^ i) ch\<close>.\<close>

lemma nonce_iterate: "nonce ((incrementNonce ^^ i) ch) = (increment_bytes ^^ i) (nonce ch)"
  by (induction i) (simp_all add: incrementNonce_def)

lemma key_iterate [simp]: "key ((incrementNonce ^^ i) ch) = key ch"
  by (induction i) (simp_all add: incrementNonce_def)

lemma stream_nonce_val:
  assumes "CryptoHandler_new na k msb = Ok ch" and "i < 2 ^ 184" and "msb \<in> {0, 1}"
  shows "nonce_val (nonce ((incrementNonce ^^ i) ch)) = unat msb * 256 ^ 23 + i"
proof -
  have "unat msb * 256 ^ 23 + i < 256 ^ 24"
    using assms(2,3) by (auto simp: unat_u8_less)
  then show ?thesis
    by (simp add: nonce_iterate nonce_val_iterate initial_nonce_val [OF assms(1)] del: power_numeral)
qed

section \<open>Sealed packets open on the other side\<close>

lemma sodium_okD:
  assumes "sodium_ok na"
  obtains c where "secretbox_easy na m n k = Some c" and "length c = length m + MACBYTES"
    and "secretbox_open_easy na c n k = Some m"
  using assms unfolding sodium_ok_def by metis

text \<open>Two handlers in step: encrypting on one and decrypting on the other is the identity.\<close>

lemma packet_crypt_roundtrip:
  assumes "sodium_ok na" and "\<not> encrypted p"
  obtains q where "Packet_encrypt na p ch = (Ok q, incrementNonce ch)" and "encrypted q"
    and "header q = header p" and "packet_length q = packet_length p + int MACBYTES"
    and "Packet_decrypt na q ch = (Ok p, incrementNonce ch)"
proof -
  let ?ch = "incrementNonce ch"
  obtain c where c: "secretbox_easy na (payload p) (nonce ?ch) (key ?ch) = Some c"
      "length c = length (payload p) + MACBYTES"
      "secretbox_open_easy na c (nonce ?ch) (key ?ch) = Some (payload p)"
    using sodium_okD [OF assms(1)] by metis
  let ?q = "p\<lparr>encrypted := True, payload := c\<rparr>"
  have "p\<lparr>encrypted := False\<rparr> = p" using assms(2) by (cases p) simp
  then show ?thesis
    using that [of ?q] assms(2) c
    by (simp add: Packet_encrypt_def Packet_decrypt_def encrypt_def decrypt_def bnd_def Let_def
        packet_length_def)
qed

section \<open>Properties\<close>

text \<open>A stand-in for libsodium that meets the contract, for the witnesses.\<close>

definition clear_sodium :: sodium where
  "clear_sodium = \<lparr>sodium_init = 0,
     secretbox_easy = (\<lambda>m n k. Some (replicate 16 CHR ''x'' @ m)),
     secretbox_open_easy = (\<lambda>c n k. Some (drop 16 c))\<rparr>"

lemma clear_sodium_ok: "sodium_ok clear_sodium"
  by (simp add: sodium_ok_def clear_sodium_def MACBYTES_def)

definition sample_key :: string where
  "sample_key = replicate 32 CHR ''k''"



text \<open>
  the nonce counts. Reading the bytes least significant first, \<^verbatim>\<open>incrementNonce\<close> adds one
  modulo the size of the counter, carries included, and leaves the key alone.
\<close>

lemma incrementNonce_counts:
  "nonce_val (nonce (incrementNonce ch)) = (nonce_val (nonce ch) + 1) mod 256 ^ length (nonce ch) \<and>
   length (nonce (incrementNonce ch)) = length (nonce ch) \<and> key (incrementNonce ch) = key ch"
  by (simp add: incrementNonce_def nonce_val_increment)

text \<open>
  C12: a packet sealed by one side opens on the other. When the two crypto handlers are in step, a
  packet that is encrypted, serialised, parsed and decrypted is the packet itself, both handlers
  are in step again, and nothing on the way aborts or throws.
\<close>

theorem packet_seal_open:
  assumes "sodium_ok na" and "\<not> encrypted p"
  shows "\<exists>q. Packet_encrypt na p ch = (Ok q, incrementNonce ch) \<and>
     Packet_of_string (serialize q) = Ok q \<and> encrypted q \<and>
     packet_length q = packet_length p + int MACBYTES \<and>
     Packet_decrypt na q ch = (Ok p, incrementNonce ch)"
  using packet_crypt_roundtrip [OF assms, of ch] Packet_of_string_serialize by metis

theorem packet_seal_open_witness:
  "sodium_ok clear_sodium \<and> (\<exists>q. Packet_encrypt clear_sodium (mkPacket 7 ''hi'') \<lparr>nonce = [1, 2], key = ''k''\<rparr> =
       (Ok q, incrementNonce \<lparr>nonce = [1, 2], key = ''k''\<rparr>) \<and> Packet_of_string (serialize q) = Ok q)"
  using packet_seal_open [OF clear_sodium_ok, of "mkPacket 7 ''hi''" "\<lparr>nonce = [1, 2], key = ''k''\<rparr>"]
    clear_sodium_ok by (auto simp: mkPacket_def)

end
