(* ===== verification/ET_Socket.thy ===== *)
theory ET_Socket
  imports ET_Kernel ET_Packet
begin

text \<open>
  \<^verbatim>\<open>base/UnixSocketHandler\<close>, \<^verbatim>\<open>base/TcpSocketHandler\<close>, \<^verbatim>\<open>base/PipeSocketHandler\<close>,
  \<^verbatim>\<open>base/SocketHandler\<close> and \<^verbatim>\<open>base/RawSocketUtils\<close>. A handler object is a cell \<open>h\<close> of the store
  \<open>handlers\<close>; \<^verbatim>\<open>read\<close>, \<^verbatim>\<open>write\<close>, \<^verbatim>\<open>close\<close> and \<^verbatim>\<open>accept\<close> are the ones both concrete handlers
  inherit, and the virtual \<^verbatim>\<open>connect\<close>, \<^verbatim>\<open>listen\<close>, \<^verbatim>\<open>getEndpointFds\<close>, \<^verbatim>\<open>stopListening\<close> dispatch
  on the handler's kind. The mutexes of the code serialise these operations; here each of them is
  one atomic program. Protobuf and Base64 are parameters.
\<close>

section \<open>UnixSocketHandler\<close>

definition upd_handler :: "nat \<Rightarrow> (handler \<Rightarrow> handler) \<Rightarrow> (world, unit) prog" where
  "upd_handler h f w = (Ok (), w\<lparr>handlers := (handlers w)(h := f (handlers w h))\<rparr>)"

definition the_handler :: "nat \<Rightarrow> (world, handler) prog" where
  "the_handler h w = (Ok (handlers w h), w)"

text \<open>
  \<^verbatim>\<open>select\<close> returned a positive number for its only descriptor, so \<^verbatim>\<open>FD_ISSET\<close> holds and the
  \<^verbatim>\<open>STFATAL\<close> after it is not reached.
\<close>

definition waitForData :: "int \<Rightarrow> (world, bool) prog" where
  "waitForData fd = bnd syscall (\<lambda>a. case a of
      Err _ \<Rightarrow> ret False
    | Ret n _ \<Rightarrow> ret (0 < n))"

definition Unix_hasData :: "int \<Rightarrow> (world, bool) prog" where
  "Unix_hasData fd = waitForData fd"

definition Unix_read :: "nat \<Rightarrow> int \<Rightarrow> nat \<Rightarrow> (world, int \<times> string) prog" where
  "Unix_read h fd count =
     (if fd \<le> 0 then fail (Abort ''Tried to read from an invalid socket'')
      else bnd (the_handler h) (\<lambda>hd.
        if fd \<notin> activeSockets hd then bnd (SetErrno EPIPE) (\<lambda>_. ret (-1, []))
        else bnd (waitForData fd) (\<lambda>_. sys_read fd count)))"

text \<open>\<^verbatim>\<open>return -1\<close> out of the loop of \<^verbatim>\<open>write\<close>, with its ghost event.\<close>

definition give_up :: "int \<Rightarrow> nat \<Rightarrow> (world, int) prog" where
  "give_up fd bytesWritten w =
     (Ok (-1), w\<lparr>trace := trace w @ [GaveUp fd bytesWritten (errno_now w)]\<rparr>)"

text \<open>
  The loop of \<^verbatim>\<open>UnixSocketHandler::write\<close>; \<open>bytesWritten\<close> bytes are out. \<^verbatim>\<open>int(count)\<close> is a
  conversion to 32 bits. A \<^verbatim>\<open>send\<close> that takes 0 bytes is retried at once.
\<close>

function Unix_write_loop :: "int \<Rightarrow> string \<Rightarrow> int \<Rightarrow> nat \<Rightarrow> (world, int) prog" where
  "Unix_write_loop fd buf startTime bytesWritten w =
     (if int bytesWritten < to_int32 (int (length buf)) then
        bnd (sys_send fd (drop bytesWritten buf)) (\<lambda>n w1.
          if n < 0 then
            (if errno_now w1 = EAGAIN \<or> errno_now w1 = EWOULDBLOCK then
               bnd time_now (\<lambda>t w2.
                 if t > startTime + 5 then give_up fd bytesWritten w2
                 else Unix_write_loop fd buf startTime bytesWritten w2) w1
             else give_up fd bytesWritten w1)
          else Unix_write_loop fd buf startTime (bytesWritten + nat n) w1) w
      else (Ok (int (length buf)), w))"
  by pat_completeness auto
termination
  by (relation "measure (\<lambda>(fd, buf, st, k, w). length (script w))") (auto dest!: script_shrinks)

declare Unix_write_loop.simps [simp del]

definition Unix_write :: "nat \<Rightarrow> int \<Rightarrow> string \<Rightarrow> (world, int) prog" where
  "Unix_write h fd buf =
     (if fd \<le> 0 then fail (Abort ''Tried to write to an invalid socket'')
      else bnd (the_handler h) (\<lambda>hd.
        if fd \<notin> activeSockets hd then bnd (SetErrno EPIPE) (\<lambda>_. ret (-1))
        else bnd time_now (\<lambda>startTime. Unix_write_loop fd buf startTime 0)))"

definition addToActiveSockets :: "nat \<Rightarrow> int \<Rightarrow> (world, unit) prog" where
  "addToActiveSockets h fd = bnd (the_handler h) (\<lambda>hd.
     if fd \<in> activeSockets hd then fail (Abort ''Tried to insert an fd that already exists'')
     else upd_handler h (activeSockets_update (insert fd)))"

text \<open>\<^verbatim>\<open>fcntl(F_GETFL)\<close>, then \<^verbatim>\<open>fcntl(F_SETFL)\<close> with the flag set or cleared.\<close>

definition setBlocking :: "int \<Rightarrow> bool \<Rightarrow> (world, unit) prog" where
  "setBlocking fd blocking =
     bnd (FATAL_FAIL sys_int) (\<lambda>opts. bnd (FATAL_FAIL sys_int) (\<lambda>_. ret ()))"

definition Unix_initSocket :: "int \<Rightarrow> (world, unit) prog" where
  "Unix_initSocket fd = setBlocking fd False"

definition Tcp_initSocket :: "int \<Rightarrow> (world, unit) prog" where
  "Tcp_initSocket fd = bnd (Unix_initSocket fd) (\<lambda>_.
     bnd (FATAL_FAIL_UNLESS_EINVAL sys_int) (\<lambda>_.
     bnd (FATAL_FAIL_UNLESS_EINVAL sys_int) (\<lambda>_. ret ())))"

definition initSocket :: "nat \<Rightarrow> int \<Rightarrow> (world, unit) prog" where
  "initSocket h fd = bnd (the_handler h) (\<lambda>hd.
     case kind hd of Tcp \<Rightarrow> Tcp_initSocket fd | Pipe \<Rightarrow> Unix_initSocket fd)"

definition initServerSocket :: "nat \<Rightarrow> int \<Rightarrow> (world, unit) prog" where
  "initServerSocket h fd = bnd (initSocket h fd) (\<lambda>_. bnd (FATAL_FAIL sys_int) (\<lambda>_. ret ()))"

definition isTransientAcceptError :: "errno \<Rightarrow> bool" where
  "isTransientAcceptError err \<longleftrightarrow>
     err = EAGAIN \<or> err = EWOULDBLOCK \<or> err = ECONNABORTED \<or> err = EINTR"

text \<open>
  The loop in \<^verbatim>\<open>accept\<close> waits for another thread to close the descriptor the kernel has just
  handed out again; until then the call does not return.
\<close>

definition Unix_accept :: "nat \<Rightarrow> int \<Rightarrow> (world, int) prog" where
  "Unix_accept h sockFd = bnd sys_open (\<lambda>client_sock. bnd GetErrno (\<lambda>acceptErrno.
     bnd (the_handler h) (\<lambda>hd.
       if client_sock \<in> activeSockets hd then fail Blocked
       else if client_sock \<ge> 0 then
         bnd (addToActiveSockets h client_sock) (\<lambda>_.
         bnd (initSocket h client_sock) (\<lambda>_. ret client_sock))
       else if isTransientAcceptError acceptErrno then
         bnd (SetErrno acceptErrno) (\<lambda>_. ret (-1))
       else fail (Abort ''accept''))))"

definition Unix_close :: "nat \<Rightarrow> int \<Rightarrow> (world, unit) prog" where
  "Unix_close h fd =
     (if fd = -1 then ret ()
      else bnd (the_handler h) (\<lambda>hd.
        if fd \<notin> activeSockets hd then ret ()
        else bnd (setBlocking fd True) (\<lambda>_.
             bnd (FATAL_FAIL (sys_close fd)) (\<lambda>_.
             upd_handler h (activeSockets_update (\<lambda>s. s - {fd}))))))"

definition getActiveSockets :: "nat \<Rightarrow> (world, int list) prog" where
  "getActiveSockets h = bnd (the_handler h) (\<lambda>hd. ret (sorted_list_of_set (activeSockets hd)))"

section \<open>TcpSocketHandler\<close>

text \<open>
  \<^verbatim>\<open>getaddrinfo\<close>: its return code, then the nodes of the result list, each with its address
  family and its address; a node with family 0 stands for the \<^verbatim>\<open>NULL\<close> at the end.
\<close>

fun addr_nodes :: "answer list \<Rightarrow> ((int \<times> string) list \<times> answer list) option" where
  "addr_nodes [] = None"
| "addr_nodes (Err _ # as) = Some ([], as)"
| "addr_nodes (Ret f a # as) =
     (if f = 0 then Some ([], as)
      else case addr_nodes as of None \<Rightarrow> None | Some (ns, as') \<Rightarrow> Some ((f, a) # ns, as'))"

definition sys_getaddrinfo :: "(world, int \<times> (int \<times> string) list) prog" where
  "sys_getaddrinfo = bnd sys_int (\<lambda>rc w.
     if rc \<noteq> 0 then (Ok (rc, []), w)
     else case addr_nodes (script w) of
            None \<Rightarrow> (Blocked, w\<lparr>script := []\<rparr>)
          | Some (ns, as) \<Rightarrow> (Ok (0, ns), w\<lparr>script := as\<rparr>))"

text \<open>
  \<^verbatim>\<open>select\<close> for writing followed by \<^verbatim>\<open>FD_ISSET\<close>, whose result the code reads even when
  \<^verbatim>\<open>select\<close> failed: a failing \<^verbatim>\<open>select\<close> leaves the set as it was, with the descriptor in it.
\<close>

definition select_isset :: "int \<Rightarrow> (world, bool) prog" where
  "select_isset fd = bnd syscall (\<lambda>a. case a of Ret n _ \<Rightarrow> ret (0 < n) | Err _ \<Rightarrow> ret True)"

text \<open>The loop over the addresses; the result is the descriptor connected, or \<open>-1\<close>.\<close>

primrec Tcp_connect_loop :: "(int \<times> string) list \<Rightarrow> (world, int) prog" where
  "Tcp_connect_loop [] = ret (-1)"
| "Tcp_connect_loop (p # ps) = bnd sys_open (\<lambda>sockFd.
     if sockFd = -1 then Tcp_connect_loop ps
     else bnd (setBlocking sockFd False) (\<lambda>_.
       bnd sys_int (\<lambda>rc. bnd GetErrno (\<lambda>e.
         if rc = -1 \<and> e \<noteq> EINPROGRESS \<and> e \<noteq> EWOULDBLOCK then
           bnd (setBlocking sockFd True) (\<lambda>_.
           bnd (FATAL_FAIL (sys_close sockFd)) (\<lambda>_. Tcp_connect_loop ps))
         else bnd (select_isset sockFd) (\<lambda>isset.
           if isset then
             bnd (FATAL_FAIL sys_int) (\<lambda>so_error.
               if so_error = 0 then bnd (setBlocking sockFd True) (\<lambda>_. ret sockFd)
               else bnd (setBlocking sockFd True) (\<lambda>_.
                    bnd (FATAL_FAIL (sys_close sockFd)) (\<lambda>_. Tcp_connect_loop ps)))
           else bnd (FATAL_FAIL (sys_close sockFd)) (\<lambda>_. Tcp_connect_loop ps))))))"

definition Tcp_connect :: "nat \<Rightarrow> SocketEndpoint \<Rightarrow> (world, int) prog" where
  "Tcp_connect h endpoint = bnd sys_getaddrinfo (\<lambda>(rc, results).
     if rc \<noteq> 0 then ret (-1)
     else bnd (Tcp_connect_loop results) (\<lambda>sockFd.
       if sockFd = -1 then ret sockFd
       else bnd (initSocket h sockFd) (\<lambda>_.
            bnd (addToActiveSockets h sockFd) (\<lambda>_. ret sockFd))))"

text \<open>\<^verbatim>\<open>set<int>::insert\<close>.\<close>

definition set_insert :: "int \<Rightarrow> int list \<Rightarrow> int list" where
  "set_insert x xs = (if x \<in> set xs then xs else insort x xs)"

definition AF_INET6 :: int where "AF_INET6 = 10"

text \<open>The optional field of the endpoint reads as the default value when it is not set.\<close>

definition port_of :: "SocketEndpoint \<Rightarrow> int" where
  "port_of ep = (case ep_port ep of None \<Rightarrow> 0 | Some p \<Rightarrow> p)"

definition name_of :: "SocketEndpoint \<Rightarrow> string" where
  "name_of ep = (case ep_name ep of None \<Rightarrow> [] | Some n \<Rightarrow> n)"

primrec Tcp_listen_loop ::
  "nat \<Rightarrow> (int \<times> string) list \<Rightarrow> int list \<Rightarrow> string list \<Rightarrow> (world, int list) prog" where
  "Tcp_listen_loop h [] serverSockets seen = ret serverSockets"
| "Tcp_listen_loop h (p # ps) serverSockets seen =
     (if snd p \<in> set seen then Tcp_listen_loop h ps serverSockets seen
      else bnd sys_open (\<lambda>sockFd.
        if sockFd = -1 then Tcp_listen_loop h ps serverSockets (snd p # seen)
        else bnd (initServerSocket h sockFd) (\<lambda>_.
          bnd (if fst p = AF_INET6 then FATAL_FAIL sys_int else ret 0) (\<lambda>_.
          bnd sys_int (\<lambda>rc.
            if rc = -1 then
              bnd (FATAL_FAIL (sys_close sockFd)) (\<lambda>_.
                fail (Throw (RuntimeError ''Error binding port'')))
            else bnd (FATAL_FAIL sys_int) (\<lambda>_.
              Tcp_listen_loop h ps (set_insert sockFd serverSockets) (snd p # seen)))))))"

definition Tcp_listen :: "nat \<Rightarrow> SocketEndpoint \<Rightarrow> (world, int list) prog" where
  "Tcp_listen h endpoint = bnd (the_handler h) (\<lambda>hd.
     if portServerSockets hd (port_of endpoint) \<noteq> None
     then fail (Abort ''Tried to listen twice on the same port'')
     else bnd sys_getaddrinfo (\<lambda>(rc, servinfo).
       if rc \<noteq> 0 then fail (Exit 1)
       else bnd (Tcp_listen_loop h servinfo [] []) (\<lambda>serverSockets.
         if serverSockets = [] then fail (Abort ''Could not bind to any interface!'')
         else bnd (upd_handler h
                (portServerSockets_update (\<lambda>m. m(port_of endpoint \<mapsto> serverSockets))))
              (\<lambda>_. ret serverSockets))))"

definition Tcp_getEndpointFds :: "nat \<Rightarrow> SocketEndpoint \<Rightarrow> (world, int list) prog" where
  "Tcp_getEndpointFds h endpoint = bnd (the_handler h) (\<lambda>hd.
     case portServerSockets hd (port_of endpoint) of
       None \<Rightarrow> fail (Abort ''Tried to getEndpointFds on a port without calling listen() first'')
     | Some fds \<Rightarrow> ret fds)"

primrec close_each :: "int list \<Rightarrow> (world, unit) prog" where
  "close_each [] = ret ()"
| "close_each (fd # fds) = bnd (FATAL_FAIL (sys_close fd)) (\<lambda>_. close_each fds)"

definition Tcp_stopListening :: "nat \<Rightarrow> SocketEndpoint \<Rightarrow> (world, unit) prog" where
  "Tcp_stopListening h endpoint = bnd (the_handler h) (\<lambda>hd.
     case portServerSockets hd (port_of endpoint) of
       None \<Rightarrow> fail (Abort ''Tried to stop listening to a port that we weren't listening on'')
     | Some fds \<Rightarrow> bnd (close_each fds) (\<lambda>_.
         upd_handler h (portServerSockets_update (\<lambda>m. m(port_of endpoint := None)))))"

section \<open>PipeSocketHandler\<close>

definition Pipe_connect :: "nat \<Rightarrow> SocketEndpoint \<Rightarrow> (world, int) prog" where
  "Pipe_connect h endpoint = bnd (FATAL_FAIL sys_open) (\<lambda>sockFd.
     bnd (initSocket h sockFd) (\<lambda>_. bnd sys_int (\<lambda>result. bnd GetErrno (\<lambda>localErrno.
       if result < 0 \<and> localErrno \<noteq> EINPROGRESS then
         bnd sys_int (\<lambda>_.
         bnd (FATAL_FAIL (sys_close sockFd)) (\<lambda>_.
         bnd (SetErrno localErrno) (\<lambda>_. ret (-1))))
       else bnd (select_isset sockFd) (\<lambda>isset.
         bnd (if isset then
                bnd (FATAL_FAIL sys_int) (\<lambda>so_error.
                  if so_error = 0 then bnd (initSocket h sockFd) (\<lambda>_. ret sockFd)
                  else bnd (FATAL_FAIL (sys_close sockFd)) (\<lambda>_. ret (-1)))
              else bnd (FATAL_FAIL (sys_close sockFd)) (\<lambda>_. ret (-1)))
         (\<lambda>fd. if fd \<ge> 0 then bnd (addToActiveSockets h fd) (\<lambda>_. ret fd) else ret fd))))))"

definition Pipe_listen :: "nat \<Rightarrow> SocketEndpoint \<Rightarrow> (world, int list) prog" where
  "Pipe_listen h endpoint = bnd (the_handler h) (\<lambda>hd.
     if pipeServerSockets hd (name_of endpoint) \<noteq> None
     then fail (Throw (RuntimeError ''Tried to listen twice on the same path''))
     else bnd (FATAL_FAIL sys_open) (\<lambda>fd.
       bnd (initServerSocket h fd) (\<lambda>_.
       bnd sys_int (\<lambda>_.
       bnd (FATAL_FAIL sys_int) (\<lambda>_.
       bnd sys_int (\<lambda>_.
       bnd (FATAL_FAIL sys_int) (\<lambda>_.
       bnd (upd_handler h (pipeServerSockets_update (\<lambda>m. m(name_of endpoint \<mapsto> [fd])))) (\<lambda>_.
       ret [fd]))))))))"

definition Pipe_getEndpointFds :: "nat \<Rightarrow> SocketEndpoint \<Rightarrow> (world, int list) prog" where
  "Pipe_getEndpointFds h endpoint = bnd (the_handler h) (\<lambda>hd.
     case pipeServerSockets hd (name_of endpoint) of
       None \<Rightarrow> fail (Abort ''Tried to getPipeFd on a pipe without calling listen() first'')
     | Some fds \<Rightarrow> ret fds)"

text \<open>Closes the listening descriptor; the entry of the map stays.\<close>

definition Pipe_stopListening :: "nat \<Rightarrow> SocketEndpoint \<Rightarrow> (world, unit) prog" where
  "Pipe_stopListening h endpoint = bnd (the_handler h) (\<lambda>hd.
     case pipeServerSockets hd (name_of endpoint) of
       None \<Rightarrow> fail (Abort ''Tried to stop listening to a pipe that we weren't listening on'')
     | Some fds \<Rightarrow> bnd (FATAL_FAIL (sys_close (fds ! 0))) (\<lambda>_. ret ()))"

section \<open>The virtual operations\<close>

definition sh_connect :: "nat \<Rightarrow> SocketEndpoint \<Rightarrow> (world, int) prog" where
  "sh_connect h ep = bnd (the_handler h) (\<lambda>hd.
     case kind hd of Tcp \<Rightarrow> Tcp_connect h ep | Pipe \<Rightarrow> Pipe_connect h ep)"

definition sh_listen :: "nat \<Rightarrow> SocketEndpoint \<Rightarrow> (world, int list) prog" where
  "sh_listen h ep = bnd (the_handler h) (\<lambda>hd.
     case kind hd of Tcp \<Rightarrow> Tcp_listen h ep | Pipe \<Rightarrow> Pipe_listen h ep)"

definition sh_getEndpointFds :: "nat \<Rightarrow> SocketEndpoint \<Rightarrow> (world, int list) prog" where
  "sh_getEndpointFds h ep = bnd (the_handler h) (\<lambda>hd.
     case kind hd of Tcp \<Rightarrow> Tcp_getEndpointFds h ep | Pipe \<Rightarrow> Pipe_getEndpointFds h ep)"

definition sh_stopListening :: "nat \<Rightarrow> SocketEndpoint \<Rightarrow> (world, unit) prog" where
  "sh_stopListening h ep = bnd (the_handler h) (\<lambda>hd.
     case kind hd of Tcp \<Rightarrow> Tcp_stopListening h ep | Pipe \<Rightarrow> Pipe_stopListening h ep)"

lemmas socket_defs = give_up_def upd_handler_def the_handler_def waitForData_def Unix_hasData_def Unix_read_def
  Unix_write_def addToActiveSockets_def setBlocking_def Unix_initSocket_def Tcp_initSocket_def
  initSocket_def initServerSocket_def isTransientAcceptError_def Unix_accept_def Unix_close_def
  getActiveSockets_def sys_getaddrinfo_def select_isset_def Tcp_connect_def set_insert_def
  AF_INET6_def port_of_def name_of_def Tcp_listen_def Tcp_getEndpointFds_def Tcp_stopListening_def
  Pipe_connect_def Pipe_listen_def Pipe_getEndpointFds_def Pipe_stopListening_def
  sh_connect_def sh_listen_def sh_getEndpointFds_def sh_stopListening_def

declare socket_defs [et_defs]

section \<open>Frames of the handler operations\<close>

lemma store_keeps [keeps_intros]:
  "con.keeps (the_handler h)" "sle.keeps (the_handler h)" "shd.keeps (the_handler h)"
  "snn.keeps (the_handler h)" "rnn.keeps (the_handler h)"
  "con.keeps (upd_handler h f)" "sle.keeps (upd_handler h f)"
  "snn.keeps (upd_handler h f)" "rnn.keeps (upd_handler h f)"
proof -
  show "con.keeps (the_handler h)" "con.keeps (upd_handler h f)"
    by (auto simp: con.keeps_def consumes_def the_handler_def upd_handler_def intro: exI [of _ "0 :: nat"])
qed (auto simp: sle.keeps_def script_le_def shd.keeps_def same_handlers_def snn.keeps_def
    sends_nothing_def rnn.keeps_def receives_nothing_def the_handler_def upd_handler_def)

lemma waitForData_keeps [keeps_intros]:
  "con.keeps (waitForData fd)"
  "sle.keeps (waitForData fd)"
  "shd.keeps (waitForData fd)"
  "snn.keeps (waitForData fd)"
  "rnn.keeps (waitForData fd)"
  unfolding waitForData_def by (auto intro!: keeps_intros split: handler_kind.split)

lemma setBlocking_keeps [keeps_intros]:
  "con.keeps (setBlocking fd b)"
  "sle.keeps (setBlocking fd b)"
  "shd.keeps (setBlocking fd b)"
  "snn.keeps (setBlocking fd b)"
  "rnn.keeps (setBlocking fd b)"
  unfolding setBlocking_def by (auto intro!: keeps_intros split: handler_kind.split)

lemma Unix_initSocket_keeps [keeps_intros]:
  "con.keeps (Unix_initSocket fd)"
  "sle.keeps (Unix_initSocket fd)"
  "shd.keeps (Unix_initSocket fd)"
  "snn.keeps (Unix_initSocket fd)"
  "rnn.keeps (Unix_initSocket fd)"
  unfolding Unix_initSocket_def by (auto intro!: keeps_intros split: handler_kind.split)

lemma Tcp_initSocket_keeps [keeps_intros]:
  "con.keeps (Tcp_initSocket fd)"
  "sle.keeps (Tcp_initSocket fd)"
  "shd.keeps (Tcp_initSocket fd)"
  "snn.keeps (Tcp_initSocket fd)"
  "rnn.keeps (Tcp_initSocket fd)"
  unfolding Tcp_initSocket_def by (auto intro!: keeps_intros split: handler_kind.split)

lemma initSocket_keeps [keeps_intros]:
  "con.keeps (initSocket h fd)"
  "sle.keeps (initSocket h fd)"
  "shd.keeps (initSocket h fd)"
  "snn.keeps (initSocket h fd)"
  "rnn.keeps (initSocket h fd)"
  unfolding initSocket_def by (auto intro!: keeps_intros split: handler_kind.split)

lemma initServerSocket_keeps [keeps_intros]:
  "con.keeps (initServerSocket h fd)"
  "sle.keeps (initServerSocket h fd)"
  "shd.keeps (initServerSocket h fd)"
  "snn.keeps (initServerSocket h fd)"
  "rnn.keeps (initServerSocket h fd)"
  unfolding initServerSocket_def by (auto intro!: keeps_intros split: handler_kind.split)

lemma addToActiveSockets_keeps [keeps_intros]:
  "con.keeps (addToActiveSockets h fd)"
  "sle.keeps (addToActiveSockets h fd)"
  "snn.keeps (addToActiveSockets h fd)"
  "rnn.keeps (addToActiveSockets h fd)"
  unfolding addToActiveSockets_def by (auto intro!: keeps_intros split: handler_kind.split)

lemma select_isset_keeps [keeps_intros]:
  "con.keeps (select_isset fd)"
  "sle.keeps (select_isset fd)"
  "shd.keeps (select_isset fd)"
  "snn.keeps (select_isset fd)"
  "rnn.keeps (select_isset fd)"
  unfolding select_isset_def by (auto intro!: keeps_intros split: handler_kind.split)

lemma Unix_close_keeps [keeps_intros]:
  "con.keeps (Unix_close h fd)"
  "sle.keeps (Unix_close h fd)"
  "snn.keeps (Unix_close h fd)"
  "rnn.keeps (Unix_close h fd)"
  unfolding Unix_close_def by (auto intro!: keeps_intros split: handler_kind.split)

lemma Unix_accept_keeps [keeps_intros]:
  "con.keeps (Unix_accept h fd)"
  "sle.keeps (Unix_accept h fd)"
  "snn.keeps (Unix_accept h fd)"
  "rnn.keeps (Unix_accept h fd)"
  unfolding Unix_accept_def by (auto intro!: keeps_intros split: handler_kind.split)

lemma Unix_read_keeps [keeps_intros]:
  "con.keeps (Unix_read h fd n)"
  "sle.keeps (Unix_read h fd n)"
  "shd.keeps (Unix_read h fd n)"
  "snn.keeps (Unix_read h fd n)"
  unfolding Unix_read_def by (auto intro!: keeps_intros split: handler_kind.split)

lemma give_up_keeps [keeps_intros]:
  "con.keeps (give_up fd k)" "sle.keeps (give_up fd k)" "shd.keeps (give_up fd k)"
  "snn.keeps (give_up fd k)" "rnn.keeps (give_up fd k)"
proof -
  show "con.keeps (give_up fd k)" unfolding con.keeps_def consumes_def give_up_def
    by (auto intro: exI [of _ "0 :: nat"])
qed (auto simp: sle.keeps_def script_le_def shd.keeps_def same_handlers_def snn.keeps_def
    sends_nothing_def rnn.keeps_def receives_nothing_def give_up_def)

lemma give_up_frame [intro!]:
  "consumes w (snd (give_up fd k w))" "same_handlers w (snd (give_up fd k w))"
  "receives_nothing w (snd (give_up fd k w))"
  using give_up_keeps by (simp_all add: con.keeps_def shd.keeps_def rnn.keeps_def)

lemma Unix_write_loop_keeps [keeps_intros]:
  "con.keeps (Unix_write_loop fd buf st k)" "sle.keeps (Unix_write_loop fd buf st k)"
  "shd.keeps (Unix_write_loop fd buf st k)" "rnn.keeps (Unix_write_loop fd buf st k)"
proof -
  have "consumes w (snd (Unix_write_loop fd buf st k w))" for w
    by (induction fd buf st k w rule: Unix_write_loop.induct, subst Unix_write_loop.simps)
      (auto intro!: con.keeps_bnd_at keeps_intros con.R_refl)
  then show c: "con.keeps (Unix_write_loop fd buf st k)" by (simp add: con.keeps_def)
  then show "sle.keeps (Unix_write_loop fd buf st k)" by (rule con_sle)
  have "same_handlers w (snd (Unix_write_loop fd buf st k w))" for w
    by (induction fd buf st k w rule: Unix_write_loop.induct, subst Unix_write_loop.simps)
      (auto intro!: shd.keeps_bnd_at keeps_intros shd.R_refl)
  then show "shd.keeps (Unix_write_loop fd buf st k)" by (simp add: shd.keeps_def)
  have "receives_nothing w (snd (Unix_write_loop fd buf st k w))" for w
    by (induction fd buf st k w rule: Unix_write_loop.induct, subst Unix_write_loop.simps)
      (auto intro!: rnn.keeps_bnd_at keeps_intros rnn.R_refl)
  then show "rnn.keeps (Unix_write_loop fd buf st k)" by (simp add: rnn.keeps_def)
qed

lemma Unix_write_keeps [keeps_intros]:
  "con.keeps (Unix_write h fd buf)"
  "sle.keeps (Unix_write h fd buf)"
  "shd.keeps (Unix_write h fd buf)"
  "rnn.keeps (Unix_write h fd buf)"
  unfolding Unix_write_def by (auto intro!: keeps_intros split: handler_kind.split)


section \<open>SocketHandler: transfers of a given length\<close>

definition SOCKET_DATA_TRANSFER_TIMEOUT :: int where "SOCKET_DATA_TRANSFER_TIMEOUT = 30"

text \<open>The loops carry the bytes transferred so far; each round uses up an answer.\<close>

function readAll_loop :: "nat \<Rightarrow> int \<Rightarrow> nat \<Rightarrow> bool \<Rightarrow> int \<Rightarrow> string \<Rightarrow> (world, string) prog" where
  "readAll_loop h fd count timeout startTime buf w =
     (if length buf < count then
        bnd (waitOnSocketData fd) (\<lambda>ready w1.
          if \<not> ready then
            bnd time_now (\<lambda>currentTime w2.
              if timeout \<and> currentTime > startTime + SOCKET_DATA_TRANSFER_TIMEOUT
              then (Throw (RuntimeError ''Socket Timeout''), w2)
              else readAll_loop h fd count timeout startTime buf w2) w1
          else
            bnd (Unix_read h fd (count - length buf)) (\<lambda>rd w2.
              if fst rd \<le> 0 then
                (let w3 = (if fst rd = 0 then w2\<lparr>errno_now := EPIPE\<rparr> else w2) in
                 if errno_now w3 = EAGAIN \<or> errno_now w3 = EWOULDBLOCK
                 then readAll_loop h fd count timeout startTime buf w3
                 else (Throw (RuntimeError ''Failed a call to readAll''), w3))
              else bnd time_now (\<lambda>t w3. readAll_loop h fd count timeout t (buf @ snd rd) w3) w2) w1) w
      else (Ok buf, w))"
  by pat_completeness auto
termination
  using sle.keepsD [OF Unix_read_keeps(2)]
  by (relation "measure (\<lambda>(h, fd, n, t, st, buf, w). length (script w))")
    (fastforce dest!: script_shrinks(2,7) simp: script_le_def split: if_splits)+

declare readAll_loop.simps [simp del]

definition readAll :: "nat \<Rightarrow> int \<Rightarrow> nat \<Rightarrow> bool \<Rightarrow> (world, string) prog" where
  "readAll h fd count timeout =
     bnd time_now (\<lambda>startTime. readAll_loop h fd count timeout startTime [])"

function writeAllOrReturn_loop :: "nat \<Rightarrow> int \<Rightarrow> string \<Rightarrow> int \<Rightarrow> nat \<Rightarrow> (world, int) prog" where
  "writeAllOrReturn_loop h fd buf startTime pos w =
     (if pos < length buf then
        bnd time_now (\<lambda>currentTime w1.
          if currentTime > startTime + SOCKET_DATA_TRANSFER_TIMEOUT then (Ok (-1), w1)
          else bnd (Unix_write h fd (drop pos buf)) (\<lambda>bytesWritten w2.
            if bytesWritten < 0 then
              (if errno_now w2 = EAGAIN \<or> errno_now w2 = EWOULDBLOCK
               then writeAllOrReturn_loop h fd buf startTime pos w2
               else (Ok (-1), w2))
            else if bytesWritten = 0 then (Ok 0, w2)
            else writeAllOrReturn_loop h fd buf currentTime (pos + nat bytesWritten) w2) w1) w
      else (Ok (int (length buf)), w))"
  by pat_completeness auto
termination
  using sle.keepsD [OF Unix_write_keeps(2)]
  by (relation "measure (\<lambda>(h, fd, buf, st, k, w). length (script w))")
    (fastforce dest: script_shrinks(2) simp: script_le_def)+

declare writeAllOrReturn_loop.simps [simp del]

definition writeAllOrReturn :: "nat \<Rightarrow> int \<Rightarrow> string \<Rightarrow> (world, int) prog" where
  "writeAllOrReturn h fd buf =
     bnd time_now (\<lambda>startTime. writeAllOrReturn_loop h fd buf startTime 0)"

function writeAllOrThrow_loop ::
  "nat \<Rightarrow> int \<Rightarrow> string \<Rightarrow> bool \<Rightarrow> int \<Rightarrow> nat \<Rightarrow> (world, unit) prog" where
  "writeAllOrThrow_loop h fd buf timeout startTime pos w =
     (if pos < length buf then
        bnd time_now (\<lambda>currentTime w1.
          if timeout \<and> currentTime > startTime + SOCKET_DATA_TRANSFER_TIMEOUT
          then (Throw (RuntimeError ''Socket Timeout''), w1)
          else bnd (Unix_write h fd (drop pos buf)) (\<lambda>bytesWritten w2.
            if bytesWritten < 0 then
              (if errno_now w2 = EAGAIN \<or> errno_now w2 = EWOULDBLOCK
               then writeAllOrThrow_loop h fd buf timeout startTime pos w2
               else if \<not> timeout \<and> errno_now w2 = ETIMEDOUT
               then writeAllOrThrow_loop h fd buf timeout startTime pos w2
               else (Throw (RuntimeError ''Failed a call to writeAll''), w2))
            else if bytesWritten = 0 then (Throw (RuntimeError ''Socket closed during writeAll''), w2)
            else writeAllOrThrow_loop h fd buf timeout currentTime (pos + nat bytesWritten) w2) w1) w
      else (Ok (), w))"
  by pat_completeness auto
termination
  using sle.keepsD [OF Unix_write_keeps(2)]
  by (relation "measure (\<lambda>(h, fd, buf, tm, st, k, w). length (script w))")
    (fastforce dest: script_shrinks(2) simp: script_le_def)+

declare writeAllOrThrow_loop.simps [simp del]

definition writeAllOrThrow :: "nat \<Rightarrow> int \<Rightarrow> string \<Rightarrow> bool \<Rightarrow> (world, unit) prog" where
  "writeAllOrThrow h fd buf timeout =
     bnd time_now (\<lambda>startTime. writeAllOrThrow_loop h fd buf timeout startTime 0)"

section \<open>SocketHandler: messages\<close>

text \<open>
  A protobuf message type: its serialisation, its parser and its default value.
  \<open>codec_ok\<close> is the contract of the generated code the program relies on.
\<close>

record 'm codec =
  SerializeToString :: "'m \<Rightarrow> string option"
  ParseFromString :: "string \<Rightarrow> 'm option"
  default_message :: 'm

definition codec_ok :: "'m codec \<Rightarrow> bool" where
  "codec_ok C \<longleftrightarrow> (\<forall>m s. SerializeToString C m = Some s \<longrightarrow> ParseFromString C s = Some m) \<and>
     ParseFromString C [] = Some (default_message C)"

definition MAX_MESSAGE :: int where "MAX_MESSAGE = 128 * 1024 * 1024"

definition readProto :: "'m codec \<Rightarrow> nat \<Rightarrow> int \<Rightarrow> bool \<Rightarrow> (world, 'm) prog" where
  "readProto C h fd timeout = bnd (readAll h fd 8 timeout) (\<lambda>lb.
     let length' = le64_dec lb in
     if length' < 0 \<or> length' > MAX_MESSAGE then
       fail (Throw (RuntimeError ''Invalid size (<0 or >128 MB)''))
     else if length' = 0 then ret (default_message C)
     else bnd (readAll h fd (nat length') timeout) (\<lambda>s.
       case ParseFromString C s of
         None \<Rightarrow> fail (Throw (RuntimeError ''Invalid proto''))
       | Some t \<Rightarrow> ret t))"

definition writeProto :: "'m codec \<Rightarrow> nat \<Rightarrow> int \<Rightarrow> 'm \<Rightarrow> bool \<Rightarrow> (world, unit) prog" where
  "writeProto C h fd t timeout =
     (case SerializeToString C t of
        None \<Rightarrow> fail (Abort ''Serialization failed!'')
      | Some s \<Rightarrow>
          if int (length s) > MAX_MESSAGE then fail (Abort ''Invalid proto length'')
          else bnd (writeAllOrThrow h fd (le64 (int (length s))) timeout) (\<lambda>_.
               if length s > 0 then writeAllOrThrow h fd s timeout else ret ()))"

text \<open>\<^verbatim>\<open>readPacket\<close>: \<open>None\<close> is the result \<^verbatim>\<open>false\<close>, with the packet left as it was.\<close>

definition readPacket :: "nat \<Rightarrow> int \<Rightarrow> (world, Packet option) prog" where
  "readPacket h fd = bnd (readAll h fd 8 False) (\<lambda>lb.
     let length' = le64_dec lb in
     if length' < 0 \<or> length' > MAX_MESSAGE then
       fail (Throw (RuntimeError ''Invalid size (<0 or >128 MB)''))
     else if length' = 0 then ret None
     else bnd (readAll h fd (nat length') False) (\<lambda>s.
       case Packet_of_string s of Ok p \<Rightarrow> ret (Some p) | r \<Rightarrow> fail (lift_bad r)))"

definition writePacket :: "nat \<Rightarrow> int \<Rightarrow> Packet \<Rightarrow> (world, unit) prog" where
  "writePacket h fd packet =
     (let s = serialize packet in
      if int (length s) > MAX_MESSAGE then fail (Abort ''Invalid message length'')
      else bnd (writeAllOrThrow h fd (le64 (int (length s))) False) (\<lambda>_.
           if length s \<noteq> 0 then writeAllOrThrow h fd s False else ret ()))"

text \<open>
  Base64 (an external header): the encoded length, the encoder, the decoder into a string, and
  the decoder into a buffer of a given size.
\<close>

record base64 =
  EncodedLength :: "nat \<Rightarrow> nat"
  Encode :: "string \<Rightarrow> string option"
  Decode :: "string \<Rightarrow> string option"
  DecodeInto :: "string \<Rightarrow> nat \<Rightarrow> string option"

definition base64_ok :: "base64 \<Rightarrow> bool" where
  "base64_ok B \<longleftrightarrow> (\<forall>bs. \<exists>c. Encode B bs = Some c \<and> length c = EncodedLength B (length bs) \<and>
     Decode B c = Some bs \<and> DecodeInto B c (length bs) = Some bs)"

definition writeB64 :: "base64 \<Rightarrow> nat \<Rightarrow> int \<Rightarrow> string \<Rightarrow> (world, unit) prog" where
  "writeB64 B h fd buf =
     (case Encode B buf of
        None \<Rightarrow> fail (Throw (RuntimeError ''b64 decode failed''))
      | Some s \<Rightarrow> writeAllOrThrow h fd s False)"

definition readB64 :: "base64 \<Rightarrow> nat \<Rightarrow> int \<Rightarrow> nat \<Rightarrow> (world, string) prog" where
  "readB64 B h fd count = bnd (readAll h fd (EncodedLength B count) False) (\<lambda>s.
     case DecodeInto B s count of
       None \<Rightarrow> fail (Throw (RuntimeError ''b64 decode failed''))
     | Some out \<Rightarrow> ret out)"

definition readB64EncodedLength :: "base64 \<Rightarrow> nat \<Rightarrow> int \<Rightarrow> nat \<Rightarrow> (world, string) prog" where
  "readB64EncodedLength B h fd encodedLength = bnd (readAll h fd encodedLength False) (\<lambda>s.
     case Decode B s of
       None \<Rightarrow> fail (Throw (RuntimeError ''b64 decode failed''))
     | Some out \<Rightarrow> ret out)"

section \<open>RawSocketUtils\<close>

text \<open>The \<^verbatim>\<open>do\<close> loops; \<^verbatim>\<open>continue\<close> goes to the test, which still holds.\<close>

function Raw_writeAll_loop :: "int \<Rightarrow> string \<Rightarrow> nat \<Rightarrow> (world, unit) prog" where
  "Raw_writeAll_loop fd buf bytesWritten w =
     bnd (sys_send fd (drop bytesWritten buf)) (\<lambda>rc w1.
       if rc < 0 then
         (if errno_now w1 = EAGAIN \<or> errno_now w1 = EWOULDBLOCK
          then Raw_writeAll_loop fd buf bytesWritten w1
          else (Throw (RuntimeError ''Cannot write to raw socket''), w1))
       else if rc = 0 then (Throw (RuntimeError ''Cannot write to raw socket: socket closed''), w1)
       else if bytesWritten + nat rc \<noteq> length buf then Raw_writeAll_loop fd buf (bytesWritten + nat rc) w1
       else (Ok (), w1)) w"
  by pat_completeness auto
termination
  by (relation "measure (\<lambda>(fd, buf, k, w). length (script w))") (auto dest!: script_shrinks)

declare Raw_writeAll_loop.simps [simp del]

definition Raw_writeAll :: "int \<Rightarrow> string \<Rightarrow> (world, unit) prog" where
  "Raw_writeAll fd buf =
     (if fd < 0 then fail (Throw (RuntimeError ''Invalid file descriptor for readAll''))
      else if buf = [] then ret ()
      else Raw_writeAll_loop fd buf 0)"

function Raw_readAll_loop :: "int \<Rightarrow> nat \<Rightarrow> string \<Rightarrow> (world, string) prog" where
  "Raw_readAll_loop fd count buf w =
     bnd (waitOnSocketData fd) (\<lambda>ready w1.
       if \<not> ready then Raw_readAll_loop fd count buf w1
       else bnd (sys_read fd (count - length buf)) (\<lambda>rd w2.
         if fst rd < 0 then
           (if errno_now w2 = EAGAIN \<or> errno_now w2 = EWOULDBLOCK
            then Raw_readAll_loop fd count buf w2
            else (Throw (RuntimeError ''Cannot read from raw socket''), w2))
         else if fst rd = 0 then (Throw (RuntimeError ''Socket has closed abruptly.''), w2)
         else if length (buf @ snd rd) \<noteq> count then Raw_readAll_loop fd count (buf @ snd rd) w2
         else (Ok (buf @ snd rd), w2)) w1) w"
  by pat_completeness auto
termination
  by (relation "measure (\<lambda>(fd, n, buf, w). length (script w))") (auto dest!: script_shrinks)

declare Raw_readAll_loop.simps [simp del]

definition Raw_readAll :: "int \<Rightarrow> nat \<Rightarrow> (world, string) prog" where
  "Raw_readAll fd count =
     (if fd < 0 then fail (Throw (RuntimeError ''Invalid file descriptor for readAll''))
      else if count = 0 then ret []
      else Raw_readAll_loop fd count [])"

lemmas transfer_defs = SOCKET_DATA_TRANSFER_TIMEOUT_def readAll_def writeAllOrReturn_def
  writeAllOrThrow_def MAX_MESSAGE_def readProto_def writeProto_def readPacket_def writePacket_def
  writeB64_def readB64_def readB64EncodedLength_def Raw_writeAll_def Raw_readAll_def

declare transfer_defs [et_defs]

section \<open>Frames of the transfers\<close>

lemma writeAllOrReturn_loop_keeps [keeps_intros]:
  "con.keeps (writeAllOrReturn_loop h fd buf st k)"
  "sle.keeps (writeAllOrReturn_loop h fd buf st k)"
  "shd.keeps (writeAllOrReturn_loop h fd buf st k)"
  "rnn.keeps (writeAllOrReturn_loop h fd buf st k)"
proof -
  have "consumes w (snd (writeAllOrReturn_loop h fd buf st k w))" for w
    by (induction h fd buf st k w rule: writeAllOrReturn_loop.induct, subst writeAllOrReturn_loop.simps)
      (auto intro!: con.keeps_bnd_at keeps_intros con.R_refl simp: Let_def)
  then show c: "con.keeps (writeAllOrReturn_loop h fd buf st k)" by (simp add: con.keeps_def)
  then show "sle.keeps (writeAllOrReturn_loop h fd buf st k)" by (rule con_sle)
  have "same_handlers w (snd (writeAllOrReturn_loop h fd buf st k w))" for w
    by (induction h fd buf st k w rule: writeAllOrReturn_loop.induct, subst writeAllOrReturn_loop.simps)
      (auto intro!: shd.keeps_bnd_at keeps_intros shd.R_refl simp: Let_def)
  then show "shd.keeps (writeAllOrReturn_loop h fd buf st k)" by (simp add: shd.keeps_def)
  have "receives_nothing w (snd (writeAllOrReturn_loop h fd buf st k w))" for w
    by (induction h fd buf st k w rule: writeAllOrReturn_loop.induct, subst writeAllOrReturn_loop.simps)
      (auto intro!: rnn.keeps_bnd_at keeps_intros rnn.R_refl simp: Let_def)
  then show "rnn.keeps (writeAllOrReturn_loop h fd buf st k)" by (simp add: rnn.keeps_def)
qed

lemma writeAllOrThrow_loop_keeps [keeps_intros]:
  "con.keeps (writeAllOrThrow_loop h fd buf tm st k)"
  "sle.keeps (writeAllOrThrow_loop h fd buf tm st k)"
  "shd.keeps (writeAllOrThrow_loop h fd buf tm st k)"
  "rnn.keeps (writeAllOrThrow_loop h fd buf tm st k)"
proof -
  have "consumes w (snd (writeAllOrThrow_loop h fd buf tm st k w))" for w
    by (induction h fd buf tm st k w rule: writeAllOrThrow_loop.induct, subst writeAllOrThrow_loop.simps)
      (auto intro!: con.keeps_bnd_at keeps_intros con.R_refl simp: Let_def)
  then show c: "con.keeps (writeAllOrThrow_loop h fd buf tm st k)" by (simp add: con.keeps_def)
  then show "sle.keeps (writeAllOrThrow_loop h fd buf tm st k)" by (rule con_sle)
  have "same_handlers w (snd (writeAllOrThrow_loop h fd buf tm st k w))" for w
    by (induction h fd buf tm st k w rule: writeAllOrThrow_loop.induct, subst writeAllOrThrow_loop.simps)
      (auto intro!: shd.keeps_bnd_at keeps_intros shd.R_refl simp: Let_def)
  then show "shd.keeps (writeAllOrThrow_loop h fd buf tm st k)" by (simp add: shd.keeps_def)
  have "receives_nothing w (snd (writeAllOrThrow_loop h fd buf tm st k w))" for w
    by (induction h fd buf tm st k w rule: writeAllOrThrow_loop.induct, subst writeAllOrThrow_loop.simps)
      (auto intro!: rnn.keeps_bnd_at keeps_intros rnn.R_refl simp: Let_def)
  then show "rnn.keeps (writeAllOrThrow_loop h fd buf tm st k)" by (simp add: rnn.keeps_def)
qed

lemma Raw_writeAll_loop_keeps [keeps_intros]:
  "con.keeps (Raw_writeAll_loop fd buf k)"
  "sle.keeps (Raw_writeAll_loop fd buf k)"
  "shd.keeps (Raw_writeAll_loop fd buf k)"
  "rnn.keeps (Raw_writeAll_loop fd buf k)"
proof -
  have "consumes w (snd (Raw_writeAll_loop fd buf k w))" for w
    by (induction fd buf k w rule: Raw_writeAll_loop.induct, subst Raw_writeAll_loop.simps)
      (auto intro!: con.keeps_bnd_at keeps_intros con.R_refl simp: Let_def)
  then show c: "con.keeps (Raw_writeAll_loop fd buf k)" by (simp add: con.keeps_def)
  then show "sle.keeps (Raw_writeAll_loop fd buf k)" by (rule con_sle)
  have "same_handlers w (snd (Raw_writeAll_loop fd buf k w))" for w
    by (induction fd buf k w rule: Raw_writeAll_loop.induct, subst Raw_writeAll_loop.simps)
      (auto intro!: shd.keeps_bnd_at keeps_intros shd.R_refl simp: Let_def)
  then show "shd.keeps (Raw_writeAll_loop fd buf k)" by (simp add: shd.keeps_def)
  have "receives_nothing w (snd (Raw_writeAll_loop fd buf k w))" for w
    by (induction fd buf k w rule: Raw_writeAll_loop.induct, subst Raw_writeAll_loop.simps)
      (auto intro!: rnn.keeps_bnd_at keeps_intros rnn.R_refl simp: Let_def)
  then show "rnn.keeps (Raw_writeAll_loop fd buf k)" by (simp add: rnn.keeps_def)
qed

lemma readAll_step_keeps:
  "consumes w (w\<lparr>errno_now := e\<rparr>)" "same_handlers w (w\<lparr>errno_now := e\<rparr>)"
  "sends_nothing w (w\<lparr>errno_now := e\<rparr>)"
  by (auto simp: consumes_def same_handlers_def sends_nothing_def intro: exI [of _ "0 :: nat"])

lemma Raw_readAll_loop_keeps [keeps_intros]:
  "con.keeps (Raw_readAll_loop fd n buf)"
  "sle.keeps (Raw_readAll_loop fd n buf)"
  "shd.keeps (Raw_readAll_loop fd n buf)"
  "snn.keeps (Raw_readAll_loop fd n buf)"
proof -
  have "consumes w (snd (Raw_readAll_loop fd n buf w))" for w
    by (induction fd n buf w rule: Raw_readAll_loop.induct, subst Raw_readAll_loop.simps)
      (auto intro!: con.keeps_bnd_at keeps_intros con.R_refl simp: Let_def)
  then show c: "con.keeps (Raw_readAll_loop fd n buf)" by (simp add: con.keeps_def)
  then show "sle.keeps (Raw_readAll_loop fd n buf)" by (rule con_sle)
  have "same_handlers w (snd (Raw_readAll_loop fd n buf w))" for w
    by (induction fd n buf w rule: Raw_readAll_loop.induct, subst Raw_readAll_loop.simps)
      (auto intro!: shd.keeps_bnd_at keeps_intros shd.R_refl simp: Let_def)
  then show "shd.keeps (Raw_readAll_loop fd n buf)" by (simp add: shd.keeps_def)
  have "sends_nothing w (snd (Raw_readAll_loop fd n buf w))" for w
    by (induction fd n buf w rule: Raw_readAll_loop.induct, subst Raw_readAll_loop.simps)
      (auto intro!: snn.keeps_bnd_at keeps_intros snn.R_refl simp: Let_def)
  then show "snn.keeps (Raw_readAll_loop fd n buf)" by (simp add: snn.keeps_def)
qed

lemma writeAllOrReturn_keeps [keeps_intros]:
  "con.keeps (writeAllOrReturn h fd buf)"
  "sle.keeps (writeAllOrReturn h fd buf)"
  "shd.keeps (writeAllOrReturn h fd buf)"
  "rnn.keeps (writeAllOrReturn h fd buf)"
  unfolding writeAllOrReturn_def Let_def by (auto intro!: keeps_intros)

lemma writeAllOrThrow_keeps [keeps_intros]:
  "con.keeps (writeAllOrThrow h fd buf tm)"
  "sle.keeps (writeAllOrThrow h fd buf tm)"
  "shd.keeps (writeAllOrThrow h fd buf tm)"
  "rnn.keeps (writeAllOrThrow h fd buf tm)"
  unfolding writeAllOrThrow_def Let_def by (auto intro!: keeps_intros)

lemma writePacket_keeps [keeps_intros]:
  "con.keeps (writePacket h fd p)"
  "sle.keeps (writePacket h fd p)"
  "shd.keeps (writePacket h fd p)"
  "rnn.keeps (writePacket h fd p)"
  unfolding writePacket_def Let_def by (auto intro!: keeps_intros)

lemma writeB64_keeps [keeps_intros]:
  "con.keeps (writeB64 B h fd p)"
  "sle.keeps (writeB64 B h fd p)"
  "shd.keeps (writeB64 B h fd p)"
  "rnn.keeps (writeB64 B h fd p)"
  unfolding writeB64_def Let_def by (auto intro!: keeps_intros)

lemma writeProto_keeps [keeps_intros]:
  "con.keeps (writeProto C h fd p tm)"
  "sle.keeps (writeProto C h fd p tm)"
  "shd.keeps (writeProto C h fd p tm)"
  "rnn.keeps (writeProto C h fd p tm)"
  unfolding writeProto_def Let_def by (auto intro!: keeps_intros)

lemma Raw_writeAll_keeps [keeps_intros]:
  "con.keeps (Raw_writeAll fd p)"
  "sle.keeps (Raw_writeAll fd p)"
  "shd.keeps (Raw_writeAll fd p)"
  "rnn.keeps (Raw_writeAll fd p)"
  unfolding Raw_writeAll_def Let_def by (auto intro!: keeps_intros)

lemma readAll_loop_keeps [keeps_intros]:
  "con.keeps (readAll_loop h fd n tm st buf)"
  "sle.keeps (readAll_loop h fd n tm st buf)"
  "shd.keeps (readAll_loop h fd n tm st buf)"
  "snn.keeps (readAll_loop h fd n tm st buf)"
proof -
  have "consumes w (snd (readAll_loop h fd n tm st buf w))" for w
    by (induction h fd n tm st buf w rule: readAll_loop.induct, subst readAll_loop.simps)
      (auto intro!: con.keeps_bnd_at keeps_intros con.R_refl readAll_step_keeps simp: Let_def
        intro: con.R_trans [OF readAll_step_keeps(1)])
  then show c: "con.keeps (readAll_loop h fd n tm st buf)" by (simp add: con.keeps_def)
  then show "sle.keeps (readAll_loop h fd n tm st buf)" by (rule con_sle)
  have "same_handlers w (snd (readAll_loop h fd n tm st buf w))" for w
    by (induction h fd n tm st buf w rule: readAll_loop.induct, subst readAll_loop.simps)
      (auto intro!: shd.keeps_bnd_at keeps_intros shd.R_refl readAll_step_keeps simp: Let_def
        intro: shd.R_trans [OF readAll_step_keeps(2)])
  then show "shd.keeps (readAll_loop h fd n tm st buf)" by (simp add: shd.keeps_def)
  have "sends_nothing w (snd (readAll_loop h fd n tm st buf w))" for w
    by (induction h fd n tm st buf w rule: readAll_loop.induct, subst readAll_loop.simps)
      (auto intro!: snn.keeps_bnd_at keeps_intros snn.R_refl readAll_step_keeps simp: Let_def
        intro: snn.R_trans [OF readAll_step_keeps(3)])
  then show "snn.keeps (readAll_loop h fd n tm st buf)" by (simp add: snn.keeps_def)
qed

lemma readAll_keeps [keeps_intros]:
  "con.keeps (readAll h fd n tm)"
  "sle.keeps (readAll h fd n tm)"
  "shd.keeps (readAll h fd n tm)"
  "snn.keeps (readAll h fd n tm)"
  unfolding readAll_def Let_def by (auto intro!: keeps_intros)

lemma readProto_keeps [keeps_intros]:
  "con.keeps (readProto C h fd tm)"
  "sle.keeps (readProto C h fd tm)"
  "shd.keeps (readProto C h fd tm)"
  "snn.keeps (readProto C h fd tm)"
  unfolding readProto_def Let_def by (auto intro!: keeps_intros)

lemma readB64_keeps [keeps_intros]:
  "con.keeps (readB64 B h fd n)"
  "sle.keeps (readB64 B h fd n)"
  "shd.keeps (readB64 B h fd n)"
  "snn.keeps (readB64 B h fd n)"
  unfolding readB64_def Let_def by (auto intro!: keeps_intros)

lemma readB64EncodedLength_keeps [keeps_intros]:
  "con.keeps (readB64EncodedLength B h fd n)"
  "sle.keeps (readB64EncodedLength B h fd n)"
  "shd.keeps (readB64EncodedLength B h fd n)"
  "snn.keeps (readB64EncodedLength B h fd n)"
  unfolding readB64EncodedLength_def Let_def by (auto intro!: keeps_intros)

lemma Raw_readAll_keeps [keeps_intros]:
  "con.keeps (Raw_readAll fd n)"
  "sle.keeps (Raw_readAll fd n)"
  "shd.keeps (Raw_readAll fd n)"
  "snn.keeps (Raw_readAll fd n)"
  unfolding Raw_readAll_def Let_def by (auto intro!: keeps_intros)

lemma readPacket_keeps [keeps_intros]:
  "con.keeps (readPacket h fd)"
  "sle.keeps (readPacket h fd)"
  "shd.keeps (readPacket h fd)"
  "snn.keeps (readPacket h fd)"
  unfolding readPacket_def Let_def by (auto intro!: keeps_intros split: outcome.split)

end
