(* ===== verification/ET_Transfer.thy ===== *)
theory ET_Transfer
  imports ET_Socket "HOL-Library.Sublist"
begin

text \<open>
  What the transfers of \<^verbatim>\<open>SocketHandler\<close> do to the byte streams: exactly which bytes a
  \<^verbatim>\<open>writeAll\<close> puts on its descriptor and a \<^verbatim>\<open>readAll\<close> takes off it, for every sequence of
  answers of the system, and that a framed message comes out as it went in.
\<close>

section \<open>What a transfer puts on the wire\<close>

text \<open>
  \<open>sends fd bs w w'\<close>: between \<open>w\<close> and \<open>w'\<close> exactly the bytes \<open>bs\<close> went out, on \<open>fd\<close>;
  \<open>receives\<close> likewise for what came in.
\<close>

definition sends :: "int \<Rightarrow> string \<Rightarrow> world \<Rightarrow> world \<Rightarrow> bool" where
  "sends fd bs w w' \<longleftrightarrow>
     (\<forall>f. sent_on f (trace w') = sent_on f (trace w) @ (if f = fd then bs else []))"

definition receives :: "int \<Rightarrow> string \<Rightarrow> world \<Rightarrow> world \<Rightarrow> bool" where
  "receives fd bs w w' \<longleftrightarrow>
     (\<forall>f. received_on f (trace w') = received_on f (trace w) @ (if f = fd then bs else []))"

lemma sends_trans: "sends fd a u v \<Longrightarrow> sends fd b v w \<Longrightarrow> sends fd (a @ b) u w"
  by (simp add: sends_def)

lemma receives_trans: "receives fd a u v \<Longrightarrow> receives fd b v w \<Longrightarrow> receives fd (a @ b) u w"
  by (simp add: receives_def)

lemma sends_Nil: "sends fd [] w w' \<longleftrightarrow> sends_nothing w w'"
  by (simp add: sends_def sends_nothing_def)

lemma receives_Nil: "receives fd [] w w' \<longleftrightarrow> receives_nothing w w'"
  by (simp add: receives_def receives_nothing_def)

lemma snn_sends: "snn.keeps m \<Longrightarrow> m w = (r, w') \<Longrightarrow> sends fd [] w w'"
  by (simp add: sends_Nil snn.keepsD)

lemma rnn_receives: "rnn.keeps m \<Longrightarrow> m w = (r, w') \<Longrightarrow> receives fd [] w w'"
  by (simp add: receives_Nil rnn.keepsD)

lemma sys_send_sends:
  assumes "sys_send fd bs w = (r, w')"
  obtains k where "k \<le> length bs" and "sends fd (take k bs) w w'"
    and "\<And>n. r = Ok n \<Longrightarrow> n < 0 \<and> k = 0 \<or> n = int k"
proof -
  have "\<exists>k \<le> length bs. sends fd (take k bs) w w' \<and> (\<forall>n. r = Ok n \<longrightarrow> n < 0 \<and> k = 0 \<or> n = int k)"
  proof (cases "script w")
    case Nil
    then show ?thesis using assms by (auto simp: kernel_defs bnd_def sends_def intro!: exI [of _ 0])
  next
    case (Cons a as)
    show ?thesis
    proof (cases a)
      case (Ret n b)
      let ?k = "min (nat n) (length bs)"
      have t: "take ?k bs = take (nat n) bs" by (simp add: min_def)
      have "r = Ok (int ?k) \<and> sends fd (take ?k bs) w w'"
        unfolding t using assms Cons Ret by (auto simp: kernel_defs bnd_def sends_def)
      then show ?thesis by (intro exI [of _ ?k]) simp
    next
      case (Err e)
      then show ?thesis using assms Cons by (auto simp: kernel_defs bnd_def sends_def intro!: exI [of _ 0])
    qed
  qed
  then show ?thesis using that by blast
qed

text \<open>
  Progress of a transfer that started in \<open>w0\<close>: the bytes out so far are the first \<open>k\<close> of \<open>buf\<close>.
\<close>

definition out_upto :: "world \<Rightarrow> int \<Rightarrow> string \<Rightarrow> nat \<Rightarrow> world \<Rightarrow> bool" where
  "out_upto w0 fd buf k w \<longleftrightarrow> k \<le> length buf \<and> consumes w0 w \<and> sends fd (take k buf) w0 w"

lemma out_upto_quiet:
  assumes "con.keeps m" and "snn.keeps m" and "m w = (r, w')" and "out_upto w0 fd buf k w"
  shows "out_upto w0 fd buf k w'"
  using sends_trans [OF _ snn_sends [OF assms(2,3)], of fd "take k buf" w0] con.keepsD [OF assms(1,3)]
    con.R_trans assms(4) by (auto simp: out_upto_def)

lemma out_upto_send:
  assumes "sys_send fd (drop k buf) w = (r, w')" and "out_upto w0 fd buf k w"
  obtains j where "out_upto w0 fd buf (k + j) w'" and "\<And>n. r = Ok n \<Longrightarrow> n < 0 \<and> j = 0 \<or> n = int j"
proof -
  obtain j where j: "j \<le> length (drop k buf)" "sends fd (take j (drop k buf)) w w'"
      "\<And>n. r = Ok n \<Longrightarrow> n < 0 \<and> j = 0 \<or> n = int j"
    using sys_send_sends [OF assms(1)] by metis
  have "out_upto w0 fd buf (k + j) w'"
    using assms(2) j(1) sends_trans [OF _ j(2), of "take k buf" w0]
      con.R_trans [OF _ con.keepsD [OF sys_send_keeps(1) assms(1)]] by (auto simp: out_upto_def take_add)
  then show ?thesis using that j(3) by blast
qed

text \<open>
  Since \<open>w0\<close> the handler has given up, on an error that \<^verbatim>\<open>writeAll\<close> retries, in the middle of a
  buffer: what is out of the buffer at that point goes out again in the next attempt.
\<close>

definition retryable :: "errno \<Rightarrow> bool" where
  "retryable e \<longleftrightarrow> e = EAGAIN \<or> e = EWOULDBLOCK \<or> e = ETIMEDOUT"

definition stalls :: "world \<Rightarrow> world \<Rightarrow> bool" where
  "stalls w0 w \<longleftrightarrow> (\<exists>fd k e. GaveUp fd k e \<in> set (drop (length (trace w0)) (trace w)) \<and> 0 < k \<and>
     retryable e)"

lemma stalls_mono:
  "consumes u v \<Longrightarrow> consumes v w \<Longrightarrow> stalls u v \<or> stalls v w \<Longrightarrow> stalls u w"
  by (auto simp: stalls_def consumes_def) blast+

text \<open>How \<^verbatim>\<open>UnixSocketHandler::write\<close> ends: all out, or \<open>-1\<close> with a part out.\<close>

definition write_result :: "world \<Rightarrow> int \<Rightarrow> string \<Rightarrow> int outcome \<Rightarrow> world \<Rightarrow> bool" where
  "write_result w0 fd buf r w' \<longleftrightarrow> (\<exists>j. out_upto w0 fd buf j w' \<and>
     (\<forall>n. r = Ok n \<longrightarrow> n = int (length buf) \<and> j = length buf \<or>
                    n = -1 \<and> (j > 0 \<longrightarrow> retryable (errno_now w') \<longrightarrow> stalls w0 w')))"

lemma give_up_result: "out_upto w0 fd buf k u \<Longrightarrow> post (write_result w0 fd buf) (give_up fd k u)"
  using out_upto_quiet [OF give_up_keeps(1,4), of fd k u _ _ w0 fd buf k]
  by (auto simp: give_up_def write_result_def stalls_def out_upto_def consumes_def intro!: exI [of _ k])
    blast

lemma Unix_write_loop_result:
  assumes "out_upto w0 fd buf k w" and "length buf < 2 ^ 31"
  shows "post (write_result w0 fd buf) (Unix_write_loop fd buf st k w)"
  using assms
proof (induction fd buf st k w rule: Unix_write_loop.induct)
  case (1 fd buf st k w)
  have c: "to_int32 (int (length buf)) = int (length buf)"
    using 1(4) by (intro to_int32_id) simp_all
  show ?case
  proof (cases "k < length buf")
    case False
    then show ?thesis using 1(3) c
      by (subst Unix_write_loop.simps) (auto simp: out_upto_def write_result_def)
  next
    case True
    then have g: "int k < to_int32 (int (length buf))" using c by simp
    show ?thesis
    proof (subst Unix_write_loop.simps, simp only: g if_True, rule post_bnd, goal_cases)
      case s: (1 n w1)
      obtain j where j: "out_upto w0 fd buf (k + j) w1" "n < 0 \<and> j = 0 \<or> n = int j"
        using out_upto_send [OF s 1(3)] by metis
      show ?case
      proof (cases "n < 0")
        case neg: True
        then show ?thesis
          using j give_up_result 1(1) [OF g s neg] 1(4)
            out_upto_quiet [OF time_now_keeps(1,4), of w1 _ _ w0 fd buf k]
          by (auto intro!: post_bnd) (auto simp: write_result_def)
      next
        case False
        then show ?thesis
          using j 1(2) [OF g s False] 1(4) by auto
      qed
    next
      case (2 q w1)
      then show ?case unfolding write_result_def using out_upto_send [OF _ 1(3)]
        by (metis lift_bad_neq_Ok(1))
    qed
  qed
qed

lemma out_upto_0 [simp]: "out_upto w fd buf 0 w"
  by (simp add: out_upto_def sends_def con.R_refl)

lemma Unix_write_result:
  assumes "length buf < 2 ^ 31"
  shows "post (write_result w fd buf) (Unix_write h fd buf w)"
proof -
  have b: "write_result w fd buf r w" if "\<not> is_ok r \<or> r = Ok (-1)" for r
    using that by (auto simp: write_result_def intro!: exI [of _ 0])
  have e: "write_result w fd buf (Ok (-1)) (w\<lparr>errno_now := EPIPE\<rparr>)"
    by (auto simp: write_result_def out_upto_def sends_def consumes_def intro!: exI [of _ 0])
  have t: "out_upto w fd buf 0 w'" if "time_now w = (r, w')" for r w'
    using out_upto_quiet [OF time_now_keeps(1,4) that] by simp
  have bad: "write_result w fd buf (lift_bad q) w'" if "time_now w = (q, w')" for q w'
    using t [OF that] by (auto simp: write_result_def)
  show ?thesis
    unfolding Unix_write_def the_handler_def SetErrno_def
    using b e t bad Unix_write_loop_result assms
    by (auto intro!: post_bnd simp: bnd_def [of "\<lambda>w. (Ok (handlers w h), w)"])
qed

text \<open>
  \<^verbatim>\<open>writeAll\<close>: unless the handler stalls in the middle of an attempt, what goes out is a prefix of the
  buffer, and all of it when the call reports success.
\<close>

definition all_result :: "world \<Rightarrow> int \<Rightarrow> string \<Rightarrow> ('a \<Rightarrow> bool) \<Rightarrow> 'a outcome \<Rightarrow> world \<Rightarrow> bool" where
  "all_result w0 fd buf success r w' \<longleftrightarrow> consumes w0 w' \<and> (stalls w0 w' \<or>
     (\<exists>j. out_upto w0 fd buf j w' \<and> (\<forall>x. r = Ok x \<longrightarrow> success x \<longrightarrow> j = length buf)))"

lemma write_result_shift:
  assumes "write_result w1 fd buf r w'" and "out_upto w0 fd buf 0 w1"
  shows "write_result w0 fd buf r w'"
proof -
  obtain j where j: "out_upto w1 fd buf j w'" "\<forall>n. r = Ok n \<longrightarrow> n = int (length buf) \<and> j = length buf \<or>
      n = -1 \<and> (j > 0 \<longrightarrow> retryable (errno_now w') \<longrightarrow> stalls w1 w')"
    using assms(1) by (auto simp: write_result_def)
  have "out_upto w0 fd buf j w'"
    using j(1) assms(2) con.R_trans [of w0 w1 w'] sends_trans [of fd "[]" w0 w1 "take j buf" w']
    by (auto simp: out_upto_def)
  moreover have "stalls w1 w' \<Longrightarrow> stalls w0 w'"
    using stalls_mono [of w0 w1 w'] j(1) assms(2) by (auto simp: out_upto_def)
  ultimately show ?thesis using j(2) unfolding write_result_def by blast
qed

lemma write_result_consumes: "write_result w0 fd buf r w' \<Longrightarrow> consumes w0 w'"
  by (auto simp: write_result_def out_upto_def)

lemma all_result_stalled: "stalls w0 w1 \<Longrightarrow> consumes w0 w1 \<Longrightarrow> consumes w1 w' \<Longrightarrow> all_result w0 fd buf S r w'"
  using stalls_mono [of w0 w1 w'] con.R_trans [of w0 w1 w'] by (auto simp: all_result_def)

lemma all_result_stalled_post:
  "stalls w0 w1 \<Longrightarrow> write_result w0 fd buf q w1 \<Longrightarrow> con.keeps m \<Longrightarrow> post (all_result w0 fd buf S) (m w1)"
  by (rule postI) (auto intro: all_result_stalled write_result_consumes con.keepsD)

lemma attempt_result:
  assumes "out_upto w0 fd buf 0 w1" and "length buf < 2 ^ 31" and "Unix_write h fd buf w1 = (r, w2)"
  shows "write_result w0 fd buf r w2"
  using write_result_shift [OF _ assms(1)] Unix_write_result [OF assms(2), of w1 fd h] assms(3) by simp

lemma all_result_end:
  assumes "write_result w0 fd buf r w'" and "\<And>x. q \<noteq> Ok x \<or> \<not> S x"
  shows "all_result w0 fd buf S q w'"
  using assms by (auto simp: write_result_def all_result_def out_upto_def)

lemma all_result_bad: "write_result w0 fd buf r w' \<Longrightarrow> all_result w0 fd buf S (lift_bad q) w'"
  by (rule all_result_end) auto

lemma all_result_early:
  "out_upto w0 fd buf j w' \<Longrightarrow> (\<And>x. q = Ok x \<Longrightarrow> S x \<Longrightarrow> j = length buf) \<Longrightarrow> all_result w0 fd buf S q w'"
  by (auto simp: all_result_def out_upto_def)

lemma attempt_cases:
  assumes "write_result w0 fd buf (Ok n) w'"
  obtains (finished) "n = int (length buf)" "out_upto w0 fd buf (length buf) w'"
    | (again) "n = -1" "retryable (errno_now w')" "out_upto w0 fd buf 0 w'"
    | (stalled) "n = -1" "retryable (errno_now w')" "stalls w0 w'"
    | (broken) "n = -1" "\<not> retryable (errno_now w')"
  using assms unfolding write_result_def by blast

lemma writeAllOrReturn_loop_result:
  assumes "out_upto w0 fd buf k w" and "k = 0 \<or> k = length buf" and "length buf < 2 ^ 31"
  shows "post (all_result w0 fd buf (\<lambda>n. n = int (length buf))) (writeAllOrReturn_loop h fd buf st k w)"
  using assms
proof (induction h fd buf st k w rule: writeAllOrReturn_loop.induct)
  case (1 h fd buf st k w)
  let ?S = "\<lambda>n. n = int (length buf)"
  show ?case
  proof (cases "k < length buf")
    case False
    then show ?thesis using 1(3,4)
      by (subst writeAllOrReturn_loop.simps) (auto simp: all_result_def out_upto_def)
  next
    case True
    with 1(4) have k0: "k = 0" by auto
    show ?thesis
    proof (subst writeAllOrReturn_loop.simps, simp only: True if_True, intro post_bnd, goal_cases)
      case t: (1 t w1)
      have o1: "out_upto w0 fd buf 0 w1" using out_upto_quiet [OF time_now_keeps(1,4) t] 1(3) k0 by simp
      note at = attempt_result [OF o1 1(5)]
      have val: "post (all_result w0 fd buf ?S)
          (if n < 0 then
              (if errno_now w2 = EAGAIN \<or> errno_now w2 = EWOULDBLOCK
               then writeAllOrReturn_loop h fd buf st 0 w2 else (Ok (-1), w2))
            else if n = 0 then (Ok 0, w2)
            else writeAllOrReturn_loop h fd buf t (nat n) w2)"
        if "\<not> t > st + SOCKET_DATA_TRANSFER_TIMEOUT" and u: "Unix_write h fd buf w1 = (Ok n, w2)" for n w2
        using at [OF u]
      proof (cases rule: attempt_cases)
        case finished
        then show ?thesis using 1(2) [OF True t that(1), of n w2] u k0 1(5) True by simp
      next
        case again
        then show ?thesis using 1(1) [OF True t that(1), of n w2] u k0 1(5)
            all_result_end [OF at [OF u], of "Ok (-1)" ?S] by auto
      next
        case stalled
        then show ?thesis
          using all_result_stalled_post [OF _ at [OF u] writeAllOrReturn_loop_keeps(1)]
            all_result_end [OF at [OF u], of "Ok (-1)" ?S] by auto
      next
        case broken
        then show ?thesis using all_result_end [OF at [OF u], of "Ok (-1)" ?S] by (simp add: retryable_def)
      qed
      show ?case
        using val all_result_bad [OF at] unfolding k0 drop_0 add_0
        by (auto intro!: post_bnd all_result_early [OF o1])
    next
      case (2 q w1)
      then show ?case using out_upto_quiet [OF time_now_keeps(1,4) 2(1)] 1(3)
        by (auto simp: all_result_def out_upto_def)
    qed
  qed
qed

lemma writeAllOrThrow_loop_result:
  assumes "out_upto w0 fd buf k w" and "k = 0 \<or> k = length buf" and "length buf < 2 ^ 31"
  shows "post (all_result w0 fd buf (\<lambda>_. True)) (writeAllOrThrow_loop h fd buf tm st k w)"
  using assms
proof (induction h fd buf tm st k w rule: writeAllOrThrow_loop.induct)
  case (1 h fd buf tm st k w)
  let ?S = "\<lambda>_ :: unit. True"
  show ?case
  proof (cases "k < length buf")
    case False
    then show ?thesis using 1(4,5)
      by (subst writeAllOrThrow_loop.simps) (auto simp: all_result_def out_upto_def)
  next
    case True
    with 1(5) have k0: "k = 0" by auto
    show ?thesis
    proof (subst writeAllOrThrow_loop.simps, simp only: True if_True, intro post_bnd, goal_cases)
      case t: (1 t w1)
      have o1: "out_upto w0 fd buf 0 w1" using out_upto_quiet [OF time_now_keeps(1,4) t] 1(4) k0 by simp
      note at = attempt_result [OF o1 1(6)]
      have val: "post (all_result w0 fd buf ?S)
          (if n < 0 then
              (if errno_now w2 = EAGAIN \<or> errno_now w2 = EWOULDBLOCK
               then writeAllOrThrow_loop h fd buf tm st 0 w2
               else if \<not> tm \<and> errno_now w2 = ETIMEDOUT then writeAllOrThrow_loop h fd buf tm st 0 w2
               else (Throw (RuntimeError ''Failed a call to writeAll''), w2))
            else if n = 0 then (Throw (RuntimeError ''Socket closed during writeAll''), w2)
            else writeAllOrThrow_loop h fd buf tm t (nat n) w2)"
        if "\<not> (tm \<and> t > st + SOCKET_DATA_TRANSFER_TIMEOUT)" and u: "Unix_write h fd buf w1 = (Ok n, w2)" for n w2
        using at [OF u]
      proof (cases rule: attempt_cases)
        case finished
        then show ?thesis using 1(3) [OF True t that(1), of n w2] u k0 1(6) True by simp
      next
        case again
        then show ?thesis using 1(1) [OF True t that(1), of n w2] 1(2) [OF True t that(1), of n w2] u k0 1(6)
            all_result_end [OF at [OF u], of "Throw _" ?S] by auto
      next
        case stalled
        then show ?thesis
          using all_result_stalled_post [OF _ at [OF u] writeAllOrThrow_loop_keeps(1)]
            all_result_end [OF at [OF u], of "Throw _" ?S] by auto
      next
        case broken
        then show ?thesis using all_result_end [OF at [OF u], of "Throw _" ?S] by (simp add: retryable_def)
      qed
      show ?case
        using val all_result_bad [OF at] unfolding k0 drop_0 add_0
        by (auto intro!: post_bnd all_result_early [OF o1])
    next
      case (2 q w1)
      then show ?case using out_upto_quiet [OF time_now_keeps(1,4) 2(1)] 1(4)
        by (auto simp: all_result_def out_upto_def)
    qed
  qed
qed


section \<open>What a transfer takes off the wire\<close>

definition read_result :: "world \<Rightarrow> int \<Rightarrow> nat \<Rightarrow> (int \<times> string) outcome \<Rightarrow> world \<Rightarrow> bool" where
  "read_result w fd n r w' \<longleftrightarrow> (\<exists>bs. length bs \<le> n \<and> receives fd bs w w' \<and> (\<forall>e. r \<noteq> Throw e) \<and>
     (\<forall>p. r = Ok p \<longrightarrow> snd p = bs \<and> (fst p = int (length bs) \<or> fst p = -1 \<and> bs = [])))"

lemma sys_read_result: "post (read_result w fd n) (sys_read fd n w)"
proof (cases "script w")
  case Nil
  then show ?thesis by (auto simp: kernel_defs bnd_def read_result_def receives_def)
next
  case (Cons a as)
  then show ?thesis
    by (cases a) (auto simp: kernel_defs bnd_def read_result_def receives_def)
qed

lemma read_result_shift:
  assumes "receives fd [] w w1" and "read_result w1 fd n r w'"
  shows "read_result w fd n r w'"
  using receives_trans [OF assms(1)] assms(2) unfolding read_result_def by (metis append_Nil)

lemma read_result_bad:
  assumes "receives fd [] w w'" and "\<And>p. r = Ok p \<Longrightarrow> p = (-1, [])" and "\<And>e. r \<noteq> Throw e"
  shows "read_result w fd n r w'"
  unfolding read_result_def using assms by (intro exI [of _ "[]"]) auto

lemma waitForData_no_Throw: "fst (waitForData fd w) \<noteq> Throw e"
  by (auto simp: waitForData_def syscall_def bnd_def split: list.splits answer.splits)

lemma Unix_read_result: "post (read_result w fd n) (Unix_read h fd n w)"
proof -
  have v: "post (read_result w fd n) (sys_read fd n w1)" if "waitForData fd w = (q, w1)" for q w1
    using read_result_shift [OF rnn_receives [OF waitForData_keeps(5) that]] sys_read_result [of w1 fd n]
    by (auto simp: post_def)
  have b: "read_result w fd n (lift_bad q) w1" if "waitForData fd w = (q, w1)" "\<not> is_ok q" for q w1
    using rnn_receives [OF waitForData_keeps(5) that(1)] waitForData_no_Throw [of fd w] that
    by (intro read_result_bad) (auto; cases q; auto)+
  have e: "read_result w fd n (Ok (-1, [])) (w\<lparr>errno_now := EPIPE\<rparr>)"
    by (auto intro!: read_result_bad simp: receives_def)
  show ?thesis
    unfolding Unix_read_def the_handler_def SetErrno_def
    using v b e
    by (auto intro!: post_bnd simp: bnd_def [of "\<lambda>w. (Ok (handlers w h), w)"])
      (auto intro!: read_result_bad simp: receives_def)
qed

text \<open>\<open>bs\<close> has come in on \<open>fd\<close> since \<open>w0\<close>.\<close>

definition readAll_result :: "world \<Rightarrow> int \<Rightarrow> nat \<Rightarrow> string outcome \<Rightarrow> world \<Rightarrow> bool" where
  "readAll_result w0 fd n r w' \<longleftrightarrow> (\<exists>bs. length bs \<le> n \<and> receives fd bs w0 w' \<and>
     (\<forall>x. r = Ok x \<longrightarrow> x = bs \<and> length bs = n) \<and>
     (\<forall>e. r = Throw e \<longrightarrow> is_runtime_error e \<and> length bs < n))"

lemma readAll_resultI:
  "length bs \<le> n \<Longrightarrow> receives fd bs w0 w' \<Longrightarrow> (\<And>x. r = Ok x \<Longrightarrow> x = bs \<and> length bs = n) \<Longrightarrow>
   (\<And>e. r = Throw e \<Longrightarrow> is_runtime_error e \<and> length bs < n) \<Longrightarrow> readAll_result w0 fd n r w'"
  unfolding readAll_result_def by blast

lemma kernel_no_Throw:
  "fst (waitOnSocketData fd w) \<noteq> Throw e" "fst (time_now w) \<noteq> Throw e"
  by (auto simp: kernel_defs bnd_def split: list.splits answer.splits)

lemma readAll_got:
  assumes "receives fd buf w0 w1" and "length buf < n" and "Unix_read h fd (n - length buf) w1 = (Ok rd, w2)"
  shows "receives fd (buf @ snd rd) w0 w2" and "length (buf @ snd rd) \<le> n"
    and "fst rd \<le> 0 \<Longrightarrow> snd rd = []"
proof -
  have "read_result w1 fd (n - length buf) (Ok rd) w2"
    using Unix_read_result assms(3) by (metis postD)
  then show "receives fd (buf @ snd rd) w0 w2" and "length (buf @ snd rd) \<le> n"
      and "fst rd \<le> 0 \<Longrightarrow> snd rd = []"
    using receives_trans [OF assms(1)] assms(2) by (auto simp: read_result_def)
qed

lemma readAll_got_bad:
  assumes "receives fd buf w0 w1" and "length buf < n" and "Unix_read h fd (n - length buf) w1 = (q, w2)"
    and "\<not> is_ok q"
  shows "readAll_result w0 fd n (lift_bad q) w2"
proof -
  have "read_result w1 fd (n - length buf) q w2"
    using Unix_read_result assms(3) by (metis postD)
  then obtain bs where "length bs \<le> n - length buf" "receives fd (buf @ bs) w0 w2" "\<And>e. q \<noteq> Throw e"
    using receives_trans [OF assms(1)] by (auto simp: read_result_def)
  then show ?thesis using assms(2) by (cases q) (auto intro!: readAll_resultI [of "buf @ bs"])
qed

lemma readAll_loop_result:
  assumes "receives fd buf w0 w" and "length buf \<le> n"
  shows "post (readAll_result w0 fd n) (readAll_loop h fd n tm st buf w)"
  using assms
proof (induction h fd n tm st buf w rule: readAll_loop.induct)
  case (1 h fd n tm st buf w)
  have q: "receives fd buf w0 u'" if "rnn.keeps m" "m u = (r, u')" "receives fd buf w0 u"
    for m :: "(world, 'z) prog" and r u u' and buf
    using receives_trans [OF that(3) rnn_receives [OF that(1,2)]] by simp
  show ?case
  proof (cases "length buf < n")
    case False
    then show ?thesis using 1(4,5) by (subst readAll_loop.simps) (auto intro!: readAll_resultI [of buf])
  next
    case True
    have stop: "readAll_result w0 fd n r u"
      if "receives fd buf w0 u" "\<And>x. r \<noteq> Ok x" "\<And>e. r = Throw e \<Longrightarrow> is_runtime_error e" for r u
      using that True by (intro readAll_resultI [of buf]) auto
    have thr: "receives fd buf w0 u \<Longrightarrow> readAll_result w0 fd n (Throw (RuntimeError m)) u" for m u
      by (rule stop) (auto simp: is_runtime_error_def)
    have bad: "readAll_result w0 fd n (lift_bad q) u'"
      if "rnn.keeps m" "m u = (q, u')" "receives fd buf w0 u" "\<And>e. fst (m u) \<noteq> Throw e"
      for m :: "(world, 'z) prog" and q u u'
      using stop q [OF that(1-3)] that(2,4) by (cases q) auto
    show ?thesis
    proof (subst readAll_loop.simps, simp only: True if_True, rule post_bnd, goal_cases)
      case r: (1 ready w1)
      have i1: "receives fd buf w0 w1" using q [OF waitOnSocketData_keeps(5) r 1(4)] .
      show ?case
      proof (cases ready)
        case False
        then show ?thesis
          using 1(1) [OF True r] q [OF time_now_keeps(5) _ i1] 1(5) bad [OF time_now_keeps(5) _ i1 kernel_no_Throw(2)]
          by (auto intro!: post_bnd thr)
      next
        case ready: True
        have "post (readAll_result w0 fd n) (bnd (Unix_read h fd (n - length buf)) (\<lambda>rd w2.
              if fst rd \<le> 0 then
                (let w3 = (if fst rd = 0 then w2\<lparr>errno_now := EPIPE\<rparr> else w2) in
                 if errno_now w3 = EAGAIN \<or> errno_now w3 = EWOULDBLOCK
                 then readAll_loop h fd n tm st buf w3
                 else (Throw (RuntimeError ''Failed a call to readAll''), w3))
              else bnd time_now (\<lambda>t w3. readAll_loop h fd n tm t (buf @ snd rd) w3) w2) w1)"
        proof (rule post_bnd, goal_cases)
          case u: (1 rd w2)
          note i2 = readAll_got(1) [OF i1 True u] and l = readAll_got(2) [OF i1 True u]
            and z = readAll_got(3) [OF i1 True u]
          have i3: "receives fd (buf @ snd rd) w0 (w2\<lparr>errno_now := e\<rparr>)" for e
            using i2 by (simp add: receives_def)
          have b3: "readAll_result w0 fd n (lift_bad q) w3" if "time_now w2 = (q, w3)" for q w3
            using q [OF time_now_keeps(5) that i2] l kernel_no_Throw(2) [of w2] that
            by (cases q) (auto intro!: readAll_resultI [of "buf @ snd rd"])
          show ?case
          proof (cases "fst rd \<le> 0")
            case True
            then show ?thesis
              using 1(2) [OF \<open>length buf < n\<close> r _ u] ready z i2 i3 1(5) thr by (auto simp: Let_def)
          next
            case False
            then show ?thesis
              using 1(3) [OF \<open>length buf < n\<close> r _ u] ready q [OF time_now_keeps(5) _ i2] b3 l
              by (auto intro!: post_bnd)
          qed
        next
          case (2 q w2)
          then show ?case by (rule readAll_got_bad [OF i1 True])
        qed
        then show ?thesis using ready by simp
      qed
    next
      case (2 q w1)
      then show ?case using bad [OF waitOnSocketData_keeps(5) _ 1(4) kernel_no_Throw(1)] by blast
    qed
  qed
qed

section \<open>Messages on the wire\<close>

lemma writeAllOrReturn_result:
  assumes "length buf < 2 ^ 31"
  shows "post (all_result w fd buf (\<lambda>n. n = int (length buf))) (writeAllOrReturn h fd buf w)"
  unfolding writeAllOrReturn_def
  using out_upto_quiet [OF time_now_keeps(1,4) _ out_upto_0] assms
  by (auto intro!: post_bnd writeAllOrReturn_loop_result all_result_early [where j = 0])

lemma writeAllOrThrow_result:
  assumes "length buf < 2 ^ 31"
  shows "post (all_result w fd buf (\<lambda>_. True)) (writeAllOrThrow h fd buf tm w)"
  unfolding writeAllOrThrow_def
  using out_upto_quiet [OF time_now_keeps(1,4) _ out_upto_0] assms
  by (auto intro!: post_bnd writeAllOrThrow_loop_result all_result_early [where j = 0])

lemma readAll_result_holds: "post (readAll_result w fd n) (readAll h fd n tm w)"
proof -
  have t: "receives fd [] w u" if "time_now w = (q, u)" for q u
    using rnn_receives [OF time_now_keeps(5) that] .
  have b: "readAll_result w fd n (lift_bad q) u" if "time_now w = (q, u)" for q u
    using t [OF that] kernel_no_Throw(2) [of w] that by (cases q) (auto intro!: readAll_resultI [of "[]"])
  show ?thesis unfolding readAll_def using t b by (auto intro!: post_bnd readAll_loop_result)
qed

text \<open>The frame \<^verbatim>\<open>writePacket\<close> puts around a packet.\<close>

definition packet_frame :: "Packet \<Rightarrow> string" where
  "packet_frame p = le64 (int (length (serialize p))) @ serialize p"

lemma all_resultD:
  assumes "all_result w fd buf S r w'" and "\<not> stalls w w'"
  obtains j where "j \<le> length buf" and "sends fd (take j buf) w w'" and "\<And>x. r = Ok x \<Longrightarrow> S x \<Longrightarrow> j = length buf"
  using assms by (auto simp: all_result_def out_upto_def)

lemma writeAllOrThrow_sends:
  assumes "writeAllOrThrow h fd buf tm w = (Ok (), w')" and "length buf < 2 ^ 31" and "\<not> stalls w w'"
  shows "sends fd buf w w'"
  using postD [OF writeAllOrThrow_result [OF assms(2)] assms(1)] assms(3)
  by (elim all_resultD) auto

lemma stalls_consumes:
  "consumes u v \<Longrightarrow> consumes v w \<Longrightarrow> \<not> stalls u w \<Longrightarrow> \<not> stalls u v \<and> \<not> stalls v w"
  using stalls_mono by blast

lemma le64_not_max: "int n \<le> MAX_MESSAGE \<Longrightarrow> le64_dec (le64 (int n)) = int n"
  by (intro le64_roundtrip) (auto simp: MAX_MESSAGE_def)

lemma writePacket_sends:
  assumes "writePacket h fd p w = (Ok (), w')" and "\<not> stalls w w'"
  shows "sends fd (packet_frame p) w w' \<and> int (length (serialize p)) \<le> MAX_MESSAGE"
proof -
  let ?s = "serialize p"
  have m: "int (length ?s) \<le> MAX_MESSAGE" and n: "length ?s \<noteq> 0"
    using assms(1) by (auto simp: writePacket_def Let_def serialize_def split: if_splits)
  then have "bnd (writeAllOrThrow h fd (le64 (int (length ?s))) False) (\<lambda>_. writeAllOrThrow h fd ?s False) w
      = (Ok (), w')"
    using assms(1) by (simp add: writePacket_def Let_def)
  then obtain u where u: "writeAllOrThrow h fd (le64 (int (length ?s))) False w = (Ok (), u)"
      "writeAllOrThrow h fd ?s False u = (Ok (), w')"
    by (auto elim: bnd_eq_OkE)
  have "\<not> stalls w u \<and> \<not> stalls u w'"
    using stalls_consumes assms(2) con.keepsD [OF writeAllOrThrow_keeps(1)] u by metis
  moreover have "length ?s < 2 ^ 31" using m by (simp add: MAX_MESSAGE_def)
  ultimately show ?thesis
    using sends_trans [of fd _ w u _ w'] writeAllOrThrow_sends [OF u(1)] writeAllOrThrow_sends [OF u(2)] m
    by (simp add: packet_frame_def)
qed

lemma readAll_receives:
  assumes "readAll h fd n tm w = (Ok bs, w')"
  shows "receives fd bs w w'" and "length bs = n"
  using postD [OF readAll_result_holds assms] by (auto simp: readAll_result_def)

lemma receives_unique: "receives fd a w w' \<Longrightarrow> receives fd b w w' \<Longrightarrow> a = b"
  unfolding receives_def by (metis same_append_eq)

lemma readPacket_receives:
  assumes "readPacket h fd w = (Ok (Some p), w')"
  obtains lb s where "receives fd (lb @ s) w w'" and "length lb = 8" and "le64_dec lb = int (length s)"
    and "Packet_of_string s = Ok p"
proof -
  obtain lb u where lb: "readAll h fd 8 False w = (Ok lb, u)"
      and r: "(let n = le64_dec lb in
         if n < 0 \<or> n > MAX_MESSAGE then fail (Throw (RuntimeError ''Invalid size (<0 or >128 MB)''))
         else if n = 0 then ret None
         else bnd (readAll h fd (nat n) False) (\<lambda>s.
           case Packet_of_string s of Ok p \<Rightarrow> ret (Some p) | r \<Rightarrow> fail (lift_bad r))) u = (Ok (Some p), w')"
    using assms unfolding readPacket_def by (elim bnd_eq_OkE)
  then obtain s v where s: "readAll h fd (nat (le64_dec lb)) False u = (Ok s, v)" "0 \<le> le64_dec lb"
      and q: "(case Packet_of_string s of Ok p \<Rightarrow> ret (Some p) | r \<Rightarrow> fail (lift_bad r)) v = (Ok (Some p), w')"
    by (auto simp: Let_def bnd_eq_Ok split: if_splits)
  have "Packet_of_string s = Ok p \<and> v = w'"
    using q by (auto split: outcome.splits)
  then show ?thesis
    using that [of lb s] readAll_receives [OF lb] readAll_receives [OF s(1)] s(2) receives_trans by auto
qed

lemma packet_frame_unique:
  assumes "length lb = 8" and "lb @ s = packet_frame p" and "le64_dec lb = int (length s)"
  shows "s = serialize p"
  using assms by (auto simp: packet_frame_def dest: append_eq_append_conv [THEN iffD1, rotated -1])

text \<open>A protobuf on the wire, and the bytes from which \<^verbatim>\<open>readProto\<close> gets a message.\<close>

definition proto_frame :: "string \<Rightarrow> string" where
  "proto_frame s = le64 (int (length s)) @ s"

definition frame_of :: "'m codec \<Rightarrow> 'm \<Rightarrow> string \<Rightarrow> bool" where
  "frame_of C m bs \<longleftrightarrow> (\<exists>lb s. bs = lb @ s \<and> length lb = 8 \<and> le64_dec lb = int (length s) \<and>
     ParseFromString C s = Some m)"

lemma all_result_seq:
  assumes "all_result w fd a S (Ok x) u" and "S x" and "all_result u fd b S' r w'"
  shows "all_result w fd (a @ b) S' r w'"
proof -
  have c: "consumes w u" "consumes u w'" "consumes w w'"
    using assms(1,3) con.R_trans by (auto simp: all_result_def)
  show ?thesis
  proof (cases "stalls w u \<or> stalls u w'")
    case True
    then show ?thesis using stalls_mono [OF c(1,2)] c(3) by (simp add: all_result_def)
  next
    case False
    then obtain j where j: "sends fd a w u" "j \<le> length b" "sends fd (take j b) u w'"
        "\<forall>x. r = Ok x \<longrightarrow> S' x \<longrightarrow> j = length b"
      using assms by (auto simp: all_result_def out_upto_def)
    then have "out_upto w fd (a @ b) (length a + j) w'"
      using sends_trans [OF j(1,3)] c(3) by (simp add: out_upto_def)
    then show ?thesis using j(4) c(3) unfolding all_result_def by fastforce
  qed
qed

lemma all_result_extend:
  assumes "all_result w fd a S r w'" and "\<And>x. q \<noteq> Ok x"
  shows "all_result w fd (a @ b) S' q w'"
proof -
  have "\<exists>j. out_upto w fd (a @ b) j w'" if "out_upto w fd a j w'" for j
    using that by (intro exI [of _ j]) (auto simp: out_upto_def)
  then show ?thesis using assms unfolding all_result_def by blast
qed

lemma writeProto_result:
  assumes "SerializeToString C t = Some s"
  shows "post (all_result w fd (proto_frame s) (\<lambda>_. True)) (writeProto C h fd t tm w)"
proof (cases "int (length s) > MAX_MESSAGE")
  case True
  then show ?thesis using assms by (auto simp: writeProto_def intro!: all_result_early [where j = 0])
next
  case False
  then have l: "length s < 2 ^ 31" by (simp add: MAX_MESSAGE_def)
  have h: "all_result w fd (le64 (int (length s))) (\<lambda>_. True) r u"
    if "writeAllOrThrow h fd (le64 (int (length s))) tm w = (r, u)" for r u
    using postD [OF writeAllOrThrow_result that] by simp
  have b: "post (all_result w fd (proto_frame s) (\<lambda>_. True))
      ((if length s > 0 then writeAllOrThrow h fd s tm else ret ()) u)"
    if "writeAllOrThrow h fd (le64 (int (length s))) tm w = (Ok x, u)" for x u
  proof (cases "length s > 0")
    case True
    then show ?thesis
      using all_result_seq [OF h [OF that]] writeAllOrThrow_result [OF l, of u fd h tm]
      by (auto simp: proto_frame_def post_def)
  next
    case False
    then show ?thesis using h [OF that] by (auto simp: proto_frame_def)
  qed
  have e: "all_result w fd (proto_frame s) (\<lambda>_. True) (lift_bad q) u"
    if "writeAllOrThrow h fd (le64 (int (length s))) tm w = (q, u)" for q u
    unfolding proto_frame_def by (rule all_result_extend [OF h [OF that]]) simp
  have "post (all_result w fd (proto_frame s) (\<lambda>_. True))
      (bnd (writeAllOrThrow h fd (le64 (int (length s))) tm)
        (\<lambda>_. if length s > 0 then writeAllOrThrow h fd s tm else ret ()) w)"
    using b e by (intro post_bnd) auto
  then show ?thesis using False assms by (simp add: writeProto_def)
qed

lemma readProto_receives:
  assumes "codec_ok C"
  shows "post (\<lambda>r w'. \<exists>bs. receives fd bs w w' \<and> (\<forall>m. r = Ok m \<longrightarrow> frame_of C m bs)) (readProto C h fd tm w)"
proof -
  let ?Q = "\<lambda>r w'. \<exists>bs. receives fd bs w w' \<and> (\<forall>m. r = Ok m \<longrightarrow> frame_of C m bs)"
  have bad: "?Q (lift_bad q) u" if "readAll h fd 8 tm w = (q, u)" for q u
    using postD [OF readAll_result_holds that] by (auto simp: readAll_result_def)
  have val: "post ?Q ((let length' = le64_dec lb in
     if length' < 0 \<or> length' > MAX_MESSAGE then fail (Throw (RuntimeError ''Invalid size (<0 or >128 MB)''))
     else if length' = 0 then ret (default_message C)
     else bnd (readAll h fd (nat length') tm) (\<lambda>s.
       case ParseFromString C s of None \<Rightarrow> fail (Throw (RuntimeError ''Invalid proto'')) | Some t \<Rightarrow> ret t)) u)"
    if r: "readAll h fd 8 tm w = (Ok lb, u)" for lb u
  proof -
    have lb: "receives fd lb w u" "length lb = 8" using readAll_receives [OF r] by auto
    consider "le64_dec lb < 0 \<or> le64_dec lb > MAX_MESSAGE" | "le64_dec lb = 0" | "0 < le64_dec lb" "le64_dec lb \<le> MAX_MESSAGE"
      by linarith
    then show ?thesis
    proof cases
      case 1
      then show ?thesis using lb by (auto simp: Let_def)
    next
      case 2
      then have "frame_of C (default_message C) lb"
        using lb assms unfolding frame_of_def codec_ok_def by (intro exI [of _ lb] exI [of _ "[]"]) simp
      then show ?thesis using lb 2 by (auto simp: Let_def MAX_MESSAGE_def)
    next
      case 3
      have "post ?Q (bnd (readAll h fd (nat (le64_dec lb)) tm) (\<lambda>s.
         case ParseFromString C s of None \<Rightarrow> fail (Throw (RuntimeError ''Invalid proto'')) | Some t \<Rightarrow> ret t) u)"
      proof (rule post_bnd, goal_cases)
        case (1 s v)
        have s: "receives fd (lb @ s) w v" "int (length s) = le64_dec lb"
          using receives_trans [OF lb(1) readAll_receives(1) [OF 1]] readAll_receives(2) [OF 1] 3 by auto
        then have "ParseFromString C s = Some a \<Longrightarrow> frame_of C a (lb @ s)" for a
          using lb(2) unfolding frame_of_def by (intro exI [of _ lb] exI [of _ s]) simp
        then show ?case using s(1) by (cases "ParseFromString C s") auto
      next
        case (2 q v)
        then show ?case using postD [OF readAll_result_holds 2(1)] receives_trans [OF lb(1)]
          by (fastforce simp: readAll_result_def)
      qed
      then show ?thesis using 3 by (simp add: Let_def)
    qed
  qed
  show ?thesis unfolding readProto_def by (rule post_bnd) (use val bad in auto)
qed

lemma le64_inject_len:
  assumes "int n \<le> MAX_MESSAGE"
  shows "le64_dec (le64 (int n)) = int n"
  using assms by (intro le64_roundtrip) (auto simp: MAX_MESSAGE_def)

text \<open>Frames are self-delimiting: what parses off the front of a frame is the message framed.\<close>

lemma frame_of_front:
  assumes "frame_of C m bs" and "prefix (bs @ x) (proto_frame s @ y)" and "int (length s) \<le> MAX_MESSAGE"
  shows "bs = proto_frame s \<and> ParseFromString C s = Some m \<and> prefix x y"
proof -
  obtain lb t where t: "bs = lb @ t" "length lb = 8" "le64_dec lb = int (length t)" "ParseFromString C t = Some m"
    using assms(1) by (auto simp: frame_of_def)
  obtain z where z: "lb @ t @ x @ z = le64 (int (length s)) @ s @ y"
    using assms(2) t(1) by (auto simp: proto_frame_def prefix_def)
  then have "lb = le64 (int (length s))" and r: "t @ x @ z = s @ y"
    using t(2) by (auto simp: append_eq_append_conv [of lb])
  then have "length t = length s" using t(3) le64_inject_len [OF assms(3)] by simp
  then have "t = s" and "x @ z = y" using r by (auto simp: append_eq_append_conv)
  then show ?thesis using t \<open>lb = _\<close> by (auto simp: proto_frame_def prefix_def)
qed

section \<open>Properties\<close>

definition sample_handler :: handler where
  "sample_handler = \<lparr>kind = Tcp, activeSockets = {5}, portServerSockets = Map.empty, pipeServerSockets = Map.empty\<rparr>"

definition sample_world :: "answer list \<Rightarrow> world" where
  "sample_world as = \<lparr>script = as, trace = [], errno_now = EINVAL, handlers = (\<lambda>_. sample_handler)\<rparr>"

text \<open>
  C25: \<^verbatim>\<open>writeAllOrReturn\<close> is exact. Whatever the system answers, the bytes that went out are a
  prefix of the buffer, on that descriptor and no other; if the call returns the length of the
  buffer, all of it went out. The one exception is a handler that gives up on a retryable error in
  the middle of the buffer (\<open>stalls\<close>).
\<close>

theorem writeAllOrReturn_exact:
  assumes "writeAllOrReturn h fd buf w = (r, w')" and "length buf < 2 ^ 31" and "\<not> stalls w w'"
  shows "\<exists>j\<le>length buf. sends fd (take j buf) w w' \<and> (r = Ok (int (length buf)) \<longrightarrow> j = length buf) \<and>
           handlers w' = handlers w"
proof -
  have "handlers w' = handlers w"
    using shd.keepsD [OF writeAllOrReturn_keeps(3) assms(1)] by (simp add: same_handlers_def)
  then show ?thesis
    using postD [OF writeAllOrReturn_result [OF assms(2)] assms(1)] assms(3) by (elim all_resultD) auto
qed

theorem writeAllOrReturn_exact_witness:
  "sends 5 ''abc'' (sample_world [Val 0, Val 0, Val 0, Val 1, Val 2])
     (snd (writeAllOrReturn 0 5 ''abc'' (sample_world [Val 0, Val 0, Val 0, Val 1, Val 2])))"
proof -
  let ?w = "sample_world [Val 0, Val 0, Val 0, Val 1, Val 2]"
  have r: "fst (writeAllOrReturn 0 5 ''abc'' ?w) = Ok 3" by code_simp
  have t: "trace (snd (writeAllOrReturn 0 5 ''abc'' ?w)) = [Sent 5 ''a'', Sent 5 ''bc'']" by code_simp
  then have "\<not> stalls ?w (snd (writeAllOrReturn 0 5 ''abc'' ?w))"
    by (simp add: stalls_def sample_world_def)
  then show ?thesis
    using writeAllOrReturn_exact [of 0 5 "''abc''" ?w "Ok 3", OF prod.collapse [symmetric, THEN trans]] r
    by auto
qed


text \<open>
  C26: \<^verbatim>\<open>readAll\<close> is exact. It returns only a buffer of the length asked for, made of exactly the
  bytes it took off the descriptor, in order; when it throws, it throws \<^verbatim>\<open>std::runtime_error\<close> and
  fewer bytes have come in; it never takes more than was asked for.
\<close>

theorem readAll_exact:
  assumes "readAll h fd n timeout w = (r, w')"
  shows "\<exists>bs. receives fd bs w w' \<and> length bs \<le> n \<and> (\<forall>x. r = Ok x \<longrightarrow> x = bs \<and> length bs = n) \<and>
     (\<forall>e. r = Throw e \<longrightarrow> is_runtime_error e \<and> length bs < n) \<and> handlers w' = handlers w"
proof -
  have "handlers w' = handlers w"
    using shd.keepsD [OF readAll_keeps(3) assms] by (simp add: same_handlers_def)
  then show ?thesis using postD [OF readAll_result_holds assms] by (auto simp: readAll_result_def)
qed

theorem readAll_exact_witness:
  "\<exists>bs. receives 5 bs (sample_world [Val 0, Val 1, Val 1, Data ''ab'', Val 0, Val 1, Val 1, Data ''c'', Val 0])
     (snd (readAll 0 5 3 True (sample_world [Val 0, Val 1, Val 1, Data ''ab'', Val 0, Val 1, Val 1, Data ''c'', Val 0])))
     \<and> bs = ''abc''"
proof -
  let ?w = "sample_world [Val 0, Val 1, Val 1, Data ''ab'', Val 0, Val 1, Val 1, Data ''c'', Val 0]"
  have "fst (readAll 0 5 3 True ?w) = Ok ''abc''" by code_simp
  then show ?thesis
    using readAll_exact [of 0 5 3 True ?w "Ok ''abc''" "snd (readAll 0 5 3 True ?w)"]
    by (auto simp: prod_eq_iff)
qed

text \<open>
  C6: a framed packet arrives as it was sent. When the bytes \<^verbatim>\<open>readPacket\<close> takes off its descriptor
  are the bytes a successful \<^verbatim>\<open>writePacket\<close> put on its own, the packets are equal.
\<close>

theorem packet_transfer:
  assumes "writePacket h fd p w = (Ok (), w')" and "\<not> stalls w w'"
    and "readPacket g fd' u = (Ok (Some q), u')"
    and "receives fd' bs u u'" and "sends fd bs w w'"
  shows "q = p"
proof -
  have "sends fd (packet_frame p) w w'" using writePacket_sends assms(1,2) by blast
  then have "bs = packet_frame p" using assms(5) unfolding sends_def by (metis same_append_eq)
  moreover obtain lb s where "receives fd' (lb @ s) u u'" "length lb = 8" "le64_dec lb = int (length s)"
      "Packet_of_string s = Ok q"
    using readPacket_receives [OF assms(3)] by metis
  ultimately have "Packet_of_string (serialize p) = Ok q"
    using receives_unique [OF assms(4)] packet_frame_unique by metis
  then show ?thesis by simp
qed

definition sample_writer :: world where
  "sample_writer = sample_world [Val 0, Val 0, Val 0, Val 8, Val 0, Val 0, Val 0, Val 3]"

definition sample_reader :: world where
  "sample_reader = sample_world [Val 0, Val 1, Val 1, Data (le64 3), Val 0,
     Val 0, Val 1, Val 1, Data (serialize (mkPacket 7 ''x'')), Val 0]"

lemma sample_traces [simp]: "trace sample_writer = []" "trace sample_reader = []"
  by (simp_all add: sample_writer_def sample_reader_def sample_world_def)

theorem packet_transfer_witness:
  "\<exists>q u'. readPacket 0 5 sample_reader = (Ok (Some q), u') \<and> q = mkPacket 7 ''x''"
proof -
  let ?p = "mkPacket 7 ''x''"
  have w: "fst (writePacket 0 5 ?p sample_writer) = Ok ()" by code_simp
  have tw: "trace (snd (writePacket 0 5 ?p sample_writer)) = [Sent 5 (le64 3), Sent 5 (serialize ?p)]"
    by code_simp
  have r: "fst (readPacket 0 5 sample_reader) = Ok (Some \<lparr>encrypted = False, header = 7, payload = ''x''\<rparr>)"
    by code_simp
  have tr: "trace (snd (readPacket 0 5 sample_reader)) = [Received 5 (le64 3), Received 5 (serialize ?p)]"
    by code_simp
  have "\<lparr>encrypted = False, header = 7, payload = ''x''\<rparr> = ?p"
    by (rule packet_transfer [of 0 5 ?p sample_writer "snd (writePacket 0 5 ?p sample_writer)" 0 5 sample_reader
        _ "snd (readPacket 0 5 sample_reader)" "le64 3 @ serialize ?p"])
      (use w r in \<open>auto simp: prod_eq_iff stalls_def sends_def receives_def tw tr\<close>)
  then show ?thesis using r by (auto simp: prod_eq_iff)
qed

end
