(* ===== verification/ET_Backed.thy ===== *)
theory ET_Backed
  imports ET_Transfer
begin

text \<open>
  \<^verbatim>\<open>base/BackedReader\<close> and \<^verbatim>\<open>base/BackedWriter\<close>: the two ends of a packet stream that survives a
  lost connection. An object is a record; its methods are programs over the pair of the object and
  the environment. The \<^verbatim>\<open>recoverMutex\<close> makes each method atomic. The crypto handler an object owns
  is part of its record. The 64-bit sequence numbers are integers.
\<close>

section \<open>Programs of an object\<close>

definition get_obj :: "('o \<times> world, 'o) prog" where
  "get_obj s = (Ok (fst s), s)"

definition mod_obj :: "('o \<Rightarrow> 'o) \<Rightarrow> ('o \<times> world, unit) prog" where
  "mod_obj f s = (Ok (), (f (fst s), snd s))"

text \<open>A call of the system or of another object inside a method.\<close>

definition sys :: "(world, 'a) prog \<Rightarrow> ('o \<times> world, 'a) prog" where
  "sys m s = (case m (snd s) of (r, w) \<Rightarrow> (r, (fst s, w)))"

definition sub :: "('o \<Rightarrow> 'p) \<Rightarrow> ('p \<Rightarrow> 'o \<Rightarrow> 'o) \<Rightarrow> ('p, 'a) prog \<Rightarrow> ('o \<times> world, 'a) prog" where
  "sub get put m s = (case m (get (fst s)) of (r, p) \<Rightarrow> (r, (put p (fst s), snd s)))"

lemma obj_simps [simp]:
  "get_obj (ob, w) = (Ok ob, (ob, w))"
  "mod_obj f (ob, w) = (Ok (), (f ob, w))"
  "sys m (ob, w) = (case m w of (r, w') \<Rightarrow> (r, (ob, w')))"
  "sub g p m' (ob, w) = (case m' (g ob) of (r, x) \<Rightarrow> (r, (p x ob, w)))"
  by (simp_all add: get_obj_def mod_obj_def sys_def sub_def)

lemma bnd_get_obj: "bnd get_obj f (ob, w) = f ob (ob, w)"
  by (simp add: bnd_def)

text \<open>The answers left do not grow: the frame that the loops over an object need to terminate.\<close>

definition obj_script_le :: "'o \<times> world \<Rightarrow> 'o \<times> world \<Rightarrow> bool" where
  "obj_script_le s t \<longleftrightarrow> script_le (snd s) (snd t)"

interpretation osle: frame obj_script_le
  by unfold_locales (auto simp: obj_script_le_def script_le_def)

declare osle.keeps_rules [keeps_intros]

definition outcome_prog :: "'a outcome \<Rightarrow> ('s, 'a) prog" where
  "outcome_prog r s = (r, s)"

lemma obj_keeps [keeps_intros]:
  "osle.keeps get_obj" "osle.keeps (mod_obj f)" "sle.keeps m \<Longrightarrow> osle.keeps (sys m)"
  "osle.keeps (sub g p c)" "osle.keeps (outcome_prog r)"
  by (auto simp: osle.keeps_def obj_script_le_def script_le_def get_obj_def mod_obj_def sys_def sub_def
      sle.keeps_def outcome_prog_def split: prod.splits) (metis snd_conv)

section \<open>BackedReader\<close>

record BackedReader =
  br_socketHandler :: nat
  br_crypto :: CryptoHandler
  br_socketFd :: int
  br_sequenceNumber :: int
  localBuffer :: "string list"
  partialMessage :: string

definition BackedReader_new :: "nat \<Rightarrow> CryptoHandler \<Rightarrow> int \<Rightarrow> BackedReader" where
  "BackedReader_new h ch fd = \<lparr>br_socketHandler = h, br_crypto = ch, br_socketFd = fd,
     br_sequenceNumber = 0, localBuffer = [], partialMessage = []\<rparr>"

definition BackedReader_hasData :: "(BackedReader \<times> world, bool) prog" where
  "BackedReader_hasData = bnd get_obj (\<lambda>r.
     if br_socketFd r < 0 then ret False
     else if length (localBuffer r) > 0 then ret True
     else sys (Unix_hasData (br_socketFd r)))"

definition getPartialMessageLength :: "string \<Rightarrow> int outcome" where
  "getPartialMessageLength pm =
     (if length pm < 4 then Abort ''Tried to construct a message header that wasn't complete''
      else Ok (be32_dec (take 4 pm)))"

text \<open>Decryption with the reader's own handler.\<close>

definition br_decrypt :: "sodium \<Rightarrow> Packet \<Rightarrow> (BackedReader \<times> world, Packet) prog" where
  "br_decrypt na p = sub br_crypto (\<lambda>c. br_crypto_update (\<lambda>_. c)) (Packet_decrypt na p)"

definition constructPartialMessage :: "sodium \<Rightarrow> (BackedReader \<times> world, Packet) prog" where
  "constructPartialMessage na = bnd get_obj (\<lambda>r.
     bnd (outcome_prog (getPartialMessageLength (partialMessage r))) (\<lambda>messageSize.
       if to_int32 (int (length (partialMessage r))) - 4 \<noteq> messageSize
       then fail (Abort ''Tried to construct a message that wasn't complete or over-filled'')
       else bnd (outcome_prog (Packet_of_string (take (nat messageSize) (drop 4 (partialMessage r))))) (\<lambda>p.
            bnd (br_decrypt na p) (\<lambda>q.
            bnd (mod_obj (\<lambda>r. r\<lparr>partialMessage := [], br_sequenceNumber := br_sequenceNumber r + 1\<rparr>)) (\<lambda>_.
            ret q)))))"

text \<open>
  One read of the socket into \<open>partialMessage\<close>: \<open>Some v\<close> when \<^verbatim>\<open>read\<close> returns \<open>v\<close> at once. The end
  of the stream is reported as an error with \<^verbatim>\<open>EPIPE\<close>.
\<close>

definition br_fill :: "nat \<Rightarrow> (BackedReader \<times> world, int option) prog" where
  "br_fill n = bnd get_obj (\<lambda>r.
     bnd (sys (Unix_read (br_socketHandler r) (br_socketFd r) n)) (\<lambda>rd.
       if fst rd = 0 then bnd (sys (SetErrno EPIPE)) (\<lambda>_. ret (Some (-1)))
       else if fst rd > 0 then
         bnd (mod_obj (partialMessage_update (\<lambda>pm. pm @ snd rd))) (\<lambda>_. ret None)
       else if fst rd = -1 then ret (Some (-1))
       else fail (Abort ''Read returned value outside of [-1,inf)'')))"

text \<open>
  The second half of \<^verbatim>\<open>read\<close>, from the length of the message on. \<^verbatim>\<open>string s(messageRemainder)\<close>
  throws \<^verbatim>\<open>length_error\<close> when the number is negative.
\<close>

definition br_read_body :: "sodium \<Rightarrow> (BackedReader \<times> world, int \<times> Packet option) prog" where
  "br_read_body na = bnd get_obj (\<lambda>r.
     if length (partialMessage r) < 4 then ret (0, None)
     else bnd (outcome_prog (getPartialMessageLength (partialMessage r))) (\<lambda>messageLength.
       let messageRemainder = to_int32 (messageLength - (int (length (partialMessage r)) - 4)) in
       bnd (if messageRemainder < 0 then fail (Throw LengthError)
            else if messageRemainder \<noteq> 0 then br_fill (nat messageRemainder) else ret None) (\<lambda>early.
         case early of
           Some v \<Rightarrow> ret (v, None)
         | None \<Rightarrow> bnd get_obj (\<lambda>r'.
             if messageRemainder - (int (length (partialMessage r')) - int (length (partialMessage r))) = 0
             then bnd (constructPartialMessage na) (\<lambda>p. ret (1, Some p))
             else ret (0, None)))))"

definition BackedReader_read :: "sodium \<Rightarrow> (BackedReader \<times> world, int \<times> Packet option) prog" where
  "BackedReader_read na = bnd get_obj (\<lambda>r.
     if br_socketFd r < 0 then ret (0, None)
     else if length (localBuffer r) > 0 then
       bnd (outcome_prog (Packet_of_string (hd (localBuffer r)))) (\<lambda>p.
       bnd (mod_obj (localBuffer_update tl)) (\<lambda>_.
       bnd (br_decrypt na p) (\<lambda>q. ret (1, Some q))))
     else
       bnd (if length (partialMessage r) < 4 then br_fill (4 - length (partialMessage r)) else ret None)
       (\<lambda>early. case early of Some v \<Rightarrow> ret (v, None) | None \<Rightarrow> br_read_body na))"

definition BackedReader_revive :: "int \<Rightarrow> string list \<Rightarrow> BackedReader \<Rightarrow> BackedReader" where
  "BackedReader_revive newSocketFd newLocalEntries r =
     r\<lparr>partialMessage := [], localBuffer := localBuffer r @ newLocalEntries,
       br_sequenceNumber := br_sequenceNumber r + int (length newLocalEntries),
       br_socketFd := newSocketFd\<rparr>"

definition BackedReader_invalidateSocket :: "BackedReader \<Rightarrow> BackedReader" where
  "BackedReader_invalidateSocket r = r\<lparr>br_socketFd := -1\<rparr>"

section \<open>BackedWriter\<close>

datatype BackedWriterWriteState = SKIPPED | SUCCESS | WROTE_WITH_FAILURE | BUFFERED_ONLY

definition MAX_BACKUP_BYTES :: int where "MAX_BACKUP_BYTES = 64 * 1024 * 1024"
definition DISCONNECT_BUFFER_BYTES :: int where "DISCONNECT_BUFFER_BYTES = 64 * 1024 * 1024"

text \<open>\<open>backupBuffer\<close> has the newest packet first, as the code's deque.\<close>

record BackedWriter =
  bw_socketHandler :: nat
  bw_crypto :: CryptoHandler
  bw_socketFd :: int
  backupBuffer :: "Packet list"
  backupSize :: int
  disconnectedBytes :: int
  bw_sequenceNumber :: int

definition BackedWriter_new :: "nat \<Rightarrow> CryptoHandler \<Rightarrow> int \<Rightarrow> BackedWriter" where
  "BackedWriter_new h ch fd = \<lparr>bw_socketHandler = h, bw_crypto = ch, bw_socketFd = fd,
     backupBuffer = [], backupSize = 0, disconnectedBytes = 0, bw_sequenceNumber = 0\<rparr>"

text \<open>
  The loop that drops old packets. \<^verbatim>\<open>back()\<close> of an empty deque is undefined behaviour, made
  visible here as an abort.
\<close>

function trim_backup :: "Packet list \<Rightarrow> int \<Rightarrow> (Packet list \<times> int) outcome" where
  "trim_backup bb sz =
     (if sz > MAX_BACKUP_BYTES then
        (if bb = [] then Abort ''undefined behaviour: back() of an empty deque''
         else trim_backup (butlast bb) (sz - packet_length (last bb)))
      else Ok (bb, sz))"
  by pat_completeness auto
termination
  by (relation "measure (\<lambda>(bb, sz). length bb)") auto

declare trim_backup.simps [simp del]

lemma Unix_write_shrinks:
  assumes "Unix_write h fd buf w = (Ok n, w')" and "0 \<le> n"
  shows "length (script w') < length (script w)"
proof -
  obtain t u where "time_now w = (Ok t, u)" and "Unix_write_loop fd buf t 0 u = (Ok n, w')"
    using assms by (auto simp: Unix_write_def the_handler_def SetErrno_def bnd_eq_Ok split: if_splits)
  then show ?thesis
    using script_shrinks(2) [of w t u] sle.keepsD [OF Unix_write_loop_keeps(2)]
    by (fastforce simp: script_le_def)
qed

text \<open>The loop over the socket's \<^verbatim>\<open>write\<close>; the descriptor does not change under the mutex.\<close>

function bw_write_loop :: "nat \<Rightarrow> int \<Rightarrow> string \<Rightarrow> nat \<Rightarrow> (world, BackedWriterWriteState) prog" where
  "bw_write_loop h fd s bytesWritten w =
     (if fd < 0 then (Ok WROTE_WITH_FAILURE, w)
      else bnd (Unix_write h fd (drop bytesWritten s)) (\<lambda>result w1.
        if result \<ge> 0 then
          (if bytesWritten + nat result = length s then (Ok SUCCESS, w1)
           else bw_write_loop h fd s (bytesWritten + nat result) w1)
        else (Ok WROTE_WITH_FAILURE, w1)) w)"
  by pat_completeness auto
termination
  by (relation "measure (\<lambda>(h, fd, s, k, w). length (script w))") (auto dest!: Unix_write_shrinks)

declare bw_write_loop.simps [simp del]

definition bw_encrypt :: "sodium \<Rightarrow> Packet \<Rightarrow> (BackedWriter \<times> world, Packet) prog" where
  "bw_encrypt na p = sub bw_crypto (\<lambda>c. bw_crypto_update (\<lambda>_. c)) (Packet_encrypt na p)"

definition BackedWriter_write :: "sodium \<Rightarrow> Packet \<Rightarrow> (BackedWriter \<times> world, BackedWriterWriteState) prog" where
  "BackedWriter_write na packet = bnd get_obj (\<lambda>b.
     if bw_socketFd b < 0 \<and> disconnectedBytes b + packet_length packet > DISCONNECT_BUFFER_BYTES
     then ret SKIPPED
     else bnd (bw_encrypt na packet) (\<lambda>q.
       bnd (mod_obj (\<lambda>b. b\<lparr>backupBuffer := q # backupBuffer b, backupSize := backupSize b + packet_length q,
              bw_sequenceNumber := bw_sequenceNumber b + 1\<rparr>)) (\<lambda>_.
       bnd get_obj (\<lambda>b1.
       bnd (outcome_prog (if bw_socketFd b1 \<ge> 0 then trim_backup (backupBuffer b1) (backupSize b1)
              else Ok (backupBuffer b1, backupSize b1))) (\<lambda>kept.
       bnd (mod_obj (\<lambda>b. b\<lparr>backupBuffer := fst kept, backupSize := snd kept\<rparr>)) (\<lambda>_.
         if bw_socketFd b1 < 0 then
           bnd (mod_obj (\<lambda>b. b\<lparr>disconnectedBytes := disconnectedBytes b + packet_length q\<rparr>)) (\<lambda>_.
           ret BUFFERED_ONLY)
         else
           let s = be32 (to_int32 (packet_length q)) @ serialize q in
           if packet_length q \<noteq> int (length s) - 4 then fail (Abort ''Packet header size is invalid'')
           else sys (bw_write_loop (bw_socketHandler b1) (bw_socketFd b1) s 0)))))))"

text \<open>The loop of \<^verbatim>\<open>recover\<close> over the deque, newest packet first.\<close>

fun recover_loop :: "Packet list \<Rightarrow> int \<Rightarrow> int \<Rightarrow> string list \<Rightarrow> string list outcome" where
  "recover_loop [] messagesToRecover messagesSeen retval =
     Throw (RuntimeError ''Client is too far behind server.'')"
| "recover_loop (p # ps) messagesToRecover messagesSeen retval =
     (if messagesSeen + 1 = messagesToRecover then Ok (rev (retval @ [serialize p]))
      else recover_loop ps messagesToRecover (messagesSeen + 1) (retval @ [serialize p]))"

definition BackedWriter_recover :: "int \<Rightarrow> BackedWriter \<Rightarrow> string list outcome" where
  "BackedWriter_recover lastValidSequenceNumber b =
     (if bw_socketFd b \<ge> 0 then Throw (RuntimeError ''Cannot recover when the fd is still alive'')
      else let messagesToRecover = bw_sequenceNumber b - lastValidSequenceNumber in
        if messagesToRecover < 0 then Abort ''Something went really wrong, client is ahead of server''
        else if messagesToRecover = 0 then Ok []
        else recover_loop (backupBuffer b) messagesToRecover 0 [])"

definition BackedWriter_revive :: "int \<Rightarrow> BackedWriter \<Rightarrow> BackedWriter" where
  "BackedWriter_revive newSocketFd b = b\<lparr>bw_socketFd := newSocketFd, disconnectedBytes := 0\<rparr>"

definition hasBufferCapacity :: "int \<Rightarrow> BackedWriter \<Rightarrow> bool" where
  "hasBufferCapacity bytes b \<longleftrightarrow>
     bw_socketFd b \<ge> 0 \<or> disconnectedBytes b + bytes \<le> DISCONNECT_BUFFER_BYTES"

definition BackedWriter_invalidateSocket :: "BackedWriter \<Rightarrow> BackedWriter" where
  "BackedWriter_invalidateSocket b = b\<lparr>bw_socketFd := -1\<rparr>"

lemmas backed_defs = BackedReader_new_def BackedReader_hasData_def getPartialMessageLength_def
  br_decrypt_def outcome_prog_def constructPartialMessage_def br_fill_def br_read_body_def
  BackedReader_read_def BackedReader_revive_def BackedReader_invalidateSocket_def MAX_BACKUP_BYTES_def
  DISCONNECT_BUFFER_BYTES_def BackedWriter_new_def bw_encrypt_def BackedWriter_write_def
  BackedWriter_recover_def BackedWriter_revive_def hasBufferCapacity_def BackedWriter_invalidateSocket_def

declare backed_defs [et_defs]

lemma bw_write_loop_keeps [keeps_intros]: "sle.keeps (bw_write_loop h fd s k)"
proof -
  have "script_le w (snd (bw_write_loop h fd s k w))" for w
    by (induction h fd s k w rule: bw_write_loop.induct, subst bw_write_loop.simps)
      (auto intro!: sle.keeps_bnd_at keeps_intros sle.R_refl)
  then show ?thesis by (simp add: sle.keeps_def)
qed

lemma backed_keeps [keeps_intros]:
  "osle.keeps BackedReader_hasData" "osle.keeps (br_fill n)" "osle.keeps (constructPartialMessage na)"
  "osle.keeps (br_read_body na)" "osle.keeps (BackedReader_read na)" "osle.keeps (BackedWriter_write na p)"
  unfolding BackedReader_hasData_def br_fill_def constructPartialMessage_def br_read_body_def BackedReader_read_def
    BackedWriter_write_def br_decrypt_def bw_encrypt_def Unix_hasData_def Let_def
  by (auto intro!: keeps_intros)

section \<open>The backup of the writer\<close>

definition sum_len :: "Packet list \<Rightarrow> int" where
  "sum_len ps = (\<Sum>p\<leftarrow>ps. packet_length p)"

lemma sum_len_simps [simp]:
  "sum_len [] = 0" "sum_len (p # ps) = packet_length p + sum_len ps"
  "sum_len (ps @ qs) = sum_len ps + sum_len qs"
  by (simp_all add: sum_len_def)

lemma packet_length_pos: "2 \<le> packet_length p"
  by (simp add: packet_length_def HEADER_SIZE_def)

lemma sum_len_nonneg [simp]: "0 \<le> sum_len ps"
proof (induction ps)
  case (Cons p ps)
  then show ?case using packet_length_pos [of p] by simp
qed simp

text \<open>
  The trimming loop keeps the longest front of the deque (the newest packets) that fits, and never
  looks into an empty deque.
\<close>

lemma trim_backup_spec:
  assumes "sz = sum_len bb"
  obtains k where "k \<le> length bb" and "trim_backup bb sz = Ok (take k bb, sum_len (take k bb))"
    and "sum_len (take k bb) \<le> MAX_BACKUP_BYTES"
    and "k < length bb \<Longrightarrow> sum_len (take (Suc k) bb) > MAX_BACKUP_BYTES"
  using assms
proof (induction bb sz arbitrary: thesis rule: trim_backup.induct)
  case (1 bb sz)
  show ?case
  proof (cases "sz > MAX_BACKUP_BYTES")
    case False
    then show ?thesis
      using 1(2) [of "length bb"] 1(3) by (simp add: trim_backup.simps)
  next
    case True
    have ne: "bb \<noteq> []" using True 1(3) by (auto simp: MAX_BACKUP_BYTES_def)
    then have bb: "bb = butlast bb @ [last bb]" by simp
    have "sz - packet_length (last bb) = sum_len (butlast bb)"
      using 1(3) by (subst (asm) bb) simp
    then obtain k where k: "k \<le> length (butlast bb)"
        "trim_backup (butlast bb) (sz - packet_length (last bb)) =
           Ok (take k (butlast bb), sum_len (take k (butlast bb)))"
        "sum_len (take k (butlast bb)) \<le> MAX_BACKUP_BYTES"
        "k < length (butlast bb) \<Longrightarrow> sum_len (take (Suc k) (butlast bb)) > MAX_BACKUP_BYTES"
      using 1(1) [OF True ne] by metis
    have t: "take j (butlast bb) = take j bb" if "j \<le> length (butlast bb)" for j
      using that by (subst (2) bb) simp
    have "sum_len (take (Suc k) bb) > MAX_BACKUP_BYTES"
    proof (cases "k < length (butlast bb)")
      case True
      then show ?thesis using k(4) t [of "Suc k"] by simp
    next
      case False
      then have "take (Suc k) bb = bb" using k(1) ne by (simp add: not_less)
      then show ?thesis using True 1(3) by simp
    qed
    then show ?thesis
      using 1(2) [of k] k t [of k] True ne by (simp add: trim_backup.simps [of bb sz])
  qed
qed

lemma recover_loop_spec:
  assumes "seen < n"
  shows "recover_loop ps n seen acc =
     (if n - seen \<le> int (length ps) then Ok (rev (acc @ map serialize (take (nat (n - seen)) ps)))
      else Throw (RuntimeError ''Client is too far behind server.''))"
  using assms
proof (induction ps arbitrary: seen acc)
  case (Cons p ps)
  show ?case
  proof (cases "seen + 1 = n")
    case True
    then have "nat (n - seen) = Suc 0" by simp
    with True show ?thesis by simp
  next
    case False
    then have "nat (n - seen) = Suc (nat (n - (seen + 1)))" using Cons.prems by simp
    then show ?thesis using Cons.IH [of "seen + 1" "acc @ [serialize p]"] Cons.prems False by simp
  qed
qed simp

text \<open>\<^verbatim>\<open>recover\<close> against its specification: the last packets, oldest first.\<close>

lemma BackedWriter_recover_spec:
  assumes "bw_socketFd b < 0" and "n \<le> bw_sequenceNumber b"
  shows "BackedWriter_recover n b =
     (if bw_sequenceNumber b - n \<le> int (length (backupBuffer b))
      then Ok (map serialize (rev (take (nat (bw_sequenceNumber b - n)) (backupBuffer b))))
      else Throw (RuntimeError ''Client is too far behind server.''))"
  using assms by (auto simp: BackedWriter_recover_def Let_def recover_loop_spec rev_map)

section \<open>The writer on the wire\<close>

text \<open>The bytes of a packet on the wire: its length in network order, then the packet.\<close>

definition wire_frame :: "Packet \<Rightarrow> string" where
  "wire_frame q = be32 (packet_length q) @ serialize q"

lemma length_wire_frame [simp]: "length (wire_frame q) = length (payload q) + 6"
  by (simp add: wire_frame_def serialize_def)

lemma bw_write_loop_result:
  assumes "length s < 2 ^ 31"
  shows "post (\<lambda>r w'. \<exists>j\<le>length s. sends fd (take j s) w w' \<and> (r = Ok SUCCESS \<longrightarrow> j = length s) \<and>
     (\<forall>x. r = Ok x \<longrightarrow> x = SUCCESS \<or> x = WROTE_WITH_FAILURE)) (bw_write_loop h fd s 0 w)"
proof -
  let ?Q = "\<lambda>r w'. \<exists>j\<le>length s. sends fd (take j s) w w' \<and> (r = Ok SUCCESS \<longrightarrow> j = length s) \<and>
     (\<forall>x. r = Ok x \<longrightarrow> x = SUCCESS \<or> x = WROTE_WITH_FAILURE)"
  have val: "post ?Q (if result \<ge> 0 then
          (if nat result = length s then (Ok SUCCESS, w1) else bw_write_loop h fd s (nat result) w1)
        else (Ok WROTE_WITH_FAILURE, w1))" if "Unix_write h fd s w = (Ok result, w1)" for result w1
    using postD [OF Unix_write_result [OF assms] that] by (auto simp: write_result_def out_upto_def)
  have bad: "?Q (lift_bad q) w1" if "Unix_write h fd s w = (q, w1)" for q w1
    using postD [OF Unix_write_result [OF assms] that] by (auto simp: write_result_def out_upto_def)
  show ?thesis
  proof (cases "fd < 0")
    case True
    then show ?thesis by (subst bw_write_loop.simps) (auto simp: sends_def intro: exI [of _ 0])
  next
    case False
    then show ?thesis
      using val bad by (subst bw_write_loop.simps) (simp only: if_False drop_0 add_0 post_bnd)
  qed
qed

text \<open>A writer with its books in order: the size is the size of the packets kept.\<close>

definition bw_wf :: "BackedWriter \<Rightarrow> bool" where
  "bw_wf b \<longleftrightarrow> backupSize b = sum_len (backupBuffer b) \<and> (\<forall>p\<in>set (backupBuffer b). encrypted p)"

text \<open>What the crypto handler makes of a packet.\<close>

definition seal :: "sodium \<Rightarrow> CryptoHandler \<Rightarrow> Packet \<Rightarrow> Packet" where
  "seal na ch p = p\<lparr>encrypted := True,
     payload := the (secretbox_easy na (payload p) (nonce (incrementNonce ch)) (key ch))\<rparr>"

lemma key_incrementNonce [simp]: "key (incrementNonce ch) = key ch"
  by (simp add: incrementNonce_def)

lemma seal_spec:
  assumes "sodium_ok na" and "\<not> encrypted p"
  shows "Packet_encrypt na p ch = (Ok (seal na ch p), incrementNonce ch)"
    and "Packet_decrypt na (seal na ch p) ch = (Ok p, incrementNonce ch)"
    and "encrypted (seal na ch p)" and "packet_length (seal na ch p) = packet_length p + 16"
proof -
  obtain c where c: "secretbox_easy na (payload p) (nonce (incrementNonce ch)) (key ch) = Some c"
      "length c = length (payload p) + MACBYTES"
      "secretbox_open_easy na c (nonce (incrementNonce ch)) (key ch) = Some (payload p)"
    using sodium_okD [OF assms(1)] by metis
  have "p\<lparr>encrypted := False\<rparr> = p" using assms(2) by (cases p) simp
  then show "Packet_encrypt na p ch = (Ok (seal na ch p), incrementNonce ch)"
    and "Packet_decrypt na (seal na ch p) ch = (Ok p, incrementNonce ch)"
    and "encrypted (seal na ch p)" and "packet_length (seal na ch p) = packet_length p + 16"
    using assms(2) c by (simp_all add: seal_def Packet_encrypt_def Packet_decrypt_def encrypt_def
        decrypt_def bnd_def Let_def packet_length_def MACBYTES_def)
qed

text \<open>Every way \<^verbatim>\<open>BackedWriter::write\<close> can return.\<close>

lemma BackedWriter_write_cases:
  assumes "sodium_ok na" and "\<not> encrypted p" and "packet_length p < 2 ^ 31 - 20" and "bw_wf b"
    and "BackedWriter_write na p (b, w) = (Ok st, (b', w'))"
  defines "q \<equiv> seal na (bw_crypto b) p"
  obtains (skipped) "st = SKIPPED" "bw_socketFd b < 0" "b' = b" "w' = w"
      "disconnectedBytes b + packet_length p > DISCONNECT_BUFFER_BYTES"
    | (buffered) "st = BUFFERED_ONLY" "bw_socketFd b < 0" "w' = w"
      "b' = b\<lparr>bw_crypto := incrementNonce (bw_crypto b), backupBuffer := q # backupBuffer b,
         backupSize := backupSize b + packet_length q, bw_sequenceNumber := bw_sequenceNumber b + 1,
         disconnectedBytes := disconnectedBytes b + packet_length q\<rparr>"
      "disconnectedBytes b + packet_length p \<le> DISCONNECT_BUFFER_BYTES"
    | (sent) k j where "bw_socketFd b \<ge> 0" "st = SUCCESS \<or> st = WROTE_WITH_FAILURE"
      "b' = b\<lparr>bw_crypto := incrementNonce (bw_crypto b), bw_sequenceNumber := bw_sequenceNumber b + 1,
         backupBuffer := take k (q # backupBuffer b), backupSize := sum_len (take k (q # backupBuffer b))\<rparr>"
      "sum_len (take k (q # backupBuffer b)) \<le> MAX_BACKUP_BYTES"
      "sends (bw_socketFd b) (take j (wire_frame q)) w w'" "j \<le> length (wire_frame q)"
      "st = SUCCESS \<Longrightarrow> j = length (wire_frame q)"
proof -
  let ?c = "incrementNonce (bw_crypto b)"
  have e: "bw_encrypt na p (b, w) = (Ok q, (b\<lparr>bw_crypto := ?c\<rparr>, w))"
    using assms(1,2) by (simp add: bw_encrypt_def q_def seal_spec)
  have lq: "packet_length q = packet_length p + 16" using assms(1,2) by (simp add: q_def seal_spec)
  show ?thesis
  proof (cases "bw_socketFd b < 0")
    case True
    then show ?thesis
      using assms(5) e skipped buffered
      by (auto simp: BackedWriter_write_def bnd_def outcome_prog_def split: if_splits)
  next
    case False
    obtain k where k: "trim_backup (q # backupBuffer b) (backupSize b + packet_length q) =
          Ok (take k (q # backupBuffer b), sum_len (take k (q # backupBuffer b)))"
        "sum_len (take k (q # backupBuffer b)) \<le> MAX_BACKUP_BYTES"
      using trim_backup_spec [of "backupSize b + packet_length q" "q # backupBuffer b"] assms(4)
      by (auto simp: bw_wf_def)
    have f: "be32 (to_int32 (packet_length q)) @ serialize q = wire_frame q"
      using lq assms(3) packet_length_pos [of q] by (simp add: wire_frame_def to_int32_id)
    have l: "packet_length q = int (length (wire_frame q)) - 4" "length (wire_frame q) < 2 ^ 31"
      using lq assms(3) by (auto simp: wire_frame_def packet_length_def HEADER_SIZE_def serialize_def)
    have g: "(packet_length q \<noteq> int (length (wire_frame q)) - 4) = False" using l(1) by simp
    let ?b = "b\<lparr>bw_crypto := ?c, bw_sequenceNumber := bw_sequenceNumber b + 1,
         backupBuffer := take k (q # backupBuffer b), backupSize := sum_len (take k (q # backupBuffer b))\<rparr>"
    have "sys (bw_write_loop (bw_socketHandler b) (bw_socketFd b) (wire_frame q) 0) (?b, w) = (Ok st, (b', w'))"
      using assms(5) False e k(1) g
      by (simp add: BackedWriter_write_def bnd_def outcome_prog_def Let_def f del: length_wire_frame split: if_splits)
    then have b': "b' = ?b"
        and loop: "bw_write_loop (bw_socketHandler b) (bw_socketFd b) (wire_frame q) 0 w = (Ok st, w')"
      by (auto split: prod.splits)
    show ?thesis
      using postD [OF bw_write_loop_result [OF l(2)] loop] sent [of k] False b' k(2) by auto
  qed
qed

section \<open>The reader on the wire\<close>

lemma bnd_Ok_pairE:
  assumes "bnd m f s = (Ok y, t)"
  obtains x a b where "m s = (Ok x, (a, b))" and "f x (a, b) = (Ok y, t)"
  using assms by (metis bnd_eq_OkE surj_pair)

lemma br_fill_cases:
  assumes "br_fill n (r, w) = (Ok early, (r', w'))"
  obtains rx where "receives (br_socketFd r) rx w w'" and "length rx \<le> n"
    and "r' = r\<lparr>partialMessage := partialMessage r @ rx\<rparr>"
    and "early = None \<and> rx \<noteq> [] \<or> early = Some (-1) \<and> rx = []"
proof -
  let ?m = "Unix_read (br_socketHandler r) (br_socketFd r) n"
  obtain rd w1 where rd: "?m w = (Ok rd, w1)"
    using assms by (auto simp: br_fill_def bnd_def split: prod.splits outcome.splits)
  have b: "receives (br_socketFd r) (snd rd) w w1" "length (snd rd) \<le> n"
      "fst rd = int (length (snd rd)) \<or> fst rd = -1 \<and> snd rd = []"
    using postD [OF Unix_read_result rd] by (auto simp: read_result_def)
  have e: "receives (br_socketFd r) (snd rd) w (w1\<lparr>errno_now := x\<rparr>)" for x
    using b(1) by (simp add: receives_def)
  consider "fst rd = 0" | "fst rd > 0" | "fst rd = -1" using b(3) by linarith
  then show ?thesis
  proof cases
    case 1
    then show ?thesis using assms rd b e [of EPIPE] by (intro that [of "[]"]) (auto simp: br_fill_def bnd_def SetErrno_def)
  next
    case 2
    then show ?thesis using assms rd b by (intro that [of "snd rd"]) (auto simp: br_fill_def bnd_def)
  next
    case 3
    then show ?thesis using assms rd b by (intro that [of "[]"]) (auto simp: br_fill_def bnd_def)
  qed
qed

lemma to_int32_sub:
  assumes "to_int32 a - 4 = m" and "0 \<le> a" and "a < 2 ^ 32" and "0 \<le> m"
  shows "a = m + 4"
proof -
  have "to_int32 a \<ge> 4" using assms by simp
  moreover have "a \<ge> 2 ^ 31 \<Longrightarrow> to_int32 a < 0" using assms(3) to_int32_le [of a] by simp
  ultimately have "to_int32 a = a" using assms(2) by (intro to_int32_id) linarith+
  then show ?thesis using assms(1) by simp
qed

lemma constructPartialMessage_cases:
  assumes "constructPartialMessage na (r, w) = (Ok q, (r', w'))"
  obtains p c where "4 \<le> length (partialMessage r)"
    and "to_int32 (int (length (partialMessage r))) - 4 = be32_dec (take 4 (partialMessage r))"
    and "Packet_of_string (take (nat (be32_dec (take 4 (partialMessage r)))) (drop 4 (partialMessage r))) = Ok p"
    and "Packet_decrypt na p (br_crypto r) = (Ok q, c)" and "w' = w"
    and "r' = r\<lparr>br_crypto := c, partialMessage := [], br_sequenceNumber := br_sequenceNumber r + 1\<rparr>"
proof -
  obtain p where g: "\<not> length (partialMessage r) < 4"
      "to_int32 (int (length (partialMessage r))) - 4 = be32_dec (take 4 (partialMessage r))"
      "Packet_of_string (take (nat (be32_dec (take 4 (partialMessage r)))) (drop 4 (partialMessage r))) = Ok p"
    using assms
    by (auto simp: constructPartialMessage_def bnd_eq_Ok outcome_prog_def getPartialMessageLength_def
        split: if_splits)
  obtain x c where d: "Packet_decrypt na p (br_crypto r) = (x, c)" by force
  then show ?thesis
    using assms g that [of p c]
    by (cases x) (auto simp: constructPartialMessage_def bnd_def outcome_prog_def getPartialMessageLength_def
        br_decrypt_def)
qed

text \<open>The two ways a call ends that took \<open>rx\<close> off the socket: more is missing, or a message is complete.\<close>

definition br_partial :: "BackedReader \<Rightarrow> string \<Rightarrow> int \<times> Packet option \<Rightarrow> BackedReader \<Rightarrow> bool" where
  "br_partial r rx res r' \<longleftrightarrow>
     fst res \<le> 0 \<and> snd res = None \<and> r' = r\<lparr>partialMessage := partialMessage r @ rx\<rparr> \<and>
     (let X = partialMessage r @ rx; m = be32_dec (take 4 X) in
      4 \<le> length X \<longrightarrow> 0 \<le> m \<longrightarrow> int (length X) < m + 4)"

definition br_complete :: "sodium \<Rightarrow> BackedReader \<Rightarrow> string \<Rightarrow> int \<times> Packet option \<Rightarrow> BackedReader \<Rightarrow> bool" where
  "br_complete na r rx res r' \<longleftrightarrow> (\<exists>p q c. let X = partialMessage r @ rx; m = be32_dec (take 4 X) in
     res = (1, Some q) \<and> 4 \<le> length X \<and>
     (0 \<le> m \<longrightarrow> int (length X) = m + 4 \<and> Packet_of_string (drop 4 X) = Ok p \<and>
        Packet_decrypt na p (br_crypto r) = (Ok q, c) \<and>
        r' = r\<lparr>br_crypto := c, partialMessage := [], br_sequenceNumber := br_sequenceNumber r + 1\<rparr>))"

lemma br_construct_complete:
  assumes "constructPartialMessage na (r\<lparr>partialMessage := partialMessage r @ rx\<rparr>, w) = (Ok q, (r', w'))"
    and "length (partialMessage r @ rx) < 2 ^ 32"
  shows "br_complete na r rx (1, Some q) r'"
proof -
  define X where "X = partialMessage r @ rx"
  obtain p c where g: "4 \<le> length X" "to_int32 (int (length X)) - 4 = be32_dec (take 4 X)"
    "Packet_of_string (take (nat (be32_dec (take 4 X))) (drop 4 X)) = Ok p"
    "Packet_decrypt na p (br_crypto r) = (Ok q, c)"
    "r' = r\<lparr>br_crypto := c, partialMessage := [], br_sequenceNumber := br_sequenceNumber r + 1\<rparr>"
    using constructPartialMessage_cases [OF assms(1) [folded X_def]] by simp metis
  have "0 \<le> be32_dec (take 4 X) \<Longrightarrow> int (length X) = be32_dec (take 4 X) + 4"
    using to_int32_sub [OF g(2)] assms(2) by (simp add: X_def)
  then show ?thesis using g unfolding br_complete_def Let_def X_def [symmetric] by auto
qed

lemma receives_refl [simp]: "receives fd [] w w"
  by (simp add: receives_def)

lemma br_partial_short:
  "n \<le> 0 \<Longrightarrow> length (partialMessage r) < 4 \<Longrightarrow> br_partial r [] (n, None) r"
  by (simp add: br_partial_def)

lemma construct_then_one:
  assumes "bnd (constructPartialMessage na) (\<lambda>p. ret (1, Some p)) (r\<lparr>partialMessage := partialMessage r @ rx\<rparr>, w) =
      (Ok res, (r', w'))" and "length (partialMessage r @ rx) < 2 ^ 32"
  shows "br_complete na r rx res r' \<and> w' = w"
  using assms br_construct_complete
  by (fastforce simp: bnd_eq_Ok elim: constructPartialMessage_cases)

lemma br_read_body_cases:
  assumes "br_read_body na (r, w) = (Ok res, (r', w'))" and "length (partialMessage r) < 2 ^ 31"
  obtains rx where "receives (br_socketFd r) rx w w'"
    and "br_partial r rx res r' \<or> br_complete na r rx res r'"
proof (cases "length (partialMessage r) < 4")
  case True
  then show ?thesis using assms(1) that [of "[]"] by (auto simp: br_read_body_def bnd_def br_partial_short)
next
  case False
  let ?pm = "partialMessage r"
  define rem where "rem = to_int32 (be32_dec (take 4 ?pm) - (int (length ?pm) - 4))"
  have rb: "rem < 2 ^ 31" using to_int32_bounds by (simp add: rem_def)
  have rm: "rem = be32_dec (take 4 ?pm) + 4 - int (length ?pm)" if "0 \<le> be32_dec (take 4 ?pm)"
    using that False assms(2) to_int32_bounds [of "le_val (rev (take 4 ?pm))"]
    unfolding rem_def by (subst to_int32_id) (auto simp: be32_dec_def)
  obtain early r1 w1 where fill: "(if rem < 0 then fail (Throw LengthError)
        else if rem \<noteq> 0 then br_fill (nat rem) else ret None) (r, w) = (Ok early, (r1, w1))"
      and rest: "(case early of Some v \<Rightarrow> ret (v, None)
         | None \<Rightarrow> bnd get_obj (\<lambda>r'.
             if rem - (int (length (partialMessage r')) - int (length ?pm)) = 0
             then bnd (constructPartialMessage na) (\<lambda>p. ret (1, Some p)) else ret (0, None))) (r1, w1)
         = (Ok res, (r', w'))"
  proof -
    have "br_read_body na (r, w) = bnd (if rem < 0 then fail (Throw LengthError)
        else if rem \<noteq> 0 then br_fill (nat rem) else ret None) (\<lambda>early. case early of Some v \<Rightarrow> ret (v, None)
         | None \<Rightarrow> bnd get_obj (\<lambda>r'.
             if rem - (int (length (partialMessage r')) - int (length ?pm)) = 0
             then bnd (constructPartialMessage na) (\<lambda>p. ret (1, Some p)) else ret (0, None))) (r, w)"
      using False by (simp add: br_read_body_def bnd_def [of get_obj] bnd_def [of "outcome_prog _"]
          outcome_prog_def getPartialMessageLength_def Let_def rem_def cong: option.case_cong)
    from trans [OF this [symmetric] assms(1)] show ?thesis by (rule bnd_Ok_pairE) (rule that)
  qed
  have r0: "0 \<le> rem" using fill by (auto split: if_splits)
  obtain rx where rx: "receives (br_socketFd r) rx w w1" "length rx \<le> nat rem"
      "r1 = r\<lparr>partialMessage := ?pm @ rx\<rparr>" "early = None \<or> early = Some (-1) \<and> rx = [] \<and> rem > 0"
  proof (cases "rem > 0")
    case True
    then have "br_fill (nat rem) (r, w) = (Ok early, (r1, w1))" using fill by simp
    then show ?thesis by (rule br_fill_cases) (rule that, use True in auto)
  next
    case False
    then have "early = None \<and> r1 = r \<and> w1 = w" using fill by (simp split: if_splits)
    then show ?thesis by (intro that [of "[]"]) simp_all
  qed
  show ?thesis
  proof (cases early)
    case (Some v)
    then have "br_partial r [] res r'" using rx rest rm by (auto simp: br_partial_def Let_def)
    then show ?thesis using rx rest that [of "[]"] Some by simp
  next
    case None
    have t4: "take 4 (?pm @ rx) = take 4 ?pm" using False by simp
    have "br_partial r rx res r' \<and> w1 = w'" if "rem \<noteq> int (length rx)"
      using that rx(2,3) rest None rm t4 r0 by (auto simp: bnd_def [of get_obj] br_partial_def Let_def)
    then show ?thesis
      using rx rest that [of rx] construct_then_one [of na r rx w1 res r' w'] assms(2) rb None
      by (cases "rem = int (length rx)") (auto simp: bnd_def [of get_obj])
  qed
qed

lemma localBuffer_update_tl: "localBuffer_update tl r = r\<lparr>localBuffer := tl (localBuffer r)\<rparr>" for r :: BackedReader
  by (cases r) simp

lemma BackedReader_read_cases:
  assumes "BackedReader_read na (r, w) = (Ok res, (r', w'))" and "length (partialMessage r) < 2 ^ 31"
  obtains (dead) "br_socketFd r < 0" "res = (0, None)" "r' = r" "w' = w"
    | (local) p q c where "br_socketFd r \<ge> 0" "localBuffer r \<noteq> []" "res = (1, Some q)"
      "Packet_of_string (hd (localBuffer r)) = Ok p" "Packet_decrypt na p (br_crypto r) = (Ok q, c)"
      "r' = r\<lparr>localBuffer := tl (localBuffer r), br_crypto := c\<rparr>" "w' = w"
    | (stream) rx where "br_socketFd r \<ge> 0" "localBuffer r = []" "receives (br_socketFd r) rx w w'"
      "br_partial r rx res r' \<or> br_complete na r rx res r'"
proof -
  have dead_or: ?thesis if d: "br_socketFd r < 0"
  proof -
    have "res = (0, None) \<and> r' = r \<and> w' = w"
      using assms(1) d by (simp add: BackedReader_read_def bnd_def [of get_obj])
    then show ?thesis using dead d by blast
  qed
  have local_or: ?thesis if l: "br_socketFd r \<ge> 0" "localBuffer r \<noteq> []"
  proof -
    have e: "BackedReader_read na (r, w) = bnd (outcome_prog (Packet_of_string (hd (localBuffer r)))) (\<lambda>p.
        bnd (mod_obj (localBuffer_update tl)) (\<lambda>_. bnd (br_decrypt na p) (\<lambda>q. ret (1, Some q)))) (r, w)"
      using l by (simp add: BackedReader_read_def bnd_def [of get_obj])
    note run = trans [OF e [symmetric] assms(1)]
    then obtain p where p: "Packet_of_string (hd (localBuffer r)) = Ok p"
      by (auto simp: bnd_eq_Ok outcome_prog_def)
    obtain x c where d: "Packet_decrypt na p (br_crypto r) = (x, c)" by force
    then show ?thesis
      using run l p local [of _ p c] localBuffer_update_tl
      by (cases x) (auto simp: bnd_def outcome_prog_def br_decrypt_def)
  qed
  have stream_or: ?thesis if l: "br_socketFd r \<ge> 0" "localBuffer r = []"
  proof -
    let ?pm = "partialMessage r"
    obtain early r1 w1 where fill: "(if length ?pm < 4 then br_fill (4 - length ?pm) else ret None) (r, w) =
          (Ok early, (r1, w1))"
        and rest: "(case early of Some v \<Rightarrow> ret (v, None) | None \<Rightarrow> br_read_body na) (r1, w1) = (Ok res, (r', w'))"
    proof -
      have "BackedReader_read na (r, w) = bnd (if length ?pm < 4 then br_fill (4 - length ?pm) else ret None)
          (\<lambda>early. case early of Some v \<Rightarrow> ret (v, None) | None \<Rightarrow> br_read_body na) (r, w)"
        using l by (simp add: BackedReader_read_def bnd_def [of get_obj])
      from trans [OF this [symmetric] assms(1)] show ?thesis by (rule bnd_Ok_pairE) (rule that)
    qed
    obtain rx where rx: "receives (br_socketFd r) rx w w1" "length rx \<le> 4"
        "r1 = r\<lparr>partialMessage := ?pm @ rx\<rparr>" "early = None \<or> early = Some (-1) \<and> rx = [] \<and> length ?pm < 4"
        "length (?pm @ rx) < 2 ^ 31"
    proof (cases "length ?pm < 4")
      case True
      then have "br_fill (4 - length ?pm) (r, w) = (Ok early, (r1, w1))" using fill by simp
      then show ?thesis by (rule br_fill_cases) (rule that, use True in auto)
    next
      case False
      then have "early = None \<and> r1 = r \<and> w1 = w" using fill by simp
      then show ?thesis using assms(2) by (intro that [of "[]"]) simp_all
    qed
    show ?thesis
    proof (cases early)
      case (Some v)
      then show ?thesis using rx rest stream [of "[]"] l by (auto simp: br_partial_short)
    next
      case None
      then have "br_read_body na (r1, w1) = (Ok res, (r', w'))" using rest by simp
      then obtain rx2 where rx2: "receives (br_socketFd r1) rx2 w1 w'"
          "br_partial r1 rx2 res r' \<or> br_complete na r1 rx2 res r'"
        using br_read_body_cases [of na r1 w1 res r' w'] rx by auto
      then have "br_partial r (rx @ rx2) res r' \<or> br_complete na r (rx @ rx2) res r'"
        using rx(3) by (auto simp: br_partial_def br_complete_def Let_def)
      then show ?thesis using stream [of "rx @ rx2"] l receives_trans [OF rx(1)] rx2(1) rx(3) by simp
    qed
  qed
  show ?thesis using dead_or local_or stream_or by (meson not_le)
qed

section \<open>Properties\<close>

definition sample_backed :: "int \<Rightarrow> BackedWriter" where
  "sample_backed fd = (BackedWriter_new 0 \<lparr>nonce = [0, 0], key = ''k''\<rparr> fd)
     \<lparr>backupBuffer := [\<lparr>encrypted = True, header = 2, payload = ''cd''\<rparr>, \<lparr>encrypted = True, header = 1, payload = ''ab''\<rparr>],
       backupSize := 8, bw_sequenceNumber := 2\<rparr>"

lemma sample_backed_wf: "bw_wf (sample_backed fd)"
  by (simp add: bw_wf_def sample_backed_def BackedWriter_new_def packet_length_def HEADER_SIZE_def)

text \<open>
  C13: what a write keeps. The size the writer books is the size of the packets it holds; an accepted
  packet gets the next sequence number; without a socket nothing is ever dropped and nothing is sent;
  with one, the backup fits \<open>MAX_BACKUP_BYTES\<close> afterwards and is the front of what it was.
\<close>

theorem BackedWriter_write_keeps:
  assumes "sodium_ok na" and "\<not> encrypted p" and "packet_length p < 2 ^ 31 - 20" and "bw_wf b"
    and "BackedWriter_write na p (b, w) = (Ok st, (b', w'))"
  shows "bw_wf b' \<and> bw_sequenceNumber b' = bw_sequenceNumber b + (if st = SKIPPED then 0 else 1) \<and>
     (if bw_socketFd b < 0
      then w' = w \<and> (st = SKIPPED \<and> b' = b \<or>
             st = BUFFERED_ONLY \<and> backupBuffer b' = seal na (bw_crypto b) p # backupBuffer b \<and>
             disconnectedBytes b + packet_length p \<le> DISCONNECT_BUFFER_BYTES)
      else backupSize b' \<le> MAX_BACKUP_BYTES \<and>
           (\<exists>k. backupBuffer b' = take k (seal na (bw_crypto b) p # backupBuffer b)))"
proof -
  have e: "encrypted (seal na (bw_crypto b) p)" using seal_spec(3) [OF assms(1,2)] .
  have sub: "set (take k (seal na (bw_crypto b) p # backupBuffer b)) \<subseteq> insert (seal na (bw_crypto b) p) (set (backupBuffer b))" for k
    using set_take_subset by fastforce
  from assms show ?thesis
  proof (cases rule: BackedWriter_write_cases)
    case skipped
    then show ?thesis using assms(4) by simp
  next
    case buffered
    then show ?thesis using assms(4) e by (simp add: bw_wf_def)
  next
    case (sent k j)
    then show ?thesis using assms(4) e sub [of k] by (auto simp: bw_wf_def)
  qed
qed

theorem BackedWriter_write_keeps_witness:
  "\<exists>st b' w'. BackedWriter_write clear_sodium (mkPacket 3 ''ef'') (sample_backed (-1), sample_world []) = (Ok st, (b', w')) \<and>
     bw_wf b' \<and> bw_sequenceNumber b' = 3 \<and> st = BUFFERED_ONLY"
proof -
  let ?x = "BackedWriter_write clear_sodium (mkPacket 3 ''ef'') (sample_backed (-1), sample_world [])"
  have r: "fst ?x = Ok BUFFERED_ONLY" by code_simp
  then have "?x = (Ok BUFFERED_ONLY, (fst (snd ?x), snd (snd ?x)))" by (simp add: prod_eq_iff)
  moreover from BackedWriter_write_keeps [OF clear_sodium_ok _ _ sample_backed_wf this]
  have "bw_wf (fst (snd ?x)) \<and> bw_sequenceNumber (fst (snd ?x)) = 3"
    by (simp add: mkPacket_def packet_length_def HEADER_SIZE_def sample_backed_def BackedWriter_new_def split: if_splits)
  ultimately show ?thesis by blast
qed

text \<open>
  C11: \<^verbatim>\<open>recover\<close> hands over exactly the packets the other side is missing, oldest first, or refuses. With
  the socket gone and the other side not ahead, the result is the last packets of the backup in the
  order they were written when the backup still holds them all, and \<^verbatim>\<open>runtime_error\<close> otherwise.
\<close>

theorem BackedWriter_recover_exact:
  assumes "bw_socketFd b < 0" and "n \<le> bw_sequenceNumber b"
  shows "BackedWriter_recover n b =
     (let k = nat (bw_sequenceNumber b - n) in
      if k \<le> length (backupBuffer b) then Ok (map serialize (rev (take k (backupBuffer b))))
      else Throw (RuntimeError ''Client is too far behind server.''))"
proof -
  have "(bw_sequenceNumber b - n \<le> int (length (backupBuffer b))) = (nat (bw_sequenceNumber b - n) \<le> length (backupBuffer b))"
    by linarith
  then show ?thesis using BackedWriter_recover_spec [OF assms] by (simp add: Let_def)
qed

theorem BackedWriter_recover_exact_witness:
  "BackedWriter_recover 1 (sample_backed (-1)) = Ok [serialize \<lparr>encrypted = True, header = 2, payload = ''cd''\<rparr>]"
  using BackedWriter_recover_exact [of "sample_backed (-1)" 1] by (simp add: sample_backed_def BackedWriter_new_def)



end
