(* ===== verification/ET_Connection.thy ===== *)
theory ET_Connection
  imports ET_Backed
begin

text \<open>
  \<^verbatim>\<open>base/Connection\<close>, \<^verbatim>\<open>base/ClientConnection\<close> and \<^verbatim>\<open>base/ServerClientConnection\<close>: one end of a
  session. The two derived classes are one record with the flag \<open>isClient\<close>, which the virtual
  \<^verbatim>\<open>closeSocketAndMaybeReconnect\<close> dispatches on. The reconnect thread of a client is a value: not
  there, running, or finished and not yet joined; a round of its loop is a program. The protobuf
  codecs are parameters, collected in \<open>protos\<close>.
\<close>

section \<open>Messages of the handshake\<close>

datatype ConnectStatus = NEW_CLIENT | RETURNING_CLIENT | INVALID_KEY | MISMATCHED_PROTOCOL

record ConnectRequest =
  clientId :: "string option"
  version :: "int option"

record ConnectResponse =
  status :: "ConnectStatus option"
  error_text :: "string option"

record SequenceHeader =
  sequenceNumber :: "int option"

type_synonym CatchupBuffer = "string list"

record protos =
  ConnectRequest_codec :: "ConnectRequest codec"
  ConnectResponse_codec :: "ConnectResponse codec"
  SequenceHeader_codec :: "SequenceHeader codec"
  CatchupBuffer_codec :: "CatchupBuffer codec"

definition protos_ok :: "protos \<Rightarrow> bool" where
  "protos_ok P \<longleftrightarrow> codec_ok (ConnectRequest_codec P) \<and> codec_ok (ConnectResponse_codec P) \<and>
     codec_ok (SequenceHeader_codec P) \<and> codec_ok (CatchupBuffer_codec P)"

text \<open>The getters of optional fields give the default of the type when the field is not set.\<close>

definition get_status :: "ConnectResponse \<Rightarrow> ConnectStatus" where
  "get_status r = (case status r of None \<Rightarrow> NEW_CLIENT | Some s \<Rightarrow> s)"

definition get_sequencenumber :: "SequenceHeader \<Rightarrow> int" where
  "get_sequencenumber h = (case sequenceNumber h of None \<Rightarrow> 0 | Some n \<Rightarrow> n)"

definition get_version :: "ConnectRequest \<Rightarrow> int" where
  "get_version r = (case version r of None \<Rightarrow> 0 | Some v \<Rightarrow> v)"

definition get_clientid :: "ConnectRequest \<Rightarrow> string" where
  "get_clientid r = (case clientId r of None \<Rightarrow> [] | Some i \<Rightarrow> i)"

definition PROTOCOL_VERSION :: int where "PROTOCOL_VERSION = 6"

section \<open>Connection\<close>

datatype reconnect_thread = NoThread | Running | Finished

record Connection =
  c_socketHandler :: nat
  c_id :: string
  c_key :: string
  reader :: "BackedReader option"
  writer :: "BackedWriter option"
  c_socketFd :: int
  shuttingDown :: bool
  isClient :: bool
  remoteEndpoint :: SocketEndpoint
  reconnectThread :: reconnect_thread

type_synonym 'a conn_prog = "(Connection \<times> world, 'a) prog"

definition Connection_new :: "nat \<Rightarrow> string \<Rightarrow> string \<Rightarrow> Connection" where
  "Connection_new h i k = \<lparr>c_socketHandler = h, c_id = i, c_key = k, reader = None, writer = None,
     c_socketFd = -1, shuttingDown = False, isClient = False,
     remoteEndpoint = \<lparr>ep_name = None, ep_port = None\<rparr>, reconnectThread = NoThread\<rparr>"

definition isSkippableError :: "errno \<Rightarrow> bool" where
  "isSkippableError e \<longleftrightarrow> e \<in> {EAGAIN, ECONNRESET, ETIMEDOUT, EWOULDBLOCK, EHOSTUNREACH, EPIPE, ENOTCONN,
     ECONNABORTED, ENETDOWN, ENETUNREACH, ENETRESET, EHOSTDOWN, EPROTOTYPE, EBADF}"

text \<open>A method of the reader or the writer the connection owns; a null pointer is dereferenced otherwise.\<close>

definition on_reader :: "(BackedReader \<times> world, 'a) prog \<Rightarrow> 'a conn_prog" where
  "on_reader m s = (case reader (fst s) of
      None \<Rightarrow> (Abort ''null reader'', s)
    | Some r \<Rightarrow> (case m (r, snd s) of (x, (r', w)) \<Rightarrow> (x, ((fst s)\<lparr>reader := Some r'\<rparr>, w))))"

definition on_writer :: "(BackedWriter \<times> world, 'a) prog \<Rightarrow> 'a conn_prog" where
  "on_writer m s = (case writer (fst s) of
      None \<Rightarrow> (Abort ''null writer'', s)
    | Some b \<Rightarrow> (case m (b, snd s) of (x, (b', w)) \<Rightarrow> (x, ((fst s)\<lparr>writer := Some b'\<rparr>, w))))"

definition Connection_closeSocket :: "unit conn_prog" where
  "Connection_closeSocket = bnd get_obj (\<lambda>c.
     if c_socketFd c = -1 then ret ()
     else bnd (mod_obj (\<lambda>c. c\<lparr>reader := map_option BackedReader_invalidateSocket (reader c),
                 writer := map_option BackedWriter_invalidateSocket (writer c),
                 c_socketFd := -1\<rparr>)) (\<lambda>_.
          sys (Unix_close (c_socketHandler c) (c_socketFd c))))"

text \<open>\<^verbatim>\<open>join\<close> returns only once the thread has finished.\<close>

definition waitReconnect :: "unit conn_prog" where
  "waitReconnect = bnd get_obj (\<lambda>c.
     case reconnectThread c of
       NoThread \<Rightarrow> ret ()
     | Running \<Rightarrow> fail Blocked
     | Finished \<Rightarrow> mod_obj (\<lambda>c. c\<lparr>reconnectThread := NoThread\<rparr>))"

definition Client_closeSocketAndMaybeReconnect :: "unit conn_prog" where
  "Client_closeSocketAndMaybeReconnect =
     bnd waitReconnect (\<lambda>_. bnd Connection_closeSocket (\<lambda>_. bnd get_obj (\<lambda>c.
       if \<not> shuttingDown c then mod_obj (\<lambda>c. c\<lparr>reconnectThread := Running\<rparr>) else ret ())))"

definition closeSocketAndMaybeReconnect :: "unit conn_prog" where
  "closeSocketAndMaybeReconnect = bnd get_obj (\<lambda>c.
     if isClient c then Client_closeSocketAndMaybeReconnect else Connection_closeSocket)"

definition Connection_read :: "sodium \<Rightarrow> (bool \<times> Packet option) conn_prog" where
  "Connection_read na = bnd get_obj (\<lambda>c.
     if reader c = None then ret (False, None)
     else bnd (on_reader (BackedReader_read na)) (\<lambda>res. bnd (sys GetErrno) (\<lambda>localErrno.
       if fst res = -1 then
         (if isSkippableError localErrno then bnd closeSocketAndMaybeReconnect (\<lambda>_. ret (False, snd res))
          else bnd closeSocketAndMaybeReconnect (\<lambda>_. ret (False, snd res)))
       else ret (fst res > 0, snd res))))"

definition Connection_write :: "sodium \<Rightarrow> Packet \<Rightarrow> bool conn_prog" where
  "Connection_write na packet = bnd get_obj (\<lambda>c.
     if writer c = None then ret False
     else bnd (on_writer (BackedWriter_write na packet)) (\<lambda>bwws. bnd (sys GetErrno) (\<lambda>writeErrno.
       case bwws of
         SKIPPED \<Rightarrow> ret False
       | BUFFERED_ONLY \<Rightarrow> ret True
       | SUCCESS \<Rightarrow> ret True
       | WROTE_WITH_FAILURE \<Rightarrow>
           bnd get_obj (\<lambda>c.
             if c_socketFd c = -1 then ret True
             else if isSkippableError writeErrno then bnd closeSocketAndMaybeReconnect (\<lambda>_. ret True)
             else bnd closeSocketAndMaybeReconnect (\<lambda>_. ret True)))))"

definition Connection_readPacket :: "sodium \<Rightarrow> (bool \<times> Packet option) conn_prog" where
  "Connection_readPacket na = bnd get_obj (\<lambda>c.
     if shuttingDown c then ret (False, None) else Connection_read na)"

text \<open>
  The loop of \<^verbatim>\<open>writePacket\<close>: a round that does not succeed is repeated until another thread changes
  the connection, so that the call does not return before one does.
\<close>

definition Connection_writePacket :: "sodium \<Rightarrow> Packet \<Rightarrow> unit conn_prog" where
  "Connection_writePacket na packet = bnd get_obj (\<lambda>c.
     if shuttingDown c then ret ()
     else bnd (Connection_write na packet) (\<lambda>success. if success then ret () else fail Blocked))"

definition Connection_recover :: "protos \<Rightarrow> int \<Rightarrow> bool conn_prog" where
  "Connection_recover P newSocketFd = bnd get_obj (\<lambda>c.
     case (reader c, writer c) of
       (Some r, Some b) \<Rightarrow>
         catch_runtime
           (bnd (sys (writeProto (SequenceHeader_codec P) (c_socketHandler c) newSocketFd
                   \<lparr>sequenceNumber = Some (to_int32 (br_sequenceNumber r))\<rparr> True)) (\<lambda>_.
            bnd (sys (readProto (SequenceHeader_codec P) (c_socketHandler c) newSocketFd True)) (\<lambda>remoteHeader.
            bnd (outcome_prog (BackedWriter_recover (get_sequencenumber remoteHeader) b)) (\<lambda>recovered.
            bnd (sys (writeProto (CatchupBuffer_codec P) (c_socketHandler c) newSocketFd recovered True)) (\<lambda>_.
            bnd (sys (readProto (CatchupBuffer_codec P) (c_socketHandler c) newSocketFd True)) (\<lambda>catchup.
            bnd (mod_obj (\<lambda>c. c\<lparr>c_socketFd := newSocketFd,
                   reader := Some (BackedReader_revive newSocketFd catchup r),
                   writer := Some (BackedWriter_revive newSocketFd b)\<rparr>)) (\<lambda>_.
            ret True)))))))
           (\<lambda>_. bnd (sys (Unix_close (c_socketHandler c) newSocketFd)) (\<lambda>_. ret False))
     | _ \<Rightarrow> fail (Abort ''null reader or writer''))"

definition Connection_shutdown :: "unit conn_prog" where
  "Connection_shutdown = bnd (mod_obj (\<lambda>c. c\<lparr>shuttingDown := True\<rparr>)) (\<lambda>_. Connection_closeSocket)"

definition isDisconnected :: "Connection \<Rightarrow> bool" where
  "isDisconnected c \<longleftrightarrow> c_socketFd c = -1"

definition canBufferWrite :: "int \<Rightarrow> Connection \<Rightarrow> bool" where
  "canBufferWrite bytes c \<longleftrightarrow>
     shuttingDown c \<or> (case writer c of None \<Rightarrow> False | Some b \<Rightarrow> hasBufferCapacity bytes b)"

definition Connection_hasData :: "bool conn_prog" where
  "Connection_hasData = bnd get_obj (\<lambda>c.
     if reader c = None then ret False else on_reader BackedReader_hasData)"

section \<open>ClientConnection\<close>

definition ClientConnection_new :: "nat \<Rightarrow> SocketEndpoint \<Rightarrow> string \<Rightarrow> string \<Rightarrow> Connection" where
  "ClientConnection_new h ep i k = (Connection_new h i k)\<lparr>isClient := True, remoteEndpoint := ep\<rparr>"

definition connect_request :: "Connection \<Rightarrow> ConnectRequest" where
  "connect_request c = \<lparr>clientId = Some (c_id c), version = Some PROTOCOL_VERSION\<rparr>"

text \<open>
  \<^verbatim>\<open>connect\<close>: after a failure the socket is closed but \<open>c_socketFd\<close> keeps its number.
\<close>

definition Client_connect :: "sodium \<Rightarrow> protos \<Rightarrow> bool conn_prog" where
  "Client_connect na P = bnd get_obj (\<lambda>c.
     catch_runtime
       (bnd (sys (sh_connect (c_socketHandler c) (remoteEndpoint c))) (\<lambda>fd.
        bnd (mod_obj (\<lambda>c. c\<lparr>c_socketFd := fd\<rparr>)) (\<lambda>_.
          if fd = -1 then ret False
          else
            bnd (sys (writeProto (ConnectRequest_codec P) (c_socketHandler c) fd (connect_request c) True)) (\<lambda>_.
            bnd (sys (readProto (ConnectResponse_codec P) (c_socketHandler c) fd True)) (\<lambda>response.
              if get_status response \<noteq> NEW_CLIENT \<and> get_status response \<noteq> RETURNING_CLIENT then
                fail (Throw (RuntimeError ''Error connecting to server''))
              else
                bnd (outcome_prog (CryptoHandler_new na (c_key c) SERVER_CLIENT_NONCE_MSB)) (\<lambda>rch.
                bnd (mod_obj (\<lambda>c. c\<lparr>reader := Some (BackedReader_new (c_socketHandler c) rch fd)\<rparr>)) (\<lambda>_.
                bnd (outcome_prog (CryptoHandler_new na (c_key c) CLIENT_SERVER_NONCE_MSB)) (\<lambda>wch.
                bnd (mod_obj (\<lambda>c. c\<lparr>writer := Some (BackedWriter_new (c_socketHandler c) wch fd)\<rparr>)) (\<lambda>_.
                ret True)))))))))
       (\<lambda>_. bnd get_obj (\<lambda>c.
          if c_socketFd c \<noteq> -1 then
            bnd (sys (Unix_close (c_socketHandler c) (c_socketFd c))) (\<lambda>_. ret False)
          else ret False)))"

text \<open>
  One round of the reconnect thread's loop, under the connection's mutex: \<open>True\<close> when the thread
  is done. \<^verbatim>\<open>catch (...)\<close> swallows every other exception and leaves the new socket open.
\<close>

definition reconnect_attempt :: "protos \<Rightarrow> int \<Rightarrow> bool conn_prog" where
  "reconnect_attempt P newSocketFd = bnd get_obj (\<lambda>c.
     catch_runtime
       (bnd (sys (writeProto (ConnectRequest_codec P) (c_socketHandler c) newSocketFd (connect_request c) True)) (\<lambda>_.
        bnd (sys (readProto (ConnectResponse_codec P) (c_socketHandler c) newSocketFd True)) (\<lambda>response.
          if get_status response = INVALID_KEY then
            bnd (mod_obj (\<lambda>c. c\<lparr>shuttingDown := True\<rparr>)) (\<lambda>_.
            bnd (sys (Unix_close (c_socketHandler c) newSocketFd)) (\<lambda>_. ret True))
          else if get_status response \<noteq> RETURNING_CLIENT then
            bnd (sys (Unix_close (c_socketHandler c) newSocketFd)) (\<lambda>_. ret False)
          else bnd (Connection_recover P newSocketFd) (\<lambda>_. ret False))))
       (\<lambda>_. bnd (sys (Unix_close (c_socketHandler c) newSocketFd)) (\<lambda>_. ret False)))"

definition catch_all :: "('s, 'a) prog \<Rightarrow> 'a \<Rightarrow> ('s, 'a) prog" where
  "catch_all m x s = (case m s of (Throw e, t) \<Rightarrow> (Ok x, t) | r \<Rightarrow> r)"

definition pollReconnect_round :: "protos \<Rightarrow> bool conn_prog" where
  "pollReconnect_round P = bnd get_obj (\<lambda>c.
     if c_socketFd c \<noteq> -1 then ret True
     else if shuttingDown c then ret True
     else bnd (sys (sh_connect (c_socketHandler c) (remoteEndpoint c))) (\<lambda>newSocketFd.
       if newSocketFd \<noteq> -1 then catch_all (reconnect_attempt P newSocketFd) False else ret False))"

section \<open>ServerClientConnection\<close>

definition ServerClientConnection_new ::
  "sodium \<Rightarrow> nat \<Rightarrow> string \<Rightarrow> int \<Rightarrow> string \<Rightarrow> Connection outcome" where
  "ServerClientConnection_new na h i fd k =
     (case CryptoHandler_new na k CLIENT_SERVER_NONCE_MSB of
        Ok rch \<Rightarrow>
          (case CryptoHandler_new na k SERVER_CLIENT_NONCE_MSB of
             Ok wch \<Rightarrow> Ok ((Connection_new h i k)\<lparr>c_socketFd := fd,
                          reader := Some (BackedReader_new h rch fd),
                          writer := Some (BackedWriter_new h wch fd)\<rparr>)
           | q \<Rightarrow> lift_bad q)
      | q \<Rightarrow> lift_bad q)"

definition recoverClient :: "protos \<Rightarrow> int \<Rightarrow> bool conn_prog" where
  "recoverClient P newSocketFd = bnd get_obj (\<lambda>c.
     bnd (if c_socketFd c \<noteq> -1 then Connection_closeSocket else ret ()) (\<lambda>_.
     Connection_recover P newSocketFd))"

text \<open>The comparison loop, over the first \<open>n\<close> characters.\<close>

primrec verify_loop :: "string \<Rightarrow> string \<Rightarrow> nat \<Rightarrow> bool \<Rightarrow> bool" where
  "verify_loop k t 0 matchFailed = matchFailed"
| "verify_loop k t (Suc n) matchFailed = (verify_loop k t n matchFailed \<or> k ! n \<noteq> t ! n)"

definition verifyPasskey :: "Connection \<Rightarrow> string \<Rightarrow> bool" where
  "verifyPasskey c targetKey =
     (let commonSize = (if length (c_key c) < length targetKey then length (c_key c) else length targetKey) in
      \<not> verify_loop (c_key c) targetKey commonSize (length (c_key c) \<noteq> length targetKey))"

lemmas connection_defs = get_status_def get_sequencenumber_def get_version_def get_clientid_def
  PROTOCOL_VERSION_def Connection_new_def isSkippableError_def on_reader_def on_writer_def
  Connection_closeSocket_def waitReconnect_def Client_closeSocketAndMaybeReconnect_def
  closeSocketAndMaybeReconnect_def Connection_read_def Connection_write_def Connection_readPacket_def
  Connection_writePacket_def Connection_recover_def Connection_shutdown_def isDisconnected_def
  canBufferWrite_def Connection_hasData_def ClientConnection_new_def connect_request_def Client_connect_def
  reconnect_attempt_def catch_all_def pollReconnect_round_def ServerClientConnection_new_def
  recoverClient_def verifyPasskey_def

declare connection_defs [et_defs]

section \<open>Closing\<close>

definition quiet :: "world \<Rightarrow> world \<Rightarrow> bool" where
  "quiet w w' \<longleftrightarrow> sends_nothing w w' \<and> receives_nothing w w'"

lemma quiet_refl [simp]: "quiet w w"
  by (simp add: quiet_def sends_nothing_def receives_nothing_def)

lemma quiet_trans: "quiet u v \<Longrightarrow> quiet v w \<Longrightarrow> quiet u w"
  by (simp add: quiet_def sends_nothing_def receives_nothing_def)

lemma quiet_sends: "sends fd bs w u \<Longrightarrow> quiet u v \<Longrightarrow> sends fd bs w v"
  and quiet_receives: "receives fd bs w u \<Longrightarrow> quiet u v \<Longrightarrow> receives fd bs w v"
  by (simp_all add: quiet_def sends_nothing_def receives_nothing_def sends_def receives_def)

text \<open>The connection after its socket is gone.\<close>

definition closed :: "Connection \<Rightarrow> Connection" where
  "closed c = c\<lparr>reader := map_option BackedReader_invalidateSocket (reader c),
     writer := map_option BackedWriter_invalidateSocket (writer c), c_socketFd := -1\<rparr>"

lemma Unix_close_quiet: "Unix_close h fd w = (r, w') \<Longrightarrow> quiet w w'"
  using snn.keepsD [OF Unix_close_keeps(3)] rnn.keepsD [OF Unix_close_keeps(4)] by (simp add: quiet_def)

lemma closeSocket_cases:
  assumes "Connection_closeSocket (c, w) = (r, (c', w'))"
  shows "c' = (if c_socketFd c = -1 then c else closed c) \<and> quiet w w'"
  using assms Unix_close_quiet
  by (auto simp: Connection_closeSocket_def bnd_def closed_def split: if_splits prod.splits)

lemma maybeReconnect_cases:
  assumes "closeSocketAndMaybeReconnect (c, w) = (Ok (), (c', w'))"
  obtains t where "c' = (if c_socketFd c = -1 then c else closed c)\<lparr>reconnectThread := t\<rparr>" and "quiet w w'"
proof (cases "isClient c")
  case False
  then have "Connection_closeSocket (c, w) = (Ok (), (c', w'))"
    using assms by (simp add: closeSocketAndMaybeReconnect_def bnd_def)
  from closeSocket_cases [OF this] show ?thesis
    using that [of "reconnectThread c"] by (auto simp: closed_def)
next
  case True
  let ?next = "bnd Connection_closeSocket (\<lambda>_. bnd get_obj (\<lambda>c.
       if \<not> shuttingDown c then mod_obj (\<lambda>c. c\<lparr>reconnectThread := Running\<rparr>) else ret ()))"
  obtain t0 where "?next (c\<lparr>reconnectThread := t0\<rparr>, w) = (Ok (), (c', w'))"
  proof (cases "reconnectThread c")
    case NoThread
    then have "?next (c, w) = (Ok (), (c', w'))"
      using assms True by (simp add: closeSocketAndMaybeReconnect_def Client_closeSocketAndMaybeReconnect_def
          waitReconnect_def bnd_def [of get_obj] bnd_def [of "bnd _ _"])
    then show ?thesis using that [of "reconnectThread c"] by simp
  next
    case Running
    then show ?thesis
      using assms True by (simp add: closeSocketAndMaybeReconnect_def Client_closeSocketAndMaybeReconnect_def
          waitReconnect_def bnd_def [of get_obj] bnd_def [of "bnd _ _"])
  next
    case Finished
    then have "?next (c\<lparr>reconnectThread := NoThread\<rparr>, w) = (Ok (), (c', w'))"
      using assms True by (simp add: closeSocketAndMaybeReconnect_def Client_closeSocketAndMaybeReconnect_def
          waitReconnect_def bnd_def [of get_obj] bnd_def [of "bnd _ _"])
    then show ?thesis by (rule that)
  qed
  then obtain c1 w1 where cl: "Connection_closeSocket (c\<lparr>reconnectThread := t0\<rparr>, w) = (Ok (), (c1, w1))"
      and "c' = (if \<not> shuttingDown c1 then c1\<lparr>reconnectThread := Running\<rparr> else c1)" "w' = w1"
    by (auto elim!: bnd_Ok_pairE simp: bnd_def [of get_obj] split: if_splits)
  then show ?thesis
    using closeSocket_cases [OF cl] that [of "reconnectThread c'"] by (auto simp: closed_def)
qed

section \<open>Reading and writing\<close>

lemma on_writer_Ok:
  assumes "on_writer m (c, w) = (Ok x, (c', w'))" and "writer c = Some b"
  obtains b' where "m (b, w) = (Ok x, (b', w'))" and "c' = c\<lparr>writer := Some b'\<rparr>"
  using assms by (auto simp: on_writer_def split: prod.splits)

lemma on_reader_Ok:
  assumes "on_reader m (c, w) = (Ok x, (c', w'))" and "reader c = Some r"
  obtains r' where "m (r, w) = (Ok x, (r', w'))" and "c' = c\<lparr>reader := Some r'\<rparr>"
  using assms by (auto simp: on_reader_def split: prod.splits)

lemma sys_GetErrno [simp]: "bnd (sys GetErrno) f (c, w) = f (errno_now w) (c, w)"
  by (simp add: bnd_def GetErrno_def)

lemma conn_same_thread: "c = c\<lparr>reconnectThread := reconnectThread c\<rparr>" for c :: Connection
  by simp

lemma Connection_write_cases:
  assumes "Connection_write na p (c, w) = (Ok ok, (c', w'))" and "writer c = Some b"
  obtains st b1 w1 t where "BackedWriter_write na p (b, w) = (Ok st, (b1, w1))" and "quiet w1 w'"
    and "ok \<longleftrightarrow> st \<noteq> SKIPPED"
    and "c' = (if st = WROTE_WITH_FAILURE \<and> c_socketFd c \<noteq> -1 then closed (c\<lparr>writer := Some b1\<rparr>)
               else c\<lparr>writer := Some b1\<rparr>)\<lparr>reconnectThread := t\<rparr>"
proof -
  obtain st c1 w1 where run: "on_writer (BackedWriter_write na p) (c, w) = (Ok st, (c1, w1))"
      and rest: "(case st of SKIPPED \<Rightarrow> ret False | BUFFERED_ONLY \<Rightarrow> ret True | SUCCESS \<Rightarrow> ret True
       | WROTE_WITH_FAILURE \<Rightarrow> bnd get_obj (\<lambda>c.
             if c_socketFd c = -1 then ret True
             else if isSkippableError (errno_now w1) then bnd closeSocketAndMaybeReconnect (\<lambda>_. ret True)
             else bnd closeSocketAndMaybeReconnect (\<lambda>_. ret True))) (c1, w1) = (Ok ok, (c', w'))"
    using assms unfolding Connection_write_def
    by (auto simp: bnd_def [of get_obj] GetErrno_def elim!: bnd_Ok_pairE)
  obtain b1 where b1: "BackedWriter_write na p (b, w) = (Ok st, (b1, w1))" "c1 = c\<lparr>writer := Some b1\<rparr>"
    using on_writer_Ok [OF run assms(2)] by metis
  show ?thesis
  proof (cases "st = WROTE_WITH_FAILURE \<and> c_socketFd c \<noteq> -1")
    case True
    then have "closeSocketAndMaybeReconnect (c1, w1) = (Ok (), (c', w')) \<and> ok"
      using rest b1(2) by (auto simp: bnd_def [of get_obj] elim!: bnd_eq_OkE split: if_splits)
    then show ?thesis using True b1 maybeReconnect_cases [of c1 w1 c' w'] that [of st b1 w1] by auto
  next
    case False
    then have "c' = c1 \<and> w' = w1 \<and> (ok \<longleftrightarrow> st \<noteq> SKIPPED)"
      using rest b1(2) by (cases st) (auto simp: bnd_def [of get_obj])
    then show ?thesis using False b1 that [of st b1 w1 "reconnectThread c1"] by auto
  qed
qed

lemma Connection_read_cases:
  assumes "Connection_read na (c, w) = (Ok out, (c', w'))" and "reader c = Some r"
  obtains res r1 w1 t where "BackedReader_read na (r, w) = (Ok res, (r1, w1))" and "quiet w1 w'"
    and "out = (fst res > 0, snd res)"
    and "c' = (if fst res = -1 \<and> c_socketFd c \<noteq> -1 then closed (c\<lparr>reader := Some r1\<rparr>)
               else c\<lparr>reader := Some r1\<rparr>)\<lparr>reconnectThread := t\<rparr>"
proof -
  obtain res c1 w1 where run: "on_reader (BackedReader_read na) (c, w) = (Ok res, (c1, w1))"
      and rest: "(if fst res = -1 then
         (if isSkippableError (errno_now w1) then bnd closeSocketAndMaybeReconnect (\<lambda>_. ret (False, snd res))
          else bnd closeSocketAndMaybeReconnect (\<lambda>_. ret (False, snd res)))
       else ret (fst res > 0, snd res)) (c1, w1) = (Ok out, (c', w'))"
    using assms unfolding Connection_read_def
    by (auto simp: bnd_def [of get_obj] GetErrno_def elim!: bnd_Ok_pairE)
  obtain r1 where r1: "BackedReader_read na (r, w) = (Ok res, (r1, w1))" "c1 = c\<lparr>reader := Some r1\<rparr>"
    using on_reader_Ok [OF run assms(2)] by metis
  show ?thesis
  proof (cases "fst res = -1")
    case True
    then have "closeSocketAndMaybeReconnect (c1, w1) = (Ok (), (c', w')) \<and> out = (False, snd res)"
      using rest by (auto elim!: bnd_eq_OkE split: if_splits)
    then obtain t where "c' = (if c_socketFd c1 = -1 then c1 else closed c1)\<lparr>reconnectThread := t\<rparr>" "quiet w1 w'"
        "out = (False, snd res)"
      using maybeReconnect_cases by metis
    then show ?thesis using True r1 that [of res r1 w1 t] by simp
  next
    case False
    then show ?thesis using rest r1 that [of res r1 w1 "reconnectThread c1"] by auto
  qed
qed

section \<open>The exchange of a recovery\<close>

text \<open>
  \<open>ev fd tx rx w u\<close>: from \<open>w\<close> to \<open>u\<close> exactly \<open>tx\<close> went out on \<open>fd\<close> and \<open>rx\<close> came in, or a write
  gave up half way and sent a part twice.
\<close>

definition ev :: "int \<Rightarrow> string \<Rightarrow> string \<Rightarrow> world \<Rightarrow> world \<Rightarrow> bool" where
  "ev fd tx rx w u \<longleftrightarrow> consumes w u \<and> (stalls w u \<or> sends fd tx w u \<and> receives fd rx w u)"

lemma ev_trans: "ev fd a x w u \<Longrightarrow> ev fd b y u v \<Longrightarrow> ev fd (a @ b) (x @ y) w v"
  unfolding ev_def using con.R_trans stalls_mono sends_trans receives_trans by blast

lemma ev_refl [simp]: "ev fd [] [] w w"
  by (simp add: ev_def con.R_refl sends_def receives_def)

lemma ev_close: "Unix_close h fd' w = (r, u) \<Longrightarrow> ev fd [] [] w u"
  using Unix_close_quiet [of h fd' w r u] con.keepsD [OF Unix_close_keeps(1)]
  by (auto simp: ev_def quiet_def sends_Nil receives_Nil)

lemma writeProto_ev:
  assumes "SerializeToString C t = Some s" and "writeProto C h fd t tm w = (q, u)"
  obtains tx where "ev fd tx [] w u" and "prefix tx (proto_frame s)" and "is_ok q \<Longrightarrow> tx = proto_frame s"
proof -
  have r: "all_result w fd (proto_frame s) (\<lambda>_. True) q u"
    using postD [OF writeProto_result [OF assms(1)] assms(2)] .
  have n: "receives fd [] w u" using rnn_receives [OF writeProto_keeps(4) assms(2)] .
  show ?thesis
  proof (cases "stalls w u")
    case True
    then show ?thesis using r that [of "proto_frame s"] by (auto simp: ev_def all_result_def)
  next
    case False
    then obtain j where j: "out_upto w fd (proto_frame s) j u" "\<forall>x. q = Ok x \<longrightarrow> j = length (proto_frame s)"
      using r by (auto simp: all_result_def)
    then have "is_ok q \<Longrightarrow> take j (proto_frame s) = proto_frame s" by (cases q) auto
    then show ?thesis
      using that [of "take j (proto_frame s)"] j(1) n by (auto simp: ev_def out_upto_def take_is_prefix)
  qed
qed

lemma writeProto_unserialized:
  assumes "writeProto C h fd t tm w = (Ok (), u)"
  obtains s where "SerializeToString C t = Some s" and "int (length s) \<le> MAX_MESSAGE"
  using assms by (auto simp: writeProto_def not_less split: option.splits if_splits)

lemma writeProto_throws:
  assumes "writeProto C h fd t tm w = (Throw e, u)"
  obtains s where "SerializeToString C t = Some s" and "int (length s) \<le> MAX_MESSAGE"
  using assms by (auto simp: writeProto_def not_less split: option.splits if_splits)

lemma readProto_ev:
  assumes "codec_ok C" and "readProto C h fd tm w = (q, u)"
  obtains rx where "ev fd [] rx w u" and "\<And>m. q = Ok m \<Longrightarrow> frame_of C m rx"
proof -
  obtain rx where "receives fd rx w u" "\<And>m. q = Ok m \<Longrightarrow> frame_of C m rx"
    using postD [OF readProto_receives [OF assms(1)] assms(2)] by blast
  then show ?thesis
    using that [of rx] con.keepsD [OF readProto_keeps(1) assms(2)] snn_sends [OF readProto_keeps(4) assms(2), of fd]
    by (auto simp: ev_def)
qed

definition revived :: "int \<Rightarrow> CatchupBuffer \<Rightarrow> BackedReader \<Rightarrow> BackedWriter \<Rightarrow> Connection \<Rightarrow> Connection" where
  "revived fd catchup r b c = c\<lparr>c_socketFd := fd, reader := Some (BackedReader_revive fd catchup r),
     writer := Some (BackedWriter_revive fd b)\<rparr>"

text \<open>
  What one side has sent and received when its \<^verbatim>\<open>recover\<close> ends: a part of its header (\<open>hs\<close>), or
  the header and, after it has read the other's header, a part of its catch-up buffer. It succeeds
  only if all of both went out and both messages of the other side came in.
\<close>

definition rec_trace :: "protos \<Rightarrow> BackedWriter \<Rightarrow> string \<Rightarrow> string \<Rightarrow> string \<Rightarrow> CatchupBuffer option \<Rightarrow> bool" where
  "rec_trace P b hs tx rx res \<longleftrightarrow>
     (prefix tx (proto_frame hs) \<and> res = None) \<or>
     (\<exists>hdr rx1 rx2 msgs cs t2. rx = rx1 @ rx2 \<and> frame_of (SequenceHeader_codec P) hdr rx1 \<and>
        BackedWriter_recover (get_sequencenumber hdr) b = Ok msgs \<and>
        SerializeToString (CatchupBuffer_codec P) msgs = Some cs \<and> int (length cs) \<le> MAX_MESSAGE \<and>
        tx = proto_frame hs @ t2 \<and> prefix t2 (proto_frame cs) \<and>
        (\<forall>cat. res = Some cat \<longrightarrow> frame_of (CatchupBuffer_codec P) cat rx2 \<and> t2 = proto_frame cs))"

definition recover_body :: "protos \<Rightarrow> nat \<Rightarrow> int \<Rightarrow> BackedReader \<Rightarrow> BackedWriter \<Rightarrow> bool conn_prog" where
  "recover_body P h fd r b =
     bnd (sys (writeProto (SequenceHeader_codec P) h fd \<lparr>sequenceNumber = Some (to_int32 (br_sequenceNumber r))\<rparr> True)) (\<lambda>_.
     bnd (sys (readProto (SequenceHeader_codec P) h fd True)) (\<lambda>remoteHeader.
     bnd (outcome_prog (BackedWriter_recover (get_sequencenumber remoteHeader) b)) (\<lambda>recovered.
     bnd (sys (writeProto (CatchupBuffer_codec P) h fd recovered True)) (\<lambda>_.
     bnd (sys (readProto (CatchupBuffer_codec P) h fd True)) (\<lambda>catchup.
     bnd (mod_obj (\<lambda>c. c\<lparr>c_socketFd := fd, reader := Some (BackedReader_revive fd catchup r),
                   writer := Some (BackedWriter_revive fd b)\<rparr>)) (\<lambda>_.
     ret True))))))"

lemma Connection_recover_unfold:
  assumes "reader c = Some r" and "writer c = Some b"
  shows "Connection_recover P fd (c, w) = catch_runtime (recover_body P (c_socketHandler c) fd r b)
     (\<lambda>_. bnd (sys (Unix_close (c_socketHandler c) fd)) (\<lambda>_. ret False)) (c, w)"
  using assms by (simp add: Connection_recover_def recover_body_def bnd_def [of get_obj])

definition body_post ::
  "protos \<Rightarrow> int \<Rightarrow> BackedReader \<Rightarrow> BackedWriter \<Rightarrow> string \<Rightarrow> Connection \<Rightarrow> world \<Rightarrow> bool outcome \<Rightarrow> Connection \<times> world \<Rightarrow> bool" where
  "body_post P fd r b hs c w q s \<longleftrightarrow> (\<exists>tx rx res. ev fd tx rx w (snd s) \<and> rec_trace P b hs tx rx res \<and>
     (case q of Ok x \<Rightarrow> x \<and> (\<exists>cat. res = Some cat \<and> fst s = revived fd cat r b c) | _ \<Rightarrow> fst s = c))"

lemma body_post_stop:
  "ev fd tx rx w u \<Longrightarrow> rec_trace P b hs tx rx None \<Longrightarrow> \<not> is_ok q \<Longrightarrow> body_post P fd r b hs c w q (c, u)"
  unfolding body_post_def by (cases q) auto

lemma post_sys_bnd:
  assumes "\<And>x u. m w = (Ok x, u) \<Longrightarrow> post Q (f x (c, u))"
    and "\<And>q u. m w = (q, u) \<Longrightarrow> \<not> is_ok q \<Longrightarrow> Q (lift_bad q) (c, u)"
  shows "post Q (bnd (sys m) f (c, w))"
  by (rule post_bnd) (use assms in \<open>auto split: prod.splits\<close>)

lemma post_outcome_bnd:
  assumes "\<And>x. o' = Ok x \<Longrightarrow> post Q (f x s)" and "\<not> is_ok o' \<Longrightarrow> Q (lift_bad o') s"
  shows "post Q (bnd (outcome_prog o') f s)"
  by (rule post_bnd) (use assms in \<open>auto simp: outcome_prog_def\<close>)

text \<open>The second half, once the other side's header has come in.\<close>

lemma recover_body_second:
  assumes "protos_ok P" and e: "ev fd (proto_frame hs) rx1 w u"
    and f: "frame_of (SequenceHeader_codec P) hdr rx1"
  shows "post (body_post P fd r b hs c w)
     (bnd (outcome_prog (BackedWriter_recover (get_sequencenumber hdr) b)) (\<lambda>recovered.
      bnd (sys (writeProto (CatchupBuffer_codec P) h fd recovered True)) (\<lambda>_.
      bnd (sys (readProto (CatchupBuffer_codec P) h fd True)) (\<lambda>catchup.
      bnd (mod_obj (\<lambda>c. c\<lparr>c_socketFd := fd, reader := Some (BackedReader_revive fd catchup r),
                   writer := Some (BackedWriter_revive fd b)\<rparr>)) (\<lambda>_. ret True)))) (c, u))"
proof (rule post_outcome_bnd)
  have t1: "rec_trace P b hs (proto_frame hs) rx1 None" by (simp add: rec_trace_def)
  show "body_post P fd r b hs c w (lift_bad (BackedWriter_recover (get_sequencenumber hdr) b)) (c, u)"
    using body_post_stop [OF e t1] by simp
  fix msgs assume m: "BackedWriter_recover (get_sequencenumber hdr) b = Ok msgs"
  let ?C = "CatchupBuffer_codec P"
  have ok: "codec_ok ?C" using assms(1) by (simp add: protos_ok_def)
  have tr: "rec_trace P b hs (proto_frame hs @ t2) (rx1 @ rx2) res"
    if "SerializeToString ?C msgs = Some cs" "int (length cs) \<le> MAX_MESSAGE" "prefix t2 (proto_frame cs)"
      "\<And>cat. res = Some cat \<Longrightarrow> frame_of ?C cat rx2 \<and> t2 = proto_frame cs" for cs t2 rx2 res
    unfolding rec_trace_def using that f m by blast
  show "post (body_post P fd r b hs c w) (bnd (sys (writeProto ?C h fd msgs True)) (\<lambda>_.
      bnd (sys (readProto ?C h fd True)) (\<lambda>catchup.
      bnd (mod_obj (\<lambda>c. c\<lparr>c_socketFd := fd, reader := Some (BackedReader_revive fd catchup r),
                   writer := Some (BackedWriter_revive fd b)\<rparr>)) (\<lambda>_. ret True))) (c, u))"
  proof (rule post_sys_bnd, goal_cases)
    case (1 x v)
    obtain cs where cs: "SerializeToString ?C msgs = Some cs" "int (length cs) \<le> MAX_MESSAGE"
      using writeProto_unserialized 1 by (metis unit.exhaust)
    then have e2: "ev fd (proto_frame hs @ proto_frame cs) rx1 w v"
      using writeProto_ev [OF cs(1) 1] ev_trans [OF e] by (metis append_Nil2 is_ok_simps(1))
    show ?case
    proof (rule post_sys_bnd, goal_cases)
      case (1 cat y)
      obtain rx2 where rx2: "ev fd [] rx2 v y" "frame_of ?C cat rx2"
        using readProto_ev [OF ok 1] by blast
      then have "ev fd (proto_frame hs @ proto_frame cs) (rx1 @ rx2) w y"
        using ev_trans [OF e2 rx2(1)] by simp
      then show ?case
        using tr [OF cs, of "proto_frame cs" "Some cat" rx2] rx2(2)
        by (auto simp: bnd_def body_post_def revived_def)
    next
      case (2 q y)
      obtain rx2 where rx2: "ev fd [] rx2 v y" using readProto_ev [OF ok 2(1)] by blast
      then have "ev fd (proto_frame hs @ proto_frame cs) (rx1 @ rx2) w y"
        using ev_trans [OF e2 rx2(1)] by simp
      then show ?case using tr [OF cs, of "proto_frame cs" None rx2] body_post_stop by simp
    qed
  next
    case (2 q v)
    show ?case
    proof (cases "\<exists>cs. SerializeToString ?C msgs = Some cs \<and> int (length cs) \<le> MAX_MESSAGE")
      case True
      then obtain cs where cs: "SerializeToString ?C msgs = Some cs" "int (length cs) \<le> MAX_MESSAGE" by blast
      obtain t2 where t2: "ev fd t2 [] u v" "prefix t2 (proto_frame cs)"
        using writeProto_ev [OF cs(1) 2(1)] by blast
      then show ?thesis
        using tr [OF cs t2(2), of None "[]"] ev_trans [OF e t2(1)] body_post_stop by simp
    next
      case False
      then have "v = u" using 2(1) by (auto simp: writeProto_def split: option.splits if_splits)
      then show ?thesis using body_post_stop [OF e t1] by simp
    qed
  qed
qed

lemma recover_body_trace:
  assumes "protos_ok P"
    and hs: "SerializeToString (SequenceHeader_codec P) \<lparr>sequenceNumber = Some (to_int32 (br_sequenceNumber r))\<rparr> = Some hs"
  shows "post (body_post P fd r b hs c w) (recover_body P h fd r b (c, w))"
  unfolding recover_body_def
proof (rule post_sys_bnd, goal_cases)
  case (1 x u)
  let ?C = "SequenceHeader_codec P"
  have ok: "codec_ok ?C" using assms(1) by (simp add: protos_ok_def)
  have e1: "ev fd (proto_frame hs) [] w u" using writeProto_ev [OF hs 1] by auto
  have t1: "rec_trace P b hs (proto_frame hs) rx None" for rx by (simp add: rec_trace_def)
  show ?case
  proof (rule post_sys_bnd, goal_cases)
    case (1 hdr v)
    obtain rx where "ev fd [] rx u v" "frame_of ?C hdr rx" using readProto_ev [OF ok 1] by blast
    then show ?case using recover_body_second [OF assms(1)] ev_trans [OF e1] by fastforce
  next
    case (2 q v)
    obtain rx where "ev fd [] rx u v" using readProto_ev [OF ok 2(1)] by blast
    then have "ev fd (proto_frame hs) rx w v" using ev_trans [OF e1] by fastforce
    then show ?case using body_post_stop t1 by simp
  qed
next
  case (2 q u)
  obtain tx where "ev fd tx [] w u" "prefix tx (proto_frame hs)" using writeProto_ev [OF hs 2(1)] by blast
  then show ?case using body_post_stop by (simp add: rec_trace_def)
qed

lemma recover_body_header:
  assumes "recover_body P h fd r b (c, w) = (q, t)" and "is_ok q \<or> (\<exists>e. q = Throw e)"
  obtains hs where
    "SerializeToString (SequenceHeader_codec P) \<lparr>sequenceNumber = Some (to_int32 (br_sequenceNumber r))\<rparr> = Some hs"
    and "int (length hs) \<le> MAX_MESSAGE"
proof -
  let ?h = "\<lparr>sequenceNumber = Some (to_int32 (br_sequenceNumber r))\<rparr>"
  obtain q1 u where w: "writeProto (SequenceHeader_codec P) h fd ?h True w = (q1, u)" by force
  have "\<not> is_ok q1 \<Longrightarrow> q = lift_bad q1"
    using assms(1) w unfolding recover_body_def by (subst (asm) bnd_def) (cases q1; simp add: is_ok_def)
  then have "is_ok q1 \<or> (\<exists>e. q1 = Throw e)" using assms(2) by (cases q1) auto
  then consider "q1 = Ok ()" | e where "q1 = Throw e" by (cases q1) auto
  then show ?thesis
  proof cases
    case 1
    from w [unfolded 1] show ?thesis by (rule writeProto_unserialized) (rule that)
  next
    case 2
    from w [unfolded 2] show ?thesis by (rule writeProto_throws) (rule that)
  qed
qed

lemma Connection_recover_trace:
  assumes "Connection_recover P fd (c, w) = (Ok ok, (c', w'))" and "reader c = Some r" and "writer c = Some b"
    and "protos_ok P" and "\<not> stalls w w'"
  obtains hs tx rx res where
    "SerializeToString (SequenceHeader_codec P) \<lparr>sequenceNumber = Some (to_int32 (br_sequenceNumber r))\<rparr> = Some hs"
    and "int (length hs) \<le> MAX_MESSAGE" and "sends fd tx w w'" and "receives fd rx w w'"
    and "rec_trace P b hs tx rx res"
    and "if ok then \<exists>cat. res = Some cat \<and> c' = revived fd cat r b c else c' = c"
proof -
  let ?body = "recover_body P (c_socketHandler c) fd r b"
  obtain q c1 w1 where q: "?body (c, w) = (q, (c1, w1))" by (metis surj_pair)
  have run: "catch_runtime ?body (\<lambda>_. bnd (sys (Unix_close (c_socketHandler c) fd)) (\<lambda>_. ret False)) (c, w) = (Ok ok, (c', w'))"
    using assms(1) Connection_recover_unfold [OF assms(2,3)] by simp
  have outcome: "q = Ok ok \<and> c' = c1 \<and> w' = w1 \<or>
      (\<exists>e x. q = Throw (RuntimeError e) \<and> \<not> ok \<and> c' = c1 \<and> Unix_close (c_socketHandler c) fd w1 = (x, w'))"
    using run q
    by (cases q) (auto simp: catch_runtime_def bnd_def split: exn.splits prod.splits outcome.splits)
  obtain hs where hs: "SerializeToString (SequenceHeader_codec P) \<lparr>sequenceNumber = Some (to_int32 (br_sequenceNumber r))\<rparr> = Some hs"
      "int (length hs) \<le> MAX_MESSAGE"
    using recover_body_header [OF q] outcome by (metis is_ok_simps(1))
  obtain tx rx res where t: "ev fd tx rx w w1" "rec_trace P b hs tx rx res"
      "case q of Ok x \<Rightarrow> x \<and> (\<exists>cat. res = Some cat \<and> c1 = revived fd cat r b c) | _ \<Rightarrow> c1 = c"
    using postD [OF recover_body_trace [OF assms(4) hs(1)] q] unfolding body_post_def fst_conv snd_conv by blast
  have "ev fd tx rx w w'"
    using outcome t(1) ev_trans [OF t(1) ev_close] by auto
  then show ?thesis
    using that [OF hs _ _ t(2)] assms(5) outcome t(3) by (auto simp: ev_def)
qed

section \<open>A stand-in for protobuf\<close>

text \<open>A codec of two messages, the default one and one other: the concrete parameter of the examples.\<close>

definition two_codec :: "'m \<Rightarrow> 'm \<Rightarrow> 'm codec" where
  "two_codec d e = \<lparr>SerializeToString = (\<lambda>m. if m = d then Some [] else if m = e then Some ''e'' else None),
     ParseFromString = (\<lambda>s. if s = [] then Some d else if s = ''e'' then Some e else None), default_message = d\<rparr>"

lemma two_codec_ok: "codec_ok (two_codec d e)"
  by (simp add: codec_ok_def two_codec_def)

definition sample_protos :: protos where
  "sample_protos = \<lparr>ConnectRequest_codec =
       two_codec \<lparr>clientId = None, version = None\<rparr> \<lparr>clientId = Some ''id'', version = Some PROTOCOL_VERSION\<rparr>,
     ConnectResponse_codec = two_codec \<lparr>status = None, error_text = None\<rparr> \<lparr>status = Some INVALID_KEY, error_text = Some ''Client is not registered''\<rparr>,
     SequenceHeader_codec = two_codec \<lparr>sequenceNumber = None\<rparr> \<lparr>sequenceNumber = Some 0\<rparr>,
     CatchupBuffer_codec = two_codec [] [''x'']\<rparr>"

lemma sample_protos_ok: "protos_ok sample_protos"
  by (simp add: protos_ok_def sample_protos_def two_codec_ok)

end
