(* ===== verification/ET_Session.thy ===== *)
theory ET_Session
  imports ET_Connection
begin

text \<open>
  A whole session: two connections, the bytes in flight between them, and what the two programs
  above them have written and read. A step is a whole call of the code of \<^verbatim>\<open>Connection\<close> (a write, a
  read, the loss of the socket, a recovery by both sides), run in an arbitrary environment: the only
  thing assumed of the network is that it delivers, of the bytes sent over one socket, a prefix, in
  order. The result is the promise of the program: every packet accepted for writing is read exactly
  once and in order, whatever connections are lost in between.
\<close>

section \<open>The state and its steps\<close>

text \<open>
  The sides are \<open>True\<close> (the client) and \<open>False\<close> (the server). \<open>wire s\<close> are the bytes on the way to
  the socket that the other side of \<open>s\<close> reads; \<open>linked s\<close> says that the socket of \<open>s\<close> is the other end
  of that socket, so that what \<open>s\<close> sends is added to them. \<open>sent_log\<close> (the packets accepted),
  \<open>got\<close> (the packets read) and \<open>origin\<close> (the crypto handler of the direction at the start) are ghosts.
\<close>

record session =
  conn :: "bool \<Rightarrow> Connection"
  wire :: "bool \<Rightarrow> string"
  linked :: "bool \<Rightarrow> bool"
  sent_log :: "bool \<Rightarrow> Packet list"
  got :: "bool \<Rightarrow> Packet list"
  origin :: "bool \<Rightarrow> CryptoHandler"

datatype session_label = LWrite bool Packet | LRead bool | LClose bool | LRecover | LThread bool

text \<open>The size for which all lengths fit the 32-bit fields of the protocol.\<close>

definition packet_ok :: "Packet \<Rightarrow> bool" where
  "packet_ok p \<longleftrightarrow> \<not> encrypted p \<and> packet_length p < 2 ^ 31 - 20"

inductive session_step :: "sodium \<Rightarrow> protos \<Rightarrow> session \<Rightarrow> session_label \<Rightarrow> session \<Rightarrow> bool"
  for na P where
  step_write: "session_step na P st (LWrite s p)
      (st\<lparr>conn := (conn st)(s := c'),
          wire := (wire st)(s := (if linked st s then wire st s @ tx else wire st s)),
          linked := (linked st)(s := linked st s \<and> c_socketFd c' \<noteq> -1),
          sent_log := (sent_log st)(s := (if accepted then sent_log st s @ [p] else sent_log st s))\<rparr>)"
  if "packet_ok p"
    and "Connection_write na p (conn st s, w) = (Ok accepted, (c', w'))"
    and "sends (c_socketFd (conn st s)) tx w w'"
| step_read: "session_step na P st (LRead s)
      (st\<lparr>conn := (conn st)(s := c'), wire := (wire st)(\<not> s := rest),
          linked := (linked st)(s := linked st s \<and> c_socketFd c' \<noteq> -1),
          got := (got st)(s := (if fst out then got st s @ [the (snd out)] else got st s))\<rparr>)"
  if "Connection_read na (conn st s, w) = (Ok out, (c', w'))"
    and "receives (c_socketFd (conn st s)) rx w w'"
    and "wire st (\<not> s) = rx @ rest"
| step_close: "session_step na P st (LClose s)
      (st\<lparr>conn := (conn st)(s := c'), linked := (linked st)(s := linked st s \<and> c_socketFd c' \<noteq> -1)\<rparr>)"
  if "Connection_closeSocket (conn st s, w) = (Ok (), (c', w'))"
| step_recover: "session_step na P st LRecover
      (st\<lparr>conn := c', wire := (\<lambda>s. if res (\<not> s) then [] else wire st s),
          linked := (\<lambda>s. if res s then res (\<not> s) else linked st s \<and> \<not> res (\<not> s))\<rparr>)"
  if "\<And>s. Connection_recover P (nf s) (conn st s, w s) = (Ok (res s), (c' s, w' s))"
    and "\<And>s. 0 \<le> nf s" and "\<And>s. \<not> stalls (w s) (w' s)"
    and "\<And>s. sends (nf s) (tx s) (w s) (w' s)" and "\<And>s. receives (nf s) (rx s) (w s) (w' s)"
    and "\<And>s. prefix (rx s) (tx (\<not> s))"
| step_thread: "session_step na P st (LThread s)
      (st\<lparr>conn := (conn st)(s := (conn st s)\<lparr>reconnectThread := t, shuttingDown := d\<rparr>)\<rparr>)"

text \<open>
  A session starts when the handshake is over: fresh readers and writers on both sides, with the
  crypto handlers of the two directions made from the shared key.
\<close>

definition direction_msb :: "bool \<Rightarrow> 8 word" where
  "direction_msb s = (if s then CLIENT_SERVER_NONCE_MSB else SERVER_CLIENT_NONCE_MSB)"

definition session_init :: "sodium \<Rightarrow> string \<Rightarrow> session \<Rightarrow> bool" where
  "session_init na k st \<longleftrightarrow>
     (\<forall>s. CryptoHandler_new na k (direction_msb s) = Ok (origin st s)) \<and>
     (\<forall>s. 0 \<le> c_socketFd (conn st s) \<and>
        reader (conn st s) = Some (BackedReader_new (c_socketHandler (conn st s)) (origin st (\<not> s)) (c_socketFd (conn st s))) \<and>
        writer (conn st s) = Some (BackedWriter_new (c_socketHandler (conn st s)) (origin st s) (c_socketFd (conn st s)))) \<and>
     (\<forall>s. wire st s = [] \<and> linked st s \<and> sent_log st s = [] \<and> got st s = [])"

section \<open>The invariant\<close>

text \<open>What the writer makes of the packets accepted, and the bytes of those from the \<open>n\<close>-th on.\<close>

definition sealed :: "sodium \<Rightarrow> CryptoHandler \<Rightarrow> Packet list \<Rightarrow> Packet list" where
  "sealed na ch ps = map (\<lambda>i. seal na ((incrementNonce ^^ i) ch) (ps ! i)) [0..<length ps]"

definition stream :: "sodium \<Rightarrow> CryptoHandler \<Rightarrow> Packet list \<Rightarrow> nat \<Rightarrow> string" where
  "stream na ch ps n = concat (map wire_frame (drop n (sealed na ch ps)))"

text \<open>
  One direction: the writer \<open>b\<close> of one side, the reader \<open>r\<close> of the other, the bytes between them.
\<close>

definition writer_inv :: "sodium \<Rightarrow> CryptoHandler \<Rightarrow> Packet list \<Rightarrow> BackedWriter \<Rightarrow> bool" where
  "writer_inv na ch ps b \<longleftrightarrow> bw_wf b \<and> bw_sequenceNumber b = int (length ps) \<and>
     bw_crypto b = (incrementNonce ^^ length ps) ch \<and>
     (\<exists>d\<le>length ps. backupBuffer b = rev (drop d (sealed na ch ps)))"

definition reader_inv :: "sodium \<Rightarrow> CryptoHandler \<Rightarrow> Packet list \<Rightarrow> Packet list \<Rightarrow> BackedReader \<Rightarrow> bool" where
  "reader_inv na ch ps gt r \<longleftrightarrow> length gt + length (localBuffer r) \<le> length ps \<and>
     gt = take (length gt) ps \<and>
     br_sequenceNumber r = int (length gt + length (localBuffer r)) \<and>
     localBuffer r = map serialize (take (length (localBuffer r)) (drop (length gt) (sealed na ch ps))) \<and>
     br_crypto r = (incrementNonce ^^ length gt) ch \<and> length (partialMessage r) < 2 ^ 31"

definition link_inv ::
  "sodium \<Rightarrow> CryptoHandler \<Rightarrow> Packet list \<Rightarrow> string \<Rightarrow> bool \<Rightarrow> BackedWriter \<Rightarrow> BackedReader \<Rightarrow> bool" where
  "link_inv na ch ps wi lk b r \<longleftrightarrow> (lk \<longrightarrow> 0 \<le> bw_socketFd b) \<and>
     (0 \<le> br_socketFd r \<longrightarrow>
        prefix (partialMessage r @ wi) (stream na ch ps (nat (br_sequenceNumber r))) \<and>
        (lk \<longrightarrow> partialMessage r @ wi = stream na ch ps (nat (br_sequenceNumber r))))"

definition dir_inv :: "sodium \<Rightarrow> CryptoHandler \<Rightarrow> Packet list \<Rightarrow> Packet list \<Rightarrow> string \<Rightarrow> bool \<Rightarrow>
    BackedWriter \<Rightarrow> BackedReader \<Rightarrow> bool" where
  "dir_inv na ch ps gt wi lk b r \<longleftrightarrow> (\<forall>p\<in>set ps. packet_ok p) \<and>
     writer_inv na ch ps b \<and> reader_inv na ch ps gt r \<and> link_inv na ch ps wi lk b r"

definition conn_ok :: "Connection \<Rightarrow> bool" where
  "conn_ok c \<longleftrightarrow> -1 \<le> c_socketFd c \<and>
     (\<exists>r b. reader c = Some r \<and> writer c = Some b \<and> br_socketFd r = c_socketFd c \<and> bw_socketFd b = c_socketFd c)"

definition rd :: "Connection \<Rightarrow> BackedReader" where "rd c = the (reader c)"
definition wr :: "Connection \<Rightarrow> BackedWriter" where "wr c = the (writer c)"

definition session_inv :: "sodium \<Rightarrow> session \<Rightarrow> bool" where
  "session_inv na st \<longleftrightarrow> ((\<forall>s. length (sent_log st s) < 2 ^ 31) \<longrightarrow>
     (\<forall>s. conn_ok (conn st s) \<and>
        dir_inv na (origin st s) (sent_log st s) (got st (\<not> s)) (wire st s) (linked st s)
          (wr (conn st s)) (rd (conn st (\<not> s)))))"

section \<open>Sealed logs\<close>

lemma length_sealed [simp]: "length (sealed na ch ps) = length ps"
  by (simp add: sealed_def)

lemma nth_sealed: "i < length ps \<Longrightarrow> sealed na ch ps ! i = seal na ((incrementNonce ^^ i) ch) (ps ! i)"
  by (simp add: sealed_def)

lemma sealed_snoc: "sealed na ch (ps @ [p]) = sealed na ch ps @ [seal na ((incrementNonce ^^ length ps) ch) p]"
  by (auto simp: sealed_def nth_append)

lemma stream_snoc: "n \<le> length ps \<Longrightarrow>
    stream na ch (ps @ [p]) n = stream na ch ps n @ wire_frame (seal na ((incrementNonce ^^ length ps) ch) p)"
  by (simp add: stream_def sealed_snoc)

lemma stream_Cons: "n < length ps \<Longrightarrow>
    stream na ch ps n = wire_frame (sealed na ch ps ! n) @ stream na ch ps (Suc n)"
  by (simp add: stream_def flip: Cons_nth_drop_Suc)

lemma stream_end [simp]: "length ps \<le> n \<Longrightarrow> stream na ch ps n = []"
  by (simp add: stream_def)

lemma stream_Nil_iff: "n \<le> length ps \<Longrightarrow> stream na ch ps n = [] \<longleftrightarrow> n = length ps"
proof (cases "n < length ps")
  case True
  have "wire_frame (sealed na ch ps ! n) \<noteq> []" by (metis length_wire_frame list.size(3) add_is_0 numeral_eq_iff zero_neq_numeral)
  then show ?thesis using True by (simp add: stream_Cons)
qed simp

lemma take_Suc_snoc: "g < length ps \<Longrightarrow> gt = take g ps \<Longrightarrow> length gt = g \<Longrightarrow>
    gt @ [ps ! g] = take (Suc g) ps"
  by (simp add: take_Suc_conv_app_nth)

lemma reader_seq:
  assumes "reader_inv na ch ps gt r"
  shows "nat (br_sequenceNumber r) = length gt + length (localBuffer r)"
    and "nat (br_sequenceNumber r) \<le> length ps"
proof -
  have e: "br_sequenceNumber r = int (length gt + length (localBuffer r))"
      and l: "length gt + length (localBuffer r) \<le> length ps"
    using assms by (simp_all add: reader_inv_def)
  show n: "nat (br_sequenceNumber r) = length gt + length (localBuffer r)" unfolding e by (rule nat_int)
  show "nat (br_sequenceNumber r) \<le> length ps" unfolding n by (rule l)
qed

section \<open>One direction: writing\<close>

text \<open>The packet \<open>p\<close> is accepted: it is sealed, backed up, and \<open>j\<close> bytes of it are sent.\<close>

lemma dir_append:
  assumes inv: "dir_inv na ch ps gt wi lk b r" and "packet_ok p"
    and q: "q = seal na (bw_crypto b) p"
    and "bw_wf b'" and "bw_sequenceNumber b' = bw_sequenceNumber b + 1"
    and "bw_crypto b' = incrementNonce (bw_crypto b)" and bk: "backupBuffer b' = take k (q # backupBuffer b)"
    and wi': "wi' = (if lk then wi @ take j (wire_frame q) else wi)"
    and lk': "lk' \<Longrightarrow> lk \<and> length (wire_frame q) \<le> j \<and> 0 \<le> bw_socketFd b'"
  shows "dir_inv na ch (ps @ [p]) gt wi' lk' b' r"
proof -
  let ?S = "sealed na ch ps"
  have w: "writer_inv na ch ps b" and r: "reader_inv na ch ps gt r" and l: "link_inv na ch ps wi lk b r"
    using inv by (simp_all add: dir_inv_def)
  obtain d where d: "d \<le> length ps" "backupBuffer b = rev (drop d ?S)"
    using w by (auto simp: writer_inv_def)
  have c: "bw_crypto b = (incrementNonce ^^ length ps) ch" using w by (simp add: writer_inv_def)
  have S': "sealed na ch (ps @ [p]) = ?S @ [q]" using q c by (simp add: sealed_snoc)
  have "q # backupBuffer b = rev (drop d (sealed na ch (ps @ [p])))"
    using d S' by simp
  then have "backupBuffer b' = rev (drop (length (drop d (?S @ [q])) - k + d) (sealed na ch (ps @ [p])))"
    using bk S' by (simp only: take_rev drop_drop)
  moreover have "drop x (sealed na ch (ps @ [p])) = drop (min x (length (ps @ [p]))) (sealed na ch (ps @ [p]))" for x
    by (simp add: min_def)
  ultimately have "\<exists>d'\<le>length (ps @ [p]). backupBuffer b' = rev (drop d' (sealed na ch (ps @ [p])))"
    by (metis min.cobounded2)
  then have "writer_inv na ch (ps @ [p]) b'"
    using assms(4-6) w by (simp add: writer_inv_def)
  moreover have "reader_inv na ch (ps @ [p]) gt r"
    using r S' by (auto simp: reader_inv_def)
  moreover have "link_inv na ch (ps @ [p]) wi' lk' b' r"
  proof -
    have n: "nat (br_sequenceNumber r) \<le> length ps" using reader_seq(2) [OF r] .
    have st: "stream na ch (ps @ [p]) (nat (br_sequenceNumber r)) =
        stream na ch ps (nat (br_sequenceNumber r)) @ wire_frame q"
      using stream_snoc [OF n] q c by simp
    show ?thesis
    proof (cases lk)
      case True
      then have e: "partialMessage r @ wi' = stream na ch ps (nat (br_sequenceNumber r)) @ take j (wire_frame q)"
        if "0 \<le> br_socketFd r" using l wi' that by (simp add: link_inv_def flip: append_assoc)
      show ?thesis
        unfolding link_inv_def st using e lk' by (simp add: take_is_prefix)
    next
      case False
      then show ?thesis using l wi' lk' by (auto simp: link_inv_def st)
    qed
  qed
  moreover have "\<forall>p\<in>set (ps @ [p]). packet_ok p" using inv assms(2) by (simp add: dir_inv_def)
  ultimately show ?thesis by (simp add: dir_inv_def)
qed

lemma bw_wf_write:
  assumes "bw_wf b" and "encrypted q"
  shows "bw_wf (b\<lparr>bw_crypto := c, bw_sequenceNumber := n, backupBuffer := take k (q # backupBuffer b),
      backupSize := sum_len (take k (q # backupBuffer b))\<rparr>)"
    and "bw_wf (b\<lparr>bw_crypto := c, backupBuffer := q # backupBuffer b,
         backupSize := backupSize b + packet_length q, bw_sequenceNumber := n, disconnectedBytes := m\<rparr>)"
proof -
  have "set (take k (q # backupBuffer b)) \<subseteq> set (q # backupBuffer b)" by (rule set_take_subset)
  then show "bw_wf (b\<lparr>bw_crypto := c, bw_sequenceNumber := n, backupBuffer := take k (q # backupBuffer b),
      backupSize := sum_len (take k (q # backupBuffer b))\<rparr>)"
    using assms by (auto simp: bw_wf_def)
  show "bw_wf (b\<lparr>bw_crypto := c, backupBuffer := q # backupBuffer b,
         backupSize := backupSize b + packet_length q, bw_sequenceNumber := n, disconnectedBytes := m\<rparr>)"
    using assms by (simp add: bw_wf_def)
qed

lemma sends_unique: "sends fd a w w' \<Longrightarrow> sends fd b w w' \<Longrightarrow> a = b"
  unfolding sends_def by (metis same_append_eq)

lemma dir_write:
  assumes "sodium_ok na" and inv: "dir_inv na ch ps gt wi lk b r" and pk: "packet_ok p"
    and run: "BackedWriter_write na p (b, w) = (Ok st, (b', w'))"
    and tx: "sends (bw_socketFd b) tx w w'"
    and lk': "lk' = (lk \<and> st \<noteq> WROTE_WITH_FAILURE)"
  shows "dir_inv na ch (if st \<noteq> SKIPPED then ps @ [p] else ps) gt (if lk then wi @ tx else wi) lk' b' r \<and>
     bw_socketFd b' = bw_socketFd b"
proof -
  have wf: "bw_wf b" using inv by (simp add: dir_inv_def writer_inv_def)
  have p: "\<not> encrypted p" "packet_length p < 2 ^ 31 - 20" using pk by (simp_all add: packet_ok_def)
  have lkfd: "lk \<Longrightarrow> 0 \<le> bw_socketFd b" using inv by (simp add: dir_inv_def link_inv_def)
  let ?q = "seal na (bw_crypto b) p"
  have eq: "encrypted ?q" using seal_spec(3) [OF assms(1) p(1)] .
  from assms(1) p wf run show ?thesis
  proof (cases rule: BackedWriter_write_cases)
    case skipped
    then show ?thesis using inv lkfd lk' by auto
  next
    case buffered
    have "dir_inv na ch (ps @ [p]) gt wi lk' b' r"
      by (rule dir_append [OF inv pk refl, where k = "length (?q # backupBuffer b)" and j = 0])
        (use buffered lkfd lk' bw_wf_write(2) [OF wf eq] in auto)
    then show ?thesis using buffered lkfd by auto
  next
    case (sent k j)
    have "tx = take j (wire_frame ?q)" using sends_unique [OF tx sent(5)] .
    then have "dir_inv na ch (ps @ [p]) gt (if lk then wi @ tx else wi) lk' b' r"
      by (intro dir_append [OF inv pk refl, where k = k and j = j])
        (use sent lk' bw_wf_write(1) [OF wf eq] in auto)
    then show ?thesis using sent by auto
  qed
qed

section \<open>One direction: reading\<close>

lemma sealed_open:
  assumes "sodium_ok na" and "i < length ps" and "\<forall>p\<in>set ps. packet_ok p"
  shows "Packet_decrypt na (sealed na ch ps ! i) ((incrementNonce ^^ i) ch) = (Ok (ps ! i), (incrementNonce ^^ Suc i) ch)"
    and "packet_length (sealed na ch ps ! i) < 2 ^ 31 - 4"
proof -
  have "\<not> encrypted (ps ! i)" "packet_length (ps ! i) < 2 ^ 31 - 20"
    using assms(2,3) by (auto simp: packet_ok_def)
  then show "Packet_decrypt na (sealed na ch ps ! i) ((incrementNonce ^^ i) ch) = (Ok (ps ! i), (incrementNonce ^^ Suc i) ch)"
    and "packet_length (sealed na ch ps ! i) < 2 ^ 31 - 4"
    using seal_spec [OF assms(1)] assms(2) by (simp_all add: nth_sealed)
qed

text \<open>The length field at the front of the stream is the length of the next packet.\<close>

lemma frame_header:
  assumes "prefix X (wire_frame q @ y)" and "4 \<le> length X" and "packet_length q < 2 ^ 31"
  shows "be32_dec (take 4 X) = packet_length q"
proof -
  have "take 4 X = take 4 (wire_frame q @ y)"
  proof -
    obtain z where "wire_frame q @ y = X @ z" using assms(1) by (auto simp: prefix_def)
    then show ?thesis using assms(2) by simp
  qed
  also have "\<dots> = be32 (packet_length q)" by (simp add: wire_frame_def)
  finally show ?thesis using be32_roundtrip assms(3) packet_length_pos [of q] by simp
qed

lemma frame_length: "int (length (wire_frame q)) = packet_length q + 4"
  by (simp add: packet_length_def HEADER_SIZE_def)

lemma prefix_same_length: "prefix X (f @ y) \<Longrightarrow> length X = length f \<Longrightarrow> X = f"
  by (auto simp: prefix_def append_eq_append_conv)

lemma dir_read_local:
  assumes "sodium_ok na" and inv: "dir_inv na ch ps gt wi lk b r"
    and ne: "localBuffer r \<noteq> []" and p: "Packet_of_string (hd (localBuffer r)) = Ok p"
    and d: "Packet_decrypt na p (br_crypto r) = (Ok q, c)"
  shows "dir_inv na ch ps (gt @ [q]) wi lk b (r\<lparr>localBuffer := tl (localBuffer r), br_crypto := c\<rparr>)"
proof -
  let ?S = "sealed na ch ps" and ?g = "length gt" and ?m = "length (localBuffer r)"
  have r: "reader_inv na ch ps gt r" and pk: "\<forall>p\<in>set ps. packet_ok p" using inv by (simp_all add: dir_inv_def)
  obtain m' where m: "?m = Suc m'" using ne by (cases "localBuffer r") auto
  have lb: "localBuffer r = map serialize (take ?m (drop ?g ?S))" and "?g + ?m \<le> length ps"
    using r by (simp_all add: reader_inv_def)
  then have g: "?g < length ps" using m by simp
  have dr: "drop ?g ?S = ?S ! ?g # drop (Suc ?g) ?S" using g by (simp flip: Cons_nth_drop_Suc)
  have lb2: "localBuffer r = serialize (?S ! ?g) # map serialize (take m' (drop (Suc ?g) ?S))"
    using lb unfolding m dr by simp
  have "p = ?S ! ?g" using p lb2 by simp
  then have q: "q = ps ! ?g" and c: "c = (incrementNonce ^^ Suc ?g) ch"
    using d r sealed_open(1) [OF assms(1) g pk, of ch] by (simp_all add: reader_inv_def)
  have "length (tl (localBuffer r)) = m'" using m by simp
  then have "tl (localBuffer r) = map serialize (take (length (tl (localBuffer r))) (drop (length (gt @ [q])) ?S))"
    using lb2 by simp
  moreover have "gt @ [q] = take (length (gt @ [q])) ps"
    using r g q by (simp add: reader_inv_def take_Suc_conv_app_nth)
  ultimately have "reader_inv na ch ps (gt @ [q]) (r\<lparr>localBuffer := tl (localBuffer r), br_crypto := c\<rparr>)"
    using r m c by (simp add: reader_inv_def)
  then show ?thesis using inv by (simp add: dir_inv_def link_inv_def)
qed

lemma dir_read_stream:
  assumes "sodium_ok na" and inv: "dir_inv na ch ps gt (rx @ rest) lk b r"
    and fd: "0 \<le> br_socketFd r" and lb: "localBuffer r = []"
    and res: "br_partial r rx res r' \<or> br_complete na r rx res r'"
  shows "dir_inv na ch ps (if 0 < fst res then gt @ [the (snd res)] else gt) rest lk b r' \<and>
     br_socketFd r' = br_socketFd r"
proof -
  let ?S = "sealed na ch ps" and ?g = "length gt" and ?X = "partialMessage r @ rx"
  have r: "reader_inv na ch ps gt r" and pk: "\<forall>p\<in>set ps. packet_ok p" and l: "link_inv na ch ps (rx @ rest) lk b r"
    using inv by (simp_all add: dir_inv_def)
  have n: "nat (br_sequenceNumber r) = ?g" using reader_seq(1) [OF r] lb by simp
  have g: "?g \<le> length ps" using reader_seq(2) [OF r] n by simp
  have pre: "prefix (?X @ rest) (stream na ch ps ?g)" and eq: "lk \<Longrightarrow> ?X @ rest = stream na ch ps ?g"
    using l fd n by (simp_all add: link_inv_def)
  have head: "?g < length ps \<and> be32_dec (take 4 ?X) = packet_length (?S ! ?g) \<and>
      prefix ?X (wire_frame (?S ! ?g) @ stream na ch ps (Suc ?g))" if "4 \<le> length ?X"
  proof -
    have "?g \<noteq> length ps" using pre that by auto
    then have lt: "?g < length ps" using g by simp
    then have pX: "prefix ?X (wire_frame (?S ! ?g) @ stream na ch ps (Suc ?g))"
      using pre stream_Cons by (metis append_prefixD)
    then show ?thesis using lt frame_header [OF pX that] sealed_open(2) [OF assms(1) lt pk, of ch] by simp
  qed
  show ?thesis
    using res
  proof
    assume p: "br_partial r rx res r'"
    then have r': "r' = r\<lparr>partialMessage := ?X\<rparr>" and f: "\<not> 0 < fst res"
        and short: "4 \<le> length ?X \<Longrightarrow> 0 \<le> be32_dec (take 4 ?X) \<Longrightarrow> int (length ?X) < be32_dec (take 4 ?X) + 4"
      by (auto simp: br_partial_def Let_def)
    have "length ?X < 2 ^ 31"
    proof (cases "4 \<le> length ?X")
      case True
      then show ?thesis
        using head [OF True] short [OF True] sealed_open(2) [OF assms(1) _ pk, of ?g ch] packet_length_pos [of "?S ! ?g"]
        by simp
    qed simp
    then have "reader_inv na ch ps gt r'" using r r' lb by (simp add: reader_inv_def)
    moreover have "link_inv na ch ps rest lk b r'"
      using l pre eq n unfolding link_inv_def r' by simp
    ultimately show ?thesis using f inv r' by (simp add: dir_inv_def)
  next
    assume c: "br_complete na r rx res r'"
    then obtain p q ch' where four: "4 \<le> length ?X" and res: "res = (1, Some q)"
        and full: "0 \<le> be32_dec (take 4 ?X) \<Longrightarrow> int (length ?X) = be32_dec (take 4 ?X) + 4 \<and>
          Packet_of_string (drop 4 ?X) = Ok p \<and> Packet_decrypt na p (br_crypto r) = (Ok q, ch') \<and>
          r' = r\<lparr>br_crypto := ch', partialMessage := [], br_sequenceNumber := br_sequenceNumber r + 1\<rparr>"
      unfolding br_complete_def Let_def by blast
    have h: "?g < length ps" "be32_dec (take 4 ?X) = packet_length (?S ! ?g)"
        "prefix ?X (wire_frame (?S ! ?g) @ stream na ch ps (Suc ?g))" using head [OF four] by auto
    have F: "int (length ?X) = packet_length (?S ! ?g) + 4" "Packet_of_string (drop 4 ?X) = Ok p"
        "Packet_decrypt na p (br_crypto r) = (Ok q, ch')"
        "r' = r\<lparr>br_crypto := ch', partialMessage := [], br_sequenceNumber := br_sequenceNumber r + 1\<rparr>"
      using full h(2) packet_length_pos [of "?S ! ?g"] by auto
    have X: "?X = wire_frame (?S ! ?g)"
      using prefix_same_length [OF h(3)] F(1) frame_length [of "?S ! ?g"] by linarith
    have "p = ?S ! ?g" using F(2) unfolding X by (simp add: wire_frame_def)
    then have q: "q = ps ! ?g" and c: "ch' = (incrementNonce ^^ Suc ?g) ch"
      using F(3) r sealed_open(1) [OF assms(1) h(1) pk, of ch] by (simp_all add: reader_inv_def)
    have "gt @ [q] = take (length (gt @ [q])) ps"
      using r h(1) q by (simp add: reader_inv_def take_Suc_conv_app_nth)
    then have "reader_inv na ch ps (gt @ [q]) r'"
      using r h(1) F(4) c lb by (simp add: reader_inv_def)
    moreover have "link_inv na ch ps rest lk b r'"
    proof -
      have "nat (br_sequenceNumber r') = Suc ?g" using F(4) r lb by (simp add: reader_inv_def)
      moreover have "prefix rest (stream na ch ps (Suc ?g))" and "lk \<Longrightarrow> rest = stream na ch ps (Suc ?g)"
        using pre eq stream_Cons [OF h(1), of na ch] unfolding X by auto
      ultimately show ?thesis using l F(4) by (simp add: link_inv_def)
    qed
    ultimately show ?thesis using inv res F(4) by (simp add: dir_inv_def)
  qed
qed

section \<open>One direction: losing and recovering the connection\<close>

lemma dir_close_writer:
  "dir_inv na ch ps gt wi lk b r \<Longrightarrow> dir_inv na ch ps gt wi False (BackedWriter_invalidateSocket b) r"
  by (simp add: dir_inv_def writer_inv_def link_inv_def BackedWriter_invalidateSocket_def bw_wf_def)

lemma dir_close_reader:
  "dir_inv na ch ps gt wi lk b r \<Longrightarrow> dir_inv na ch ps gt wi lk b (BackedReader_invalidateSocket r)"
  by (simp add: dir_inv_def reader_inv_def link_inv_def BackedReader_invalidateSocket_def)

lemma dir_unlink: "dir_inv na ch ps gt wi lk b r \<Longrightarrow> dir_inv na ch ps gt wi False b r"
  by (simp add: dir_inv_def link_inv_def)

lemma dir_revive_writer:
  "dir_inv na ch ps gt wi lk b r \<Longrightarrow> dir_inv na ch ps gt wi False (BackedWriter_revive fd b) r"
  by (simp add: dir_inv_def writer_inv_def link_inv_def BackedWriter_revive_def bw_wf_def)

lemma recover_messages:
  assumes w: "writer_inv na ch ps b" and run: "BackedWriter_recover (int n) b = Ok msgs" and "n \<le> length ps"
  shows "msgs = map serialize (drop n (sealed na ch ps))"
proof -
  let ?S = "sealed na ch ps"
  obtain d where d: "d \<le> length ps" "backupBuffer b = rev (drop d ?S)" and sq: "bw_sequenceNumber b = int (length ps)"
    using w by (auto simp: writer_inv_def)
  have "bw_socketFd b < 0" using run by (auto simp: BackedWriter_recover_def split: if_splits)
  then have "int (length ps) - int n \<le> int (length (backupBuffer b))"
      and m: "msgs = map serialize (rev (take (nat (int (length ps) - int n)) (backupBuffer b)))"
    using run BackedWriter_recover_spec [of b "int n"] sq assms(3) by (auto split: if_splits)
  then have k: "length ps - n \<le> length ps - d" using d by simp
  have "nat (int (length ps) - int n) = length ps - n" by simp
  then have "msgs = map serialize (rev (take (length ps - n) (rev (drop d ?S))))" using m d(2) by simp
  also have "\<dots> = map serialize (drop (length ps - d - (length ps - n)) (drop d ?S))"
    by (simp add: take_rev)
  also have "\<dots> = map serialize (drop n ?S)"
    using k d(1) assms(3) by (simp add: drop_drop)
  finally show ?thesis .
qed

lemma dir_revive_reader:
  assumes inv: "dir_inv na ch ps gt wi lk b r" and run: "BackedWriter_recover (br_sequenceNumber r) b = Ok msgs"
    and b': "b' = b \<or> b' = BackedWriter_revive fd' b" and lk': "lk' \<Longrightarrow> 0 \<le> bw_socketFd b'"
  shows "dir_inv na ch ps gt [] lk' b' (BackedReader_revive fd msgs r)"
proof -
  let ?S = "sealed na ch ps" and ?g = "length gt" and ?m = "length (localBuffer r)"
  have w: "writer_inv na ch ps b" and r: "reader_inv na ch ps gt r" using inv by (simp_all add: dir_inv_def)
  have gm: "?g + ?m \<le> length ps" and sq: "br_sequenceNumber r = int (?g + ?m)"
      and lb: "localBuffer r = map serialize (take ?m (drop ?g ?S))"
    using r by (simp_all add: reader_inv_def)
  have msgs: "msgs = map serialize (drop (?g + ?m) ?S)"
    using recover_messages [OF w run [unfolded sq] gm] .
  have "take ?m (drop ?g ?S) @ drop (?g + ?m) ?S = drop ?g ?S"
    by (metis add.commute append_take_drop_id drop_drop)
  then have lb': "localBuffer r @ msgs = map serialize (drop ?g ?S)"
    using lb msgs by (metis map_append)
  have len: "length (localBuffer r @ msgs) = length ps - ?g" unfolding lb' by simp
  have "reader_inv na ch ps gt (BackedReader_revive fd msgs r)"
    using r gm len lb' msgs by (simp add: reader_inv_def BackedReader_revive_def)
  moreover have "nat (br_sequenceNumber (BackedReader_revive fd msgs r)) = length ps"
    using sq gm msgs by (simp add: BackedReader_revive_def)
  then have "link_inv na ch ps [] lk' b' (BackedReader_revive fd msgs r)"
    using lk' by (simp add: link_inv_def BackedReader_revive_def)
  moreover have "writer_inv na ch ps b'"
    using w b' by (auto simp: writer_inv_def BackedWriter_revive_def bw_wf_def)
  ultimately show ?thesis using inv by (simp add: dir_inv_def)
qed

section \<open>The exchange gives each side what it misses\<close>

lemma frame_of_not_Nil: "frame_of C m bs \<Longrightarrow> bs \<noteq> []"
  by (auto simp: frame_of_def)

lemma rec_trace_front:
  assumes "rec_trace P b hs tx rx res" and "frame_of C hdr rx1" and "prefix (rx1 @ rx2) tx"
    and "int (length hs) \<le> MAX_MESSAGE"
  shows "ParseFromString C hs = Some hdr \<and> rx1 = proto_frame hs"
proof -
  obtain t2 where "prefix tx (proto_frame hs @ t2)"
    using assms(1) by (auto simp: rec_trace_def intro: prefix_order.trans)
  then have "prefix (rx1 @ rx2) (proto_frame hs @ t2)" using assms(3) by (rule prefix_order.trans [rotated])
  then show ?thesis using frame_of_front [OF assms(2) _ assms(4)] by blast
qed

lemma exchange:
  assumes ok: "protos_ok P"
    and me: "rec_trace P b' hs' tx' rx' (Some cat)" and you: "rec_trace P b hs tx rx res"
    and h': "SerializeToString (SequenceHeader_codec P) \<lparr>sequenceNumber = Some n\<rparr> = Some hs'"
    and l: "int (length hs) \<le> MAX_MESSAGE" "int (length hs') \<le> MAX_MESSAGE"
    and p: "prefix rx' tx" "prefix rx tx'"
  shows "BackedWriter_recover n b = Ok cat"
proof -
  let ?H = "SequenceHeader_codec P" and ?B = "CatchupBuffer_codec P"
  have okH: "codec_ok ?H" and okB: "codec_ok ?B" using ok by (simp_all add: protos_ok_def)
  obtain hdr' rx1' rx2' where m: "rx' = rx1' @ rx2'" "frame_of ?H hdr' rx1'" "frame_of ?B cat rx2'"
    using me by (auto simp: rec_trace_def)
  have f1: "rx1' = proto_frame hs" using rec_trace_front [OF you m(2) _ l(1)] p(1) m(1) by blast
  have "\<not> prefix tx (proto_frame hs)"
    using p(1) m(1) f1 frame_of_not_Nil [OF m(3)] by (metis prefix_order.trans append_Nil2 same_prefix_prefix prefix_Nil)
  then obtain hdr rx1 rx2 msgs cs t2 where y: "rx = rx1 @ rx2" "frame_of ?H hdr rx1"
      "BackedWriter_recover (get_sequencenumber hdr) b = Ok msgs" "SerializeToString ?B msgs = Some cs"
      "int (length cs) \<le> MAX_MESSAGE" "tx = proto_frame hs @ t2" "prefix t2 (proto_frame cs)"
    using you by (auto simp: rec_trace_def)
  have "prefix (rx2' @ []) (proto_frame cs @ [])"
    using p(1) m(1) f1 y(6,7) by (auto intro: prefix_order.trans)
  then have "ParseFromString ?B cs = Some cat" using frame_of_front [OF m(3) _ y(5)] by blast
  then have "cat = msgs" using okB y(4) by (auto simp: codec_ok_def)
  moreover have "ParseFromString ?H hs' = Some hdr"
    using rec_trace_front [OF me y(2) _ l(2)] p(2) y(1) by blast
  then have "hdr = \<lparr>sequenceNumber = Some n\<rparr>" using okH h' by (auto simp: codec_ok_def)
  then have "get_sequencenumber hdr = n" by (simp add: get_sequencenumber_def)
  ultimately show ?thesis using y(3) by simp
qed

section \<open>Every step keeps the invariant\<close>

lemma quiet_rev:
  "quiet u v \<Longrightarrow> sends fd tx w v \<Longrightarrow> sends fd tx w u"
  "quiet u v \<Longrightarrow> receives fd tx w v \<Longrightarrow> receives fd tx w u"
  by (simp_all add: quiet_def sends_nothing_def receives_nothing_def sends_def receives_def)

lemma conn_okD:
  assumes "conn_ok c"
  shows "reader c = Some (rd c)" and "writer c = Some (wr c)" and "br_socketFd (rd c) = c_socketFd c"
    and "bw_socketFd (wr c) = c_socketFd c" and "-1 \<le> c_socketFd c"
  using assms by (auto simp: conn_ok_def rd_def wr_def)

lemma closed_views:
  assumes "conn_ok c"
  shows "conn_ok (closed c)" and "rd (closed c) = BackedReader_invalidateSocket (rd c)"
    and "wr (closed c) = BackedWriter_invalidateSocket (wr c)" and "c_socketFd (closed c) = -1"
  using assms by (auto simp: conn_ok_def closed_def rd_def wr_def BackedReader_invalidateSocket_def
      BackedWriter_invalidateSocket_def)

lemma thread_views [simp]:
  "conn_ok (x\<lparr>reconnectThread := t\<rparr>) = conn_ok x" "rd (x\<lparr>reconnectThread := t\<rparr>) = rd x"
  "wr (x\<lparr>reconnectThread := t\<rparr>) = wr x" "conn_ok (x\<lparr>shuttingDown := d\<rparr>) = conn_ok x"
  "rd (x\<lparr>shuttingDown := d\<rparr>) = rd x" "wr (x\<lparr>shuttingDown := d\<rparr>) = wr x"
  by (simp_all add: conn_ok_def rd_def wr_def)

text \<open>A side whose reader and writer are as before, or cut off, after a step of the other direction.\<close>

lemma dir_same_reader:
  "dir_inv na ch ps gt wi lk b r \<Longrightarrow> r' = r \<or> r' = BackedReader_invalidateSocket r \<Longrightarrow>
   dir_inv na ch ps gt wi lk b r'"
  using dir_close_reader by blast

lemma session_invD:
  assumes "session_inv na st" and "\<And>s. length (sent_log st s) < 2 ^ 31"
  shows "conn_ok (conn st s)"
    and "dir_inv na (origin st s) (sent_log st s) (got st (\<not> s)) (wire st s) (linked st s)
          (wr (conn st s)) (rd (conn st (\<not> s)))"
  using assms by (simp_all add: session_inv_def)

lemma session_invI:
  assumes "\<And>s'. (\<And>s. length (sent_log st s) < 2 ^ 31) \<Longrightarrow> conn_ok (conn st s') \<and>
     dir_inv na (origin st s') (sent_log st s') (got st (\<not> s')) (wire st s') (linked st s')
          (wr (conn st s')) (rd (conn st (\<not> s')))"
  shows "session_inv na st"
  using assms by (simp add: session_inv_def)

lemma inv_write:
  assumes na: "sodium_ok na" and inv: "session_inv na st" and pk: "packet_ok p"
    and run: "Connection_write na p (conn st s, w) = (Ok accepted, (c', w'))"
    and tx: "sends (c_socketFd (conn st s)) tx w w'"
    and st': "st' = st\<lparr>conn := (conn st)(s := c'),
          wire := (wire st)(s := (if linked st s then wire st s @ tx else wire st s)),
          linked := (linked st)(s := linked st s \<and> c_socketFd c' \<noteq> -1),
          sent_log := (sent_log st)(s := (if accepted then sent_log st s @ [p] else sent_log st s))\<rparr>"
  shows "session_inv na st'"
proof (rule session_invI)
  fix s' assume b': "\<And>s. length (sent_log st' s) < 2 ^ 31"
  have bound: "length (sent_log st x) < 2 ^ 31" for x
    using b' [of x] unfolding st' by (auto split: if_splits)
  let ?c = "conn st s" and ?b = "wr (conn st s)"
  note I = session_invD [OF inv bound]
  note ok = conn_okD [OF I(1)]
  obtain bw b1 w1 t where B: "BackedWriter_write na p (?b, w) = (Ok bw, (b1, w1))" "quiet w1 w'"
      "accepted \<longleftrightarrow> bw \<noteq> SKIPPED"
      "c' = (if bw = WROTE_WITH_FAILURE \<and> c_socketFd ?c \<noteq> -1 then closed (?c\<lparr>writer := Some b1\<rparr>)
               else ?c\<lparr>writer := Some b1\<rparr>)\<lparr>reconnectThread := t\<rparr>"
    using Connection_write_cases [OF run ok(2)] by metis
  let ?ps = "if bw \<noteq> SKIPPED then sent_log st s @ [p] else sent_log st s"
  let ?wi = "if linked st s then wire st s @ tx else wire st s"
  have D: "dir_inv na (origin st s) ?ps (got st (\<not> s)) ?wi (linked st s \<and> bw \<noteq> WROTE_WITH_FAILURE) b1
        (rd (conn st (\<not> s)))" and fd: "bw_socketFd b1 = c_socketFd ?c"
    using dir_write [OF na I(2) pk B(1) _ refl] quiet_rev(1) [OF B(2) tx] ok(4) by auto
  have lk: "linked st s \<Longrightarrow> c_socketFd ?c \<noteq> -1"
    using I(2) [of s] ok(4) [of s] by (auto simp: dir_inv_def link_inv_def)
  have c1: "conn_ok (?c\<lparr>writer := Some b1\<rparr>)" "rd (?c\<lparr>writer := Some b1\<rparr>) = rd ?c" "wr (?c\<lparr>writer := Some b1\<rparr>) = b1"
    using I(1) [of s] fd by (auto simp: conn_ok_def rd_def wr_def)
  let ?cl = "bw = WROTE_WITH_FAILURE \<and> c_socketFd ?c \<noteq> -1"
  have V: "conn_ok c'" "rd c' = (if ?cl then BackedReader_invalidateSocket (rd ?c) else rd ?c)"
      "wr c' = (if ?cl then BackedWriter_invalidateSocket b1 else b1)"
      "c_socketFd c' = (if ?cl then -1 else c_socketFd ?c)"
    using B(4) c1 closed_views [OF c1(1)] by auto
  have D': "dir_inv na (origin st s) ?ps (got st (\<not> s)) ?wi (linked st s \<and> c_socketFd c' \<noteq> -1) (wr c')
        (rd (conn st (\<not> s)))"
    using D dir_close_writer [OF D] lk unfolding V(3,4) by (cases ?cl) auto
  show "conn_ok (conn st' s') \<and> dir_inv na (origin st' s') (sent_log st' s') (got st' (\<not> s')) (wire st' s')
      (linked st' s') (wr (conn st' s')) (rd (conn st' (\<not> s')))"
  proof (cases "s' = s")
    case True
    then show ?thesis using D' V(1) B(3) unfolding st' by simp
  next
    case False
    then have s': "s' = (\<not> s)" by simp
    then show ?thesis
      using I [of "\<not> s"] dir_same_reader [OF I(2) [of "\<not> s"], of "rd c'"] V(2) unfolding st' by simp
  qed
qed

lemma inv_read:
  assumes na: "sodium_ok na" and inv: "session_inv na st"
    and run: "Connection_read na (conn st s, w) = (Ok out, (c', w'))"
    and rx: "receives (c_socketFd (conn st s)) rx w w'" and wi: "wire st (\<not> s) = rx @ rest"
    and st': "st' = st\<lparr>conn := (conn st)(s := c'), wire := (wire st)(\<not> s := rest),
          linked := (linked st)(s := linked st s \<and> c_socketFd c' \<noteq> -1),
          got := (got st)(s := (if fst out then got st s @ [the (snd out)] else got st s))\<rparr>"
  shows "session_inv na st'"
proof (rule session_invI)
  fix s' assume b': "\<And>s. length (sent_log st' s) < 2 ^ 31"
  have bound: "length (sent_log st x) < 2 ^ 31" for x using b' [of x] unfolding st' by simp
  let ?c = "conn st s" and ?r = "rd (conn st s)"
  note I = session_invD [OF inv bound]
  note ok = conn_okD [OF I(1)]
  obtain res r1 w1 t where B: "BackedReader_read na (?r, w) = (Ok res, (r1, w1))" "quiet w1 w'"
      "out = (fst res > 0, snd res)"
      "c' = (if fst res = -1 \<and> c_socketFd ?c \<noteq> -1 then closed (?c\<lparr>reader := Some r1\<rparr>)
               else ?c\<lparr>reader := Some r1\<rparr>)\<lparr>reconnectThread := t\<rparr>"
    using Connection_read_cases [OF run ok(1)] by metis
  let ?gt = "if fst res > 0 then got st s @ [the (snd res)] else got st s"
  have D0: "dir_inv na (origin st (\<not> s)) (sent_log st (\<not> s)) (got st s) (rx @ rest) (linked st (\<not> s))
      (wr (conn st (\<not> s))) ?r"
    using I(2) [of "\<not> s"] wi by simp
  have pm: "length (partialMessage ?r) < 2 ^ 31" using D0 by (simp add: dir_inv_def reader_inv_def)
  have rx1: "receives (br_socketFd ?r) rx w w1" using quiet_rev(2) [OF B(2) rx] ok(3) by simp
  have DF: "dir_inv na (origin st (\<not> s)) (sent_log st (\<not> s)) ?gt rest (linked st (\<not> s))
      (wr (conn st (\<not> s))) r1 \<and> br_socketFd r1 = br_socketFd ?r"
    using B(1) pm
  proof (cases rule: BackedReader_read_cases)
    case dead
    then show ?thesis using D0 receives_unique [OF rx1, of "[]"] by simp
  next
    case (local p q c)
    then show ?thesis
      using dir_read_local [OF na D0 local(2,4,5)] receives_unique [OF rx1, of "[]"] by simp
  next
    case (stream rx')
    have "rx' = rx" using receives_unique [OF stream(3) rx1] .
    then show ?thesis using dir_read_stream [OF na D0 stream(1,2)] stream(4) by blast
  qed
  have c1: "conn_ok (?c\<lparr>reader := Some r1\<rparr>)" "wr (?c\<lparr>reader := Some r1\<rparr>) = wr ?c" "rd (?c\<lparr>reader := Some r1\<rparr>) = r1"
    using I(1) [of s] DF ok(3) by (auto simp: conn_ok_def rd_def wr_def)
  let ?cl = "fst res = -1 \<and> c_socketFd ?c \<noteq> -1"
  have V: "conn_ok c'" "rd c' = (if ?cl then BackedReader_invalidateSocket r1 else r1)"
      "wr c' = (if ?cl then BackedWriter_invalidateSocket (wr ?c) else wr ?c)"
      "c_socketFd c' = (if ?cl then -1 else c_socketFd ?c)"
    using B(4) c1 closed_views [OF c1(1)] by auto
  have lk: "linked st s \<Longrightarrow> c_socketFd ?c \<noteq> -1"
    using I(2) [of s] ok(4) [of s] by (auto simp: dir_inv_def link_inv_def)
  have D': "dir_inv na (origin st s) (sent_log st s) (got st (\<not> s)) (wire st s) (linked st s \<and> c_socketFd c' \<noteq> -1)
      (wr c') (rd (conn st (\<not> s)))"
  proof (cases ?cl)
    case True
    then show ?thesis using dir_close_writer [OF I(2) [of s]] unfolding V(3,4) by simp
  next
    case False
    moreover have "(linked st s \<and> c_socketFd ?c \<noteq> -1) = linked st s" using lk by blast
    ultimately show ?thesis using I(2) [of s] unfolding V(3,4) by (simp only: if_False)
  qed
  show "conn_ok (conn st' s') \<and> dir_inv na (origin st' s') (sent_log st' s') (got st' (\<not> s')) (wire st' s')
      (linked st' s') (wr (conn st' s')) (rd (conn st' (\<not> s')))"
  proof (cases "s' = s")
    case True
    then show ?thesis using D' V(1) unfolding st' by simp
  next
    case False
    then have s': "s' = (\<not> s)" by simp
    have "dir_inv na (origin st (\<not> s)) (sent_log st (\<not> s)) ?gt rest (linked st (\<not> s)) (wr (conn st (\<not> s))) (rd c')"
      by (rule dir_same_reader [OF conjunct1 [OF DF]]) (simp add: V(2))
    then show ?thesis using I(1) [of "\<not> s"] s' B(3) unfolding st' by (cases "0 < fst res") simp_all
  qed
qed

lemma inv_close:
  assumes inv: "session_inv na st" and run: "Connection_closeSocket (conn st s, w) = (Ok (), (c', w'))"
    and st': "st' = st\<lparr>conn := (conn st)(s := c'), linked := (linked st)(s := linked st s \<and> c_socketFd c' \<noteq> -1)\<rparr>"
  shows "session_inv na st'"
proof (rule session_invI)
  fix s' assume b': "\<And>s. length (sent_log st' s) < 2 ^ 31"
  have bound: "length (sent_log st x) < 2 ^ 31" for x using b' [of x] unfolding st' by simp
  let ?c = "conn st s"
  note I = session_invD [OF inv bound]
  let ?cl = "c_socketFd ?c \<noteq> -1"
  have V: "conn_ok c'" "rd c' = (if ?cl then BackedReader_invalidateSocket (rd ?c) else rd ?c)"
      "wr c' = (if ?cl then BackedWriter_invalidateSocket (wr ?c) else wr ?c)" "c_socketFd c' = -1"
    using closeSocket_cases [OF run] closed_views [OF I(1) [of s]] I(1) [of s] by auto
  have D': "dir_inv na (origin st s) (sent_log st s) (got st (\<not> s)) (wire st s) False
      (wr c') (rd (conn st (\<not> s)))"
    using dir_unlink [OF I(2) [of s]] dir_close_writer [OF I(2) [of s]] unfolding V(3) by auto
  show "conn_ok (conn st' s') \<and> dir_inv na (origin st' s') (sent_log st' s') (got st' (\<not> s')) (wire st' s')
      (linked st' s') (wr (conn st' s')) (rd (conn st' (\<not> s')))"
  proof (cases "s' = s")
    case True
    then show ?thesis using D' V(1,4) unfolding st' by simp
  next
    case False
    then have s': "s' = (\<not> s)" by simp
    then show ?thesis
      using I [of "\<not> s"] dir_same_reader [OF I(2) [of "\<not> s"], of "rd c'"] V(2) unfolding st' by simp
  qed
qed

lemma inv_recover:
  assumes P: "protos_ok P" and inv: "session_inv na st"
    and run: "\<And>s. Connection_recover P (nf s) (conn st s, w s) = (Ok (res s), (c' s, w' s))"
    and nf: "\<And>s. 0 \<le> nf s" and ns: "\<And>s. \<not> stalls (w s) (w' s)"
    and tx: "\<And>s. sends (nf s) (tx s) (w s) (w' s)" and rx: "\<And>s. receives (nf s) (rx s) (w s) (w' s)"
    and net: "\<And>s. prefix (rx s) (tx (\<not> s))"
    and st': "st' = st\<lparr>conn := c', wire := (\<lambda>s. if res (\<not> s) then [] else wire st s),
          linked := (\<lambda>s. if res s then res (\<not> s) else linked st s \<and> \<not> res (\<not> s))\<rparr>"
  shows "session_inv na st'"
proof (rule session_invI)
  fix s assume b': "\<And>s. length (sent_log st' s) < 2 ^ 31"
  have bound: "length (sent_log st x) < 2 ^ 31" for x using b' [of x] unfolding st' by simp
  note I = session_invD [OF inv bound]
  note ok = conn_okD [OF I(1)]
  let ?n = "\<lambda>s. to_int32 (br_sequenceNumber (rd (conn st s)))"
  have T: "\<exists>hs out. SerializeToString (SequenceHeader_codec P) \<lparr>sequenceNumber = Some (?n s)\<rparr> = Some hs \<and>
      int (length hs) \<le> MAX_MESSAGE \<and> rec_trace P (wr (conn st s)) hs (tx s) (rx s) out \<and>
      (if res s then \<exists>cat. out = Some cat \<and> c' s = revived (nf s) cat (rd (conn st s)) (wr (conn st s)) (conn st s)
       else c' s = conn st s)" for s
    using Connection_recover_trace [OF run [of s] ok(1,2) P ns] sends_unique [OF tx [of s]] receives_unique [OF rx [of s]]
    by metis
  have seq: "?n (\<not> s) = br_sequenceNumber (rd (conn st (\<not> s)))"
  proof -
    have "br_sequenceNumber (rd (conn st (\<not> s))) \<le> int (length (sent_log st s))" "0 \<le> br_sequenceNumber (rd (conn st (\<not> s)))"
      using I(2) [of s] by (auto simp: dir_inv_def reader_inv_def)
    then show ?thesis using bound [of s] by (intro to_int32_id) auto
  qed
  have C: "(\<exists>cat. c' s = revived (nf s) cat (rd (conn st s)) (wr (conn st s)) (conn st s)) \<and> res s \<or>
      c' s = conn st s \<and> \<not> res s"
    using T [of s] by (cases "res s") auto
  have wr': "wr (c' s) = (if res s then BackedWriter_revive (nf s) (wr (conn st s)) else wr (conn st s))"
    using C by (auto simp: revived_def wr_def)
  have "conn_ok (revived (nf s) cat r b c)" for cat r b c
    using nf [of s] by (simp add: revived_def conn_ok_def BackedWriter_revive_def BackedReader_revive_def)
  then have ok': "conn_ok (c' s)" using C I(1) [of s] by auto
  have "dir_inv na (origin st s) (sent_log st s) (got st (\<not> s)) (if res (\<not> s) then [] else wire st s)
     (if res s then res (\<not> s) else linked st s \<and> \<not> res (\<not> s)) (wr (c' s)) (rd (c' (\<not> s)))"
  proof (cases "res (\<not> s)")
    case True
    then obtain hs' cat where me: "SerializeToString (SequenceHeader_codec P) \<lparr>sequenceNumber = Some (?n (\<not> s))\<rparr> = Some hs'"
        "int (length hs') \<le> MAX_MESSAGE" "rec_trace P (wr (conn st (\<not> s))) hs' (tx (\<not> s)) (rx (\<not> s)) (Some cat)"
        "c' (\<not> s) = revived (nf (\<not> s)) cat (rd (conn st (\<not> s))) (wr (conn st (\<not> s))) (conn st (\<not> s))"
      using T [of "\<not> s"] by (auto split: if_splits)
    obtain hs out where you: "int (length hs) \<le> MAX_MESSAGE" "rec_trace P (wr (conn st s)) hs (tx s) (rx s) out"
      using T [of s] by auto
    have "BackedWriter_recover (br_sequenceNumber (rd (conn st (\<not> s)))) (wr (conn st s)) = Ok cat"
      using exchange [OF P me(3) you(2) me(1) you(1) me(2)] net [of "\<not> s"] net [of s] seq by simp
    from dir_revive_reader [OF I(2) this, of "wr (c' s)" "nf s" "res s" "nf (\<not> s)"]
    show ?thesis using True wr' nf [of s] me(4) by (auto simp: revived_def rd_def BackedWriter_revive_def)
  next
    case False
    then have "rd (c' (\<not> s)) = rd (conn st (\<not> s))" using T [of "\<not> s"] by (auto split: if_splits)
    then show ?thesis using False wr' I(2) [of s] dir_revive_writer [OF I(2) [of s]] by simp
  qed
  then show "conn_ok (conn st' s) \<and> dir_inv na (origin st' s) (sent_log st' s) (got st' (\<not> s)) (wire st' s)
      (linked st' s) (wr (conn st' s)) (rd (conn st' (\<not> s)))"
    using ok' unfolding st' by simp
qed

lemma session_step_inv:
  assumes "sodium_ok na" and "protos_ok P" and "session_inv na st" and "session_step na P st l st'"
  shows "session_inv na st'"
  using assms(4)
proof (cases rule: session_step.cases)
  case step_write
  then show ?thesis by (intro inv_write [OF assms(1,3)])
next
  case step_read
  then show ?thesis by (intro inv_read [OF assms(1,3)])
next
  case step_close
  then show ?thesis by (intro inv_close [OF assms(3)])
next
  case step_recover
  then show ?thesis by (intro inv_recover [OF assms(2,3)])
next
  case (step_thread s)
  then have same: "sent_log st' = sent_log st" "wire st' = wire st" "linked st' = linked st" "got st' = got st"
      "origin st' = origin st" "conn_ok (conn st' x) = conn_ok (conn st x)" "rd (conn st' x) = rd (conn st x)"
      "wr (conn st' x) = wr (conn st x)" for x
    by auto
  show ?thesis using assms(3) unfolding session_inv_def same .
qed

lemma session_init_inv:
  assumes "session_init na k st"
  shows "session_inv na st"
proof (rule session_invI)
  fix s
  have fd: "0 \<le> c_socketFd (conn st x)" for x using assms by (simp add: session_init_def)
  have "conn_ok (conn st s)"
    using assms order.trans [OF _ fd, of "-1" s]
    by (simp add: session_init_def conn_ok_def BackedReader_new_def BackedWriter_new_def)
  moreover have "dir_inv na (origin st s) [] [] [] True (wr (conn st s)) (rd (conn st (\<not> s)))"
    using assms fd by (simp add: session_init_def dir_inv_def writer_inv_def reader_inv_def
      link_inv_def rd_def wr_def BackedReader_new_def BackedWriter_new_def bw_wf_def sealed_def)
  ultimately show "conn_ok (conn st s) \<and> dir_inv na (origin st s) (sent_log st s) (got st (\<not> s)) (wire st s)
      (linked st s) (wr (conn st s)) (rd (conn st (\<not> s)))"
    using assms by (simp add: session_init_def)
qed

section \<open>Reachable sessions\<close>

definition session_start :: "sodium \<Rightarrow> protos \<Rightarrow> string \<Rightarrow> session \<Rightarrow> bool" where
  "session_start na P k st \<longleftrightarrow> sodium_ok na \<and> protos_ok P \<and> session_init na k st"

definition session_good :: "sodium \<Rightarrow> protos \<Rightarrow> session \<Rightarrow> bool" where
  "session_good na P st \<longleftrightarrow> sodium_ok na \<and> protos_ok P \<and> session_inv na st"

interpretation ses: inductive_invariant "session_start na P k" "session_step na P" "session_good na P" for na P k
  by unfold_locales (auto simp: session_start_def session_good_def intro: session_init_inv session_step_inv)

lemma reach_dir:
  assumes "ses.reach na P k st" and "\<And>s. length (sent_log st s) < 2 ^ 31"
  shows "dir_inv na (origin st s) (sent_log st s) (got st (\<not> s)) (wire st s) (linked st s)
          (wr (conn st s)) (rd (conn st (\<not> s)))"
  using ses.reach_inv [OF assms(1)] session_invD(2) [OF _ assms(2)] by (simp add: session_good_def)

section \<open>Properties\<close>

text \<open>A session over the stand-ins for libsodium and protobuf: one packet written and read.\<close>

definition sample_origin :: "bool \<Rightarrow> CryptoHandler" where
  "sample_origin s = \<lparr>nonce = (replicate 24 0)[23 := direction_msb s], key = sample_key\<rparr>"

definition sample_conn :: "bool \<Rightarrow> Connection" where
  "sample_conn s = (Connection_new 0 ''id'' sample_key)\<lparr>c_socketFd := 5,
     reader := Some (BackedReader_new 0 (sample_origin (\<not> s)) 5),
     writer := Some (BackedWriter_new 0 (sample_origin s) 5)\<rparr>"

definition sample_session :: session where
  "sample_session = \<lparr>conn = sample_conn, wire = (\<lambda>_. []), linked = (\<lambda>_. True), sent_log = (\<lambda>_. []),
     got = (\<lambda>_. []), origin = sample_origin\<rparr>"

definition sample_packet :: Packet where
  "sample_packet = mkPacket 1 ''hi''"

definition sample_sealed :: Packet where
  "sample_sealed = seal clear_sodium (sample_origin True) sample_packet"

definition sample_out :: "bool outcome \<times> Connection \<times> world" where
  "sample_out = Connection_write clear_sodium sample_packet (sample_conn True, sample_world [Val 0, Val 100])"

definition sample_in :: "(bool \<times> Packet option) outcome \<times> Connection \<times> world" where
  "sample_in = Connection_read clear_sodium (sample_conn False,
     sample_world [Val 1, Data (take 4 (wire_frame sample_sealed)), Val 1, Data (drop 4 (wire_frame sample_sealed))])"

definition sample_after_write :: session where
  "sample_after_write = sample_session\<lparr>conn := sample_conn(True := fst (snd sample_out)),
     wire := (\<lambda>_. [])(True := wire_frame sample_sealed), linked := (\<lambda>_. True)(True := True),
     sent_log := (\<lambda>_. [])(True := [sample_packet])\<rparr>"

definition sample_after_read :: session where
  "sample_after_read = sample_after_write\<lparr>conn := (conn sample_after_write)(False := fst (snd sample_in)),
     wire := (wire sample_after_write)(True := []),
     linked := (linked sample_after_write)(False := True),
     got := (\<lambda>_. [])(False := [sample_packet])\<rparr>"

lemma sample_out_eval:
  "fst sample_out = Ok True" "c_socketFd (fst (snd sample_out)) = 5"
  "trace (snd (snd sample_out)) = [Sent 5 (wire_frame sample_sealed)]"
  by code_simp+

lemma sample_in_eval:
  "fst sample_in = Ok (True, Some sample_packet)" "c_socketFd (fst (snd sample_in)) = 5"
  "trace (snd (snd sample_in)) = [Received 5 (take 4 (wire_frame sample_sealed)), Received 5 (drop 4 (wire_frame sample_sealed))]"
  by code_simp+

lemma sample_session_start: "session_start clear_sodium sample_protos sample_key sample_session"
proof -
  have "sodium_init clear_sodium = 0" by (simp add: clear_sodium_def)
  then show ?thesis
    by (simp add: session_start_def clear_sodium_ok protos_ok_def sample_protos_def two_codec_ok session_init_def
      sample_session_def sample_conn_def CryptoHandler_new_def sample_origin_def sample_key_def
      NONCEBYTES_def KEYBYTES_def Connection_new_def)
qed

lemma sample_write_step:
  "session_step clear_sodium sample_protos sample_session (LWrite True sample_packet) sample_after_write"
proof -
  let ?w = "sample_world [Val 0, Val 100]"
  have "Connection_write clear_sodium sample_packet (conn sample_session True, ?w) =
      (Ok True, (fst (snd sample_out), snd (snd sample_out)))"
    using sample_out_eval(1) by (simp add: sample_out_def sample_session_def prod_eq_iff)
  moreover have "sends (c_socketFd (conn sample_session True)) (wire_frame sample_sealed) ?w (snd (snd sample_out))"
    using sample_out_eval(3) by (simp add: sends_def sample_world_def sample_session_def sample_conn_def)
  moreover have "packet_ok sample_packet"
    by (simp add: packet_ok_def sample_packet_def mkPacket_def packet_length_def HEADER_SIZE_def)
  ultimately have "session_step clear_sodium sample_protos sample_session (LWrite True sample_packet)
     (sample_session\<lparr>conn := (conn sample_session)(True := fst (snd sample_out)),
          wire := (wire sample_session)(True := (if linked sample_session True then wire sample_session True @ wire_frame sample_sealed else wire sample_session True)),
          linked := (linked sample_session)(True := linked sample_session True \<and> c_socketFd (fst (snd sample_out)) \<noteq> -1),
          sent_log := (sent_log sample_session)(True := (if True then sent_log sample_session True @ [sample_packet] else sent_log sample_session True))\<rparr>)"
    by (intro step_write)
  then show ?thesis using sample_out_eval(2) by (simp add: sample_after_write_def sample_session_def)
qed

lemma sample_read_step:
  "session_step clear_sodium sample_protos sample_after_write (LRead False) sample_after_read"
proof -
  let ?f = "wire_frame sample_sealed"
  let ?w = "sample_world [Val 1, Data (take 4 ?f), Val 1, Data (drop 4 ?f)]"
  have "Connection_read clear_sodium (conn sample_after_write False, ?w) =
      (Ok (True, Some sample_packet), (fst (snd sample_in), snd (snd sample_in)))"
    using sample_in_eval(1) by (simp add: sample_in_def sample_after_write_def sample_session_def prod_eq_iff)
  moreover have "receives (c_socketFd (conn sample_after_write False)) (take 4 ?f @ drop 4 ?f) ?w (snd (snd sample_in))"
    using sample_in_eval(3)
    by (simp add: receives_def sample_world_def sample_after_write_def sample_session_def sample_conn_def)
  moreover have "wire sample_after_write (\<not> False) = (take 4 ?f @ drop 4 ?f) @ []"
    by (simp add: sample_after_write_def)
  ultimately have "session_step clear_sodium sample_protos sample_after_write (LRead False)
     (sample_after_write\<lparr>conn := (conn sample_after_write)(False := fst (snd sample_in)), wire := (wire sample_after_write)(\<not> False := []),
          linked := (linked sample_after_write)(False := linked sample_after_write False \<and> c_socketFd (fst (snd sample_in)) \<noteq> -1),
          got := (got sample_after_write)(False := (if fst (True, Some sample_packet) then got sample_after_write False @ [the (snd (True, Some sample_packet))] else got sample_after_write False))\<rparr>)"
    by (intro step_read)
  then show ?thesis
    using sample_in_eval(2) by (simp add: sample_after_read_def sample_after_write_def sample_session_def)
qed

lemma sample_reach: "ses.reach clear_sodium sample_protos sample_key sample_after_read"
  using ses.reach_init [OF sample_session_start] ses.reach_step sample_write_step sample_read_step by metis

lemma sample_logs:
  "length (sent_log sample_after_read s) < 2 ^ 31" "got sample_after_read False = [sample_packet]"
  "sent_log sample_after_read True = [sample_packet]"
  by (simp_all add: sample_after_read_def sample_after_write_def sample_session_def)

text \<open>
  C3: exactly once and in order. In every reachable state of a session, the packets one side has read
  are a prefix of the packets the other side has accepted: nothing is lost in the middle, duplicated,
  reordered or changed, through any number of lost connections, failed and successful recoveries. The
  bound on the number of packets is the one the 32-bit field of \<^verbatim>\<open>SequenceHeader\<close> needs.
\<close>

theorem session_exactly_once:
  assumes "ses.reach na P k st" and "\<And>s. length (sent_log st s) < 2 ^ 31"
  shows "prefix (got st (\<not> s)) (sent_log st s)"
proof -
  have "got st (\<not> s) = take (length (got st (\<not> s))) (sent_log st s)"
    using reach_dir [OF assms] by (simp add: dir_inv_def reader_inv_def)
  then show ?thesis by (metis take_is_prefix)
qed

theorem session_exactly_once_witness:
  "prefix (got sample_after_read (\<not> True)) (sent_log sample_after_read True) \<and>
   got sample_after_read False = [sample_packet]"
  using session_exactly_once [OF sample_reach sample_logs(1), of True] sample_logs(2) by simp

text \<open>
  C4: nothing is left behind. When the two sides are connected to each other, no byte is in flight and
  the reader holds nothing back, the other side has read every packet that was ever accepted, those
  accepted while there was no connection included.
\<close>

theorem session_nothing_lost:
  assumes "ses.reach na P k st" and "\<And>s. length (sent_log st s) < 2 ^ 31"
    and "linked st s" and "wire st s = []" and "reader (conn st (\<not> s)) = Some r"
    and "0 \<le> br_socketFd r" and "partialMessage r = []" and "localBuffer r = []"
  shows "got st (\<not> s) = sent_log st s"
proof -
  have r: "rd (conn st (\<not> s)) = r" using assms(5) by (simp add: rd_def)
  have R: "reader_inv na (origin st s) (sent_log st s) (got st (\<not> s)) r"
      and L: "link_inv na (origin st s) (sent_log st s) [] True (wr (conn st s)) r"
    using reach_dir [OF assms(1,2), of s] assms(3,4) r by (simp_all add: dir_inv_def)
  have "stream na (origin st s) (sent_log st s) (nat (br_sequenceNumber r)) = []"
    using L assms(6,7) by (simp add: link_inv_def)
  then have "length (got st (\<not> s)) = length (sent_log st s)"
    using stream_Nil_iff [OF reader_seq(2) [OF R]] reader_seq(1) [OF R] assms(8) by simp
  then show ?thesis using R by (simp add: reader_inv_def)
qed

lemma sample_reader:
  "\<exists>r. reader (conn sample_after_read (\<not> True)) = Some r \<and> br_socketFd r = 5 \<and> partialMessage r = [] \<and> localBuffer r = []"
proof -
  have "case reader (fst (snd sample_in)) of None \<Rightarrow> False
     | Some r \<Rightarrow> br_socketFd r = 5 \<and> partialMessage r = [] \<and> localBuffer r = []"
    by code_simp
  then show ?thesis by (auto simp: sample_after_read_def split: option.splits)
qed

theorem session_nothing_lost_witness:
  "got sample_after_read (\<not> True) = sent_log sample_after_read True"
proof -
  obtain r where r: "reader (conn sample_after_read (\<not> True)) = Some r" "br_socketFd r = 5" "partialMessage r = []" "localBuffer r = []"
    using sample_reader by blast
  show ?thesis
    by (rule session_nothing_lost [OF sample_reach sample_logs(1) _ _ r(1)])
      (simp_all add: r sample_after_read_def sample_after_write_def sample_session_def)
qed

end
