(* ===== verification/ET_Channel.thy ===== *)
theory ET_Channel
  imports ET_Session
begin

text \<open>
  What a session promises, said without sockets, sequence numbers or keys: a pair of first-in
  first-out queues of packets. The session of \<open>ET_Session\<close> refines it: whatever a session does, the
  two programs above it see what the queues could have shown them.
\<close>

section \<open>The specification\<close>

text \<open>\<open>q s\<close> holds the packets side \<open>s\<close> has handed over and the other side has not yet taken, oldest first.\<close>

type_synonym channel = "bool \<Rightarrow> Packet list"

datatype channel_label = Put bool Packet | Take bool Packet | Quiet

fun channel_step :: "channel \<Rightarrow> channel_label \<Rightarrow> channel \<Rightarrow> bool" where
  "channel_step q (Put s p) q' = (q' = q(s := q s @ [p]))"
| "channel_step q (Take s p) q' = (\<exists>rest. q (\<not> s) = p # rest \<and> q' = q(\<not> s := rest))"
| "channel_step q Quiet q' = (q' = q)"

text \<open>What side \<open>s\<close> handed over and took, in order.\<close>

fun puts :: "bool \<Rightarrow> channel_label list \<Rightarrow> Packet list" where
  "puts s [] = []"
| "puts s (Put x p # ls) = (if x = s then p # puts s ls else puts s ls)"
| "puts s (Take x p # ls) = puts s ls"
| "puts s (Quiet # ls) = puts s ls"

fun takes :: "bool \<Rightarrow> channel_label list \<Rightarrow> Packet list" where
  "takes s [] = []"
| "takes s (Put x p # ls) = takes s ls"
| "takes s (Take x p # ls) = (if x = s then p # takes s ls else takes s ls)"
| "takes s (Quiet # ls) = takes s ls"

text \<open>Every packet taken was handed over and is in the queue no more.\<close>

definition conserved :: "channel_label list \<Rightarrow> channel \<Rightarrow> bool" where
  "conserved ls q \<longleftrightarrow> (\<forall>s. puts s ls = takes (\<not> s) ls @ q s)"

lemma puts_append [simp]: "puts s (xs @ ys) = puts s xs @ puts s ys"
  by (induction s xs rule: puts.induct) auto

lemma takes_append [simp]: "takes s (xs @ ys) = takes s xs @ takes s ys"
  by (induction s xs rule: takes.induct) auto

lemma channel_step_conserved:
  assumes "conserved ls q" and "channel_step q l q'"
  shows "conserved (ls @ [l]) q'"
  using assms by (cases l) (auto simp: conserved_def)

text \<open>The channel with the labels of its run so far.\<close>

definition history_init :: "channel_label list \<times> channel \<Rightarrow> bool" where
  "history_init x \<longleftrightarrow> fst x = [] \<and> snd x = (\<lambda>_. [])"

definition history_step :: "channel_label list \<times> channel \<Rightarrow> channel_label \<Rightarrow> channel_label list \<times> channel \<Rightarrow> bool" where
  "history_step x l y \<longleftrightarrow> fst y = fst x @ [l] \<and> channel_step (snd x) l (snd y)"

definition history_ok :: "channel_label list \<times> channel \<Rightarrow> bool" where
  "history_ok x \<longleftrightarrow> conserved (fst x) (snd x)"

interpretation chan: inductive_invariant history_init history_step history_ok
proof unfold_locales
  show "history_init x \<Longrightarrow> history_ok x" for x by (simp add: history_init_def history_ok_def conserved_def)
  show "history_ok x \<Longrightarrow> history_step x l y \<Longrightarrow> history_ok y" for x l y
    unfolding history_ok_def history_step_def using channel_step_conserved by metis
qed

section \<open>The abstraction\<close>

definition queues :: "session \<Rightarrow> channel" where
  "queues st s = drop (length (got st (\<not> s))) (sent_log st s)"

text \<open>What a step of the session shows: a packet accepted, a packet read, or nothing.\<close>

definition shown :: "session \<Rightarrow> session_label \<Rightarrow> session \<Rightarrow> channel_label" where
  "shown st l st' = (case l of
      LWrite s p \<Rightarrow> if sent_log st' s = sent_log st s then Quiet else Put s p
    | LRead s \<Rightarrow> if got st' s = got st s then Quiet else Take s (last (got st' s))
    | _ \<Rightarrow> Quiet)"

definition within :: "session \<Rightarrow> bool" where
  "within st \<longleftrightarrow> (\<forall>s. length (sent_log st s) < 2 ^ 31)"

lemma reach_prefix:
  assumes "ses.reach na P k st" and "within st"
  shows "\<exists>rest. sent_log st s = got st (\<not> s) @ rest"
proof -
  have "got st (\<not> s) = take (length (got st (\<not> s))) (sent_log st s)"
    using reach_dir [OF assms(1)] assms(2) by (simp add: dir_inv_def reader_inv_def within_def)
  then show ?thesis by (metis append_take_drop_id)
qed

lemma step_logs:
  assumes "session_step na P st l st'"
  obtains (put) s p where "l = LWrite s p" "sent_log st' = (sent_log st)(s := sent_log st s @ [p])" "got st' = got st"
  | (took) s p where "l = LRead s" "sent_log st' = sent_log st" "got st' = (got st)(s := got st s @ [p])"
  | (same) "sent_log st' = sent_log st" "got st' = got st"
  using assms
proof (cases rule: session_step.cases)
  case (step_write p s w accepted c' w' tx)
  then show thesis using put same by (cases accepted) auto
next
  case (step_read s w out c' w' rx rest)
  then show thesis using took same by (cases "fst out") auto
qed (use same in auto)

lemma step_within:
  assumes "session_step na P st l st'" and "within st'"
  shows "within st"
  using assms(1)
proof (cases rule: step_logs)
  case (put s p)
  then show ?thesis using assms(2) by (fastforce simp: within_def split: if_splits)
qed (use assms(2) in \<open>auto simp: within_def\<close>)

lemma step_refines:
  assumes "ses.reach na P k st" and "session_step na P st l st'" and "within st'"
  shows "channel_step (queues st) (shown st l st') (queues st')"
  using assms(2)
proof (cases rule: step_logs)
  case (put s p)
  obtain rest where "sent_log st s = got st (\<not> s) @ rest"
    using reach_prefix [OF assms(1) step_within [OF assms(2,3)]] by blast
  then have "queues st' = (queues st)(s := queues st s @ [p])" using put(2,3) by (auto simp: queues_def fun_eq_iff)
  then show ?thesis using put by (simp add: shown_def)
next
  case (took s p)
  obtain rest where "sent_log st' (\<not> s) = got st' s @ rest"
    using reach_prefix [OF ses.reach_step [OF assms(1,2)] assms(3), of "\<not> s"] by auto
  then have "sent_log st (\<not> s) = got st s @ p # rest" using took(2,3) by simp
  then have "queues st (\<not> s) = p # rest" "queues st' = (queues st)(\<not> s := rest)"
    using took(2,3) by (auto simp: queues_def fun_eq_iff)
  then show ?thesis using took by (simp add: shown_def)
next
  case same
  then show ?thesis by (cases l) (auto simp: shown_def queues_def fun_eq_iff)
qed

section \<open>Refinement\<close>

text \<open>
  C7: a session refines a pair of queues. For every state a session can reach there is a run of the queues,
  from empty ones, that ends with the packets accepted and not yet read, and in which each side hands
  over and takes exactly the packets it has written and read in the session, in the same order.
\<close>

theorem session_refines_queues:
  assumes "ses.reach na P k st" and "\<And>s. length (sent_log st s) < 2 ^ 31"
  shows "\<exists>ls. chan.reach (ls, queues st) \<and> (\<forall>s. puts s ls = sent_log st s \<and> takes s ls = got st s)"
proof -
  have "within st \<Longrightarrow> \<exists>ls. chan.reach (ls, queues st) \<and> (\<forall>s. puts s ls = sent_log st s \<and> takes s ls = got st s)"
    using assms(1)
  proof (induction rule: ses.reach.induct)
    case (reach_init st)
    then have "queues st = (\<lambda>_. [])" "sent_log st = (\<lambda>_. [])" "got st = (\<lambda>_. [])"
      by (auto simp: session_start_def session_init_def queues_def fun_eq_iff)
    moreover have "chan.reach ([], \<lambda>_. [])" by (rule chan.reach_init) (simp add: history_init_def)
    ultimately show ?case by (intro exI [of _ "[]"]) auto
  next
    case (reach_step st l st')
    obtain ls where ls: "chan.reach (ls, queues st)" "\<And>s. puts s ls = sent_log st s" "\<And>s. takes s ls = got st s"
      using reach_step.IH step_within [OF reach_step.hyps(2) reach_step.prems] by blast
    have "history_step (ls, queues st) (shown st l st') (ls @ [shown st l st'], queues st')"
      by (simp add: history_step_def step_refines [OF reach_step.hyps(1,2) reach_step.prems])
    note chan.reach_step [OF ls(1) this]
    moreover have "puts s (ls @ [shown st l st']) = sent_log st' s" "takes s (ls @ [shown st l st']) = got st' s" for s
      using reach_step.hyps(2) ls(2,3)
      by (cases rule: step_logs; cases l; simp add: shown_def)+
    ultimately show ?case by blast
  qed
  then show ?thesis using assms(2) by (simp add: within_def)
qed

theorem session_refines_queues_witness:
  "\<exists>ls. chan.reach (ls, queues sample_after_read) \<and> puts True ls = [sample_packet] \<and> takes False ls = [sample_packet]"
proof -
  obtain ls where "chan.reach (ls, queues sample_after_read)" "\<forall>s. puts s ls = sent_log sample_after_read s \<and> takes s ls = got sample_after_read s"
    using session_refines_queues [OF sample_reach sample_logs(1)] by blast
  then show ?thesis using sample_logs(2,3) by auto
qed

end
