(* ===== verification/ET_Reconnect.thy ===== *)
theory ET_Reconnect
  imports ET_Connection
begin

text \<open>
  The reconnect thread of \<^verbatim>\<open>ClientConnection\<close> as a whole, and what every method of a connection
  keeps: its identity, and that the connection, its reader and its writer always name the same
  socket.
\<close>

section \<open>The reconnect thread\<close>

lemma close_each_keeps [keeps_intros]: "sle.keeps (close_each fds)"
  by (induction fds) (simp_all only: close_each.simps, (intro keeps_intros | assumption)+)

lemma Tcp_connect_loop_keeps [keeps_intros]: "sle.keeps (Tcp_connect_loop ps)"
  by (induction ps) (simp_all only: Tcp_connect_loop.simps, (intro keeps_intros | assumption)+)

lemma addr_nodes_length: "addr_nodes as = Some (ns, as') \<Longrightarrow> length as' \<le> length as"
proof (induction as arbitrary: ns rule: addr_nodes.induct)
  case (3 f a as)
  then show ?case by (force split: if_splits option.splits)
qed simp_all

lemma sys_getaddrinfo_keeps [keeps_intros]: "sle.keeps sys_getaddrinfo"
proof -
  have "script_le w (snd (sys_getaddrinfo w))" for w
    unfolding sys_getaddrinfo_def
    by (rule sle.keeps_bnd_at) (auto intro: keeps_intros simp: script_le_def dest: addr_nodes_length split: option.splits)
  then show ?thesis by (simp add: sle.keeps_def)
qed

lemma sh_connect_keeps [keeps_intros]: "sle.keeps (sh_connect h ep)"
  unfolding sh_connect_def Tcp_connect_def Pipe_connect_def
  by (auto intro!: keeps_intros split: handler_kind.split)

lemma on_keeps [keeps_intros]:
  "osle.keeps m \<Longrightarrow> osle.keeps (on_reader m)" "osle.keeps n \<Longrightarrow> osle.keeps (on_writer n)"
  by (auto simp: osle.keeps_def on_reader_def on_writer_def obj_script_le_def script_le_def split: option.splits prod.splits)
    (metis snd_conv)+

lemma catch_all_keeps [keeps_intros]: "osle.keeps m \<Longrightarrow> osle.keeps (catch_all m x)"
  by (auto simp: osle.keeps_def catch_all_def split: prod.splits outcome.splits) (metis snd_conv)+

lemma thread_split [keeps_intros]:
  "osle.keeps a \<Longrightarrow> osle.keeps b \<Longrightarrow> osle.keeps c \<Longrightarrow>
   osle.keeps (case t of NoThread \<Rightarrow> a | Running \<Rightarrow> b | Finished \<Rightarrow> c)"
  by (cases t) simp_all

lemma connection_keeps [keeps_intros]:
  "osle.keeps Connection_closeSocket" "osle.keeps waitReconnect" "osle.keeps closeSocketAndMaybeReconnect"
  "osle.keeps (Connection_recover P fd)" "osle.keeps (reconnect_attempt P fd)"
proof -
  show a: "osle.keeps Connection_closeSocket"
    unfolding Connection_closeSocket_def by (auto intro!: keeps_intros)
  show b: "osle.keeps waitReconnect" unfolding waitReconnect_def by (auto intro!: keeps_intros)
  show "osle.keeps closeSocketAndMaybeReconnect"
    unfolding closeSocketAndMaybeReconnect_def Client_closeSocketAndMaybeReconnect_def
    by (auto intro!: keeps_intros a b)
  show c: "osle.keeps (Connection_recover P fd)" for fd
    unfolding Connection_recover_def by (auto intro!: keeps_intros)
  show "osle.keeps (reconnect_attempt P fd)"
    unfolding reconnect_attempt_def by (auto intro!: keeps_intros c)
qed

lemma bnd_shrinks:
  assumes "bnd m f w = (Ok x, w')" and "\<And>y v. m w = (Ok y, v) \<Longrightarrow> length (script v) < length (script w)"
    and "\<And>y. sle.keeps (f y)"
  shows "length (script w') < length (script w)"
proof -
  obtain y v where y: "m w = (Ok y, v)" "f y v = (Ok x, w')" using assms(1) by (rule bnd_eq_OkE)
  then show ?thesis using assms(2) sle.keepsD [OF assms(3) y(2)] by (fastforce simp: script_le_def)
qed

lemma FATAL_FAIL_open_shrinks:
  "FATAL_FAIL sys_open w = (Ok n, w') \<Longrightarrow> length (script w') < length (script w)"
  unfolding FATAL_FAIL_def by (rule bnd_shrinks) (auto dest: script_shrinks intro!: keeps_intros)

lemma getaddrinfo_shrinks:
  "sys_getaddrinfo w = (Ok p, w') \<Longrightarrow> length (script w') < length (script w)"
  unfolding sys_getaddrinfo_def
  by (erule bnd_eq_OkE) (fastforce dest: script_shrinks addr_nodes_length split: if_splits option.splits)

lemma sh_connect_shrinks:
  assumes "sh_connect h ep w = (Ok fd, w')"
  shows "length (script w') < length (script w)"
proof -
  consider "Tcp_connect h ep w = (Ok fd, w')" | "Pipe_connect h ep w = (Ok fd, w')"
    using assms by (auto simp: sh_connect_def the_handler_def bnd_def split: handler_kind.splits)
  then show ?thesis
  proof cases
    case 1
    then show ?thesis unfolding Tcp_connect_def
      by (rule bnd_shrinks) (auto dest: getaddrinfo_shrinks intro!: keeps_intros)
  next
    case 2
    then show ?thesis unfolding Pipe_connect_def
      by (rule bnd_shrinks) (auto dest: FATAL_FAIL_open_shrinks intro!: keeps_intros)
  qed
qed

lemma pollReconnect_round_shrinks:
  assumes "pollReconnect_round P (c, w) = (Ok False, (c', w'))"
  shows "length (script w') < length (script w)"
proof -
  let ?k = "\<lambda>fd. if fd \<noteq> -1 then catch_all (reconnect_attempt P fd) False else ret False"
  have "bnd (sys (sh_connect (c_socketHandler c) (remoteEndpoint c))) ?k (c, w) = (Ok False, (c', w'))"
    using assms unfolding pollReconnect_round_def by (auto simp: bnd_def get_obj_def split: if_splits)
  then obtain fd s where s: "sys (sh_connect (c_socketHandler c) (remoteEndpoint c)) (c, w) = (Ok fd, s)"
      "?k fd s = (Ok False, (c', w'))"
    by (rule bnd_eq_OkE)
  obtain w1 where w1: "sh_connect (c_socketHandler c) (remoteEndpoint c) w = (Ok fd, w1)" "s = (c, w1)"
    using s(1) by (auto simp: sys_def split: prod.splits)
  have "osle.keeps (?k fd)" by (intro keeps_intros)
  then have "length (script w') \<le> length (script w1)"
    using s(2) w1(2) osle.keepsD by (fastforce simp: obj_script_le_def script_le_def)
  then show ?thesis using sh_connect_shrinks [OF w1(1)] by simp
qed

text \<open>The thread from its start: rounds until one of them ends the loop.\<close>

function pollReconnect :: "protos \<Rightarrow> unit conn_prog" where
  "pollReconnect P s = bnd (pollReconnect_round P) (\<lambda>fin t.
     if fin then (Ok (), ((fst t)\<lparr>reconnectThread := Finished\<rparr>, snd t)) else pollReconnect P t) s"
  by pat_completeness auto
termination
  by (relation "measure (\<lambda>(P, s). length (script (snd s)))") (auto dest!: pollReconnect_round_shrinks)

declare pollReconnect.simps [simp del]

section \<open>What every method keeps\<close>

definition same_on :: "('o \<Rightarrow> 'p) \<Rightarrow> 'o \<times> world \<Rightarrow> 'o \<times> world \<Rightarrow> bool" where
  "same_on f s t \<longleftrightarrow> f (fst s) = f (fst t)"

interpretation brs: frame "same_on br_socketFd"
  by unfold_locales (simp_all add: same_on_def)

interpretation bws: frame "same_on bw_socketFd"
  by unfold_locales (simp_all add: same_on_def)

declare brs.keeps_rules [keeps_intros] bws.keeps_rules [keeps_intros]

lemma same_on_keeps [keeps_intros]:
  "brs.keeps get_obj" "brs.keeps (sys m)" "brs.keeps (outcome_prog x)" "(\<And>r. br_socketFd (f r) = br_socketFd r) \<Longrightarrow> brs.keeps (mod_obj f)"
  "bws.keeps get_obj" "bws.keeps (sys m)" "bws.keeps (outcome_prog x)" "(\<And>b. bw_socketFd (g b) = bw_socketFd b) \<Longrightarrow> bws.keeps (mod_obj g)"
  "(\<And>p r. br_socketFd (put p r) = br_socketFd r) \<Longrightarrow> brs.keeps (sub gt put k)"
  "(\<And>p b. bw_socketFd (put' p b) = bw_socketFd b) \<Longrightarrow> bws.keeps (sub gt' put' k')"
  by (simp_all add: brs.keeps_def bws.keeps_def same_on_def get_obj_def sys_def outcome_prog_def mod_obj_def sub_def
      split: prod.splits)

lemma backed_socket_keeps [keeps_intros]:
  "brs.keeps (BackedReader_read na)" "brs.keeps BackedReader_hasData" "bws.keeps (BackedWriter_write na p)"
  unfolding BackedReader_read_def br_read_body_def br_fill_def constructPartialMessage_def br_decrypt_def
    BackedReader_hasData_def BackedWriter_write_def bw_encrypt_def Let_def
  by (auto intro!: keeps_intros)

definition fds_agree :: "Connection \<Rightarrow> bool" where
  "fds_agree c \<longleftrightarrow> (\<forall>r. reader c = Some r \<longrightarrow> br_socketFd r = c_socketFd c) \<and>
     (\<forall>b. writer c = Some b \<longrightarrow> bw_socketFd b = c_socketFd c)"

definition conn_frame :: "Connection \<times> world \<Rightarrow> Connection \<times> world \<Rightarrow> bool" where
  "conn_frame s t \<longleftrightarrow> c_id (fst t) = c_id (fst s) \<and> c_key (fst t) = c_key (fst s) \<and>
     c_socketHandler (fst t) = c_socketHandler (fst s) \<and> (shuttingDown (fst s) \<longrightarrow> shuttingDown (fst t)) \<and>
     (reader (fst s) \<noteq> None \<longrightarrow> reader (fst t) \<noteq> None) \<and> (writer (fst s) \<noteq> None \<longrightarrow> writer (fst t) \<noteq> None) \<and>
     (fds_agree (fst s) \<longrightarrow> fds_agree (fst t))"

interpretation cnf: frame conn_frame
  by unfold_locales (auto simp: conn_frame_def)

declare cnf.keeps_rules [keeps_intros]

lemma conn_frame_keeps [keeps_intros]:
  "cnf.keeps get_obj" "cnf.keeps (sys m)" "cnf.keeps (outcome_prog x)"
  "cnf.keeps (mod_obj (reconnectThread_update f))" "cnf.keeps (mod_obj (\<lambda>c. c\<lparr>shuttingDown := True\<rparr>))"
  "cnf.keeps (mod_obj (\<lambda>c. c\<lparr>reader := map_option BackedReader_invalidateSocket (reader c),
     writer := map_option BackedWriter_invalidateSocket (writer c), c_socketFd := -1\<rparr>))"
  "cnf.keeps (mod_obj (\<lambda>c. c\<lparr>c_socketFd := fd, reader := Some (BackedReader_revive fd cat r),
     writer := Some (BackedWriter_revive fd b)\<rparr>))"
  by (auto simp: cnf.keeps_def conn_frame_def fds_agree_def get_obj_def sys_def outcome_prog_def mod_obj_def
      BackedReader_invalidateSocket_def BackedWriter_invalidateSocket_def BackedReader_revive_def
      BackedWriter_revive_def split: prod.splits)

lemma conn_frame_on_reader [keeps_intros]:
  assumes "brs.keeps m"
  shows "cnf.keeps (on_reader m)"
proof (rule cnf.keepsI)
  fix s q t assume run: "on_reader m s = (q, t)"
  show "conn_frame s t"
  proof (cases "reader (fst s)")
    case None
    then show ?thesis using run by (simp add: on_reader_def conn_frame_def)
  next
    case (Some r)
    obtain r' w where m: "m (r, snd s) = (q, (r', w))" and "t = ((fst s)\<lparr>reader := Some r'\<rparr>, w)"
      using run Some by (auto simp: on_reader_def split: prod.splits)
    then show ?thesis
      using Some brs.keepsD [OF assms m] by (auto simp: conn_frame_def fds_agree_def same_on_def)
  qed
qed

lemma conn_frame_on_writer [keeps_intros]:
  assumes "bws.keeps m"
  shows "cnf.keeps (on_writer m)"
proof (rule cnf.keepsI)
  fix s q t assume run: "on_writer m s = (q, t)"
  show "conn_frame s t"
  proof (cases "writer (fst s)")
    case None
    then show ?thesis using run by (simp add: on_writer_def conn_frame_def)
  next
    case (Some b)
    obtain b' w where m: "m (b, snd s) = (q, (b', w))" and "t = ((fst s)\<lparr>writer := Some b'\<rparr>, w)"
      using run Some by (auto simp: on_writer_def split: prod.splits)
    then show ?thesis
      using Some bws.keepsD [OF assms m] by (auto simp: conn_frame_def fds_agree_def same_on_def)
  qed
qed

lemma conn_frame_splits [keeps_intros]:
  "cnf.keeps a \<Longrightarrow> cnf.keeps b \<Longrightarrow> cnf.keeps d \<Longrightarrow> cnf.keeps (case t of NoThread \<Rightarrow> a | Running \<Rightarrow> b | Finished \<Rightarrow> d)"
  "cnf.keeps e1 \<Longrightarrow> cnf.keeps e2 \<Longrightarrow> cnf.keeps e3 \<Longrightarrow> cnf.keeps e4 \<Longrightarrow>
     cnf.keeps (case st of SKIPPED \<Rightarrow> e1 | BUFFERED_ONLY \<Rightarrow> e2 | SUCCESS \<Rightarrow> e3 | WROTE_WITH_FAILURE \<Rightarrow> e4)"
  by (cases t, simp_all) (cases st, simp_all)

lemma conn_frame_catch_all [keeps_intros]: "cnf.keeps m \<Longrightarrow> cnf.keeps (catch_all m x)"
  by (auto simp: cnf.keeps_def catch_all_def split: prod.splits outcome.splits) (metis snd_conv)+

lemma conn_frame_close [keeps_intros]:
  "cnf.keeps Connection_closeSocket" "cnf.keeps closeSocketAndMaybeReconnect"
  unfolding closeSocketAndMaybeReconnect_def Client_closeSocketAndMaybeReconnect_def waitReconnect_def
    Connection_closeSocket_def
  by (auto intro!: keeps_intros)

lemma conn_frame_methods [keeps_intros]:
  "cnf.keeps (Connection_read na)" "cnf.keeps (Connection_write na p)" "cnf.keeps (Connection_recover P fd)"
  unfolding Connection_read_def Connection_write_def Connection_recover_def
  by (auto intro!: keeps_intros)

lemma conn_frame_callers [keeps_intros]:
  "cnf.keeps (Connection_readPacket na)" "cnf.keeps (Connection_writePacket na p)" "cnf.keeps Connection_shutdown"
  "cnf.keeps (recoverClient P fd)" "cnf.keeps (pollReconnect_round P)" "cnf.keeps Connection_hasData"
  unfolding Connection_readPacket_def Connection_writePacket_def Connection_shutdown_def recoverClient_def
    pollReconnect_round_def reconnect_attempt_def Connection_hasData_def
  by (auto intro!: keeps_intros)

lemma pollReconnect_frame: "conn_frame s (snd (pollReconnect P s))"
proof (induction P s rule: pollReconnect.induct)
  case (1 P s)
  have fin: "conn_frame t ((fst t)\<lparr>reconnectThread := Finished\<rparr>, snd t)" for t
    by (simp add: conn_frame_def fds_agree_def)
  show ?case
    by (subst pollReconnect.simps, rule cnf.keeps_bnd_at) (auto intro: keeps_intros 1 fin)
qed

section \<open>Sequences of calls\<close>

text \<open>The calls the threads of a program make on one connection, in the order the mutex lets them in.\<close>

datatype conn_call =
    CallRead
  | CallWrite Packet
  | CallHasData
  | CallRecover int
  | CallReconnect
  | CallShutdown

definition conn_call_run :: "sodium \<Rightarrow> protos \<Rightarrow> conn_call \<Rightarrow> Connection \<times> world \<Rightarrow> Connection \<times> world" where
  "conn_call_run na P k s = (case k of
      CallRead \<Rightarrow> snd (Connection_readPacket na s)
    | CallWrite p \<Rightarrow> snd (Connection_writePacket na p s)
    | CallHasData \<Rightarrow> snd (Connection_hasData s)
    | CallRecover fd \<Rightarrow> snd (recoverClient P fd s)
    | CallReconnect \<Rightarrow> snd (pollReconnect P s)
    | CallShutdown \<Rightarrow> snd (Connection_shutdown s))"

primrec conn_calls_run :: "sodium \<Rightarrow> protos \<Rightarrow> conn_call list \<Rightarrow> Connection \<times> world \<Rightarrow> Connection \<times> world" where
  "conn_calls_run na P [] s = s"
| "conn_calls_run na P (k # ks) s = conn_calls_run na P ks (conn_call_run na P k s)"

lemma cnf_snd: "cnf.keeps m \<Longrightarrow> conn_frame s (snd (m s))"
  by (cases s) (simp add: cnf.keeps_def)

lemma conn_call_frame: "conn_frame s (conn_call_run na P k s)"
  by (cases k) (simp_all add: conn_call_run_def cnf_snd conn_frame_callers pollReconnect_frame)

lemma conn_calls_frame: "conn_frame s (conn_calls_run na P ks s)"
proof (induction ks arbitrary: s)
  case (Cons k ks)
  then show ?case using cnf.R_trans [OF conn_call_frame Cons] by simp
qed (simp add: cnf.R_refl del: split_paired_All)

lemma ServerClientConnection_new_agrees:
  "ServerClientConnection_new na h i fd k = Ok c \<Longrightarrow> fds_agree c \<and> c_id c = i \<and> c_key c = k \<and> reader c \<noteq> None \<and> writer c \<noteq> None"
  by (auto simp: ServerClientConnection_new_def fds_agree_def BackedReader_new_def BackedWriter_new_def
      Connection_new_def split: outcome.splits)


section \<open>What the thread ends with\<close>

lemma pollReconnect_round_done:
  assumes "pollReconnect_round P (c, w) = (Ok True, (c', w'))"
  shows "c_socketFd c' \<noteq> -1 \<or> shuttingDown c'"
proof -
  have "shuttingDown c'" if "reconnect_attempt P fd (c, v) = (Ok True, (c', w'))" for fd v
    using that unfolding reconnect_attempt_def
    by (auto simp: catch_runtime_def bnd_def split: prod.splits outcome.splits exn.splits if_splits)
  then show ?thesis
    using assms unfolding pollReconnect_round_def
    by (auto simp: bnd_def catch_all_def split: if_splits prod.splits outcome.splits)
qed

lemma pollReconnect_done:
  "pollReconnect P s = (Ok (), (c', w')) \<Longrightarrow> reconnectThread c' = Finished \<and> (c_socketFd c' \<noteq> -1 \<or> shuttingDown c')"
proof (induction P s rule: pollReconnect.induct)
  case (1 P s)
  obtain fin c1 w1 where r: "pollReconnect_round P s = (Ok fin, (c1, w1))"
      and rest: "(if fin then (Ok (), (c1\<lparr>reconnectThread := Finished\<rparr>, w1)) else pollReconnect P (c1, w1)) = (Ok (), (c', w'))"
    using 1(2) by (subst (asm) pollReconnect.simps, elim bnd_eq_OkE) (metis fst_conv snd_conv surj_pair)
  show ?case
  proof (cases fin)
    case True
    then show ?thesis
      using pollReconnect_round_done [of P "fst s" "snd s" c1 w1] r rest by auto
  next
    case False
    then show ?thesis using 1(1) [OF r] rest by simp
  qed
qed

lemma verify_loop_iff: "verify_loop k t n mf \<longleftrightarrow> mf \<or> (\<exists>i<n. k ! i \<noteq> t ! i)"
  by (induction n) (auto simp: less_Suc_eq)

lemma list_update_neq_24: "(replicate 24 x)[23 := a] = (replicate 24 x)[23 := b] \<longleftrightarrow> a = b"
  by (auto simp: list_eq_iff_nth_eq nth_list_update)

lemma catch_runtime_OkE:
  assumes "catch_runtime m h s = (Ok x, t)"
  obtains "m s = (Ok x, t)" | e u where "h e u = (Ok x, t)"
  using assms by (auto simp: catch_runtime_def split: prod.splits outcome.splits exn.splits)

lemma Client_connect_True:
  assumes "Client_connect na P (c, w) = (Ok True, (c', w'))"
  obtains fd rch wch where "fd \<noteq> -1" and "CryptoHandler_new na (c_key c) SERVER_CLIENT_NONCE_MSB = Ok rch"
    and "CryptoHandler_new na (c_key c) CLIENT_SERVER_NONCE_MSB = Ok wch"
    and "c' = c\<lparr>c_socketFd := fd, reader := Some (BackedReader_new (c_socketHandler c) rch fd),
               writer := Some (BackedWriter_new (c_socketHandler c) wch fd)\<rparr>"
  using assms unfolding Client_connect_def bnd_get_obj
proof (elim catch_runtime_OkE bnd_Ok_pairE, goal_cases)
  case (1 fd c1 w1 x c2 w2)
  then show ?case
    by (auto elim!: bnd_Ok_pairE simp: outcome_prog_def split: if_splits prod.splits)
next
  case (2 e u c1 c2 w2)
  then show ?case by (auto elim!: bnd_Ok_pairE split: if_splits)
qed

text \<open>The connection a server makes for a client, and a client's, for the examples.\<close>

definition sample_server :: Connection where
  "sample_server = (case ServerClientConnection_new clear_sodium 0 ''id'' 5 sample_key of Ok c \<Rightarrow> c | _ \<Rightarrow> Connection_new 0 [] [])"

lemma sample_server_new: "ServerClientConnection_new clear_sodium 0 ''id'' 5 sample_key = Ok sample_server"
  by (simp add: sample_server_def ServerClientConnection_new_def CryptoHandler_new_def clear_sodium_def sample_key_def
      NONCEBYTES_def KEYBYTES_def)

definition sample_client :: Connection where
  "sample_client = ClientConnection_new 0 \<lparr>ep_name = Some ''host'', ep_port = Some 2022\<rparr> ''id'' sample_key"

text \<open>
  Answers of the system. A \<^verbatim>\<open>connect\<close> that gives descriptor 7: one address, the socket, its options,
  the connection, \<^verbatim>\<open>select\<close>, \<^verbatim>\<open>SO_ERROR\<close>, the options of \<^verbatim>\<open>initSocket\<close>; a \<^verbatim>\<open>writeAll\<close> done in one call; a
  \<^verbatim>\<open>readAll\<close> done in one call.
\<close>

definition connect_answers :: "answer list" where
  "connect_answers = [Val 0, Ret 2 ''a'', Val 0, Val 7, Val 0, Val 0, Val 0, Val 1, Val 0, Val 0, Val 0, Val 0,
     Val 0, Val 0, Val 0]"

definition writeAll_answers :: "nat \<Rightarrow> answer list" where
  "writeAll_answers n = [Val 0, Val 0, Val 0, Val (int n)]"

definition readAll_answers :: "string \<Rightarrow> answer list" where
  "readAll_answers bs = [Val 0, Val 1, Val 1, Data bs, Val 0]"

definition greeting_answers :: "answer list" where
  "greeting_answers = connect_answers @ writeAll_answers 8 @ writeAll_answers 1"

text \<open>A server that answers a new client, and one that does not know the client.\<close>

definition accepted_answers :: "answer list" where
  "accepted_answers = greeting_answers @ readAll_answers (le64 0)"

definition refused_answers :: "answer list" where
  "refused_answers = greeting_answers @ readAll_answers (le64 1) @ readAll_answers ''e'' @ [Val 0, Val 0, Val 0]"

definition sample_connected :: "bool outcome \<times> Connection \<times> world" where
  "sample_connected = Client_connect clear_sodium sample_protos (sample_client, sample_world accepted_answers)"

definition sample_refused :: "bool outcome \<times> Connection \<times> world" where
  "sample_refused = Client_connect clear_sodium sample_protos (sample_client, sample_world refused_answers)"

definition sample_polled :: "unit outcome \<times> Connection \<times> world" where
  "sample_polled = pollReconnect sample_protos (sample_client, sample_world (Val 1 # refused_answers))"

section \<open>Properties\<close>

text \<open>
  C14: whatever the threads of a server call on the connection of a client, in whatever order and
  with whatever answers of the system, the connection keeps the identity, the passkey, the reader and
  the writer it was made with, and the connection, its reader and its writer name the same socket.
\<close>

theorem connection_sockets_agree:
  assumes "ServerClientConnection_new na h i fd k = Ok c" and "conn_calls_run na P ks (c, w) = (c', w')"
  shows "fds_agree c' \<and> c_id c' = i \<and> c_key c' = k \<and> reader c' \<noteq> None \<and> writer c' \<noteq> None"
proof -
  have "conn_frame (c, w) (c', w')" using conn_calls_frame [of "(c, w)" na P ks] assms(2) by simp
  then show ?thesis using ServerClientConnection_new_agrees [OF assms(1)] by (auto simp: conn_frame_def)
qed

theorem connection_sockets_agree_witness:
  "let c' = fst (conn_calls_run clear_sodium sample_protos [CallWrite (mkPacket 1 ''hi''), CallRead, CallShutdown]
       (sample_server, sample_world [Val 0, Val 100, Val 1, Data ''abcd'', Val 0]))
   in fds_agree c' \<and> c_id c' = ''id'' \<and> c_key c' = sample_key \<and> reader c' \<noteq> None \<and> writer c' \<noteq> None"
  unfolding Let_def by (rule connection_sockets_agree [OF sample_server_new surjective_pairing])

text \<open>
  C21: the reconnect thread ends only when the connection has a socket again or is shutting down; the
  connection it leaves still has its identity and agrees with its reader and writer on the socket.
\<close>

theorem pollReconnect_ends:
  assumes "fds_agree c" and "pollReconnect P (c, w) = (Ok (), (c', w'))"
  shows "reconnectThread c' = Finished \<and> (\<not> isDisconnected c' \<or> shuttingDown c') \<and> fds_agree c' \<and>
    c_id c' = c_id c \<and> c_key c' = c_key c"
proof -
  have "conn_frame (c, w) (c', w')" using pollReconnect_frame [of "(c, w)" P] assms(2) by simp
  then show ?thesis using pollReconnect_done [OF assms(2)] assms(1) by (simp add: conn_frame_def isDisconnected_def)
qed

theorem pollReconnect_ends_witness:
  "fst sample_polled = Ok () \<and> shuttingDown (fst (snd sample_polled)) \<and> fds_agree (fst (snd sample_polled))"
proof -
  have run: "fst sample_polled = Ok ()" and off: "isDisconnected (fst (snd sample_polled))" by code_simp+
  have "fds_agree sample_client" by (simp add: fds_agree_def sample_client_def ClientConnection_new_def Connection_new_def)
  from pollReconnect_ends [OF this, of sample_protos "sample_world (Val 1 # refused_answers)"] show ?thesis
    using run off by (metis sample_polled_def prod.collapse)
qed

text \<open>
  C20: after a successful \<^verbatim>\<open>connect\<close> the client and the connection the server made with the same passkey
  are in step: each one's reader opens with the handler the other's writer seals with, the two directions
  start from different nonces, and no packet has been counted yet.
\<close>

theorem connect_in_step:
  assumes "Client_connect na P (c, w) = (Ok True, (c', w'))" and "ServerClientConnection_new na h i fd (c_key c) = Ok s"
  shows "\<exists>r b r' b'. reader c' = Some r \<and> writer c' = Some b \<and> reader s = Some r' \<and> writer s = Some b' \<and>
    br_crypto r = bw_crypto b' \<and> br_crypto r' = bw_crypto b \<and> nonce (bw_crypto b) \<noteq> nonce (bw_crypto b') \<and>
    [br_sequenceNumber r, bw_sequenceNumber b, br_sequenceNumber r', bw_sequenceNumber b'] = [0, 0, 0, 0] \<and>
    fds_agree c' \<and> \<not> isDisconnected c'"
proof -
  have ne: "nonce x \<noteq> nonce y"
    if "CryptoHandler_new na k SERVER_CLIENT_NONCE_MSB = Ok x" "CryptoHandler_new na k CLIENT_SERVER_NONCE_MSB = Ok y" for k x y
    using that by (auto simp: list_update_neq_24 CryptoHandler_new_def SERVER_CLIENT_NONCE_MSB_def CLIENT_SERVER_NONCE_MSB_def NONCEBYTES_def split: if_splits)
  obtain fd' rch wch where c: "fd' \<noteq> -1" "CryptoHandler_new na (c_key c) SERVER_CLIENT_NONCE_MSB = Ok rch"
      "CryptoHandler_new na (c_key c) CLIENT_SERVER_NONCE_MSB = Ok wch"
      "c' = c\<lparr>c_socketFd := fd', reader := Some (BackedReader_new (c_socketHandler c) rch fd'),
               writer := Some (BackedWriter_new (c_socketHandler c) wch fd')\<rparr>"
    using Client_connect_True [OF assms(1)] .
  then show ?thesis
    using assms(2) ne [OF c(2,3)] by (auto simp: ServerClientConnection_new_def fds_agree_def isDisconnected_def
        BackedReader_new_def BackedWriter_new_def)
qed

theorem connect_in_step_witness:
  "\<exists>r b'. reader (fst (snd sample_connected)) = Some r \<and> writer sample_server = Some b' \<and> br_crypto r = bw_crypto b'"
proof -
  have "fst sample_connected = Ok True" by code_simp
  then have "Client_connect clear_sodium sample_protos (sample_client, sample_world accepted_answers) =
      (Ok True, (fst (snd sample_connected), snd (snd sample_connected)))"
    by (simp add: sample_connected_def prod_eq_iff)
  moreover have "c_key sample_client = sample_key"
    by (simp add: sample_client_def ClientConnection_new_def Connection_new_def)
  ultimately show ?thesis using connect_in_step [of clear_sodium sample_protos sample_client] sample_server_new by fastforce
qed

text \<open>
  A \<^verbatim>\<open>connect\<close> the server refuses closes the socket and reports failure, but leaves its number in the
  connection: the object counts as connected, on a descriptor that is closed.
\<close>

lemma connect_failure_looks_connected:
  "\<exists>c' w'. Client_connect clear_sodium sample_protos (sample_client, sample_world refused_answers) = (Ok False, (c', w')) \<and>
     ClosedFd 7 \<in> set (trace w') \<and> c_socketFd c' = 7 \<and> \<not> isDisconnected c' \<and> reader c' = None"
proof -
  have "fst sample_refused = Ok False" "ClosedFd 7 \<in> set (trace (snd (snd sample_refused)))"
    "c_socketFd (fst (snd sample_refused)) = 7" "reader (fst (snd sample_refused)) = None"
    by code_simp+
  then show ?thesis by (intro exI [of _ "fst (snd sample_refused)"] exI [of _ "snd (snd sample_refused)"])
      (simp add: sample_refused_def prod_eq_iff isDisconnected_def)
qed

text \<open>
  C29: the passkey check, which compares every character before it answers, accepts exactly the key.
\<close>

theorem verifyPasskey_iff: "verifyPasskey c targetKey \<longleftrightarrow> c_key c = targetKey"
  by (auto simp: verifyPasskey_def verify_loop_iff Let_def list_eq_iff_nth_eq)

end
