(* ===== verification/ET_Strings.thy ===== *)
theory ET_Strings
  imports ET_Prelude
begin

text \<open>
  What the program uses of \<^verbatim>\<open>std::string\<close>: searching, \<^verbatim>\<open>stoi\<close>, \<^verbatim>\<open>to_string\<close>, and the helpers
  \<^verbatim>\<open>split\<close>, \<^verbatim>\<open>replace\<close> and \<^verbatim>\<open>replaceAll\<close> of \<^verbatim>\<open>base/Headers.hpp\<close>.
\<close>

section \<open>Numbers\<close>

definition digit_char :: "nat \<Rightarrow> char" where
  "digit_char d = char_of (48 + d)"

definition is_digit :: "char \<Rightarrow> bool" where
  "is_digit c \<longleftrightarrow> 48 \<le> (of_char c :: nat) \<and> (of_char c :: nat) \<le> 57"

definition digit_val :: "char \<Rightarrow> nat" where
  "digit_val c = of_char c - 48"

fun nat_dec :: "nat \<Rightarrow> string" where
  "nat_dec n = (if n < 10 then [digit_char n] else nat_dec (n div 10) @ [digit_char (n mod 10)])"

declare nat_dec.simps [simp del]

text \<open>\<^verbatim>\<open>to_string\<close> and \<^verbatim>\<open>operator<<\<close> of an integer.\<close>

definition decimal :: "int \<Rightarrow> string" where
  "decimal z = (if z < 0 then CHR ''-'' # nat_dec (nat (- z)) else nat_dec (nat z))"

definition dec_val :: "string \<Rightarrow> nat" where
  "dec_val s = foldl (\<lambda>a c. 10 * a + digit_val c) 0 s"

definition is_space :: "char \<Rightarrow> bool" where
  "is_space c \<longleftrightarrow> c = CHR '' '' \<or> 9 \<le> (of_char c :: nat) \<and> (of_char c :: nat) \<le> 13"

text \<open>
  \<^verbatim>\<open>std::stoi\<close>: white space, a sign, digits; what follows the digits is ignored. No digits is
  \<^verbatim>\<open>invalid_argument\<close>, a value outside \<^verbatim>\<open>int\<close> is \<^verbatim>\<open>out_of_range\<close>.
\<close>

definition stoi :: "string \<Rightarrow> int outcome" where
  "stoi s =
     (let t = dropWhile is_space s;
          neg = (t \<noteq> [] \<and> hd t = CHR ''-'');
          u = (if t \<noteq> [] \<and> (hd t = CHR ''-'' \<or> hd t = CHR ''+'') then tl t else t);
          ds = takeWhile is_digit u;
          v = (if neg then - int (dec_val ds) else int (dec_val ds))
      in if ds = [] then Throw InvalidArgument
         else if v < - (2 ^ 31) \<or> 2 ^ 31 \<le> v then Throw OutOfRange
         else Ok v)"

lemma digit_char_simps [simp]:
  assumes "d < 10"
  shows "is_digit (digit_char d)" and "digit_val (digit_char d) = d"
proof -
  have "(of_char (char_of (48 + d) :: char) :: nat) = 48 + d" using assms by simp
  then show "is_digit (digit_char d)" "digit_val (digit_char d) = d"
    using assms by (simp_all add: is_digit_def digit_val_def digit_char_def)
qed

lemma dec_val_append: "dec_val (s @ [c]) = 10 * dec_val s + digit_val c"
  by (simp add: dec_val_def)

lemma nat_dec_digits: "c \<in> set (nat_dec n) \<Longrightarrow> is_digit c"
  by (induction n rule: nat_dec.induct) (subst (asm) (2) nat_dec.simps, auto split: if_splits)

lemma nat_dec_nonempty [simp]: "nat_dec n \<noteq> []"
  by (subst nat_dec.simps) simp

lemma dec_val_nat_dec [simp]: "dec_val (nat_dec n) = n"
proof (induction n rule: nat_dec.induct)
  case (1 n)
  show ?case
  proof (cases "n < 10")
    case True
    then show ?thesis by (subst nat_dec.simps) (simp add: dec_val_def)
  next
    case False
    then show ?thesis using 1 by (subst nat_dec.simps) (simp add: dec_val_append)
  qed
qed

lemma digit_not_space: "is_digit c \<Longrightarrow> \<not> is_space c \<and> c \<noteq> CHR ''-'' \<and> c \<noteq> CHR ''+''"
  by (auto simp: is_digit_def is_space_def)

lemma stoi_decimal:
  assumes "- (2 ^ 31) \<le> z" and "z < 2 ^ 31"
  shows "stoi (decimal z) = Ok z"
proof -
  have tw: "takeWhile is_digit (nat_dec n) = nat_dec n" for n
    using nat_dec_digits by (simp add: takeWhile_eq_all_conv)
  have hd: "\<not> is_space (hd (nat_dec n)) \<and> hd (nat_dec n) \<noteq> CHR ''-'' \<and> hd (nat_dec n) \<noteq> CHR ''+''" for n
    using digit_not_space nat_dec_digits hd_in_set nat_dec_nonempty by blast
  have dw: "dropWhile is_space (nat_dec n) = nat_dec n" for n
    using hd [of n] by (simp add: dropWhile_eq_self_iff)
  have "\<not> is_space CHR ''-''" by (simp add: is_space_def)
  then show ?thesis
    using assms by (auto simp: stoi_def decimal_def Let_def tw dw hd)
qed

section \<open>Searching\<close>

text \<open>\<^verbatim>\<open>find(c)\<close>, \<open>None\<close> for \<^verbatim>\<open>npos\<close>.\<close>

fun str_find :: "char \<Rightarrow> string \<Rightarrow> nat option" where
  "str_find c [] = None"
| "str_find c (x # xs) = (if x = c then Some 0 else map_option Suc (str_find c xs))"

text \<open>\<^verbatim>\<open>find_first_not_of(cs) == npos\<close>.\<close>

definition only_chars :: "string \<Rightarrow> string \<Rightarrow> bool" where
  "only_chars cs s \<longleftrightarrow> (\<forall>c\<in>set s. c \<in> set cs)"

lemma str_find_None_iff: "str_find c s = None \<longleftrightarrow> c \<notin> set s"
  by (induction s) auto

lemma str_find_Some: "str_find c s = Some i \<Longrightarrow> i < length s \<and> s ! i = c \<and> c \<notin> set (take i s)"
  by (induction s arbitrary: i) (auto split: if_splits)

lemma str_find_append: "c \<notin> set s \<Longrightarrow> str_find c (s @ c # t) = Some (length s)"
  by (induction s) auto

text \<open>\<^verbatim>\<open>find(pattern, start)\<close> of a whole string.\<close>

fun str_find_sub :: "string \<Rightarrow> string \<Rightarrow> nat option" where
  "str_find_sub p [] = (if p = [] then Some 0 else None)"
| "str_find_sub p (x # xs) =
     (if take (length p) (x # xs) = p then Some 0 else map_option Suc (str_find_sub p xs))"

lemma str_find_sub_bound: "str_find_sub p s = Some i \<Longrightarrow> i + length p \<le> length s"
proof (induction s arbitrary: i)
  case (Cons x s)
  then show ?case
    by (auto split: if_splits) (metis length_Cons length_take min.cobounded1)
qed (auto split: if_splits)

section \<open>Helpers of Headers.hpp\<close>

text \<open>
  \<^verbatim>\<open>split\<close>: \<^verbatim>\<open>getline\<close> until the stream is empty, so that a delimiter at the end adds no empty piece.
\<close>

fun split_from :: "char \<Rightarrow> string \<Rightarrow> string \<Rightarrow> string list" where
  "split_from d [] item = (if item = [] then [] else [item])"
| "split_from d (x # xs) item = (if x = d then item # split_from d xs [] else split_from d xs (item @ [x]))"

definition split :: "string \<Rightarrow> char \<Rightarrow> string list" where
  "split s d = split_from d s []"

lemma split_from_no: "d \<notin> set s \<Longrightarrow> split_from d s item = (if item @ s = [] then [] else [item @ s])"
  by (induction s arbitrary: item) auto

lemma split_from_append: "d \<notin> set s \<Longrightarrow> split_from d (s @ d # t) item = (item @ s) # split_from d t []"
  by (induction s arbitrary: item) auto

lemma split_none: "d \<notin> set s \<Longrightarrow> s \<noteq> [] \<Longrightarrow> split s d = [s]"
  by (simp add: split_def split_from_no)

lemma split_Cons: "d \<notin> set s \<Longrightarrow> split (s @ d # t) d = s # split t d"
  by (simp add: split_def split_from_append)

lemma split_from_pieces: "p \<in> set (split_from d s item) \<Longrightarrow> d \<notin> set item \<Longrightarrow> d \<notin> set p"
  by (induction d s item rule: split_from.induct) (auto split: if_splits)

text \<open>\<^verbatim>\<open>replace\<close>: the first occurrence; the flag says whether there was one.\<close>

definition str_replace :: "string \<Rightarrow> string \<Rightarrow> string \<Rightarrow> bool \<times> string" where
  "str_replace s from to =
     (case str_find_sub from s of
        None \<Rightarrow> (False, s)
      | Some i \<Rightarrow> (True, take i s @ to @ drop (i + length from) s))"

text \<open>\<^verbatim>\<open>replaceAll\<close>: the search goes on after the text put in; \<open>done\<close> is what lies before that point.\<close>

function replaceAll_loop :: "string \<Rightarrow> string \<Rightarrow> string \<Rightarrow> string \<Rightarrow> int \<Rightarrow> int \<times> string" where
  "replaceAll_loop from to done rest retval =
     (if from = [] then (retval, done @ rest)
      else case str_find_sub from rest of
        None \<Rightarrow> (retval, done @ rest)
      | Some i \<Rightarrow> replaceAll_loop from to (done @ take i rest @ to) (drop (i + length from) rest) (retval + 1))"
  by pat_completeness auto
termination
  by (relation "measure (\<lambda>(from, to, done, rest, r). length rest)")
    (auto dest!: str_find_sub_bound simp flip: length_greater_0_conv)

declare replaceAll_loop.simps [simp del]

definition replaceAll :: "string \<Rightarrow> string \<Rightarrow> string \<Rightarrow> int \<times> string" where
  "replaceAll s from to = (if from = [] then (0, s) else replaceAll_loop from to [] s 0)"

end
