(* ===== verification/ET_Server.thy ===== *)
theory ET_Server
  imports ET_Reconnect ET_Strings
begin

text \<open>
  \<^verbatim>\<open>base/ServerConnection\<close>: the registry of clients of a server and the handler of a connection that
  has just been accepted. The \<^verbatim>\<open>ServerClientConnection\<close> objects are shared with the threads that
  serve them, so they live in a store and the maps hold their addresses. \<^verbatim>\<open>newClient\<close> is virtual: a
  parameter, with what the base class relies on in the locale \<open>new_client_callback\<close>. A handler runs on
  a pool thread and takes \<^verbatim>\<open>classMutex\<close> twice; its locked and unlocked stretches are the segments of
  the step relation that interleaves the handlers with the other calls of the server.
\<close>

section \<open>The server\<close>

record ServerConnection =
  sc_socketHandler :: nat
  serverEndpoint :: SocketEndpoint
  clientKeys :: "(string \<times> string) list"
  clientConnections :: "(string \<times> nat) list"
  poolTasks :: "int list option"
  connObjects :: "Connection list"

type_synonym ('x, 'a) server_prog = "('x ServerConnection_scheme \<times> world, 'a) prog"

text \<open>A method of the connection object at address \<open>p\<close>.\<close>

definition on_conn :: "nat \<Rightarrow> 'a conn_prog \<Rightarrow> ('x, 'a) server_prog" where
  "on_conn p m s =
     (if p < length (connObjects (fst s)) then
        (case m (connObjects (fst s) ! p, snd s) of
           (x, (c, w)) \<Rightarrow> (x, ((fst s)\<lparr>connObjects := (connObjects (fst s))[p := c]\<rparr>, w)))
      else (Abort ''invalid connection'', s))"

text \<open>The constructor: \<^verbatim>\<open>listen\<close>, with empty maps and a pool.\<close>

definition ServerConnection_new :: "nat \<Rightarrow> SocketEndpoint \<Rightarrow> (world, ServerConnection) prog" where
  "ServerConnection_new h ep = bnd (sh_listen h ep) (\<lambda>_.
     ret \<lparr>sc_socketHandler = h, serverEndpoint = ep, clientKeys = [], clientConnections = [],
          poolTasks = Some [], connObjects = []\<rparr>)"

definition clientKeyExists :: "string \<Rightarrow> 'x ServerConnection_scheme \<Rightarrow> bool" where
  "clientKeyExists i sv \<longleftrightarrow> map_of (clientKeys sv) i \<noteq> None"

definition clientConnectionExists :: "string \<Rightarrow> 'x ServerConnection_scheme \<Rightarrow> bool" where
  "clientConnectionExists i sv \<longleftrightarrow> map_of (clientConnections sv) i \<noteq> None"

definition getClientConnection :: "string \<Rightarrow> 'x ServerConnection_scheme \<Rightarrow> nat outcome" where
  "getClientConnection i sv =
     (case map_of (clientConnections sv) i of
        None \<Rightarrow> Abort ''Error: Tried to get a client connection that doesn't exist''
      | Some p \<Rightarrow> Ok p)"

definition addClientKey :: "string \<Rightarrow> string \<Rightarrow> ('x, unit) server_prog" where
  "addClientKey i passkey = mod_obj (\<lambda>sv. sv\<lparr>clientKeys := al_set i passkey (clientKeys sv)\<rparr>)"

definition acceptNewConnection :: "int \<Rightarrow> ('x, bool) server_prog" where
  "acceptNewConnection fd = bnd get_obj (\<lambda>sv.
     bnd (sys (Unix_accept (sc_socketHandler sv) fd)) (\<lambda>clientSocketFd.
       if clientSocketFd < 0 then ret False
       else (case poolTasks sv of
           None \<Rightarrow> fail (Abort ''enqueue on a destroyed pool'')
         | Some ts \<Rightarrow> bnd (mod_obj (\<lambda>sv. sv\<lparr>poolTasks := Some (ts @ [clientSocketFd])\<rparr>)) (\<lambda>_. ret True))))"

text \<open>Shuts every connection of the map down, in the order of the map.\<close>

primrec shutdown_each :: "nat list \<Rightarrow> ('x, unit) server_prog" where
  "shutdown_each [] = ret ()"
| "shutdown_each (p # ps) = bnd (on_conn p Connection_shutdown) (\<lambda>_. shutdown_each ps)"

text \<open>
  \<^verbatim>\<open>shutdown\<close> destroys the pool while it holds \<^verbatim>\<open>classMutex\<close>: the destructor waits for the tasks, and
  a task that is not done needs that mutex.
\<close>

definition Server_shutdown :: "('x, unit) server_prog" where
  "Server_shutdown = bnd get_obj (\<lambda>sv.
     bnd (sys (sh_stopListening (sc_socketHandler sv) (serverEndpoint sv))) (\<lambda>_.
     bnd (if poolTasks sv = None \<or> poolTasks sv = Some [] then ret () else fail Blocked) (\<lambda>_.
     bnd (mod_obj (\<lambda>sv. sv\<lparr>poolTasks := None\<rparr>)) (\<lambda>_.
     bnd (shutdown_each (map snd (clientConnections sv))) (\<lambda>_.
     mod_obj (\<lambda>sv. sv\<lparr>clientConnections := []\<rparr>))))))"

definition removeClient :: "string \<Rightarrow> ('x, bool) server_prog" where
  "removeClient i = bnd get_obj (\<lambda>sv.
     if map_of (clientKeys sv) i = None then ret False
     else bnd (mod_obj (\<lambda>sv. sv\<lparr>clientKeys := al_erase i (clientKeys sv)\<rparr>)) (\<lambda>_.
       case map_of (clientConnections sv) i of
         None \<Rightarrow> ret True
       | Some p \<Rightarrow> bnd (on_conn p Connection_shutdown) (\<lambda>_.
           bnd (mod_obj (\<lambda>sv. sv\<lparr>clientConnections := al_erase i (clientConnections sv)\<rparr>)) (\<lambda>_.
           ret True))))"

definition destroyPartialConnection :: "string \<Rightarrow> ('x, unit) server_prog" where
  "destroyPartialConnection i = bnd get_obj (\<lambda>sv.
     case map_of (clientConnections sv) i of
       None \<Rightarrow> ret ()
     | Some p \<Rightarrow> bnd (on_conn p Connection_shutdown) (\<lambda>_.
         mod_obj (\<lambda>sv. sv\<lparr>clientConnections := al_erase i (clientConnections sv)\<rparr>)))"

section \<open>The handler of a new socket\<close>

text \<open>\<^verbatim>\<open>catch (const runtime_error&)\<close> and \<^verbatim>\<open>catch (const std::exception&)\<close>, which do the same.\<close>

definition catch_std :: "('s, 'a) prog \<Rightarrow> ('s, 'a) prog \<Rightarrow> ('s, 'a) prog" where
  "catch_std m h s = (case m s of (Throw e, t) \<Rightarrow> h t | r \<Rightarrow> r)"

definition mismatch_response :: "int \<Rightarrow> ConnectResponse" where
  "mismatch_response v = \<lparr>status = Some MISMATCHED_PROTOCOL,
     error_text = Some (''Mismatched protocol versions.  '' @
       ''Your client & server must be on the same version of ET.  '' @
       ''Client: '' @ decimal v @ '' != Server: '' @ decimal PROTOCOL_VERSION)\<rparr>"

definition invalid_response :: ConnectResponse where
  "invalid_response = \<lparr>status = Some INVALID_KEY, error_text = Some ''Client is not registered''\<rparr>"

definition status_response :: "ConnectStatus \<Rightarrow> ConnectResponse" where
  "status_response st = \<lparr>status = Some st, error_text = None\<rparr>"

text \<open>Reading the request, up to the version check: the client's id, or \<open>None\<close> when the handler is done.\<close>

definition client_request :: "protos \<Rightarrow> int \<Rightarrow> ('x, string option) server_prog" where
  "client_request P fd = bnd get_obj (\<lambda>sv.
     bnd (sys (readProto (ConnectRequest_codec P) (sc_socketHandler sv) fd True)) (\<lambda>request.
       if get_version request \<noteq> PROTOCOL_VERSION then
         bnd (sys (writeProto (ConnectResponse_codec P) (sc_socketHandler sv) fd
                (mismatch_response (get_version request)) True)) (\<lambda>_.
         bnd (sys (Unix_close (sc_socketHandler sv) fd)) (\<lambda>_. ret None))
       else ret (Some (get_clientid request))))"

text \<open>What the locked look-up decides; the address is the one of \<^verbatim>\<open>serverClientState\<close>.\<close>

datatype decision = Unregistered | Created nat | Returning nat

definition client_lookup :: "sodium \<Rightarrow> string \<Rightarrow> int \<Rightarrow> ('x, decision) server_prog" where
  "client_lookup na clid fd = bnd get_obj (\<lambda>sv.
     if clientConnectionExists clid sv then
       bnd (outcome_prog (getClientConnection clid sv)) (\<lambda>p.
       ret (if clientKeyExists clid sv then Returning p else Unregistered))
     else (case map_of (clientKeys sv) clid of
         None \<Rightarrow> ret Unregistered
       | Some passkey \<Rightarrow>
           bnd (outcome_prog (ServerClientConnection_new na (sc_socketHandler sv) clid fd passkey)) (\<lambda>c.
           bnd (mod_obj (\<lambda>sv. sv\<lparr>connObjects := connObjects sv @ [c],
                  clientConnections := al_set clid (length (connObjects sv)) (clientConnections sv)\<rparr>)) (\<lambda>_.
           ret (Created (length (connObjects sv)))))))"

definition client_respond :: "protos \<Rightarrow> int \<Rightarrow> decision \<Rightarrow> ('x, unit) server_prog" where
  "client_respond P fd d = bnd get_obj (\<lambda>sv.
     sys (writeProto (ConnectResponse_codec P) (sc_socketHandler sv) fd
       (case d of Unregistered \<Rightarrow> invalid_response
                | Created _ \<Rightarrow> status_response NEW_CLIENT
                | Returning _ \<Rightarrow> status_response RETURNING_CLIENT) True))"

definition client_finish ::
  "protos \<Rightarrow> (nat \<Rightarrow> ('x, bool) server_prog) \<Rightarrow> string \<Rightarrow> int \<Rightarrow> decision \<Rightarrow> ('x, unit) server_prog" where
  "client_finish P newClient clid fd d = bnd get_obj (\<lambda>sv.
     case d of
       Unregistered \<Rightarrow> sys (Unix_close (sc_socketHandler sv) fd)
     | Created p \<Rightarrow> bnd (newClient p) (\<lambda>ok.
         if ok then ret ()
         else bnd (removeClient clid) (\<lambda>_. sys (Unix_close (sc_socketHandler sv) fd)))
     | Returning p \<Rightarrow> bnd (on_conn p (recoverClient P fd)) (\<lambda>_. ret ()))"

definition client_cleanup :: "string \<Rightarrow> int \<Rightarrow> decision \<Rightarrow> ('x, unit) server_prog" where
  "client_cleanup clid fd d = (case d of
      Created _ \<Rightarrow> destroyPartialConnection clid
    | _ \<Rightarrow> bnd get_obj (\<lambda>sv. sys (Unix_close (sc_socketHandler sv) fd)))"

definition clientHandler ::
  "sodium \<Rightarrow> protos \<Rightarrow> (nat \<Rightarrow> ('x, bool) server_prog) \<Rightarrow> int \<Rightarrow> ('x, unit) server_prog" where
  "clientHandler na P newClient fd =
     bnd (catch_std (client_request P fd)
            (bnd get_obj (\<lambda>sv. bnd (sys (Unix_close (sc_socketHandler sv) fd)) (\<lambda>_. ret None)))) (\<lambda>req.
       case req of
         None \<Rightarrow> ret ()
       | Some clid \<Rightarrow>
           bnd (client_lookup na clid fd) (\<lambda>d.
           catch_std (bnd (client_respond P fd d) (\<lambda>_. client_finish P newClient clid fd d))
             (client_cleanup clid fd d)))"

lemmas server_defs = on_conn_def clientKeyExists_def clientConnectionExists_def getClientConnection_def addClientKey_def
  acceptNewConnection_def Server_shutdown_def removeClient_def destroyPartialConnection_def catch_std_def
  mismatch_response_def invalid_response_def status_response_def client_request_def client_lookup_def
  client_respond_def client_finish_def client_cleanup_def clientHandler_def

declare server_defs [et_defs]

section \<open>Segments\<close>

text \<open>Where a handler stands between two stretches of \<^verbatim>\<open>clientHandler\<close>.\<close>

datatype handler_pc =
    PStart int
  | PLookup string int
  | PRespond string int decision
  | PFinish string int decision
  | PCleanup string int decision

definition handler_seg ::
  "sodium \<Rightarrow> protos \<Rightarrow> (nat \<Rightarrow> ('x, bool) server_prog) \<Rightarrow> handler_pc \<Rightarrow> ('x, handler_pc option) server_prog" where
  "handler_seg na P newClient pc = (case pc of
      PStart fd \<Rightarrow>
        catch_std (bnd (client_request P fd) (\<lambda>r. ret (map_option (\<lambda>i. PLookup i fd) r)))
          (bnd get_obj (\<lambda>sv. bnd (sys (Unix_close (sc_socketHandler sv) fd)) (\<lambda>_. ret None)))
    | PLookup i fd \<Rightarrow> bnd (client_lookup na i fd) (\<lambda>d. ret (Some (PRespond i fd d)))
    | PRespond i fd d \<Rightarrow>
        catch_std (bnd (client_respond P fd d) (\<lambda>_. ret (Some (PFinish i fd d)))) (ret (Some (PCleanup i fd d)))
    | PFinish i fd d \<Rightarrow>
        catch_std (bnd (client_finish P newClient i fd d) (\<lambda>_. ret None)) (ret (Some (PCleanup i fd d)))
    | PCleanup i fd d \<Rightarrow> bnd (client_cleanup i fd d) (\<lambda>_. ret None))"

primrec handler_run ::
  "sodium \<Rightarrow> protos \<Rightarrow> (nat \<Rightarrow> ('x, bool) server_prog) \<Rightarrow> nat \<Rightarrow> handler_pc option \<Rightarrow> ('x, unit) server_prog" where
  "handler_run na P newClient 0 pc = (if pc = None then ret () else fail Blocked)"
| "handler_run na P newClient (Suc n) pc = (case pc of
      None \<Rightarrow> ret ()
    | Some k \<Rightarrow> bnd (handler_seg na P newClient k) (handler_run na P newClient n))"

lemma handler_run_None [simp]: "handler_run na P nc n None = ret ()"
  by (cases n) simp_all

lemma run_cleanup: "handler_run na P nc (Suc n) (Some (PCleanup i fd d)) s = client_cleanup i fd d s"
  by (auto simp: handler_seg_def bnd_def split: prod.splits outcome.splits)

lemma run_finish:
  "handler_run na P nc (Suc (Suc n)) (Some (PFinish i fd d)) s =
     catch_std (client_finish P nc i fd d) (client_cleanup i fd d) s"
  unfolding handler_run.simps(2) [of _ _ _ "Suc n"]
  by (auto simp: handler_seg_def bnd_def catch_std_def run_cleanup simp del: handler_run.simps(2)
      split: prod.splits outcome.splits)

lemma run_respond:
  "handler_run na P nc (Suc (Suc (Suc n))) (Some (PRespond i fd d)) s =
     catch_std (bnd (client_respond P fd d) (\<lambda>_. client_finish P nc i fd d)) (client_cleanup i fd d) s"
  unfolding handler_run.simps(2) [of _ _ _ "Suc (Suc n)"]
  by (auto simp: handler_seg_def bnd_def catch_std_def run_cleanup run_finish simp del: handler_run.simps(2)
      split: prod.splits outcome.splits)

text \<open>The handler is its segments, one after the other.\<close>

lemma clientHandler_segments: "clientHandler na P nc fd = handler_run na P nc 5 (Some (PStart fd))"
proof
  fix s
  have lookup: "handler_run na P nc (Suc (Suc (Suc (Suc 0)))) (Some (PLookup i fd)) t =
      bnd (client_lookup na i fd) (\<lambda>d. catch_std (bnd (client_respond P fd d) (\<lambda>_. client_finish P nc i fd d))
             (client_cleanup i fd d)) t" for i t
    unfolding handler_run.simps(2) [of _ _ _ "Suc (Suc (Suc 0))"]
    by (auto simp: handler_seg_def bnd_def run_respond simp del: handler_run.simps(2) split: prod.splits outcome.splits)
  have five: "(5 :: nat) = Suc (Suc (Suc (Suc (Suc 0))))" by simp
  show "clientHandler na P nc fd s = handler_run na P nc 5 (Some (PStart fd)) s"
    unfolding five clientHandler_def handler_run.simps(2) [of _ _ _ "Suc (Suc (Suc (Suc 0)))"]
    by (auto simp: handler_seg_def bnd_def [of "catch_std _ _"] bnd_def [of "client_request _ _"] catch_std_def
        bnd_def [of get_obj] bnd_def [of "sys _"] lookup simp del: handler_run.simps(2)
        split: prod.splits outcome.splits option.splits)
qed

section \<open>The registry\<close>

definition obj_ok :: "Connection \<Rightarrow> bool" where
  "obj_ok c \<longleftrightarrow> fds_agree c \<and> reader c \<noteq> None \<and> writer c \<noteq> None"

definition registry_ok :: "'x ServerConnection_scheme \<Rightarrow> bool" where
  "registry_ok sv \<longleftrightarrow> distinct (map fst (clientConnections sv)) \<and> (\<forall>c\<in>set (connObjects sv). obj_ok c) \<and>
     (\<forall>i p. (i, p) \<in> set (clientConnections sv) \<longrightarrow>
        map_of (clientKeys sv) i \<noteq> None \<and> p < length (connObjects sv) \<and>
        c_id (connObjects sv ! p) = i \<and> \<not> shuttingDown (connObjects sv ! p))"

text \<open>Objects are never removed, and keep their ids.\<close>

definition objects_kept :: "'x ServerConnection_scheme \<Rightarrow> 'y ServerConnection_scheme \<Rightarrow> bool" where
  "objects_kept sv sv' \<longleftrightarrow> length (connObjects sv) \<le> length (connObjects sv') \<and>
     (\<forall>p<length (connObjects sv). c_id (connObjects sv' ! p) = c_id (connObjects sv ! p))"

definition server_frame :: "'x ServerConnection_scheme \<times> world \<Rightarrow> 'x ServerConnection_scheme \<times> world \<Rightarrow> bool" where
  "server_frame s t \<longleftrightarrow> objects_kept (fst s) (fst t) \<and> (registry_ok (fst s) \<longrightarrow> registry_ok (fst t))"

interpretation svf: frame server_frame
  by unfold_locales (auto simp: server_frame_def objects_kept_def)

declare svf.keeps_rules [keeps_intros]

text \<open>
  A program that aborts ends the server, whatever state it leaves: \<open>lives\<close> is \<open>keeps\<close> for the outcomes
  the server survives.
\<close>

definition survives :: "'a outcome \<Rightarrow> bool" where
  "survives q = (case q of Ok _ \<Rightarrow> True | Throw _ \<Rightarrow> True | _ \<Rightarrow> False)"

lemma survives_simps [simp]:
  "survives (Ok x)" "survives (Throw e)" "\<not> survives (Abort a)" "\<not> survives (Exit n)" "\<not> survives Blocked"
  by (simp_all add: survives_def)

lemma survives_lift_bad: "survives (lift_bad q) \<Longrightarrow> survives q"
  by (cases q) simp_all

context frame
begin

definition lives :: "('s, 'a) prog \<Rightarrow> bool" where
  "lives m \<longleftrightarrow> (\<forall>s q t. m s = (q, t) \<longrightarrow> survives q \<longrightarrow> R s t)"

lemma livesI: "(\<And>s q t. m s = (q, t) \<Longrightarrow> survives q \<Longrightarrow> R s t) \<Longrightarrow> lives m"
  by (simp add: lives_def)

lemma livesD: "lives m \<Longrightarrow> m s = (q, t) \<Longrightarrow> survives q \<Longrightarrow> R s t"
  by (simp add: lives_def)

lemma keeps_lives: "keeps m \<Longrightarrow> lives m"
  unfolding lives_def using keepsD by blast

lemma lives_bnd:
  assumes "lives m" and "\<And>x. lives (f x)"
  shows "lives (bnd m f)"
proof (rule livesI)
  fix s q t assume run: "bnd m f s = (q, t)" and q: "survives q"
  obtain r u where m: "m s = (r, u)" by force
  show "R s t"
  proof (cases "\<exists>x. r = Ok x")
    case True
    then show ?thesis using run m q livesD [OF assms(1) m] livesD [OF assms(2)] R_trans by (auto simp: bnd_def)
  next
    case False
    then have "q = lift_bad r \<and> t = u" using run m by (cases r) (auto simp: bnd_def)
    then show ?thesis using livesD [OF assms(1) m] q survives_lift_bad by blast
  qed
qed

lemma lives_catch_std:
  assumes "lives m" and "lives h"
  shows "lives (catch_std m h)"
proof (rule livesI)
  fix s q t assume run: "catch_std m h s = (q, t)" and q: "survives q"
  obtain r u where m: "m s = (r, u)" by force
  show "R s t"
  proof (cases "\<exists>e. r = Throw e")
    case True
    then have "h u = (q, t)" using run m by (auto simp: catch_std_def)
    then show ?thesis using True livesD [OF assms(1) m] livesD [OF assms(2) _ q] R_trans by auto
  next
    case False
    then have "q = r \<and> t = u" using run m by (cases r) (auto simp: catch_std_def)
    then show ?thesis using livesD [OF assms(1) m] q by simp
  qed
qed

end

lemma map_of_al_eraseD: "(i, p) \<in> set (al_erase j xs) \<longleftrightarrow> (i, p) \<in> set xs \<and> i \<noteq> j"
  by (auto simp: al_erase_def)

interpretation nsd: frame "same_on shuttingDown"
  by unfold_locales (simp_all add: same_on_def)

declare nsd.keeps_rules [keeps_intros]

lemma nsd_keeps [keeps_intros]:
  "nsd.keeps get_obj" "nsd.keeps (sys m)" "nsd.keeps (outcome_prog x)" "nsd.keeps (on_reader m1)" "nsd.keeps (on_writer m2)"
  "(\<And>c. shuttingDown (f c) = shuttingDown c) \<Longrightarrow> nsd.keeps (mod_obj f)"
  "nsd.keeps a \<Longrightarrow> nsd.keeps b \<Longrightarrow> nsd.keeps d \<Longrightarrow> nsd.keeps (case t of NoThread \<Rightarrow> a | Running \<Rightarrow> b | Finished \<Rightarrow> d)"
  "nsd.keeps e1 \<Longrightarrow> nsd.keeps e2 \<Longrightarrow> nsd.keeps e3 \<Longrightarrow> nsd.keeps e4 \<Longrightarrow>
     nsd.keeps (case st of SKIPPED \<Rightarrow> e1 | BUFFERED_ONLY \<Rightarrow> e2 | SUCCESS \<Rightarrow> e3 | WROTE_WITH_FAILURE \<Rightarrow> e4)"
  by (auto simp: nsd.keeps_def same_on_def get_obj_def sys_def outcome_prog_def mod_obj_def on_reader_def on_writer_def
      split: prod.splits option.splits reconnect_thread.splits BackedWriterWriteState.splits)

lemma nsd_methods [keeps_intros]:
  "nsd.keeps Connection_closeSocket" "nsd.keeps (Connection_readPacket na)" "nsd.keeps (Connection_writePacket na p)"
  "nsd.keeps Connection_hasData" "nsd.keeps (recoverClient P fd)"
  unfolding Connection_readPacket_def Connection_writePacket_def Connection_hasData_def recoverClient_def
    Connection_read_def Connection_write_def Connection_recover_def closeSocketAndMaybeReconnect_def
    Client_closeSocketAndMaybeReconnect_def waitReconnect_def Connection_closeSocket_def
  by (auto intro!: keeps_intros)

section \<open>What the operations keep\<close>

lemma close_no_throw: "Unix_close h fd w \<noteq> (Throw e, w')"
  by (auto simp: Unix_close_def setBlocking_def FATAL_FAIL_def the_handler_def upd_handler_def sys_int_def sys_close_def
      syscall_def emit_def bnd_def split: list.splits answer.splits if_splits)

lemma shutdown_no_throw: "Connection_shutdown (c, w) = (q, t) \<Longrightarrow> q \<noteq> Throw e"
  using close_no_throw
  by (auto simp: Connection_shutdown_def Connection_closeSocket_def bnd_def split: if_splits prod.splits outcome.splits)

lemma on_conn_cases:
  assumes "on_conn p m (sv, w) = (q, (sv', w'))"
  obtains (null) "length (connObjects sv) \<le> p" "sv' = sv" "w' = w" "\<not> survives q"
  | (run) c' where "p < length (connObjects sv)" "m (connObjects sv ! p, w) = (q, (c', w'))"
      "sv' = sv\<lparr>connObjects := (connObjects sv)[p := c']\<rparr>"
  using assms by (auto simp: on_conn_def split: if_splits prod.splits)

lemma obj_ok_frame: "conn_frame (c, w) (c', w') \<Longrightarrow> obj_ok c \<Longrightarrow> obj_ok c'"
  by (simp add: conn_frame_def obj_ok_def)

lemma set_update: "x \<in> set (xs[p := y]) \<Longrightarrow> x = y \<or> x \<in> set xs"
  using set_update_subset_insert by fastforce

lemma registry_update:
  assumes "registry_ok sv" and "p < length (connObjects sv)"
    and "conn_frame (connObjects sv ! p, w) (c', w')" and "shuttingDown c' = shuttingDown (connObjects sv ! p)"
  shows "registry_ok (sv\<lparr>connObjects := (connObjects sv)[p := c']\<rparr>)"
  using assms obj_ok_frame [OF assms(3)] nth_mem [OF assms(2)]
  by (auto simp: registry_ok_def conn_frame_def nth_list_update dest!: set_update)

lemma objects_update:
  "p < length (connObjects sv) \<Longrightarrow> c_id c = c_id (connObjects sv ! p) \<Longrightarrow>
   objects_kept sv (sv\<lparr>connObjects := (connObjects sv)[p := c]\<rparr>)"
  by (simp add: objects_kept_def nth_list_update)

lemma on_conn_keeps [keeps_intros]:
  assumes "cnf.keeps m" and "nsd.keeps m"
  shows "svf.keeps (on_conn p m)"
proof (rule svf.keepsI, clarify)
  fix sv w q sv' w' assume run: "on_conn p m (sv, w) = (q, (sv', w'))"
  then show "server_frame (sv, w) (sv', w')"
  proof (cases rule: on_conn_cases)
    case (run c')
    have "conn_frame (connObjects sv ! p, w) (c', w')" using cnf.keepsD [OF assms(1) run(2)] .
    moreover have "shuttingDown c' = shuttingDown (connObjects sv ! p)"
      using nsd.keepsD [OF assms(2) run(2)] by (simp add: same_on_def)
    ultimately show ?thesis
      using run registry_update [of sv p w c' w']
      by (auto simp: server_frame_def objects_kept_def nth_list_update conn_frame_def)
  qed (simp add: svf.R_refl)
qed

lemma server_basic_keeps [keeps_intros]:
  "svf.keeps get_obj" "svf.keeps (sys m)" "svf.keeps (outcome_prog x)" "svf.keeps (mod_obj (\<lambda>sv. sv\<lparr>poolTasks := ts\<rparr>))"
  "svf.keeps (addClientKey i k)"
  by (auto simp: svf.keeps_def server_frame_def objects_kept_def registry_ok_def get_obj_def sys_def outcome_prog_def
      mod_obj_def addClientKey_def split: prod.splits)

lemma unregister_ok:
  assumes "registry_ok sv" and "(i, p) \<in> set (clientConnections sv)"
    and "conn_frame (connObjects sv ! p, w) (c', w')" and "\<And>j. j \<noteq> i \<Longrightarrow> map_of ks j = map_of (clientKeys sv) j"
  shows "registry_ok (sv\<lparr>clientKeys := ks, connObjects := (connObjects sv)[p := c'],
     clientConnections := al_erase i (clientConnections sv)\<rparr>)"
proof -
  have p: "p < length (connObjects sv)" "c_id (connObjects sv ! p) = i" using assms(1,2) by (auto simp: registry_ok_def)
  have "obj_ok c'" using obj_ok_frame [OF assms(3)] assms(1) nth_mem [OF p(1)] by (simp add: registry_ok_def)
  then show ?thesis
    using assms(1,4) p by (fastforce simp: registry_ok_def map_of_al_eraseD nth_list_update dest!: set_update)
qed

lemma al_set_in: "(j, q) \<in> set (al_set i p xs) \<Longrightarrow> j = i \<and> q = p \<or> (j, q) \<in> set xs"
  by (induction xs) (auto split: if_splits)

lemma ServerClientConnection_new_obj:
  "ServerClientConnection_new na h i fd k = Ok c \<Longrightarrow> obj_ok c \<and> c_id c = i \<and> \<not> shuttingDown c"
  by (auto simp: ServerClientConnection_new_def obj_ok_def fds_agree_def BackedReader_new_def BackedWriter_new_def
      Connection_new_def split: outcome.splits)

lemma registry_add:
  assumes "registry_ok sv" and "map_of (clientKeys sv) i = Some k"
    and "ServerClientConnection_new na (sc_socketHandler sv) i fd k = Ok c"
  shows "registry_ok (sv\<lparr>connObjects := connObjects sv @ [c],
     clientConnections := al_set i (length (connObjects sv)) (clientConnections sv)\<rparr>)"
  using assms ServerClientConnection_new_obj [OF assms(3)]
  by (fastforce simp: registry_ok_def nth_append dest!: al_set_in)

lemma removeClient_lives: "svf.lives (removeClient i)"
proof (rule svf.livesI, clarify)
  fix sv w q sv' w' assume run: "removeClient i (sv, w) = (q, (sv', w'))" and q: "survives q"
  let ?sv = "sv\<lparr>clientKeys := al_erase i (clientKeys sv)\<rparr>"
  show "server_frame (sv, w) (sv', w')"
  proof (cases "map_of (clientKeys sv) i = None \<or> map_of (clientConnections sv) i = None")
    case True
    then have "sv' = sv \<or> sv' = ?sv \<and> map_of (clientConnections sv) i = None"
      using run by (auto simp: removeClient_def bnd_def split: if_splits)
    moreover have "map_of (clientConnections sv) i = None \<Longrightarrow> server_frame (sv, w) (?sv, w')"
      by (auto simp: server_frame_def objects_kept_def registry_ok_def map_of_None_notin rev_image_eqI)
    ultimately show ?thesis by (auto simp: server_frame_def objects_kept_def)
  next
    case False
    then obtain p where p: "map_of (clientConnections sv) i = Some p" by auto
    obtain r sv1 w1 where c: "on_conn p Connection_shutdown (?sv, w) = (r, (sv1, w1))" by (metis surj_pair)
    have "survives r" and sv': "sv' = sv1\<lparr>clientConnections := al_erase i (clientConnections sv1)\<rparr> \<or> (\<exists>e. r = Throw e) \<and> sv' = sv1"
      using run q c False p by (auto simp: removeClient_def bnd_def split: outcome.splits)
    from c show ?thesis
    proof (cases rule: on_conn_cases)
      case null
      then show ?thesis using \<open>survives r\<close> by simp
    next
      case (run c')
      have f: "conn_frame (connObjects sv ! p, w) (c', w1)" using cnf.keepsD [OF conn_frame_callers(3) run(2)] by simp
      have "\<nexists>e. r = Throw e" using shutdown_no_throw [OF run(2)] by blast
      then show ?thesis
        using sv' run(1,3) f unregister_ok [OF _ map_of_SomeD [OF p] f, of "al_erase i (clientKeys sv)"]
        by (auto simp: server_frame_def objects_kept_def nth_list_update conn_frame_def)
    qed
  qed
qed

lemma destroyPartial_lives: "svf.lives (destroyPartialConnection i)"
proof (rule svf.livesI, clarify)
  fix sv w q sv' w' assume run: "destroyPartialConnection i (sv, w) = (q, (sv', w'))" and q: "survives q"
  show "server_frame (sv, w) (sv', w')"
  proof (cases "map_of (clientConnections sv) i")
    case None
    then show ?thesis using run by (simp add: destroyPartialConnection_def bnd_def server_frame_def objects_kept_def)
  next
    case (Some p)
    obtain r sv1 w1 where c: "on_conn p Connection_shutdown (sv, w) = (r, (sv1, w1))" by (metis surj_pair)
    have "survives r" and sv': "sv' = sv1\<lparr>clientConnections := al_erase i (clientConnections sv1)\<rparr> \<or> (\<exists>e. r = Throw e) \<and> sv' = sv1"
      using run q c Some by (auto simp: destroyPartialConnection_def bnd_def split: outcome.splits)
    from c show ?thesis
    proof (cases rule: on_conn_cases)
      case null
      then show ?thesis using \<open>survives r\<close> by simp
    next
      case (run c')
      have f: "conn_frame (connObjects sv ! p, w) (c', w1)" using cnf.keepsD [OF conn_frame_callers(3) run(2)] .
      have "\<nexists>e. r = Throw e" using shutdown_no_throw [OF run(2)] by blast
      then show ?thesis
        using sv' run(1,3) f unregister_ok [OF _ map_of_SomeD [OF Some] f, of "clientKeys sv"]
        by (auto simp: server_frame_def objects_kept_def nth_list_update conn_frame_def)
    qed
  qed
qed

text \<open>While the connections are shut down one by one they are still registered; only the objects are known to be well.\<close>

lemma shutdown_each_objects:
  assumes "shutdown_each ps (sv, w) = (q, (sv', w'))" and "\<forall>c\<in>set (connObjects sv). obj_ok c"
  shows "objects_kept sv sv' \<and> (\<forall>c\<in>set (connObjects sv'). obj_ok c)"
  using assms
proof (induction ps arbitrary: sv w)
  case Nil
  then show ?case by (auto simp: objects_kept_def)
next
  case (Cons p ps)
  obtain r sv1 w1 where c: "on_conn p Connection_shutdown (sv, w) = (r, (sv1, w1))" by (metis surj_pair)
  have rest: "sv' = sv1 \<or> shutdown_each ps (sv1, w1) = (q, (sv', w'))"
    using Cons.prems(1) c by (cases r) (auto simp: bnd_def)
  have one: "objects_kept sv sv1 \<and> (\<forall>c\<in>set (connObjects sv1). obj_ok c)"
    using c
  proof (cases rule: on_conn_cases)
    case null
    then show ?thesis using Cons.prems(2) by (simp add: objects_kept_def)
  next
    case (run c')
    have f: "conn_frame (connObjects sv ! p, w) (c', w1)" using cnf.keepsD [OF conn_frame_callers(3) run(2)] .
    have "obj_ok c'" using obj_ok_frame [OF f] Cons.prems(2) nth_mem [OF run(1)] by blast
    moreover have "c_id c' = c_id (connObjects sv ! p)" using f by (simp add: conn_frame_def)
    ultimately show ?thesis
      using run Cons.prems(2) by (auto simp: objects_kept_def nth_list_update dest!: set_update)
  qed
  then show ?case using rest Cons.IH [of sv1 w1] by (auto simp: objects_kept_def)
qed

lemma Server_shutdown_Ok:
  assumes "Server_shutdown (sv, w) = (Ok (), (sv', w'))" and "registry_ok sv"
  shows "registry_ok sv' \<and> objects_kept sv sv' \<and> clientConnections sv' = []"
proof -
  obtain sv1 w1 w2 where "shutdown_each (map snd (clientConnections sv)) (sv\<lparr>poolTasks := None\<rparr>, w2) = (Ok (), (sv1, w1))"
      and "sv' = sv1\<lparr>clientConnections := []\<rparr>"
    using assms(1) unfolding Server_shutdown_def bnd_get_obj
    by (auto elim!: bnd_Ok_pairE split: if_splits prod.splits)
  then show ?thesis
    using shutdown_each_objects [of _ "sv\<lparr>poolTasks := None\<rparr>"] assms(2)
    by (fastforce simp: registry_ok_def objects_kept_def)
qed

lemma client_lookup_keeps [keeps_intros]: "svf.keeps (client_lookup na i fd)"
proof (rule svf.keepsI, clarify)
  fix sv w q sv' w' assume run: "client_lookup na i fd (sv, w) = (q, (sv', w'))"
  have "sv' = sv \<or> (\<exists>k c. map_of (clientKeys sv) i = Some k \<and> map_of (clientConnections sv) i = None \<and>
      ServerClientConnection_new na (sc_socketHandler sv) i fd k = Ok c \<and>
      sv' = sv\<lparr>connObjects := connObjects sv @ [c],
               clientConnections := al_set i (length (connObjects sv)) (clientConnections sv)\<rparr>)"
    using run unfolding client_lookup_def bnd_get_obj clientConnectionExists_def getClientConnection_def
    by (auto simp: bnd_def outcome_prog_def split: if_splits option.splits outcome.splits)
  moreover have "server_frame (sv, w) (sv\<lparr>connObjects := connObjects sv @ [c],
        clientConnections := al_set i (length (connObjects sv)) (clientConnections sv)\<rparr>, w')"
    if "map_of (clientKeys sv) i = Some k" "map_of (clientConnections sv) i = None"
      "ServerClientConnection_new na (sc_socketHandler sv) i fd k = Ok c" for k c
    using that registry_add [of sv i k na fd c] by (simp add: server_frame_def objects_kept_def nth_append)
  ultimately show "server_frame (sv, w) (sv', w')" by (auto simp: server_frame_def objects_kept_def)
qed

section \<open>The virtual callback\<close>

text \<open>What the base class relies on: the callback leaves the registry to it.\<close>

locale new_client_callback =
  fixes newClient :: "nat \<Rightarrow> ('x, bool) server_prog"
  assumes newClient_registry: "newClient p (sv, w) = (q, (sv', w')) \<Longrightarrow>
    clientKeys sv' = clientKeys sv \<and> clientConnections sv' = clientConnections sv \<and> connObjects sv' = connObjects sv"
begin

lemma newClient_keeps: "svf.keeps (newClient p)"
  by (rule svf.keepsI) (auto dest!: newClient_registry simp: server_frame_def objects_kept_def registry_ok_def)

lemma handler_seg_lives: "svf.lives (handler_seg na P newClient pc)"
proof -
  have "svf.lives (client_finish P newClient i fd d)" for i fd d
    unfolding client_finish_def
    by (cases d) (auto intro!: svf.lives_bnd removeClient_lives svf.keeps_lives [of get_obj] svf.keeps_lives [of "ret _"]
        svf.keeps_lives [of "sys _"] svf.keeps_lives [of "on_conn _ _"] svf.keeps_lives [of "newClient _"]
        newClient_keeps keeps_intros)
  then show ?thesis
    unfolding handler_seg_def client_request_def client_respond_def client_cleanup_def
    by (cases pc) (auto intro!: svf.lives_bnd svf.lives_catch_std svf.keeps_lives [of "ret _"]
        svf.keeps_lives [of get_obj] svf.keeps_lives [of "sys _"] svf.keeps_lives [of "client_lookup _ _ _"]
        keeps_intros destroyPartial_lives split: decision.split)
qed

end

section \<open>The server as a state machine\<close>

text \<open>
  The server with the handlers that run on its pool. Each step is one locked or unlocked stretch of
  one thread, with whatever answers the system gives it: the accept loop, a segment of a handler, the
  terminal threads' calls on a connection and their \<^verbatim>\<open>removeClient\<close>, a new key from the router, and
  \<^verbatim>\<open>shutdown\<close>.
\<close>

type_synonym 'x server_state = "'x ServerConnection_scheme \<times> handler_pc list"

datatype server_label =
    LAccept int
  | LSegment nat
  | LKey string string
  | LRemove string
  | LConn nat conn_call
  | LShutdown

definition server_call :: "conn_call \<Rightarrow> bool" where
  "server_call k \<longleftrightarrow> (case k of CallRead \<Rightarrow> True | CallWrite _ \<Rightarrow> True | CallHasData \<Rightarrow> True | _ \<Rightarrow> False)"

fun pc_fd :: "handler_pc \<Rightarrow> int" where
  "pc_fd (PStart fd) = fd"
| "pc_fd (PLookup i fd) = fd"
| "pc_fd (PRespond i fd d) = fd"
| "pc_fd (PFinish i fd d) = fd"
| "pc_fd (PCleanup i fd d) = fd"

definition task_done :: "int \<Rightarrow> 'x ServerConnection_scheme \<Rightarrow> 'x ServerConnection_scheme" where
  "task_done fd sv = sv\<lparr>poolTasks := map_option (remove1 fd) (poolTasks sv)\<rparr>"

inductive server_step ::
  "sodium \<Rightarrow> protos \<Rightarrow> (nat \<Rightarrow> ('x, bool) server_prog) \<Rightarrow> 'x server_state \<Rightarrow> server_label \<Rightarrow> 'x server_state \<Rightarrow> bool"
  for na P nc where
  step_accept: "acceptNewConnection fd (sv, w) = (Ok True, (sv', w')) \<Longrightarrow> poolTasks sv' = Some (ts @ [cfd]) \<Longrightarrow>
     server_step na P nc (sv, pcs) (LAccept fd) (sv', pcs @ [PStart cfd])"
| step_no_accept: "acceptNewConnection fd (sv, w) = (Ok False, (sv', w')) \<Longrightarrow>
     server_step na P nc (sv, pcs) (LAccept fd) (sv', pcs)"
| step_segment: "n < length pcs \<Longrightarrow> handler_seg na P nc (pcs ! n) (sv, w) = (Ok (Some pc), (sv', w')) \<Longrightarrow>
     server_step na P nc (sv, pcs) (LSegment n) (sv', pcs[n := pc])"
| step_done: "n < length pcs \<Longrightarrow> handler_seg na P nc (pcs ! n) (sv, w) = (Ok None, (sv', w')) \<Longrightarrow>
     server_step na P nc (sv, pcs) (LSegment n) (task_done (pc_fd (pcs ! n)) sv', take n pcs @ drop (Suc n) pcs)"
| step_key: "addClientKey i k (sv, w) = (Ok (), (sv', w')) \<Longrightarrow>
     server_step na P nc (sv, pcs) (LKey i k) (sv', pcs)"
| step_remove: "removeClient i (sv, w) = (Ok b, (sv', w')) \<Longrightarrow>
     server_step na P nc (sv, pcs) (LRemove i) (sv', pcs)"
| step_conn: "p < length (connObjects sv) \<Longrightarrow> server_call k \<Longrightarrow>
     conn_call_run na P k (connObjects sv ! p, w) = (c, w') \<Longrightarrow>
     server_step na P nc (sv, pcs) (LConn p k) (sv\<lparr>connObjects := (connObjects sv)[p := c]\<rparr>, pcs)"
| step_shutdown: "Server_shutdown (sv, w) = (Ok (), (sv', w')) \<Longrightarrow>
     server_step na P nc (sv, pcs) LShutdown (sv', pcs)"

inductive_cases server_stepE: "server_step na P nc st l st'"

definition server_init :: "'x server_state \<Rightarrow> bool" where
  "server_init st \<longleftrightarrow> clientConnections (fst st) = [] \<and> connObjects (fst st) = [] \<and> snd st = []"

text \<open>A handler past the look-up holds an object of the id it was asked for.\<close>

definition decision_ok :: "'x ServerConnection_scheme \<Rightarrow> string \<Rightarrow> decision \<Rightarrow> bool" where
  "decision_ok sv i d \<longleftrightarrow> (case d of Unregistered \<Rightarrow> True
     | Created p \<Rightarrow> p < length (connObjects sv) \<and> c_id (connObjects sv ! p) = i
     | Returning p \<Rightarrow> p < length (connObjects sv) \<and> c_id (connObjects sv ! p) = i)"

fun pc_ok :: "'x ServerConnection_scheme \<Rightarrow> handler_pc \<Rightarrow> bool" where
  "pc_ok sv (PStart fd) = True"
| "pc_ok sv (PLookup i fd) = True"
| "pc_ok sv (PRespond i fd d) = decision_ok sv i d"
| "pc_ok sv (PFinish i fd d) = decision_ok sv i d"
| "pc_ok sv (PCleanup i fd d) = decision_ok sv i d"

definition server_inv :: "'x server_state \<Rightarrow> bool" where
  "server_inv st \<longleftrightarrow> registry_ok (fst st) \<and> (\<forall>pc\<in>set (snd st). pc_ok (fst st) pc)"

lemma pc_ok_kept: "objects_kept sv sv' \<Longrightarrow> pc_ok sv pc \<Longrightarrow> pc_ok sv' pc"
  by (cases pc) (auto simp: objects_kept_def decision_ok_def split: decision.splits)

lemma server_inv_frame:
  "server_inv (sv, pcs) \<Longrightarrow> server_frame (sv, w) (sv', w') \<Longrightarrow> server_inv (sv', pcs)"
  by (auto simp: server_inv_def server_frame_def dest: pc_ok_kept)

text \<open>What a segment hands to the next one.\<close>

lemma client_lookup_decision:
  assumes "client_lookup na i fd (sv, w) = (Ok d, (sv', w'))" and "registry_ok sv"
  shows "decision_ok sv' i d"
proof -
  have reg: "map_of (clientConnections sv) i = Some p \<Longrightarrow> p < length (connObjects sv) \<and> c_id (connObjects sv ! p) = i" for p
    using assms(2) map_of_SomeD by (fastforce simp: registry_ok_def)
  show ?thesis
    using assms(1) reg ServerClientConnection_new_obj
    unfolding client_lookup_def bnd_get_obj clientConnectionExists_def getClientConnection_def
    by (auto simp: bnd_def outcome_prog_def decision_ok_def nth_append split: if_splits option.splits outcome.splits)
qed

lemma handler_seg_next:
  assumes "handler_seg na P nc pc (sv, w) = (Ok (Some pc'), (sv', w'))" and "registry_ok sv"
    and "pc_ok sv pc" and "objects_kept sv sv'"
  shows "pc_ok sv' pc'"
proof (cases pc)
  case (PLookup i fd)
  then have "\<exists>d. client_lookup na i fd (sv, w) = (Ok d, (sv', w')) \<and> pc' = PRespond i fd d"
    using assms(1) by (auto simp: handler_seg_def bnd_def split: prod.splits outcome.splits)
  then show ?thesis using client_lookup_decision [OF _ assms(2)] by auto
next
  case (PStart fd)
  then have "(\<exists>i. pc' = PLookup i fd)"
    using assms(1) by (auto simp: handler_seg_def bnd_def catch_std_def split: prod.splits outcome.splits)
  then show ?thesis by auto
next
  case (PRespond i fd d)
  then have "pc' = PFinish i fd d \<or> pc' = PCleanup i fd d"
    using assms(1) by (auto simp: handler_seg_def bnd_def catch_std_def split: prod.splits outcome.splits)
  then show ?thesis using pc_ok_kept [OF assms(4,3)] PRespond by auto
next
  case (PFinish i fd d)
  then have "pc' = PCleanup i fd d"
    using assms(1) by (auto simp: handler_seg_def bnd_def catch_std_def split: prod.splits outcome.splits)
  then show ?thesis using pc_ok_kept [OF assms(4,3)] PFinish by auto
next
  case (PCleanup i fd d)
  then show ?thesis using assms(1) by (auto simp: handler_seg_def bnd_def split: prod.splits outcome.splits)
qed

lemma nsd_snd: "nsd.keeps m \<Longrightarrow> shuttingDown (fst (snd (m s))) = shuttingDown (fst s)"
  by (cases s) (simp add: nsd.keeps_def same_on_def)

lemma conn_call_nsd:
  assumes "server_call k" and "conn_call_run na P k (c, w) = (c', w')"
  shows "shuttingDown c' = shuttingDown c"
proof -
  have "shuttingDown (fst (conn_call_run na P k (c, w))) = shuttingDown c"
    using assms(1) by (cases k) (simp_all add: server_call_def conn_call_run_def nsd_snd nsd_methods)
  then show ?thesis using assms(2) by simp
qed

lemma accept_frame: "svf.keeps (acceptNewConnection fd)"
  unfolding acceptNewConnection_def by (auto intro!: keeps_intros)

lemma server_init_inv: "server_init st \<Longrightarrow> server_inv st"
  by (simp add: server_init_def server_inv_def registry_ok_def)

context new_client_callback
begin

lemma server_step_inv:
  assumes "server_inv st" and "server_step na P newClient st l st'"
  shows "server_inv st'"
  using assms(2,1)
proof (cases rule: server_step.cases)
  case (step_accept fd sv w sv' w' ts cfd pcs)
  then have "server_inv (sv', pcs)" using server_inv_frame svf.keepsD [OF accept_frame step_accept(4)] assms(1) by blast
  then show ?thesis using step_accept(3) by (simp add: server_inv_def)
next
  case (step_no_accept fd sv w sv' w' pcs)
  then show ?thesis using server_inv_frame svf.keepsD [OF accept_frame step_no_accept(4)] assms(1) by blast
next
  case (step_segment n pcs sv w pc sv' w')
  have f: "server_frame (sv, w) (sv', w')" using svf.livesD [OF handler_seg_lives step_segment(5)] by simp
  have old: "registry_ok sv" "pc_ok sv (pcs ! n)"
    using assms(1) step_segment(1) nth_mem [OF step_segment(4)] by (simp_all add: server_inv_def)
  have "pc_ok sv' pc"
    using handler_seg_next [OF step_segment(5) old] f by (simp add: server_frame_def)
  moreover have "server_inv (sv', pcs)" using step_segment(1) server_inv_frame [OF _ f] assms(1) by blast
  ultimately show ?thesis
    using step_segment(3) set_update_subset_insert [of pcs n pc] by (auto simp: server_inv_def)
next
  case (step_done n pcs sv w sv' w')
  have f: "server_frame (sv, w) (sv', w')" using svf.livesD [OF handler_seg_lives step_done(5)] by simp
  then have "server_inv (sv', pcs)" using step_done(1) server_inv_frame assms(1) by blast
  moreover have "pc_ok (task_done fd sv') pc \<longleftrightarrow> pc_ok sv' pc" for fd pc
    by (cases pc) (auto simp: task_done_def decision_ok_def split: decision.splits)
  moreover have "registry_ok (task_done fd sv') \<longleftrightarrow> registry_ok sv'" for fd by (simp add: task_done_def registry_ok_def)
  ultimately show ?thesis
    using step_done(3) by (auto simp: server_inv_def dest: in_set_takeD in_set_dropD)
next
  case (step_key i k sv w sv' w' pcs)
  then show ?thesis using server_inv_frame svf.keepsD [OF server_basic_keeps(5) step_key(4)] assms(1) by blast
next
  case (step_remove i sv w b sv' w' pcs)
  then show ?thesis using server_inv_frame svf.livesD [OF removeClient_lives step_remove(4)] assms(1) by fastforce
next
  case (step_conn p sv k w c w' pcs)
  have f: "conn_frame (connObjects sv ! p, w) (c, w')" using conn_call_frame step_conn(6) by metis
  have "server_frame (sv, w) (sv\<lparr>connObjects := (connObjects sv)[p := c]\<rparr>, w')"
    using registry_update [OF _ step_conn(4) f conn_call_nsd [OF step_conn(5,6)]] f
    objects_update [OF step_conn(4), of c] by (simp add: server_frame_def conn_frame_def)
  then show ?thesis using step_conn(1,3) server_inv_frame assms(1) by blast
next
  case (step_shutdown sv w sv' w' pcs)
  then show ?thesis
    using Server_shutdown_Ok [OF step_shutdown(4)] assms(1) pc_ok_kept by (auto simp: server_inv_def)
qed

end

sublocale new_client_callback < reg: inductive_invariant server_init "server_step na P newClient" server_inv for na P
  by unfold_locales (erule server_init_inv, erule (1) server_step_inv)

section \<open>Isolation\<close>

text \<open>\<open>untouched i\<close>: nothing but the entry of the id \<open>i\<close> differs.\<close>

definition untouched :: "string \<Rightarrow> 'x ServerConnection_scheme \<Rightarrow> 'x ServerConnection_scheme \<Rightarrow> bool" where
  "untouched i sv sv' \<longleftrightarrow> (\<forall>j. j \<noteq> i \<longrightarrow> map_of (clientKeys sv') j = map_of (clientKeys sv) j \<and>
     map_of (clientConnections sv') j = map_of (clientConnections sv) j \<and>
     (\<forall>p. map_of (clientConnections sv) j = Some p \<longrightarrow> connObjects sv' ! p = connObjects sv ! p))"

lemma untouched_refl [simp]: "untouched i sv sv"
  by (simp add: untouched_def)

lemma untouched_object:
  assumes "registry_ok sv" and "p < length (connObjects sv)" and "c_id (connObjects sv ! p) = i"
    and "\<And>j. j \<noteq> i \<Longrightarrow> map_of ks j = map_of (clientKeys sv) j" and "\<And>j. j \<noteq> i \<Longrightarrow> map_of cs j = map_of (clientConnections sv) j"
  shows "untouched i sv (sv\<lparr>clientKeys := ks, connObjects := (connObjects sv)[p := c], clientConnections := cs\<rparr>)"
proof -
  have "p \<noteq> q" if "map_of (clientConnections sv) j = Some q" "j \<noteq> i" for j q
    using map_of_SomeD [OF that(1)] that(2) assms(1,3) by (auto simp: registry_ok_def)
  then have "(connObjects sv)[p := c] ! q = connObjects sv ! q" if "map_of (clientConnections sv) j = Some q" "j \<noteq> i" for j q
    using that by (metis nth_list_update_neq)
  then show ?thesis using assms(4,5) by (auto simp: untouched_def)
qed

lemma removeClient_untouched:
  assumes "removeClient i (sv, w) = (q, (sv', w'))" and "registry_ok sv"
  shows "untouched i sv sv'"
proof (cases "map_of (clientKeys sv) i = None \<or> map_of (clientConnections sv) i = None")
  case True
  then show ?thesis using assms(1) by (auto simp: removeClient_def bnd_def untouched_def split: if_splits)
next
  case False
  let ?sv = "sv\<lparr>clientKeys := al_erase i (clientKeys sv)\<rparr>"
  from False obtain p where p: "map_of (clientConnections sv) i = Some p" by auto
  have o: "p < length (connObjects sv)" "c_id (connObjects sv ! p) = i"
    using map_of_SomeD [OF p] assms(2) by (auto simp: registry_ok_def)
  obtain r sv1 w1 where c: "on_conn p Connection_shutdown (?sv, w) = (r, (sv1, w1))" by (metis surj_pair)
  then obtain c' where c': "sv1 = ?sv\<lparr>connObjects := (connObjects sv)[p := c']\<rparr>"
    by (rule on_conn_cases) (use o in auto)
  have "sv' = sv1\<lparr>clientConnections := al_erase i (clientConnections sv1)\<rparr> \<or> sv' = sv1"
    using assms(1) c False p by (cases r) (auto simp: removeClient_def bnd_def)
  then show ?thesis
    using c' untouched_object [OF assms(2) o, of "al_erase i (clientKeys sv)" "al_erase i (clientConnections sv)" c']
      untouched_object [OF assms(2) o, of "al_erase i (clientKeys sv)" "clientConnections sv" c'] by auto
qed

lemma destroyPartial_untouched:
  assumes "destroyPartialConnection i (sv, w) = (q, (sv', w'))" and "registry_ok sv"
  shows "untouched i sv sv'"
proof (cases "map_of (clientConnections sv) i")
  case None
  then show ?thesis using assms(1) by (auto simp: destroyPartialConnection_def bnd_def)
next
  case (Some p)
  have o: "p < length (connObjects sv)" "c_id (connObjects sv ! p) = i"
    using map_of_SomeD [OF Some] assms(2) by (auto simp: registry_ok_def)
  obtain r sv1 w1 where c: "on_conn p Connection_shutdown (sv, w) = (r, (sv1, w1))" by (metis surj_pair)
  then obtain c' where c': "sv1 = sv\<lparr>connObjects := (connObjects sv)[p := c']\<rparr>"
    by (rule on_conn_cases) (use o in auto)
  have "sv' = sv1\<lparr>clientConnections := al_erase i (clientConnections sv1)\<rparr> \<or> sv' = sv1"
    using assms(1) c Some by (cases r) (auto simp: destroyPartialConnection_def bnd_def)
  then show ?thesis
    using c' untouched_object [OF assms(2) o, of "clientKeys sv" "al_erase i (clientConnections sv)" c']
      untouched_object [OF assms(2) o, of "clientKeys sv" "clientConnections sv" c'] by auto
qed

lemma client_lookup_untouched:
  assumes "client_lookup na i fd (sv, w) = (q, (sv', w'))" and "registry_ok sv"
  shows "untouched i sv sv'"
proof -
  have "p < length (connObjects sv)" if "map_of (clientConnections sv) j = Some p" for j p
    using map_of_SomeD [OF that] assms(2) by (auto simp: registry_ok_def)
  then show ?thesis
    using assms(1) unfolding client_lookup_def bnd_get_obj clientConnectionExists_def getClientConnection_def
    by (auto simp: bnd_def outcome_prog_def untouched_def nth_append split: if_splits option.splits outcome.splits)
qed

text \<open>The id a handler works for, once it knows it.\<close>

fun pc_id :: "handler_pc \<Rightarrow> string option" where
  "pc_id (PStart fd) = None"
| "pc_id (PLookup i fd) = Some i"
| "pc_id (PRespond i fd d) = Some i"
| "pc_id (PFinish i fd d) = Some i"
| "pc_id (PCleanup i fd d) = Some i"

lemma sys_only_state:
  assumes "bnd get_obj (\<lambda>sv. sys (f sv)) (sv, w) = (q, (sv', w'))"
  shows "sv' = sv"
  using assms by (auto simp: bnd_def split: prod.splits)

lemma client_request_state: "client_request P fd (sv, w) = (q, (sv', w')) \<Longrightarrow> sv' = sv"
  by (auto simp: client_request_def bnd_def split: prod.splits outcome.splits if_splits)

context new_client_callback
begin

lemma client_finish_untouched:
  assumes "client_finish P newClient i fd d (sv, w) = (q, (sv', w'))" and "registry_ok sv" and "decision_ok sv i d"
  shows "untouched i sv sv'"
proof (cases d)
  case Unregistered
  then show ?thesis using assms(1) by (auto simp: client_finish_def bnd_def split: prod.splits)
next
  case (Created p)
  obtain r sv1 w1 where n: "newClient p (sv, w) = (r, (sv1, w1))" by (metis surj_pair)
  have same: "clientKeys sv1 = clientKeys sv" "clientConnections sv1 = clientConnections sv" "connObjects sv1 = connObjects sv"
    using newClient_registry [OF n] by auto
  then have reg: "registry_ok sv1" using assms(2) by (simp add: registry_ok_def)
  have "sv' = sv1 \<or> (\<exists>q1 w2. removeClient i (sv1, w1) = (q1, (sv', w2)))"
    using assms(1) Created n
    by (cases r) (auto simp: client_finish_def bnd_def split: if_splits prod.splits outcome.splits)
  then have "untouched i sv1 sv'" using removeClient_untouched [OF _ reg] by auto
  then show ?thesis using same by (simp add: untouched_def)
next
  case (Returning p)
  obtain r where "on_conn p (recoverClient P fd) (sv, w) = (r, (sv', w'))"
    using assms(1) Returning by (auto simp: client_finish_def bnd_def split: prod.splits outcome.splits)
  then show ?thesis
  proof (cases rule: on_conn_cases)
    case (run c')
    then show ?thesis
      using assms(3) Returning untouched_object [OF assms(2) run(1), of i "clientKeys sv" "clientConnections sv" c']
      by (simp add: decision_ok_def)
  qed simp
qed

lemma handler_seg_untouched:
  assumes "handler_seg na P newClient pc (sv, w) = (q, (sv', w'))" and "registry_ok sv" and "pc_ok sv pc"
  shows "case pc_id pc of None \<Rightarrow> sv' = sv | Some i \<Rightarrow> untouched i sv sv'"
proof (cases pc)
  case (PStart fd)
  obtain r sv1 w1 where r: "client_request P fd (sv, w) = (r, (sv1, w1))" by (metis surj_pair)
  then have "sv' = sv1"
    using assms(1) PStart by (cases r) (auto simp: handler_seg_def bnd_def catch_std_def split: prod.splits outcome.splits)
  then show ?thesis using client_request_state [OF r] PStart by simp
next
  case (PLookup i fd)
  then obtain q1 where "client_lookup na i fd (sv, w) = (q1, (sv', w'))"
    using assms(1) by (auto simp: handler_seg_def bnd_def split: prod.splits outcome.splits)
  then show ?thesis using client_lookup_untouched [OF _ assms(2)] PLookup by auto
next
  case (PRespond i fd d)
  obtain r sv1 w1 where r: "client_respond P fd d (sv, w) = (r, (sv1, w1))" by (metis surj_pair)
  then have "sv' = sv1"
    using assms(1) PRespond by (cases r) (auto simp: handler_seg_def bnd_def catch_std_def)
  then show ?thesis using sys_only_state [OF r [unfolded client_respond_def]] PRespond by simp
next
  case (PFinish i fd d)
  obtain r sv1 w1 where r: "client_finish P newClient i fd d (sv, w) = (r, (sv1, w1))" by (metis surj_pair)
  then have "sv' = sv1"
    using assms(1) PFinish by (cases r) (auto simp: handler_seg_def bnd_def catch_std_def)
  then show ?thesis using client_finish_untouched [OF r assms(2)] assms(3) PFinish by simp
next
  case (PCleanup i fd d)
  then obtain q1 where c: "client_cleanup i fd d (sv, w) = (q1, (sv', w'))"
    using assms(1) by (auto simp: handler_seg_def bnd_def split: prod.splits outcome.splits)
  show ?thesis
    using c destroyPartial_untouched [OF _ assms(2)] sys_only_state PCleanup
    by (cases d) (auto simp: client_cleanup_def dest!: sys_only_state)
qed

end

section \<open>A client that is not registered\<close>

lemma close_inactive:
  assumes "Unix_close h fd w = (Ok (), w')" and "fd \<noteq> -1"
  shows "fd \<notin> activeSockets (handlers w' h)"
  using assms
  by (auto simp: Unix_close_def the_handler_def upd_handler_def bnd_eq_Ok split: if_splits)

lemma catch_std_OkE:
  assumes "catch_std m h s = (Ok x, t)"
  obtains "m s = (Ok x, t)" | e u where "m s = (Throw e, u)" "h u = (Ok x, t)"
  using assms by (auto simp: catch_std_def split: prod.splits outcome.splits)

lemma closing_state:
  assumes "bnd get_obj (\<lambda>sv. bnd (sys (Unix_close (sc_socketHandler sv) fd)) (\<lambda>_. ret x)) (sv, w) = (Ok y, (sv', w'))" and "fd \<noteq> -1"
  shows "y = x \<and> sv' = sv \<and> fd \<notin> activeSockets (handlers w' (sc_socketHandler sv))"
  using assms close_inactive unfolding bnd_get_obj by (auto elim!: bnd_Ok_pairE split: prod.splits)

text \<open>The first stretch of the handler, with the request it read.\<close>

lemma client_request_cases:
  assumes "catch_std (client_request P fd)
      (bnd get_obj (\<lambda>sv. bnd (sys (Unix_close (sc_socketHandler sv) fd)) (\<lambda>_. ret None))) (sv, w) = (Ok r, (sv', w'))"
    and "readProto (ConnectRequest_codec P) (sc_socketHandler sv) fd True w = (Ok req, w1)" and "fd \<noteq> -1"
  shows "sv' = sv \<and> (if get_version req = PROTOCOL_VERSION then r = Some (get_clientid req) \<and> w' = w1
     else r = None \<and> fd \<notin> activeSockets (handlers w' (sc_socketHandler sv)))"
  using assms(1)
proof (cases rule: catch_std_OkE)
  case 1
  then show ?thesis
    using assms(2,3) close_inactive unfolding client_request_def bnd_get_obj
    by (auto elim!: bnd_Ok_pairE split: if_splits prod.splits)
next
  case (2 e u)
  have u: "fst u = sv" using client_request_state [of P fd sv w] 2(1) by (metis prod.collapse)
  have "get_version req \<noteq> PROTOCOL_VERSION"
    using 2(1) assms(2) unfolding client_request_def bnd_get_obj by (auto simp: bnd_def [of "sys _"])
  then show ?thesis using closing_state [of fd None sv "snd u" r sv' w'] 2(2) u assms(3) by (cases u) auto
qed

section \<open>Properties\<close>

definition sample_registry :: "(string \<times> string) list \<Rightarrow> ServerConnection" where
  "sample_registry ks = \<lparr>sc_socketHandler = 0, serverEndpoint = \<lparr>ep_name = None, ep_port = Some 2022\<rparr>, clientKeys = ks,
     clientConnections = [], poolTasks = Some [5], connObjects = []\<rparr>"

definition request_answers :: "answer list" where
  "request_answers = readAll_answers (le64 1) @ readAll_answers ''e''"

definition sample_stranger :: "unit outcome \<times> ServerConnection \<times> world" where
  "sample_stranger = clientHandler clear_sodium sample_protos (\<lambda>p. ret True) 5
     (sample_registry [], sample_world (request_answers @ writeAll_answers 8 @ writeAll_answers 1 @ [Val 0, Val 0, Val 0]))"

text \<open>
  C9: a peer that presents an id the server has no key for, or another protocol version, changes nothing in
  the server, and its socket is closed.
\<close>

theorem stranger_changes_nothing:
  assumes "clientHandler na P nc fd (sv, w) = (Ok (), (sv', w'))"
    and "readProto (ConnectRequest_codec P) (sc_socketHandler sv) fd True w = (Ok req, w1)"
    and "map_of (clientKeys sv) (get_clientid req) = None \<or> get_version req \<noteq> PROTOCOL_VERSION" and "fd \<noteq> -1"
  shows "sv' = sv \<and> fd \<notin> activeSockets (handlers w' (sc_socketHandler sv))"
proof -
  obtain r sv1 w2 where r: "catch_std (client_request P fd)
      (bnd get_obj (\<lambda>sv. bnd (sys (Unix_close (sc_socketHandler sv) fd)) (\<lambda>_. ret None))) (sv, w) = (Ok r, (sv1, w2))"
    and rest: "(case r of None \<Rightarrow> ret () | Some i \<Rightarrow> bnd (client_lookup na i fd) (\<lambda>d.
        catch_std (bnd (client_respond P fd d) (\<lambda>_. client_finish P nc i fd d)) (client_cleanup i fd d))) (sv1, w2) = (Ok (), (sv', w'))"
    using assms(1) unfolding clientHandler_def by (rule bnd_Ok_pairE)
  note first = client_request_cases [OF r assms(2,4)]
  show ?thesis
  proof (cases "get_version req = PROTOCOL_VERSION")
    case False
    then show ?thesis using first rest by simp
  next
    case True
    let ?i = "get_clientid req"
    have "client_lookup na ?i fd (sv, w1) = (Ok Unregistered, (sv, w1))"
      using assms(3) True unfolding client_lookup_def bnd_get_obj clientConnectionExists_def getClientConnection_def clientKeyExists_def
      by (auto simp: bnd_def outcome_prog_def split: option.splits)
    then have "catch_std (bnd (client_respond P fd Unregistered) (\<lambda>_. client_finish P nc ?i fd Unregistered))
        (client_cleanup ?i fd Unregistered) (sv, w1) = (Ok (), (sv', w'))"
      using first True rest by (simp add: bnd_Ok)
    then show ?thesis
    proof (cases rule: catch_std_OkE)
      case 1
      then show ?thesis using close_inactive assms(4) unfolding client_respond_def client_finish_def
        by (auto elim!: bnd_Ok_pairE simp: bnd_def [of get_obj] split: prod.splits)
    next
      case (2 e u)
      have "fst u = sv" using 2(1) unfolding client_respond_def client_finish_def
        by (auto simp: bnd_def split: prod.splits outcome.splits)
      then show ?thesis using 2(2) close_inactive assms(4) unfolding client_cleanup_def
        by (cases u) (auto simp: bnd_def [of get_obj] split: prod.splits)
    qed
  qed
qed

theorem stranger_changes_nothing_witness:
  "fst (snd sample_stranger) = sample_registry [] \<and> 5 \<notin> activeSockets (handlers (snd (snd sample_stranger)) 0)"
proof -
  let ?w = "sample_world (request_answers @ writeAll_answers 8 @ writeAll_answers 1 @ [Val 0, Val 0, Val 0])"
  let ?r = "readProto (ConnectRequest_codec sample_protos) 0 5 True ?w"
  have ok: "fst sample_stranger = Ok ()" by code_simp
  have r: "fst ?r = Ok \<lparr>clientId = Some ''id'', version = Some PROTOCOL_VERSION\<rparr>" by code_simp
  have h: "sc_socketHandler (sample_registry []) = 0" "map_of (clientKeys (sample_registry [])) i = None" for i
    by (simp_all add: sample_registry_def)
  have "clientHandler clear_sodium sample_protos (\<lambda>p. ret True) 5 (sample_registry [], ?w) =
      (Ok (), (fst (snd sample_stranger), snd (snd sample_stranger)))"
    using ok by (simp add: sample_stranger_def prod_eq_iff)
  from stranger_changes_nothing [OF this, of "\<lparr>clientId = Some ''id'', version = Some PROTOCOL_VERSION\<rparr>" "snd ?r"] show ?thesis
    using r h by (simp add: prod_eq_iff)
qed

text \<open>
  C30: a passkey of the wrong length, once registered, brings the whole server down: the first client that
  presents its id aborts the process inside the handler.
\<close>

theorem short_passkey_aborts_server:
  assumes "readProto (ConnectRequest_codec P) (sc_socketHandler sv) fd True w = (Ok req, w1)"
    and "get_version req = PROTOCOL_VERSION" and "map_of (clientConnections sv) (get_clientid req) = None"
    and "map_of (clientKeys sv) (get_clientid req) = Some k" and "length k \<noteq> KEYBYTES"
  shows "\<exists>msg. clientHandler na P nc fd (sv, w) = (Abort msg, (sv, w1))"
proof -
  have "client_request P fd (sv, w) = (Ok (Some (get_clientid req)), (sv, w1))"
    using assms(1,2) unfolding client_request_def bnd_get_obj by (simp add: bnd_def)
  moreover have "ServerClientConnection_new na h i fd k =
      Abort (if sodium_init na = -1 then ''libsodium init failed'' else ''Invalid key length'')" for h i
    using assms(5) by (simp add: ServerClientConnection_new_def CryptoHandler_new_def)
  then have "client_lookup na (get_clientid req) fd (sv, w1) =
      (Abort (if sodium_init na = -1 then ''libsodium init failed'' else ''Invalid key length''), (sv, w1))"
    using assms(3,4) unfolding client_lookup_def bnd_get_obj clientConnectionExists_def
    by (simp add: bnd_def outcome_prog_def)
  ultimately show ?thesis unfolding clientHandler_def by (simp add: bnd_def catch_std_def)
qed

theorem short_passkey_aborts_server_witness:
  "\<exists>msg. fst (clientHandler clear_sodium sample_protos (\<lambda>p. ret True) 5
     (sample_registry [(''id'', ''short'')], sample_world request_answers)) = Abort msg"
proof -
  let ?r = "readProto (ConnectRequest_codec sample_protos) 0 5 True (sample_world request_answers)"
  have r: "fst ?r = Ok \<lparr>clientId = Some ''id'', version = Some PROTOCOL_VERSION\<rparr>" by code_simp
  from short_passkey_aborts_server [of sample_protos "sample_registry [(''id'', ''short'')]" 5 "sample_world request_answers"
      "\<lparr>clientId = Some ''id'', version = Some PROTOCOL_VERSION\<rparr>" "snd ?r" "''short''"] show ?thesis
    using r by (auto simp: sample_registry_def prod_eq_iff get_version_def get_clientid_def KEYBYTES_def)
qed

end
