(* ===== verification/ET_Messages.thy ===== *)
theory ET_Messages
  imports ET_Connection ET_Strings
begin

text \<open>
  The messages of \<^verbatim>\<open>proto/ETerminal.proto\<close> and the packet types. Every field of a message is
  optional, except the repeated ones; a getter of a field that is not set gives the default of its
  type. The generated codecs are parameters, collected in \<open>tprotos\<close>.
\<close>

section \<open>Packet types\<close>

definition HEARTBEAT :: "8 word" where "HEARTBEAT = 254"
definition INITIAL_PAYLOAD :: "8 word" where "INITIAL_PAYLOAD = 253"
definition INITIAL_RESPONSE :: "8 word" where "INITIAL_RESPONSE = 252"

definition KEEP_ALIVE :: "8 word" where "KEEP_ALIVE = 0"
definition TERMINAL_BUFFER :: "8 word" where "TERMINAL_BUFFER = 1"
definition TERMINAL_INFO :: "8 word" where "TERMINAL_INFO = 2"
definition PORT_FORWARD_DESTINATION_REQUEST :: "8 word" where "PORT_FORWARD_DESTINATION_REQUEST = 5"
definition PORT_FORWARD_DESTINATION_RESPONSE :: "8 word" where "PORT_FORWARD_DESTINATION_RESPONSE = 6"
definition PORT_FORWARD_DATA :: "8 word" where "PORT_FORWARD_DATA = 7"
definition TERMINAL_USER_INFO :: "8 word" where "TERMINAL_USER_INFO = 8"
definition TERMINAL_INIT :: "8 word" where "TERMINAL_INIT = 9"
definition JUMPHOST_INIT :: "8 word" where "JUMPHOST_INIT = 10"

lemmas packet_type_defs = HEARTBEAT_def INITIAL_PAYLOAD_def INITIAL_RESPONSE_def KEEP_ALIVE_def TERMINAL_BUFFER_def
  TERMINAL_INFO_def PORT_FORWARD_DESTINATION_REQUEST_def PORT_FORWARD_DESTINATION_RESPONSE_def PORT_FORWARD_DATA_def
  TERMINAL_USER_INFO_def TERMINAL_INIT_def JUMPHOST_INIT_def

section \<open>Messages\<close>

record TerminalBuffer =
  tb_buffer :: "string option"

record TerminalInfo =
  ti_id :: "string option"
  ti_row :: "int option"
  ti_column :: "int option"
  ti_width :: "int option"
  ti_height :: "int option"

record PortForwardSourceRequest =
  pfsr_source :: "SocketEndpoint option"
  pfsr_destination :: "SocketEndpoint option"
  pfsr_environmentvariable :: "string option"

record PortForwardSourceResponse =
  pfsresp_error :: "string option"

record PortForwardDestinationRequest =
  pfdr_destination :: "SocketEndpoint option"
  pfdr_fd :: "int option"

record PortForwardDestinationResponse =
  pfdresp_clientfd :: "int option"
  pfdresp_socketid :: "int option"
  pfdresp_error :: "string option"

record PortForwardData =
  pwd_sourcetodestination :: "bool option"
  pwd_socketid :: "int option"
  pwd_buffer :: "string option"
  pwd_error :: "string option"
  pwd_closed :: "bool option"

record InitialPayload =
  jumphost :: "bool option"
  reversetunnels :: "PortForwardSourceRequest list"
  environmentvariables :: "(string \<times> string) list"

record InitialResponse =
  ir_error :: "string option"

record TermInit =
  environmentnames :: "string list"
  environmentvalues :: "string list"

record TerminalUserInfo =
  tui_id :: "string option"
  tui_passkey :: "string option"
  tui_uid :: "int option"
  tui_gid :: "int option"
  tui_fd :: "int option"

definition no_endpoint :: SocketEndpoint where
  "no_endpoint = \<lparr>ep_name = None, ep_port = None\<rparr>"

definition get_or :: "'a \<Rightarrow> 'a option \<Rightarrow> 'a" where
  "get_or d x = (case x of None \<Rightarrow> d | Some y \<Rightarrow> y)"

lemma get_or_simps [simp]: "get_or d None = d" "get_or d (Some y) = y"
  by (simp_all add: get_or_def)

record tprotos =
  TerminalBuffer_codec :: "TerminalBuffer codec"
  TerminalInfo_codec :: "TerminalInfo codec"
  PortForwardDestinationRequest_codec :: "PortForwardDestinationRequest codec"
  PortForwardDestinationResponse_codec :: "PortForwardDestinationResponse codec"
  PortForwardData_codec :: "PortForwardData codec"
  InitialPayload_codec :: "InitialPayload codec"
  InitialResponse_codec :: "InitialResponse codec"
  TermInit_codec :: "TermInit codec"
  TerminalUserInfo_codec :: "TerminalUserInfo codec"

section \<open>Helpers of Headers.hpp\<close>

definition stringToProto :: "'m codec \<Rightarrow> string \<Rightarrow> 'm outcome" where
  "stringToProto C s = (case ParseFromString C s of
      None \<Rightarrow> Abort ''Error parsing string to proto'' | Some t \<Rightarrow> Ok t)"

definition protoToString :: "'m codec \<Rightarrow> 'm \<Rightarrow> string outcome" where
  "protoToString C t = (case SerializeToString C t of
      None \<Rightarrow> Abort ''Error serializing proto to string'' | Some s \<Rightarrow> Ok s)"

lemma proto_roundtrip: "codec_ok C \<Longrightarrow> protoToString C m = Ok s \<Longrightarrow> stringToProto C s = Ok m"
  by (auto simp: protoToString_def stringToProto_def codec_ok_def split: option.splits)

text \<open>\<^verbatim>\<open>strerror\<close> of the C library.\<close>

fun strerror :: "errno \<Rightarrow> string" where
  "strerror EAGAIN = ''Resource temporarily unavailable''"
| "strerror EWOULDBLOCK = ''Resource temporarily unavailable''"
| "strerror EINTR = ''Interrupted system call''"
| "strerror EPIPE = ''Broken pipe''"
| "strerror ECONNRESET = ''Connection reset by peer''"
| "strerror ETIMEDOUT = ''Connection timed out''"
| "strerror EHOSTUNREACH = ''No route to host''"
| "strerror ENOTCONN = ''Transport endpoint is not connected''"
| "strerror ECONNABORTED = ''Software caused connection abort''"
| "strerror ENETDOWN = ''Network is down''"
| "strerror ENETUNREACH = ''Network is unreachable''"
| "strerror ENETRESET = ''Network dropped connection on reset''"
| "strerror EHOSTDOWN = ''Host is down''"
| "strerror EPROTOTYPE = ''Protocol wrong type for socket''"
| "strerror EBADF = ''Bad file descriptor''"
| "strerror ECONNREFUSED = ''Connection refused''"
| "strerror EINPROGRESS = ''Operation now in progress''"
| "strerror EEXIST = ''File exists''"
| "strerror EINVAL = ''Invalid argument''"
| "strerror ECHILD = ''No child processes''"
| "strerror (EOther n) = ''Unknown error '' @ nat_dec n"

end
