(* ===== verification/ET_Forward.thy ===== *)
theory ET_Forward
  imports ET_Messages
begin

text \<open>
  \<^verbatim>\<open>terminal/forwarding\<close>: the sockets of port forwarding. \<^verbatim>\<open>ForwardSourceHandler\<close> listens and accepts,
  \<^verbatim>\<open>ForwardDestinationHandler\<close> owns the connection to the destination, \<^verbatim>\<open>PortForwardHandler\<close> owns both
  and turns what they read into packets and packets into writes. The packet \<^verbatim>\<open>handlePacket\<close> writes on
  the connection, if any, is its result. A \<^verbatim>\<open>shared_ptr\<close> to a source handler is its index.
\<close>

section \<open>Reading a forwarded socket\<close>

definition data_of :: "bool \<Rightarrow> int \<Rightarrow> PortForwardData" where
  "data_of dir socketId = \<lparr>pwd_sourcetodestination = Some dir, pwd_socketid = Some socketId, pwd_buffer = None,
     pwd_error = None, pwd_closed = None\<rparr>"

text \<open>
  The loop both handlers have: read while there is data, add one message per read, close the socket
  after an error or the end of the stream. The flag says that the socket has been closed.
\<close>

function pump :: "nat \<Rightarrow> int \<Rightarrow> bool \<Rightarrow> int \<Rightarrow> PortForwardData list \<Rightarrow> (world, bool \<times> PortForwardData list) prog" where
  "pump h fd dir socketId out w =
     bnd (Unix_hasData fd) (\<lambda>more w1.
       if \<not> more then (Ok (False, out), w1)
       else bnd (Unix_read h fd 1024) (\<lambda>rd w2.
         if fst rd = -1 \<and> (errno_now w2 = EAGAIN \<or> errno_now w2 = EWOULDBLOCK) then (Ok (False, out), w2)
         else if fst rd = -1 then
           bnd (Unix_close h fd) (\<lambda>_. ret (True, out @ [(data_of dir socketId)\<lparr>pwd_error := Some (strerror (errno_now w2))\<rparr>])) w2
         else if fst rd = 0 then
           bnd (Unix_close h fd) (\<lambda>_. ret (True, out @ [(data_of dir socketId)\<lparr>pwd_closed := Some True\<rparr>])) w2
         else pump h fd dir socketId (out @ [(data_of dir socketId)\<lparr>pwd_buffer := Some (snd rd)\<rparr>]) w2) w1) w"
  by pat_completeness auto
termination
proof (relation "measure (\<lambda>(h, fd, dir, i, out, w). length (script w))", goal_cases)
  case (2 h fd dir i out w more w1 rd w2)
  have "length (script w1) < length (script w)"
    using 2(1) by (auto simp: Unix_hasData_def waitForData_def bnd_def dest!: script_shrinks split: prod.splits outcome.splits answer.splits)
  moreover have "length (script w2) \<le> length (script w1)"
    using sle.keepsD [OF Unix_read_keeps(2) 2(3)] by (simp add: script_le_def)
  ultimately show ?case by simp
qed simp

declare pump.simps [simp del]

section \<open>ForwardDestinationHandler\<close>

record ForwardDestinationHandler =
  fdh_socketHandler :: nat
  fdh_fd :: int
  fdh_socketId :: int

definition Destination_write :: "ForwardDestinationHandler \<Rightarrow> string \<Rightarrow> (world, unit) prog" where
  "Destination_write d s = bnd (writeAllOrReturn (fdh_socketHandler d) (fdh_fd d) s) (\<lambda>_. ret ())"

definition Destination_close :: "ForwardDestinationHandler \<Rightarrow> (world, unit) prog" where
  "Destination_close d = Unix_close (fdh_socketHandler d) (fdh_fd d)"

definition Destination_update ::
  "ForwardDestinationHandler \<Rightarrow> PortForwardData list \<Rightarrow> (world, ForwardDestinationHandler \<times> PortForwardData list) prog" where
  "Destination_update d retval =
     (if fdh_fd d = -1 then ret (d, retval)
      else bnd (pump (fdh_socketHandler d) (fdh_fd d) False (fdh_socketId d) retval) (\<lambda>(isClosed, out).
        ret (if isClosed then d\<lparr>fdh_fd := -1\<rparr> else d, out)))"

section \<open>ForwardSourceHandler\<close>

record ForwardSourceHandler =
  fsh_socketHandler :: nat
  fsh_source :: SocketEndpoint
  fsh_destination :: SocketEndpoint
  unassignedFds :: "int list"
  socketFdMap :: "(int \<times> int) list"

definition ForwardSourceHandler_new :: "nat \<Rightarrow> SocketEndpoint \<Rightarrow> SocketEndpoint \<Rightarrow> (world, ForwardSourceHandler) prog" where
  "ForwardSourceHandler_new h src dst = bnd (sh_listen h src) (\<lambda>_.
     ret \<lparr>fsh_socketHandler = h, fsh_source = src, fsh_destination = dst, unassignedFds = [], socketFdMap = []\<rparr>)"

definition ForwardSourceHandler_destroy :: "ForwardSourceHandler \<Rightarrow> (world, unit) prog" where
  "ForwardSourceHandler_destroy f = sh_stopListening (fsh_socketHandler f) (fsh_source f)"

text \<open>The first of the listening sockets that has a connection.\<close>

primrec accept_first :: "nat \<Rightarrow> int list \<Rightarrow> (world, int) prog" where
  "accept_first h [] = ret (-1)"
| "accept_first h (i # is) = bnd (Unix_accept h i) (\<lambda>fd. if fd > -1 then ret fd else accept_first h is)"

definition Source_listen :: "ForwardSourceHandler \<Rightarrow> (world, ForwardSourceHandler \<times> int) prog" where
  "Source_listen f = bnd (sh_getEndpointFds (fsh_socketHandler f) (fsh_source f)) (\<lambda>fds.
     bnd (accept_first (fsh_socketHandler f) fds) (\<lambda>fd.
       ret (if fd > -1 then f\<lparr>unassignedFds := List.insert fd (unassignedFds f)\<rparr> else f, fd)))"

text \<open>\<^verbatim>\<open>update\<close>: the sockets that closed are taken out of the map after the loop over it.\<close>

primrec Source_update_loop ::
  "nat \<Rightarrow> (int \<times> int) list \<Rightarrow> int list \<Rightarrow> PortForwardData list \<Rightarrow> (world, int list \<times> PortForwardData list) prog" where
  "Source_update_loop h [] socketsToRemove dat = ret (socketsToRemove, dat)"
| "Source_update_loop h (p # ps) socketsToRemove dat =
     bnd (pump h (snd p) True (fst p) dat) (\<lambda>(isClosed, out).
       Source_update_loop h ps (if isClosed then socketsToRemove @ [fst p] else socketsToRemove) out)"

definition Source_update ::
  "ForwardSourceHandler \<Rightarrow> PortForwardData list \<Rightarrow> (world, ForwardSourceHandler \<times> PortForwardData list) prog" where
  "Source_update f dat = bnd (Source_update_loop (fsh_socketHandler f) (socketFdMap f) [] dat) (\<lambda>(gone, out).
     ret (f\<lparr>socketFdMap := foldl (\<lambda>m i. al_erase i m) (socketFdMap f) gone\<rparr>, out))"

definition hasUnassignedFd :: "ForwardSourceHandler \<Rightarrow> int \<Rightarrow> bool" where
  "hasUnassignedFd f fd \<longleftrightarrow> fd \<in> set (unassignedFds f)"

definition closeUnassignedFd :: "ForwardSourceHandler \<Rightarrow> int \<Rightarrow> (world, ForwardSourceHandler) prog" where
  "closeUnassignedFd f fd =
     (if fd \<notin> set (unassignedFds f) then ret f
      else bnd (Unix_close (fsh_socketHandler f) fd) (\<lambda>_. ret (f\<lparr>unassignedFds := removeAll fd (unassignedFds f)\<rparr>)))"

definition addSocket :: "ForwardSourceHandler \<Rightarrow> int \<Rightarrow> int \<Rightarrow> ForwardSourceHandler" where
  "addSocket f socketId sourceFd =
     (if sourceFd \<notin> set (unassignedFds f) then f
      else f\<lparr>unassignedFds := removeAll sourceFd (unassignedFds f),
             socketFdMap := al_set socketId sourceFd (socketFdMap f)\<rparr>)"

definition getActiveFds :: "ForwardSourceHandler \<Rightarrow> int set \<Rightarrow> (world, int set) prog" where
  "getActiveFds f fds = bnd (sh_getEndpointFds (fsh_socketHandler f) (fsh_source f)) (\<lambda>es.
     ret (fds \<union> set es \<union> snd ` set (socketFdMap f) \<union> set (unassignedFds f)))"

definition sendDataOnSocket :: "ForwardSourceHandler \<Rightarrow> int \<Rightarrow> string \<Rightarrow> (world, unit) prog" where
  "sendDataOnSocket f socketId dat = (case map_of (socketFdMap f) socketId of
      None \<Rightarrow> ret ()
    | Some fd \<Rightarrow> bnd (writeAllOrReturn (fsh_socketHandler f) fd dat) (\<lambda>_. ret ()))"

definition Source_closeSocket :: "ForwardSourceHandler \<Rightarrow> int \<Rightarrow> (world, ForwardSourceHandler) prog" where
  "Source_closeSocket f socketId = (case map_of (socketFdMap f) socketId of
      None \<Rightarrow> ret f
    | Some fd \<Rightarrow> bnd (Unix_close (fsh_socketHandler f) fd) (\<lambda>_.
        ret (f\<lparr>socketFdMap := al_erase socketId (socketFdMap f)\<rparr>)))"

section \<open>PortForwardHandler\<close>

record PortForwardHandler =
  networkSocketHandler :: nat
  pipeSocketHandler :: nat
  destinationHandlers :: "(int \<times> ForwardDestinationHandler) list"
  sourceHandlers :: "ForwardSourceHandler list"
  socketIdSourceHandlerMap :: "(int \<times> nat) list"

type_synonym 'a pf_prog = "(PortForwardHandler \<times> world, 'a) prog"

definition PortForwardHandler_new :: "nat \<Rightarrow> nat \<Rightarrow> PortForwardHandler" where
  "PortForwardHandler_new n p = \<lparr>networkSocketHandler = n, pipeSocketHandler = p, destinationHandlers = [],
     sourceHandlers = [], socketIdSourceHandlerMap = []\<rparr>"

definition request_of :: "ForwardSourceHandler \<Rightarrow> int \<Rightarrow> PortForwardDestinationRequest" where
  "request_of f fd = \<lparr>pfdr_destination = Some (fsh_destination f), pfdr_fd = Some fd\<rparr>"

text \<open>The first loop of \<^verbatim>\<open>update\<close>, over the source handlers from index \<open>k\<close> on.\<close>

fun update_sources :: "nat \<Rightarrow> nat \<Rightarrow> PortForwardDestinationRequest list \<Rightarrow> PortForwardData list \<Rightarrow>
    (PortForwardDestinationRequest list \<times> PortForwardData list) pf_prog" where
  "update_sources 0 k requests dataToSend = ret (requests, dataToSend)"
| "update_sources (Suc n) k requests dataToSend = bnd get_obj (\<lambda>pf.
     bnd (sys (Source_update (sourceHandlers pf ! k) dataToSend)) (\<lambda>(f1, out).
     bnd (mod_obj (\<lambda>pf. pf\<lparr>sourceHandlers := (sourceHandlers pf)[k := f1]\<rparr>)) (\<lambda>_.
     bnd (sys (Source_listen f1)) (\<lambda>(f2, fd).
     bnd (mod_obj (\<lambda>pf. pf\<lparr>sourceHandlers := (sourceHandlers pf)[k := f2]\<rparr>)) (\<lambda>_.
       update_sources n (Suc k) (if fd \<ge> 0 then requests @ [request_of f2 fd] else requests) out)))))"

text \<open>The second loop, over the destination handlers; it stops after the first one that has closed.\<close>

primrec update_destinations :: "(int \<times> ForwardDestinationHandler) list \<Rightarrow> PortForwardData list \<Rightarrow> PortForwardData list pf_prog" where
  "update_destinations [] dataToSend = ret dataToSend"
| "update_destinations (p # ps) dataToSend =
     bnd (sys (Destination_update (snd p) dataToSend)) (\<lambda>(d, out).
       if fdh_fd d = -1 then
         bnd (mod_obj (\<lambda>pf. pf\<lparr>destinationHandlers := al_erase (fst p) (destinationHandlers pf)\<rparr>)) (\<lambda>_. ret out)
       else update_destinations ps out)"

definition PortForward_update :: "(PortForwardDestinationRequest list \<times> PortForwardData list) pf_prog" where
  "PortForward_update = bnd get_obj (\<lambda>pf.
     bnd (update_sources (length (sourceHandlers pf)) 0 [] []) (\<lambda>(requests, dat).
     bnd (update_destinations (destinationHandlers pf) dat) (\<lambda>out. ret (requests, out))))"

text \<open>
  \<^verbatim>\<open>createSource\<close>. \<open>named\<close> says whether \<^verbatim>\<open>sourceName\<close> is not null; the name put there is the second
  component. \<^verbatim>\<open>mkdtemp\<close> answers with the path it made; a null result is undefined behaviour in
  \<^verbatim>\<open>string(NULL)\<close>. \<^verbatim>\<open>uid_t\<close> is unsigned, so that the permissions are always set.
\<close>

definition sys_mkdtemp :: "(world, string) prog" where
  "sys_mkdtemp = bnd syscall (\<lambda>a. case a of
      Ret _ path \<Rightarrow> ret path | Err _ \<Rightarrow> fail (Abort ''undefined behaviour: string(NULL)''))"

definition create_source_endpoint :: "PortForwardSourceRequest \<Rightarrow> bool \<Rightarrow> (world, SocketEndpoint \<times> string option) prog" where
  "create_source_endpoint pfsr named =
     (case pfsr_source pfsr of
        Some src \<Rightarrow> ret (src, None)
      | None \<Rightarrow>
          bnd sys_mkdtemp (\<lambda>sourceDirectory.
          bnd (FATAL_FAIL sys_int) (\<lambda>_.
          bnd (FATAL_FAIL sys_int) (\<lambda>_.
            if \<not> named then fail (Abort ''Tried to create a pipe but without a place to put the name!'')
            else ret (no_endpoint\<lparr>ep_name := Some (sourceDirectory @ ''/sock'')\<rparr>, Some (sourceDirectory @ ''/sock''))))))"

definition createSource :: "PortForwardSourceRequest \<Rightarrow> bool \<Rightarrow> (PortForwardSourceResponse \<times> string option) pf_prog" where
  "createSource pfsr named = catch_runtime
     (if pfsr_source pfsr \<noteq> None \<and> named then
        fail (Throw (RuntimeError ''Do not set a source when forwarding named pipes with environment variables''))
      else bnd get_obj (\<lambda>pf.
        bnd (sys (create_source_endpoint pfsr named)) (\<lambda>(source, sourceName).
          if ep_port source \<noteq> None then
            (if named then fail (Abort ''Tried to create a port forward but with a place to put the name!'')
             else bnd (sys (ForwardSourceHandler_new (networkSocketHandler pf) source (get_or no_endpoint (pfsr_destination pfsr)))) (\<lambda>f.
                  bnd (mod_obj (\<lambda>pf. pf\<lparr>sourceHandlers := sourceHandlers pf @ [f]\<rparr>)) (\<lambda>_.
                  ret (\<lparr>pfsresp_error = None\<rparr>, sourceName))))
          else
            bnd (sys (ForwardSourceHandler_new (pipeSocketHandler pf) source (get_or no_endpoint (pfsr_destination pfsr)))) (\<lambda>f.
            bnd (sys (FATAL_FAIL sys_int)) (\<lambda>_.
            bnd (sys (FATAL_FAIL sys_int)) (\<lambda>_.
            bnd (mod_obj (\<lambda>pf. pf\<lparr>sourceHandlers := sourceHandlers pf @ [f]\<rparr>)) (\<lambda>_.
            ret (\<lparr>pfsresp_error = None\<rparr>, sourceName))))))))
     (\<lambda>e. ret (\<lparr>pfsresp_error = Some e\<rparr>, None))"

text \<open>\<^verbatim>\<open>rand()\<close>, and the search for an id that is not in use: \<open>None\<close> after 100000 more attempts.\<close>

definition sys_rand :: "(world, int) prog" where
  "sys_rand = bnd syscall (\<lambda>a. case a of Ret n _ \<Rightarrow> ret n | Err _ \<Rightarrow> ret 0)"

function find_socket_id :: "int \<Rightarrow> int \<Rightarrow> (int \<times> ForwardDestinationHandler) list \<Rightarrow> (world, int option) prog" where
  "find_socket_id attempts socketId ds =
     (if map_of ds socketId = None then ret (Some socketId)
      else bnd sys_rand (\<lambda>next.
        if attempts + 1 \<ge> 100000 then ret None else find_socket_id (attempts + 1) next ds))"
  by pat_completeness auto
termination
  by (relation "measure (\<lambda>(attempts, i, ds). nat (100000 - attempts))") auto

declare find_socket_id.simps [simp del]

definition connect_destination :: "PortForwardHandler \<Rightarrow> SocketEndpoint \<Rightarrow> (world, int) prog" where
  "connect_destination pf dst = (case ep_port dst of
      Some p \<Rightarrow>
        bnd (sh_connect (networkSocketHandler pf) \<lparr>ep_name = Some ''::1'', ep_port = Some p\<rparr>) (\<lambda>fd.
          if fd = -1 then sh_connect (networkSocketHandler pf) \<lparr>ep_name = Some ''127.0.0.1'', ep_port = Some p\<rparr>
          else ret fd)
    | None \<Rightarrow> sh_connect (pipeSocketHandler pf) dst)"

definition createDestination :: "PortForwardDestinationRequest \<Rightarrow> PortForwardDestinationResponse pf_prog" where
  "createDestination pfdr = bnd get_obj (\<lambda>pf.
     let dst = get_or no_endpoint (pfdr_destination pfdr);
         response = \<lparr>pfdresp_clientfd = Some (get_or 0 (pfdr_fd pfdr)), pfdresp_socketid = None, pfdresp_error = None\<rparr> in
     bnd (sys (connect_destination pf dst)) (\<lambda>fd.
       if fd = -1 then bnd (sys GetErrno) (\<lambda>e. ret (response\<lparr>pfdresp_error := Some (strerror e)\<rparr>))
       else bnd (sys sys_rand) (\<lambda>first.
         bnd (sys (find_socket_id 0 first (destinationHandlers pf))) (\<lambda>found.
           case found of
             None \<Rightarrow> ret (response\<lparr>pfdresp_error := Some ''Could not find empty socket id''\<rparr>)
           | Some socketId \<Rightarrow>
               bnd (mod_obj (\<lambda>pf. pf\<lparr>destinationHandlers := al_set socketId
                     \<lparr>fdh_socketHandler = (if ep_port dst \<noteq> None then networkSocketHandler pf else pipeSocketHandler pf),
                      fdh_fd = fd, fdh_socketId = socketId\<rparr> (destinationHandlers pf)\<rparr>)) (\<lambda>_.
               ret (response\<lparr>pfdresp_socketid := Some socketId\<rparr>))))))"

text \<open>The first source handler that holds \<open>fd\<close> unassigned.\<close>

fun find_unassigned :: "ForwardSourceHandler list \<Rightarrow> int \<Rightarrow> nat option" where
  "find_unassigned [] fd = None"
| "find_unassigned (f # fs) fd = (if hasUnassignedFd f fd then Some 0 else map_option Suc (find_unassigned fs fd))"

definition closeSourceFd :: "int \<Rightarrow> unit pf_prog" where
  "closeSourceFd fd = bnd get_obj (\<lambda>pf.
     case find_unassigned (sourceHandlers pf) fd of
       None \<Rightarrow> ret ()
     | Some k \<Rightarrow> bnd (sys (closeUnassignedFd (sourceHandlers pf ! k) fd)) (\<lambda>f.
         mod_obj (\<lambda>pf. pf\<lparr>sourceHandlers := (sourceHandlers pf)[k := f]\<rparr>)))"

definition addSourceSocketId :: "int \<Rightarrow> int \<Rightarrow> unit pf_prog" where
  "addSourceSocketId socketId sourceFd = bnd get_obj (\<lambda>pf.
     case find_unassigned (sourceHandlers pf) sourceFd of
       None \<Rightarrow> ret ()
     | Some k \<Rightarrow> mod_obj (\<lambda>pf. pf\<lparr>
         sourceHandlers := (sourceHandlers pf)[k := addSocket (sourceHandlers pf ! k) socketId sourceFd],
         socketIdSourceHandlerMap := al_set socketId k (socketIdSourceHandlerMap pf)\<rparr>))"

definition closeSourceSocketId :: "int \<Rightarrow> unit pf_prog" where
  "closeSourceSocketId socketId = bnd get_obj (\<lambda>pf.
     case map_of (socketIdSourceHandlerMap pf) socketId of
       None \<Rightarrow> ret ()
     | Some k \<Rightarrow> bnd (sys (Source_closeSocket (sourceHandlers pf ! k) socketId)) (\<lambda>f.
         mod_obj (\<lambda>pf. pf\<lparr>sourceHandlers := (sourceHandlers pf)[k := f],
           socketIdSourceHandlerMap := al_erase socketId (socketIdSourceHandlerMap pf)\<rparr>)))"

definition sendDataToSourceOnSocket :: "int \<Rightarrow> string \<Rightarrow> unit pf_prog" where
  "sendDataToSourceOnSocket socketId dat = bnd get_obj (\<lambda>pf.
     case map_of (socketIdSourceHandlerMap pf) socketId of
       None \<Rightarrow> ret ()
     | Some k \<Rightarrow> sys (sendDataOnSocket (sourceHandlers pf ! k) socketId dat))"

primrec getForwardFds_sources :: "ForwardSourceHandler list \<Rightarrow> int set \<Rightarrow> (world, int set) prog" where
  "getForwardFds_sources [] fds = ret fds"
| "getForwardFds_sources (f # fs) fds = bnd (getActiveFds f fds) (\<lambda>fds'. getForwardFds_sources fs fds')"

definition getForwardFds :: "PortForwardHandler \<Rightarrow> (world, int set) prog" where
  "getForwardFds pf = bnd (getForwardFds_sources (sourceHandlers pf) {}) (\<lambda>fds.
     ret (fds \<union> {fd. fd \<in> (fdh_fd \<circ> snd) ` set (destinationHandlers pf) \<and> fd \<ge> 0}))"

text \<open>\<^verbatim>\<open>handlePacket\<close>; the result is the packet it writes on the connection.\<close>

definition handle_data :: "PortForwardData \<Rightarrow> unit pf_prog" where
  "handle_data pwd = bnd get_obj (\<lambda>pf.
     let socketId = get_or 0 (pwd_socketid pwd) in
     if get_or False (pwd_sourcetodestination pwd) then
       (case map_of (destinationHandlers pf) socketId of
          None \<Rightarrow> ret ()
        | Some d \<Rightarrow>
            if pwd_closed pwd \<noteq> None \<or> pwd_error pwd \<noteq> None then
              bnd (sys (Destination_close d)) (\<lambda>_.
              mod_obj (\<lambda>pf. pf\<lparr>destinationHandlers := al_erase socketId (destinationHandlers pf)\<rparr>))
            else sys (Destination_write d (get_or [] (pwd_buffer pwd))))
     else if pwd_closed pwd \<noteq> None \<or> pwd_error pwd \<noteq> None then closeSourceSocketId socketId
     else sendDataToSourceOnSocket socketId (get_or [] (pwd_buffer pwd)))"

definition handlePacket :: "tprotos \<Rightarrow> Packet \<Rightarrow> Packet option pf_prog" where
  "handlePacket T packet =
     (if header packet = PORT_FORWARD_DATA then
        bnd (outcome_prog (stringToProto (PortForwardData_codec T) (payload packet))) (\<lambda>pwd.
        bnd (handle_data pwd) (\<lambda>_. ret None))
      else if header packet = PORT_FORWARD_DESTINATION_REQUEST then
        bnd (outcome_prog (stringToProto (PortForwardDestinationRequest_codec T) (payload packet))) (\<lambda>pfdr.
        bnd (createDestination pfdr) (\<lambda>response.
        bnd (outcome_prog (protoToString (PortForwardDestinationResponse_codec T) response)) (\<lambda>s.
        ret (Some (mkPacket PORT_FORWARD_DESTINATION_RESPONSE s)))))
      else if header packet = PORT_FORWARD_DESTINATION_RESPONSE then
        bnd (outcome_prog (stringToProto (PortForwardDestinationResponse_codec T) (payload packet))) (\<lambda>pfdr.
        bnd (if pfdresp_error pfdr \<noteq> None then closeSourceFd (get_or 0 (pfdresp_clientfd pfdr))
             else addSourceSocketId (get_or 0 (pfdresp_socketid pfdr)) (get_or 0 (pfdresp_clientfd pfdr))) (\<lambda>_.
        ret None))
      else fail (Abort ''Unknown packet type''))"

lemmas forward_defs = data_of_def Destination_write_def Destination_close_def Destination_update_def
  ForwardSourceHandler_new_def Source_listen_def Source_update_def hasUnassignedFd_def closeUnassignedFd_def addSocket_def
  sendDataOnSocket_def Source_closeSocket_def PortForward_update_def createSource_def create_source_endpoint_def
  connect_destination_def createDestination_def closeSourceFd_def addSourceSocketId_def closeSourceSocketId_def
  sendDataToSourceOnSocket_def handle_data_def handlePacket_def

declare forward_defs [et_defs]

section \<open>What the pump reads is what it reports\<close>

definition chunk :: "bool \<Rightarrow> int \<Rightarrow> string \<Rightarrow> PortForwardData" where
  "chunk dir socketId b = (data_of dir socketId)\<lparr>pwd_buffer := Some b\<rparr>"

definition is_end :: "bool \<Rightarrow> int \<Rightarrow> PortForwardData \<Rightarrow> bool" where
  "is_end dir socketId m \<longleftrightarrow> m = (data_of dir socketId)\<lparr>pwd_closed := Some True\<rparr> \<or>
     (\<exists>e. m = (data_of dir socketId)\<lparr>pwd_error := Some e\<rparr>)"

lemma is_end_simps [simp]:
  "is_end dir i ((data_of dir i)\<lparr>pwd_closed := Some True\<rparr>)" "is_end dir i ((data_of dir i)\<lparr>pwd_error := Some e\<rparr>)"
  by (auto simp: is_end_def)

text \<open>One message per read, in order, and after them, when the socket was closed, one that says so.\<close>

definition pumped :: "bool \<Rightarrow> int \<Rightarrow> string \<Rightarrow> bool \<Rightarrow> PortForwardData list \<Rightarrow> bool" where
  "pumped dir socketId bs cl msgs \<longleftrightarrow> (\<exists>bufs last. msgs = map (chunk dir socketId) bufs @ last \<and> concat bufs = bs \<and>
     (\<forall>b\<in>set bufs. b \<noteq> [] \<and> length b \<le> 1024) \<and>
     (if cl then \<exists>m. last = [m] \<and> is_end dir socketId m else last = []))"

lemma pumped_chunk:
  assumes "pumped dir i bs cl msgs" and "b \<noteq> []" and "length b \<le> 1024"
  shows "pumped dir i (b @ bs) cl (chunk dir i b # msgs)"
proof -
  obtain bufs last where "msgs = map (chunk dir i) bufs @ last" "concat bufs = bs"
      "\<forall>b\<in>set bufs. b \<noteq> [] \<and> length b \<le> 1024" "if cl then \<exists>m. last = [m] \<and> is_end dir i m else last = []"
    using assms(1) by (auto simp: pumped_def)
  then show ?thesis
    using assms(2,3) unfolding pumped_def by (intro exI [of _ "b # bufs"] exI [of _ last]) auto
qed

lemma Unix_read_ev:
  assumes "Unix_read h fd n w = (Ok rd, w')"
  shows "(fst rd = -1 \<and> snd rd = [] \<or> fst rd = int (length (snd rd)) \<and> length (snd rd) \<le> n) \<and>
     sends fd [] w w' \<and> receives fd (snd rd) w w'"
  using postD [OF Unix_read_result assms] snn_sends [OF Unix_read_keeps(4) assms]
  by (auto simp: read_result_def)

lemma quiet_ev:
  "Unix_hasData fd w = (q, w1) \<Longrightarrow> sends f [] w w1 \<and> receives f [] w w1"
  "Unix_close h fd w = (r, w2) \<Longrightarrow> sends f [] w w2 \<and> receives f [] w w2"
  unfolding Unix_hasData_def
  by (auto intro: snn_sends [OF waitForData_keeps(4)] rnn_receives [OF waitForData_keeps(5)]
      snn_sends [OF Unix_close_keeps(3)] rnn_receives [OF Unix_close_keeps(4)])

lemma pump_cases:
  assumes "pump h fd dir i out w = (Ok (cl, out'), w')"
  obtains (quiet) "\<not> cl" "out' = out" "sends fd [] w w'" "receives fd [] w w'"
  | (ended) m where "cl" "out' = out @ [m]" "is_end dir i m" "sends fd [] w w'" "receives fd [] w w'"
  | (more) b w1 w2 where "Unix_hasData fd w = (Ok True, w1)" "Unix_read h fd 1024 w1 = (Ok (int (length b), b), w2)" "b \<noteq> []"
      "length b \<le> 1024" "sends fd [] w w2" "receives fd b w w2"
      "pump h fd dir i (out @ [chunk dir i b]) w2 = (Ok (cl, out'), w')"
proof -
  let ?rest = "\<lambda>rd w2. if fst rd = -1 \<and> (errno_now w2 = EAGAIN \<or> errno_now w2 = EWOULDBLOCK) then (Ok (False, out), w2)
         else if fst rd = -1 then
           bnd (Unix_close h fd) (\<lambda>_. ret (True, out @ [(data_of dir i)\<lparr>pwd_error := Some (strerror (errno_now w2))\<rparr>])) w2
         else if fst rd = 0 then
           bnd (Unix_close h fd) (\<lambda>_. ret (True, out @ [(data_of dir i)\<lparr>pwd_closed := Some True\<rparr>])) w2
         else pump h fd dir i (out @ [(data_of dir i)\<lparr>pwd_buffer := Some (snd rd)\<rparr>]) w2"
  obtain m w1 where m: "Unix_hasData fd w = (Ok m, w1)"
      and r: "(if \<not> m then (Ok (False, out), w1) else bnd (Unix_read h fd 1024) ?rest w1) = (Ok (cl, out'), w')"
    using assms by (subst (asm) pump.simps) (elim bnd_eq_OkE)
  note q1 = quiet_ev(1) [OF m, of fd]
  show ?thesis
  proof (cases m)
    case False
    then show ?thesis using quiet r q1 by simp
  next
    case True
    then obtain rd w2 where rd: "Unix_read h fd 1024 w1 = (Ok rd, w2)" and rest: "?rest rd w2 = (Ok (cl, out'), w')"
      using r by (auto elim: bnd_eq_OkE)
    note q2 = Unix_read_ev [OF rd]
    have s: "sends fd [] w w2" using sends_trans q1 q2 by fastforce
    have v: "receives fd (snd rd) w w2" using receives_trans q1 q2 by fastforce
    consider (again) "fst rd = -1" "out' = out" "\<not> cl" "w' = w2"
      | (stop) m where "fst rd = -1 \<or> fst rd = 0" "Unix_close h fd w2 = (Ok (), w')" "cl" "out' = out @ [m]" "is_end dir i m"
      | (go) "fst rd \<noteq> -1" "fst rd \<noteq> 0" "pump h fd dir i (out @ [chunk dir i (snd rd)]) w2 = (Ok (cl, out'), w')"
      using rest by (auto simp: chunk_def elim!: bnd_eq_OkE split: if_splits)
    then show ?thesis
    proof cases
      case again
      then show ?thesis using quiet s v q2 by auto
    next
      case (stop m)
      then have "snd rd = []" using q2 by auto
      then show ?thesis
        using ended [OF stop(3-5)] s v quiet_ev(2) [OF stop(2), of fd] sends_trans [of fd "[]" w w2 "[]"]
          receives_trans [of fd "[]" w w2 "[]"] by auto
    next
      case go
      then have b: "rd = (int (length (snd rd)), snd rd)" "snd rd \<noteq> []" "length (snd rd) \<le> 1024"
        using q2 by (auto simp: prod_eq_iff)
      have "Unix_hasData fd w = (Ok True, w1)" and "Unix_read h fd 1024 w1 = (Ok (int (length (snd rd)), snd rd), w2)"
        using m True rd b(1) by simp_all
      from more [OF this b(2,3) s v go(3)] show ?thesis .
    qed
  qed
qed

lemma pump_spec:
  assumes "pump h fd dir i out w = (Ok (cl, out'), w')"
  shows "\<exists>msgs bs. out' = out @ msgs \<and> pumped dir i bs cl msgs \<and> receives fd bs w w' \<and> sends fd [] w w'"
  using assms
proof (induction h fd dir i out w rule: pump.induct)
  case (1 h fd dir i out w)
  from "1.prems" show ?case
  proof (cases rule: pump_cases)
    case quiet
    then show ?thesis by (intro exI [of _ "[]"]) (simp add: pumped_def)
  next
    case (ended m)
    have "pumped dir i [] cl [m]"
      unfolding pumped_def by (rule exI [of _ "[]"], rule exI [of _ "[m]"]) (simp add: ended)
    then show ?thesis using ended by blast
  next
    case (more b w1 w2)
    obtain msgs bs where r: "out' = (out @ [chunk dir i b]) @ msgs" "pumped dir i bs cl msgs" "receives fd bs w2 w'" "sends fd [] w2 w'"
      using "1.IH" [OF more(1) _ more(2)] more(3,7) unfolding chunk_def by auto
    then show ?thesis
      using pumped_chunk [OF r(2) more(3,4)] receives_trans [OF more(6) r(3)] sends_trans [OF more(5) r(4)]
      by (intro exI [of _ "chunk dir i b # msgs"] exI [of _ "b @ bs"]) simp
  qed
qed

section \<open>Delivery on the other side\<close>

text \<open>Several messages handled one after the other.\<close>

primrec handle_all :: "PortForwardData list \<Rightarrow> unit pf_prog" where
  "handle_all [] = ret ()"
| "handle_all (m # ms) = bnd (handle_data m) (\<lambda>_. handle_all ms)"

lemma handle_all_append: "handle_all (xs @ ys) = bnd (handle_all xs) (\<lambda>_. handle_all ys)"
  by (induction xs) (simp_all add: bnd_assoc)

lemma chunk_fields [simp]:
  "pwd_socketid (chunk dir i b) = Some i" "pwd_sourcetodestination (chunk dir i b) = Some dir" "pwd_closed (chunk dir i b) = None"
  "pwd_error (chunk dir i b) = None" "pwd_buffer (chunk dir i b) = Some b"
  by (simp_all add: chunk_def data_of_def)

lemma end_fields:
  "is_end dir i m \<Longrightarrow> pwd_socketid m = Some i \<and> pwd_sourcetodestination m = Some dir \<and> (pwd_closed m \<noteq> None \<or> pwd_error m \<noteq> None)"
  by (auto simp: is_end_def data_of_def)

lemma handle_chunk:
  assumes "handle_data (chunk True i b) (pf, w) = (Ok (), (pf', w'))" and "map_of (destinationHandlers pf) i = Some d"
    and "length b \<le> 1024" and "\<not> stalls w w'"
  shows "pf' = pf \<and> consumes w w' \<and> (\<exists>j. sends (fdh_fd d) (take j b) w w')"
proof -
  have w: "pf' = pf" "\<exists>n. writeAllOrReturn (fdh_socketHandler d) (fdh_fd d) b w = (Ok n, w')"
    using assms(1,2) unfolding handle_data_def bnd_get_obj
    by (auto simp: Let_def Destination_write_def elim!: bnd_eq_OkE split: prod.splits)
  then obtain n where n: "writeAllOrReturn (fdh_socketHandler d) (fdh_fd d) b w = (Ok n, w')" by blast
  have "length b < 2 ^ 31" using assms(3) by simp
  from postD [OF writeAllOrReturn_result [OF this] n] assms(4)
  have "\<exists>j. sends (fdh_fd d) (take j b) w w'" by (elim all_resultD) auto
  then show ?thesis using w(1) con.keepsD [OF writeAllOrReturn_keeps(1) n] by blast
qed

definition obj_consumes :: "'o \<times> world \<Rightarrow> 'o \<times> world \<Rightarrow> bool" where
  "obj_consumes s t \<longleftrightarrow> consumes (snd s) (snd t)"

interpretation oco: frame obj_consumes
  by unfold_locales (auto simp: obj_consumes_def intro: con.R_refl con.R_trans)

declare oco.keeps_rules [keeps_intros]

lemma oco_basic [keeps_intros]:
  "oco.keeps get_obj" "oco.keeps (mod_obj f)" "oco.keeps (outcome_prog r)" "con.keeps m \<Longrightarrow> oco.keeps (sys m)"
  by (auto simp: oco.keeps_def obj_consumes_def con.keeps_def get_obj_def mod_obj_def outcome_prog_def sys_def con.R_refl
      split: prod.splits) (metis snd_conv)

lemma handle_data_consumes [keeps_intros]: "oco.keeps (handle_data m)"
  unfolding handle_data_def closeSourceSocketId_def sendDataToSourceOnSocket_def Source_closeSocket_def sendDataOnSocket_def
    Destination_close_def Destination_write_def Let_def
  by (auto intro!: keeps_intros)

lemma handle_all_consumes [keeps_intros]: "oco.keeps (handle_all ms)"
  by (induction ms) (simp_all only: handle_all.simps, (intro keeps_intros | assumption)+)

lemma handle_split:
  assumes "handle_data m (pf, w) = (Ok (), (pf1, w1))" and "handle_all ms (pf1, w1) = (Ok (), (pf', w'))" and "\<not> stalls w w'"
  shows "\<not> stalls w w1 \<and> \<not> stalls w1 w' \<and> consumes w w1 \<and> consumes w1 w'"
  using stalls_consumes [of w w1 w'] assms(3) oco.keepsD [OF handle_data_consumes assms(1)]
    oco.keepsD [OF handle_all_consumes assms(2)] by (simp add: obj_consumes_def)

lemma handle_chunks:
  assumes "handle_all (map (chunk True i) bufs) (pf, w) = (Ok (), (pf', w'))" and "map_of (destinationHandlers pf) i = Some d"
    and "\<forall>b\<in>set bufs. length b \<le> 1024" and "\<not> stalls w w'"
  shows "pf' = pf \<and> consumes w w' \<and> (\<exists>tx. sends (fdh_fd d) tx w w' \<and> subseq tx (concat bufs))"
  using assms
proof (induction bufs arbitrary: w)
  case Nil
  then show ?case by (auto simp: sends_def con.R_refl intro!: exI [of _ "[]"])
next
  case (Cons b bufs)
  obtain pf1 w1 where b: "handle_data (chunk True i b) (pf, w) = (Ok (), (pf1, w1))"
      and r: "handle_all (map (chunk True i) bufs) (pf1, w1) = (Ok (), (pf', w'))"
    using Cons.prems(1) by (auto elim!: bnd_Ok_pairE)
  note st = handle_split [OF b r Cons.prems(4)]
  obtain j where j: "pf1 = pf" "sends (fdh_fd d) (take j b) w w1"
    using handle_chunk [OF b Cons.prems(2)] Cons.prems(3) st by auto
  obtain tx where tx: "pf' = pf" "sends (fdh_fd d) tx w1 w'" "subseq tx (concat bufs)"
    using Cons.IH [of w1] r j(1) Cons.prems(2,3) st by auto
  have "subseq (take j b @ tx) (concat (b # bufs))"
    using list_emb_append_mono [OF _ tx(3), of "take j b" b] by (simp add: prefix_imp_subseq [OF take_is_prefix])
  then show ?case using sends_trans [OF j(2) tx(2)] tx(1) st con.R_trans by blast
qed

text \<open>The message that ends a socket closes the destination and forgets it.\<close>

lemma handle_end:
  assumes "handle_data m (pf, w) = (Ok (), (pf', w'))" and "is_end True i m" and "map_of (destinationHandlers pf) i = Some d"
  shows "map_of (destinationHandlers pf') i = None \<and> sends fd [] w w'"
proof -
  have "Unix_close (fdh_socketHandler d) (fdh_fd d) w = (Ok (), w')"
      "pf' = pf\<lparr>destinationHandlers := al_erase i (destinationHandlers pf)\<rparr>"
    using assms(1,3) end_fields [OF assms(2)] unfolding handle_data_def bnd_get_obj
    by (auto simp: Let_def Destination_close_def elim!: bnd_eq_OkE split: prod.splits)
  then show ?thesis using quiet_ev(2) by auto
qed

lemma handle_pumped:
  assumes "pumped True i bs cl msgs" and "handle_all msgs (pf, w) = (Ok (), (pf', w'))"
    and "map_of (destinationHandlers pf) i = Some d" and "\<not> stalls w w'"
  shows "(\<exists>tx. sends (fdh_fd d) tx w w' \<and> subseq tx bs) \<and>
     map_of (destinationHandlers pf') i = (if cl then None else Some d)"
proof -
  obtain bufs last where m: "msgs = map (chunk True i) bufs @ last" "concat bufs = bs" "\<forall>b\<in>set bufs. length b \<le> 1024"
      and l: "if cl then \<exists>m. last = [m] \<and> is_end True i m else last = []"
    using assms(1) by (auto simp: pumped_def)
  obtain pf1 w1 where a: "handle_all (map (chunk True i) bufs) (pf, w) = (Ok (), (pf1, w1))"
      and r: "handle_all last (pf1, w1) = (Ok (), (pf', w'))"
    using assms(2) unfolding m(1) handle_all_append by (auto elim!: bnd_Ok_pairE)
  have "consumes w w1" "consumes w1 w'"
    using oco.keepsD [OF handle_all_consumes a] oco.keepsD [OF handle_all_consumes r] by (simp_all add: obj_consumes_def)
  then have "\<not> stalls w w1" using stalls_consumes assms(4) by blast
  from handle_chunks [OF a assms(3) m(3) this] m(2) obtain tx where tx: "pf1 = pf" "sends (fdh_fd d) tx w w1" "subseq tx bs" by auto
  show ?thesis
  proof (cases cl)
    case True
    then obtain e where e: "last = [e]" "is_end True i e" using l by auto
    then have "handle_data e (pf, w1) = (Ok (), (pf', w'))" using r tx(1) by (auto elim!: bnd_Ok_pairE)
    from handle_end [OF this e(2) assms(3), of "fdh_fd d"] show ?thesis
      using True tx(2,3) sends_trans [OF tx(2), of "[]" w'] by auto
  next
    case False
    then show ?thesis using l r tx assms(3) by auto
  qed
qed

section \<open>Packets\<close>

text \<open>The messages of one side as packets, handled in order by the other.\<close>

primrec deliver :: "tprotos \<Rightarrow> PortForwardData list \<Rightarrow> unit pf_prog" where
  "deliver T [] = ret ()"
| "deliver T (m # ms) = bnd (outcome_prog (protoToString (PortForwardData_codec T) m)) (\<lambda>s.
     bnd (handlePacket T (mkPacket PORT_FORWARD_DATA s)) (\<lambda>_. deliver T ms))"

lemma handlePacket_data:
  assumes "codec_ok (PortForwardData_codec T)" and "protoToString (PortForwardData_codec T) m = Ok s"
  shows "handlePacket T (mkPacket PORT_FORWARD_DATA s) = bnd (handle_data m) (\<lambda>_. ret None)"
  by (rule ext) (simp add: handlePacket_def mkPacket_def outcome_prog_def bnd_def proto_roundtrip [OF assms] split: prod.splits)

lemma deliver_handle_all:
  "codec_ok (PortForwardData_codec T) \<Longrightarrow> deliver T ms s = (Ok (), t) \<Longrightarrow> handle_all ms s = (Ok (), t)"
proof (induction ms arbitrary: s)
  case (Cons m ms)
  obtain str s1 where o: "outcome_prog (protoToString (PortForwardData_codec T) m) s = (Ok str, s1)"
      and "bnd (handlePacket T (mkPacket PORT_FORWARD_DATA str)) (\<lambda>_. deliver T ms) s1 = (Ok (), t)"
    using Cons.prems(2) unfolding deliver.simps by (rule bnd_eq_OkE)
  then have p: "protoToString (PortForwardData_codec T) m = Ok str"
      and r: "bnd (handlePacket T (mkPacket PORT_FORWARD_DATA str)) (\<lambda>_. deliver T ms) s = (Ok (), t)"
    by (simp_all add: outcome_prog_def)
  obtain u where "handle_data m s = (Ok (), u)" "deliver T ms u = (Ok (), t)"
    using r unfolding handlePacket_data [OF Cons.prems(1) p] by (auto elim!: bnd_eq_OkE)
  then show ?case using Cons.IH [OF Cons.prems(1)] by (simp add: bnd_Ok)
qed simp

section \<open>The maps of a handler\<close>

definition pf_ok :: "PortForwardHandler \<Rightarrow> bool" where
  "pf_ok pf \<longleftrightarrow> distinct (map fst (destinationHandlers pf)) \<and> distinct (map fst (socketIdSourceHandlerMap pf)) \<and>
     (\<forall>i d. (i, d) \<in> set (destinationHandlers pf) \<longrightarrow> fdh_socketId d = i \<and> fdh_fd d \<noteq> -1) \<and>
     (\<forall>i k. (i, k) \<in> set (socketIdSourceHandlerMap pf) \<longrightarrow> k < length (sourceHandlers pf))"

definition pf_frame :: "PortForwardHandler \<times> world \<Rightarrow> PortForwardHandler \<times> world \<Rightarrow> bool" where
  "pf_frame s t \<longleftrightarrow> (pf_ok (fst s) \<longrightarrow> pf_ok (fst t))"

interpretation pff: frame pf_frame
  by unfold_locales (auto simp: pf_frame_def)

declare pff.keeps_rules [keeps_intros]

lemma al_set_mem: "(j, q) \<in> set (al_set i p xs) \<Longrightarrow> j = i \<and> q = p \<or> (j, q) \<in> set xs"
  by (induction xs) (auto split: if_splits)

lemma al_erase_mem: "(i, p) \<in> set (al_erase j xs) \<longleftrightarrow> (i, p) \<in> set xs \<and> i \<noteq> j"
  by (auto simp: al_erase_def)

lemma pff_basic [keeps_intros]:
  "pff.keeps get_obj" "pff.keeps (sys m)" "pff.keeps (outcome_prog r)"
  "pff.keeps (mod_obj (\<lambda>pf. pf\<lparr>sourceHandlers := (sourceHandlers pf)[k := f]\<rparr>))"
  "pff.keeps (mod_obj (\<lambda>pf. pf\<lparr>sourceHandlers := sourceHandlers pf @ [f]\<rparr>))"
  "pff.keeps (mod_obj (\<lambda>pf. pf\<lparr>destinationHandlers := al_erase i (destinationHandlers pf)\<rparr>))"
  "pff.keeps (mod_obj (\<lambda>pf. pf\<lparr>sourceHandlers := (sourceHandlers pf)[k := f],
     socketIdSourceHandlerMap := al_erase i (socketIdSourceHandlerMap pf)\<rparr>))"
  by (auto simp: pff.keeps_def pf_frame_def pf_ok_def get_obj_def sys_def outcome_prog_def mod_obj_def al_erase_mem
      intro: less_SucI split: prod.splits)

lemma pff_new_destination [keeps_intros]:
  "fd \<noteq> -1 \<Longrightarrow> pff.keeps (mod_obj (\<lambda>pf. pf\<lparr>destinationHandlers :=
     al_set i \<lparr>fdh_socketHandler = h pf, fdh_fd = fd, fdh_socketId = i\<rparr> (destinationHandlers pf)\<rparr>))"
  by (auto simp: pff.keeps_def pf_frame_def pf_ok_def mod_obj_def dest!: al_set_mem)

lemma find_unassigned_bound: "find_unassigned fs fd = Some k \<Longrightarrow> k < length fs \<and> hasUnassignedFd (fs ! k) fd"
  by (induction fs arbitrary: k) (auto split: if_splits)

lemma addSourceSocketId_keeps [keeps_intros]: "pff.keeps (addSourceSocketId i fd)"
proof (rule pff.keepsI, clarify)
  fix pf w q pf' w' assume "addSourceSocketId i fd (pf, w) = (q, (pf', w'))"
  then show "pf_frame (pf, w) (pf', w')"
    unfolding addSourceSocketId_def bnd_get_obj
    by (auto simp: pf_frame_def pf_ok_def dest!: al_set_mem find_unassigned_bound split: option.splits)
qed

lemma update_loops_keep [keeps_intros]:
  "pff.keeps (update_sources n k rs ds)" "pff.keeps (update_destinations ps ds)"
proof -
  show "pff.keeps (update_sources n k rs ds)"
    by (induction n k rs ds rule: update_sources.induct)
      (simp_all only: update_sources.simps, (intro keeps_intros | assumption | simp only: split_beta)+)
  show "pff.keeps (update_destinations ps ds)"
    by (induction ps arbitrary: ds) (simp_all only: update_destinations.simps, (intro keeps_intros | assumption)+)
qed

lemma pff_operations [keeps_intros]:
  "pff.keeps PortForward_update" "pff.keeps (createSource r n)" "pff.keeps (createDestination d)" "pff.keeps (handlePacket T p)"
proof -
  show "pff.keeps PortForward_update" unfolding PortForward_update_def by (intro keeps_intros)
  show "pff.keeps (createSource r n)" unfolding createSource_def by (intro keeps_intros)
  show c: "pff.keeps (createDestination d)" for d unfolding createDestination_def Let_def by (intro keeps_intros)
  show "pff.keeps (handlePacket T p)"
    unfolding handlePacket_def handle_data_def closeSourceFd_def closeSourceSocketId_def sendDataToSourceOnSocket_def Let_def
    by (intro keeps_intros c)
qed

section \<open>Properties\<close>

text \<open>The calls the program makes on a port forward handler.\<close>

datatype pf_call =
    PFUpdate
  | PFPacket Packet
  | PFSource PortForwardSourceRequest bool

definition pf_call_run :: "tprotos \<Rightarrow> pf_call \<Rightarrow> PortForwardHandler \<times> world \<Rightarrow> PortForwardHandler \<times> world" where
  "pf_call_run T k s = (case k of
      PFUpdate \<Rightarrow> snd (PortForward_update s)
    | PFPacket p \<Rightarrow> snd (handlePacket T p s)
    | PFSource r named \<Rightarrow> snd (createSource r named s))"

lemma pf_call_frame: "pf_frame s (pf_call_run T k s)"
  using pff_operations by (cases s; cases k) (simp_all add: pf_call_run_def pff.keeps_def)

lemma find_socket_id_fresh: "find_socket_id n i ds w = (Ok (Some j), w') \<Longrightarrow> map_of ds j = None"
proof (induction n i ds arbitrary: w rule: find_socket_id.induct)
  case (1 n i ds)
  then show ?case by (subst (asm) (2) find_socket_id.simps) (auto split: if_splits elim!: bnd_eq_OkE)
qed

definition sample_tprotos :: tprotos where
  "sample_tprotos = \<lparr>TerminalBuffer_codec = two_codec \<lparr>tb_buffer = None\<rparr> \<lparr>tb_buffer = Some ''ls''\<rparr>,
     TerminalInfo_codec = two_codec \<lparr>ti_id = None, ti_row = None, ti_column = None, ti_width = None, ti_height = None\<rparr>
       \<lparr>ti_id = Some ''t'', ti_row = Some 24, ti_column = Some 80, ti_width = None, ti_height = None\<rparr>,
     PortForwardDestinationRequest_codec = two_codec \<lparr>pfdr_destination = None, pfdr_fd = None\<rparr>
       \<lparr>pfdr_destination = Some \<lparr>ep_name = None, ep_port = Some 80\<rparr>, pfdr_fd = Some 11\<rparr>,
     PortForwardDestinationResponse_codec = two_codec \<lparr>pfdresp_clientfd = None, pfdresp_socketid = None, pfdresp_error = None\<rparr>
       \<lparr>pfdresp_clientfd = Some 11, pfdresp_socketid = Some 9, pfdresp_error = None\<rparr>,
     PortForwardData_codec = two_codec \<lparr>pwd_sourcetodestination = None, pwd_socketid = None, pwd_buffer = None, pwd_error = None,
       pwd_closed = None\<rparr> (chunk True 9 ''hi''),
     InitialPayload_codec = two_codec \<lparr>jumphost = None, reversetunnels = [], environmentvariables = []\<rparr>
       \<lparr>jumphost = Some True, reversetunnels = [], environmentvariables = []\<rparr>,
     InitialResponse_codec = two_codec \<lparr>ir_error = None\<rparr> \<lparr>ir_error = Some ''error''\<rparr>,
     TermInit_codec = two_codec \<lparr>environmentnames = [], environmentvalues = []\<rparr> \<lparr>environmentnames = [''A''], environmentvalues = [''b'']\<rparr>,
     TerminalUserInfo_codec = two_codec \<lparr>tui_id = None, tui_passkey = None, tui_uid = None, tui_gid = None, tui_fd = None\<rparr>
       \<lparr>tui_id = Some ''id'', tui_passkey = Some sample_key, tui_uid = None, tui_gid = None, tui_fd = None\<rparr>\<rparr>"

definition sample_pf :: PortForwardHandler where
  "sample_pf = (PortForwardHandler_new 0 1)\<lparr>destinationHandlers := [(9, \<lparr>fdh_socketHandler = 0, fdh_fd = 5, fdh_socketId = 9\<rparr>)]\<rparr>"

definition sample_pumped :: "(bool \<times> PortForwardData list) outcome \<times> world" where
  "sample_pumped = pump 0 5 True 9 [] (sample_world [Val 1, Val 1, Data ''hi'', Val 0])"

text \<open>A \<^verbatim>\<open>connect\<close> that gives descriptor 7.\<close>

definition dial_answers :: "answer list" where
  "dial_answers = [Val 0, Ret 2 ''a'', Val 0, Val 7, Val 0, Val 0, Val 0, Val 1, Val 0, Val 0, Val 0, Val 0,
     Val 0, Val 0, Val 0]"

definition sample_created :: "PortForwardDestinationResponse outcome \<times> PortForwardHandler \<times> world" where
  "sample_created = createDestination \<lparr>pfdr_destination = Some \<lparr>ep_name = None, ep_port = Some 80\<rparr>, pfdr_fd = Some 11\<rparr>
     (PortForwardHandler_new 0 1, sample_world (dial_answers @ [Val 9]))"

definition response_of :: "PortForwardDestinationResponse outcome \<times> 'a \<Rightarrow> PortForwardDestinationResponse" where
  "response_of p = (case fst p of Ok r \<Rightarrow> r | _ \<Rightarrow> \<lparr>pfdresp_clientfd = None, pfdresp_socketid = None, pfdresp_error = None\<rparr>)"

definition sample_delivered :: "unit outcome \<times> PortForwardHandler \<times> world" where
  "sample_delivered = deliver sample_tprotos [chunk True 9 ''hi''] (sample_pf, sample_world [Val 0, Val 0, Val 0, Val 2])"




text \<open>
  A destination is created under an id that was free. The answer names the client's descriptor;
  either it carries an error and nothing changed, or it carries the new id, under which exactly one handler
  was added.
\<close>

lemma createDestination_fresh:
  assumes "createDestination pfdr (pf, w) = (Ok response, (pf', w'))"
  shows "pfdresp_clientfd response = Some (get_or 0 (pfdr_fd pfdr)) \<and>
    (case pfdresp_socketid response of
       None \<Rightarrow> pfdresp_error response \<noteq> None \<and> pf' = pf
     | Some i \<Rightarrow> pfdresp_error response = None \<and> map_of (destinationHandlers pf) i = None \<and>
         (\<exists>h fd. fd \<noteq> -1 \<and> pf' = pf\<lparr>destinationHandlers :=
            al_set i \<lparr>fdh_socketHandler = h, fdh_fd = fd, fdh_socketId = i\<rparr> (destinationHandlers pf)\<rparr>))"
  using assms unfolding createDestination_def bnd_get_obj Let_def
  by (auto elim!: bnd_Ok_pairE dest!: find_socket_id_fresh simp: sys_def split: prod.splits if_splits option.splits)
    (rule exI, rule exI, rule conjI, assumption, rule refl)+

lemma createDestination_fresh_example:
  "pfdresp_clientfd (response_of sample_created) = Some 11 \<and> pfdresp_socketid (response_of sample_created) = Some 9 \<and>
   (\<exists>h fd. fd \<noteq> -1 \<and> destinationHandlers (fst (snd sample_created)) = [(9, \<lparr>fdh_socketHandler = h, fdh_fd = fd, fdh_socketId = 9\<rparr>)])"
proof -
  have "is_ok (fst sample_created)" "pfdresp_socketid (response_of sample_created) = Some 9" by code_simp+
  then show ?thesis
    using createDestination_fresh [of "\<lparr>pfdr_destination = Some \<lparr>ep_name = None, ep_port = Some 80\<rparr>, pfdr_fd = Some 11\<rparr>"
        "PortForwardHandler_new 0 1" "sample_world (dial_answers @ [Val 9])" "response_of sample_created"
        "fst (snd sample_created)" "snd (snd sample_created)"]
    by (auto simp: sample_created_def response_of_def PortForwardHandler_new_def prod_eq_iff is_ok_def split: outcome.splits)
qed

end
