(* ===== verification/ET_Loop.thy ===== *)
theory ET_Loop
  imports ET_Forward ET_Reconnect
begin

text \<open>
  What the event loops of the terminal programs share: \<^verbatim>\<open>select\<close>, the pair of a connection and a
  port forward handler each loop owns, and the loop that reads every packet a connection has.
\<close>

section \<open>select\<close>

text \<open>
  \<^verbatim>\<open>select\<close> for reading and the \<^verbatim>\<open>FD_ISSET\<close> tests after it: the descriptors that test true. The loops
  ignore the result of \<^verbatim>\<open>select\<close>; a failed call leaves the set as it was built.
\<close>

primrec isset_each :: "int list \<Rightarrow> (world, int list) prog" where
  "isset_each [] = ret []"
| "isset_each (fd # fds) = bnd syscall (\<lambda>a. bnd (isset_each fds) (\<lambda>r.
     ret (case a of Ret n _ \<Rightarrow> (if 0 < n then fd # r else r) | Err _ \<Rightarrow> r)))"

definition sys_select :: "int list \<Rightarrow> (world, int list) prog" where
  "sys_select fds = bnd syscall (\<lambda>a. case a of
      Err _ \<Rightarrow> ret fds
    | Ret n _ \<Rightarrow> if n \<le> 0 then ret [] else isset_each fds)"

lemma isset_each_subset: "isset_each fds w = (Ok r, w') \<Longrightarrow> set r \<subseteq> set fds"
  by (induction fds arbitrary: w r) (fastforce elim!: bnd_eq_OkE split: answer.splits if_splits)+

lemma sys_select_subset: "sys_select fds w = (Ok r, w') \<Longrightarrow> set r \<subseteq> set fds"
  unfolding sys_select_def
  by (auto elim!: bnd_eq_OkE dest!: isset_each_subset split: answer.splits if_splits)

lemma isset_each_keeps [keeps_intros]: "sle.keeps (isset_each fds)"
  by (induction fds) (simp_all only: isset_each.simps, (intro keeps_intros | assumption)+)

lemma sys_select_keeps [keeps_intros]: "sle.keeps (sys_select fds)"
  unfolding sys_select_def by (auto intro!: keeps_intros)

text \<open>A flag that another thread sets, read under its mutex.\<close>

definition read_flag :: "(world, bool) prog" where
  "read_flag = bnd syscall (\<lambda>a. case a of Ret n _ \<Rightarrow> ret (n \<noteq> 0) | Err _ \<Rightarrow> ret False)"

lemma read_flag_keeps [keeps_intros]: "sle.keeps read_flag"
  unfolding read_flag_def by (auto intro!: keeps_intros)

section \<open>A connection with its port forwards\<close>

record Endpoint =
  en_conn :: Connection
  en_pf :: PortForwardHandler

type_synonym 'a en_prog = "(Endpoint \<times> world, 'a) prog"

definition on_con :: "'a conn_prog \<Rightarrow> 'a en_prog" where
  "on_con m s = (case m (en_conn (fst s), snd s) of (x, (c, w)) \<Rightarrow> (x, ((fst s)\<lparr>en_conn := c\<rparr>, w)))"

definition on_pfh :: "'a pf_prog \<Rightarrow> 'a en_prog" where
  "on_pfh m s = (case m (en_pf (fst s), snd s) of (x, (p, w)) \<Rightarrow> (x, ((fst s)\<lparr>en_pf := p\<rparr>, w)))"

text \<open>\<^verbatim>\<open>writePacket(Packet(type, protoToString(message)))\<close>, once and for every message of a list.\<close>

definition send_proto :: "sodium \<Rightarrow> 'm codec \<Rightarrow> 8 word \<Rightarrow> 'm \<Rightarrow> unit en_prog" where
  "send_proto na C h m = bnd (outcome_prog (protoToString C m)) (\<lambda>s.
     on_con (Connection_writePacket na (mkPacket h s)))"

primrec send_each :: "sodium \<Rightarrow> 'm codec \<Rightarrow> 8 word \<Rightarrow> 'm list \<Rightarrow> unit en_prog" where
  "send_each na C h [] = ret ()"
| "send_each na C h (m # ms) = bnd (send_proto na C h m) (\<lambda>_. send_each na C h ms)"

text \<open>\<^verbatim>\<open>portForwardHandler->update\<close> and the packets for what it reports.\<close>

definition forward_updates :: "sodium \<Rightarrow> tprotos \<Rightarrow> bool en_prog" where
  "forward_updates na T = bnd (on_pfh PortForward_update) (\<lambda>(requests, dataToSend).
     bnd (send_each na (PortForwardDestinationRequest_codec T) PORT_FORWARD_DESTINATION_REQUEST requests) (\<lambda>_.
     bnd (send_each na (PortForwardData_codec T) PORT_FORWARD_DATA dataToSend) (\<lambda>_.
     ret (requests \<noteq> [] \<or> dataToSend \<noteq> []))))"

definition is_forward_packet :: "Packet \<Rightarrow> bool" where
  "is_forward_packet p \<longleftrightarrow> header p = PORT_FORWARD_DATA \<or> header p = PORT_FORWARD_DESTINATION_REQUEST \<or>
     header p = PORT_FORWARD_DESTINATION_RESPONSE"

definition forward_packet :: "sodium \<Rightarrow> tprotos \<Rightarrow> Packet \<Rightarrow> unit en_prog" where
  "forward_packet na T p = bnd (on_pfh (handlePacket T p)) (\<lambda>r.
     case r of None \<Rightarrow> ret () | Some q \<Rightarrow> on_con (Connection_writePacket na q))"

section \<open>The weight of what is left to read\<close>

text \<open>
  A packet comes from the socket, with an answer of the system, or from the packets recovered
  earlier: the loops over \<^verbatim>\<open>hasData\<close> end because the sum of the two shrinks.
\<close>

definition reader_weight :: "BackedReader \<times> world \<Rightarrow> nat" where
  "reader_weight s = length (localBuffer (fst s)) + length (script (snd s))"

definition conn_weight :: "Connection \<times> world \<Rightarrow> nat" where
  "conn_weight s = (case reader (fst s) of None \<Rightarrow> 0 | Some r \<Rightarrow> length (localBuffer r)) + length (script (snd s))"

definition en_weight :: "Endpoint \<times> world \<Rightarrow> nat" where
  "en_weight s = conn_weight (en_conn (fst s), snd s)"

definition no_heavier :: "('s \<Rightarrow> nat) \<Rightarrow> 's \<Rightarrow> 's \<Rightarrow> bool" where
  "no_heavier f s t \<longleftrightarrow> f t \<le> f s"

interpretation rwt: frame "no_heavier reader_weight"
  by unfold_locales (auto simp: no_heavier_def)

interpretation cwt: frame "no_heavier conn_weight"
  by unfold_locales (auto simp: no_heavier_def)

interpretation ewt: frame "no_heavier en_weight"
  by unfold_locales (auto simp: no_heavier_def)

declare rwt.keeps_rules [keeps_intros] cwt.keeps_rules [keeps_intros] ewt.keeps_rules [keeps_intros]

lemma sle_length: "sle.keeps m \<Longrightarrow> m w = (r, w') \<Longrightarrow> length (script w') \<le> length (script w)"
  using sle.keepsD by (fastforce simp: script_le_def)

lemma rwt_basic [keeps_intros]:
  "rwt.keeps get_obj" "rwt.keeps (outcome_prog x)" "sle.keeps m \<Longrightarrow> rwt.keeps (sys m)"
  "(\<And>r. length (localBuffer (f r)) \<le> length (localBuffer r)) \<Longrightarrow> rwt.keeps (mod_obj f)"
  "(\<And>p r. localBuffer (put p r) = localBuffer r) \<Longrightarrow> rwt.keeps (sub gt put k)"
  by (auto simp: rwt.keeps_def no_heavier_def reader_weight_def get_obj_def outcome_prog_def sys_def mod_obj_def sub_def
      dest: sle_length split: prod.splits)

lemma rwt_reader [keeps_intros]: "rwt.keeps (BackedReader_read na)" "rwt.keeps BackedReader_hasData"
  unfolding BackedReader_read_def br_read_body_def br_fill_def constructPartialMessage_def br_decrypt_def
    BackedReader_hasData_def Let_def Unix_hasData_def
  by (auto intro!: keeps_intros)

lemma cwt_basic [keeps_intros]:
  "cwt.keeps get_obj" "cwt.keeps (outcome_prog x)" "sle.keeps m \<Longrightarrow> cwt.keeps (sys m)"
  "(\<And>c. reader (g c) = reader c) \<Longrightarrow> cwt.keeps (mod_obj g)"
  "cwt.keeps (mod_obj (\<lambda>c. c\<lparr>reader := map_option BackedReader_invalidateSocket (reader c),
     writer := map_option BackedWriter_invalidateSocket (writer c), c_socketFd := -1\<rparr>))"
  by (auto simp: cwt.keeps_def no_heavier_def conn_weight_def get_obj_def outcome_prog_def sys_def mod_obj_def
      BackedReader_invalidateSocket_def dest: sle_length split: prod.splits option.splits)

lemma on_reader_weight [keeps_intros]:
  assumes "rwt.keeps m"
  shows "cwt.keeps (on_reader m)"
proof (rule cwt.keepsI, clarify)
  fix c w q c' w' assume run: "on_reader m (c, w) = (q, (c', w'))"
  show "no_heavier conn_weight (c, w) (c', w')"
  proof (cases "reader c")
    case None
    then show ?thesis using run by (simp add: on_reader_def no_heavier_def)
  next
    case (Some r)
    then obtain r' where m: "m (r, w) = (q, (r', w'))" "c' = c\<lparr>reader := Some r'\<rparr>"
      using run by (auto simp: on_reader_def split: prod.splits)
    then show ?thesis
      using rwt.keepsD [OF assms m(1)] Some by (simp add: no_heavier_def conn_weight_def reader_weight_def)
  qed
qed

lemma on_writer_weight [keeps_intros]:
  assumes "osle.keeps m"
  shows "cwt.keeps (on_writer m)"
proof (rule cwt.keepsI, clarify)
  fix c w q c' w' assume run: "on_writer m (c, w) = (q, (c', w'))"
  show "no_heavier conn_weight (c, w) (c', w')"
  proof (cases "writer c")
    case None
    then show ?thesis using run by (simp add: on_writer_def no_heavier_def)
  next
    case (Some b)
    then obtain b' where m: "m (b, w) = (q, (b', w'))" "c' = c\<lparr>writer := Some b'\<rparr>"
      using run by (auto simp: on_writer_def split: prod.splits)
    then show ?thesis
      using osle.keepsD [OF assms m(1)] by (simp add: no_heavier_def conn_weight_def obj_script_le_def script_le_def)
  qed
qed

lemma cwt_splits [keeps_intros]:
  "cwt.keeps a \<Longrightarrow> cwt.keeps b \<Longrightarrow> cwt.keeps d \<Longrightarrow> cwt.keeps (case t of NoThread \<Rightarrow> a | Running \<Rightarrow> b | Finished \<Rightarrow> d)"
  "cwt.keeps e1 \<Longrightarrow> cwt.keeps e2 \<Longrightarrow> cwt.keeps e3 \<Longrightarrow> cwt.keeps e4 \<Longrightarrow>
     cwt.keeps (case st of SKIPPED \<Rightarrow> e1 | BUFFERED_ONLY \<Rightarrow> e2 | SUCCESS \<Rightarrow> e3 | WROTE_WITH_FAILURE \<Rightarrow> e4)"
  by (cases t, simp_all) (cases st, simp_all)

lemma cwt_methods [keeps_intros]:
  "cwt.keeps (Connection_readPacket na)" "cwt.keeps (Connection_read na)" "cwt.keeps (Connection_writePacket na p)"
  "cwt.keeps Connection_hasData" "cwt.keeps Connection_closeSocket" "cwt.keeps closeSocketAndMaybeReconnect"
  unfolding Connection_readPacket_def Connection_writePacket_def Connection_hasData_def
    Connection_read_def Connection_write_def closeSocketAndMaybeReconnect_def
    Client_closeSocketAndMaybeReconnect_def waitReconnect_def Connection_closeSocket_def
  by (auto intro!: keeps_intros)

lemma ewt_basic [keeps_intros]:
  "ewt.keeps (outcome_prog x)" "ewt.keeps get_obj" "sle.keeps m \<Longrightarrow> ewt.keeps (sys m)" "cwt.keeps m1 \<Longrightarrow> ewt.keeps (on_con m1)"
  "osle.keeps m2 \<Longrightarrow> ewt.keeps (on_pfh m2)"
proof -
  show "ewt.keeps (on_con m1)" if k: "cwt.keeps m1" for m1 :: "'z conn_prog"
  proof (rule ewt.keepsI, clarify)
    fix e w q e' w' assume "on_con m1 (e, w) = (q, (e', w'))"
    then obtain c where "m1 (en_conn e, w) = (q, (c, w'))" "e' = e\<lparr>en_conn := c\<rparr>"
      by (auto simp: on_con_def split: prod.splits)
    then show "no_heavier en_weight (e, w) (e', w')"
      using cwt.keepsD [OF k] by (fastforce simp: no_heavier_def en_weight_def)
  qed
  show "ewt.keeps (on_pfh m2)" if k: "osle.keeps m2" for m2 :: "'y pf_prog"
  proof (rule ewt.keepsI, clarify)
    fix e w q e' w' assume "on_pfh m2 (e, w) = (q, (e', w'))"
    then obtain p where "m2 (en_pf e, w) = (q, (p, w'))" "e' = e\<lparr>en_pf := p\<rparr>"
      by (auto simp: on_pfh_def split: prod.splits)
    then show "no_heavier en_weight (e, w) (e', w')"
      using osle.keepsD [OF k] by (fastforce simp: no_heavier_def en_weight_def conn_weight_def obj_script_le_def script_le_def)
  qed
qed (auto simp: ewt.keeps_def no_heavier_def en_weight_def conn_weight_def outcome_prog_def get_obj_def sys_def dest: sle_length split: prod.splits)

section \<open>Programs step by step\<close>

lemma bnd_sys_cases:
  assumes "bnd (sys m) f (ob, w) = (q, t)"
  obtains (val) x w1 where "m w = (Ok x, w1)" and "f x (ob, w1) = (q, t)"
  | (bad) p w1 where "m w = (p, w1)" and "\<not> is_ok p" and "q = lift_bad p" and "t = (ob, w1)"
  using assms by (cases "m w"; cases "fst (m w)") (auto simp: sys_def bnd_def is_ok_def)

lemma bnd_outcome:
  "bnd (outcome_prog x) f s = (case x of Ok v \<Rightarrow> f v s | _ \<Rightarrow> (lift_bad x, s))"
  by (cases x) (simp_all add: bnd_def outcome_prog_def)

lemma bnd_mod: "bnd (mod_obj g) f (ob, w) = f () (g ob, w)"
  by (simp add: bnd_def mod_obj_def)

section \<open>Loops that wait\<close>

text \<open>A program that does not return, or throw, without using up an answer.\<close>

definition uses :: "('o \<times> world, 'a) prog \<Rightarrow> bool" where
  "uses m \<longleftrightarrow> (\<forall>s r t. m s = (r, t) \<longrightarrow> (\<exists>x. r = Ok x) \<or> (\<exists>e. r = Throw e) \<longrightarrow> length (script (snd t)) < length (script (snd s)))"

lemma uses_bnd:
  assumes "uses m" and "\<And>x. osle.keeps (f x)"
  shows "uses (bnd m f)"
  unfolding uses_def
proof (intro allI impI)
  fix s r t assume run: "bnd m f s = (r, t)" and r: "(\<exists>x. r = Ok x) \<or> (\<exists>e. r = Throw e)"
  from run show "length (script (snd t)) < length (script (snd s))"
  proof (cases rule: bnd_cases)
    case (val x u)
    have "length (script (snd u)) < length (script (snd s))" using assms(1) val(1) unfolding uses_def by blast
    moreover have "length (script (snd t)) \<le> length (script (snd u))"
      using osle.keepsD [OF assms(2) val(2)] by (simp add: obj_script_le_def script_le_def)
    ultimately show ?thesis by simp
  next
    case (bad q)
    then obtain e where "q = Throw e" using r by (cases q) auto
    then show ?thesis using assms(1) bad(1) unfolding uses_def by blast
  qed
qed

lemma uses_catch:
  assumes "uses m" and "\<And>e. osle.keeps (h e)"
  shows "uses (catch_runtime m h)"
  unfolding uses_def
proof (intro allI impI)
  fix s r t assume run: "catch_runtime m h s = (r, t)" and r: "(\<exists>x. r = Ok x) \<or> (\<exists>e. r = Throw e)"
  obtain q u where m: "m s = (q, u)" by (cases "m s") auto
  show "length (script (snd t)) < length (script (snd s))"
  proof (cases "\<exists>e. q = Throw (RuntimeError e)")
    case True
    then obtain e where e: "q = Throw (RuntimeError e)" by blast
    then have "h e u = (r, t)" using run m by (simp add: catch_runtime_def)
    from osle.keepsD [OF assms(2) this] have "length (script (snd t)) \<le> length (script (snd u))"
      by (simp add: obj_script_le_def script_le_def)
    moreover have "length (script (snd u)) < length (script (snd s))" using assms(1) m e unfolding uses_def by blast
    ultimately show ?thesis by simp
  next
    case False
    then have "q = r" "u = t" using run m by (auto simp: catch_runtime_def split: outcome.splits exn.splits)
    then show ?thesis using assms(1) m r unfolding uses_def by blast
  qed
qed

lemma uses_calls: "uses (sys (select_isset fd))" "uses (sys (Unix_accept h fd))" "uses (sys (sys_select fds))"
proof -
  show "uses (sys (select_isset fd))"
    by (auto simp: uses_def sys_def select_isset_def bnd_def syscall_def split: prod.splits list.splits answer.splits)
  show "uses (sys (sys_select fds))"
    unfolding uses_def sys_def sys_select_def
    by (auto simp: bnd_def syscall_def dest!: sle_length [OF isset_each_keeps] split: prod.splits list.splits answer.splits if_splits)
  have "sle.keeps (bnd GetErrno (\<lambda>e. bnd (the_handler h) (\<lambda>hd. if n \<in> activeSockets hd then fail Blocked
       else if n \<ge> 0 then bnd (addToActiveSockets h n) (\<lambda>_. bnd (initSocket h n) (\<lambda>_. ret n))
       else if isTransientAcceptError e then bnd (SetErrno e) (\<lambda>_. ret (-1)) else fail (Abort ''accept''))))" for n
    by (auto intro!: keeps_intros)
  note rest = sle_length [OF this]
  have "length (script w') < length (script w)"
    if run: "Unix_accept h fd w = (r, w')" and r: "(\<exists>x. r = Ok x) \<or> (\<exists>e. r = Throw e)" for w r w'
    using run unfolding Unix_accept_def
  proof (cases rule: bnd_cases)
    case (val n u)
    then show ?thesis using script_shrinks(4) [OF val(1)] rest [OF val(2)] by simp
  next
    case (bad q)
    then show ?thesis using r by (cases q) (auto simp: sys_open_def bnd_def kernel_defs split: list.splits answer.splits if_splits)
  qed
  then show "uses (sys (Unix_accept h fd))" by (auto simp: uses_def sys_def split: prod.splits)
qed

lemma uses_get: "(\<And>x. uses (f x)) \<Longrightarrow> uses (bnd get_obj f)"
  unfolding uses_def by (auto simp: bnd_get_obj)

end
