(* ===== verification/ET_Tunnel.thy ===== *)
theory ET_Tunnel
  imports ET_Messages
begin

text \<open>
  Command line arguments: the tunnels of \<^verbatim>\<open>base/TunnelUtils.cpp\<close> and the host string of
  \<^verbatim>\<open>terminal/HostParsing.hpp\<close>. The lemmas give the round trips: an argument printed from what it
  means is parsed to just that. The parser's vector of requests is the state of its programs.
\<close>

section \<open>TunnelUtils\<close>

text \<open>
  \<^verbatim>\<open>v[i]\<close> of a \<^verbatim>\<open>std::vector\<close>: reading past the end is undefined in C++; the model stops there.
\<close>

definition vec_at :: "'a list \<Rightarrow> nat \<Rightarrow> 'a outcome" where
  "vec_at xs i = (if i < length xs then Ok (xs ! i) else Abort ''undefined: vector index'')"

type_synonym 'a pfsrs_prog = "(PortForwardSourceRequest list, 'a) prog"

definition push_back :: "PortForwardSourceRequest \<Rightarrow> unit pfsrs_prog" where
  "push_back r pfsrs = (Ok (), pfsrs @ [r])"

definition isSocketPath :: "string \<Rightarrow> bool" where
  "isSocketPath s \<longleftrightarrow> s \<noteq> [] \<and> hd s = CHR ''/''"

text \<open>The single quote of the messages.\<close>

definition quote :: string where
  "quote = [CHR 0x27]"

definition portChars :: string where
  "portChars = ''0123456789-''"

definition port_endpoint :: "int \<Rightarrow> SocketEndpoint" where
  "port_endpoint p = \<lparr>ep_name = None, ep_port = Some p\<rparr>"

definition name_endpoint :: "string \<Rightarrow> SocketEndpoint" where
  "name_endpoint s = \<lparr>ep_name = Some s, ep_port = None\<rparr>"

definition local_endpoint :: "string \<Rightarrow> int \<Rightarrow> SocketEndpoint" where
  "local_endpoint s p = \<lparr>ep_name = Some s, ep_port = Some p\<rparr>"

definition request_for :: "SocketEndpoint \<Rightarrow> SocketEndpoint \<Rightarrow> PortForwardSourceRequest" where
  "request_for s d = \<lparr>pfsr_source = Some s, pfsr_destination = Some d, pfsr_environmentvariable = None\<rparr>"

definition env_request :: "string \<Rightarrow> SocketEndpoint \<Rightarrow> PortForwardSourceRequest" where
  "env_request v d = \<lparr>pfsr_source = None, pfsr_destination = Some d, pfsr_environmentvariable = Some v\<rparr>"

text \<open>The first branch: a socket path on either side.\<close>

definition socket_arg :: "string \<Rightarrow> string \<Rightarrow> unit pfsrs_prog" where
  "socket_arg src dst =
     bnd (if isSocketPath src then ret (name_endpoint src)
          else bnd (outcome_prog (stoi src)) (\<lambda>p. ret (local_endpoint ''localhost'' p))) (\<lambda>s.
     bnd (if isSocketPath dst then ret (name_endpoint dst)
          else bnd (outcome_prog (stoi dst)) (\<lambda>p. ret (port_endpoint p))) (\<lambda>d.
     push_back (request_for s d)))"

text \<open>The branch for ranges, with the loop over \<^verbatim>\<open>portRangeLength\<close>.\<close>

definition range_requests :: "int \<Rightarrow> int \<Rightarrow> int \<Rightarrow> PortForwardSourceRequest list" where
  "range_requests s d len = map (\<lambda>i. request_for (local_endpoint ''localhost'' (s + int i)) (port_endpoint (d + int i))) [0..<nat len]"

definition range_arg :: "string \<Rightarrow> string \<Rightarrow> unit pfsrs_prog" where
  "range_arg src dst =
     (let sourcePortRange = split src CHR ''-''; destinationPortRange = split dst CHR ''-'' in
      bnd (outcome_prog (vec_at sourcePortRange 0)) (\<lambda>s0. bnd (outcome_prog (stoi s0)) (\<lambda>sourcePortStart.
      bnd (outcome_prog (vec_at sourcePortRange 1)) (\<lambda>s1. bnd (outcome_prog (stoi s1)) (\<lambda>sourcePortEnd.
      bnd (outcome_prog (vec_at destinationPortRange 0)) (\<lambda>d0. bnd (outcome_prog (stoi d0)) (\<lambda>destinationPortStart.
      bnd (outcome_prog (vec_at destinationPortRange 1)) (\<lambda>d1. bnd (outcome_prog (stoi d1)) (\<lambda>destinationPortEnd.
      if to_int32 (sourcePortEnd - sourcePortStart) \<noteq> to_int32 (destinationPortEnd - destinationPortStart)
      then fail (Throw (TunnelParseException ''source/destination port range must have same length''))
      else (\<lambda>pfsrs. (Ok (), pfsrs @ range_requests sourcePortStart destinationPortStart
                       (to_int32 (sourcePortEnd - sourcePortStart + 1)))))))))))))"

definition tunnel_branches :: "string \<Rightarrow> string \<Rightarrow> unit pfsrs_prog" where
  "tunnel_branches src dst =
     (let srcIsSocket = isSocketPath src; srcIsNumeric = only_chars portChars src; dstIsSocket = isSocketPath dst in
      if srcIsSocket \<or> (dstIsSocket \<and> srcIsNumeric) then socket_arg src dst
      else if \<not> only_chars portChars src \<and> \<not> only_chars portChars dst
      then push_back (env_request src (name_endpoint dst))
      else if str_find CHR ''-'' src \<noteq> None \<and> str_find CHR ''-'' dst \<noteq> None then range_arg src dst
      else if str_find CHR ''-'' src \<noteq> None \<or> str_find CHR ''-'' dst \<noteq> None
      then fail (Throw (TunnelParseException
        ''Invalid port range syntax: if source is a range, destination must be a range (and vice versa)''))
      else bnd (outcome_prog (stoi src)) (\<lambda>p. bnd (outcome_prog (stoi dst)) (\<lambda>q.
        push_back (request_for (local_endpoint ''localhost'' p) (port_endpoint q)))))"

text \<open>The handler of \<^verbatim>\<open>std::logic_error\<close>; \<^verbatim>\<open>what()\<close> of both errors of \<^verbatim>\<open>stoi\<close> is the function's name.\<close>

definition catch_logic :: "('s, 'a) prog \<Rightarrow> (string \<Rightarrow> ('s, 'a) prog) \<Rightarrow> ('s, 'a) prog" where
  "catch_logic m h s = (case m s of (Throw e, t) \<Rightarrow> (if is_logic_error e then h ''stoi'' t else (Throw e, t)) | r \<Rightarrow> r)"

definition processEtStyleTunnelArg :: "string list \<Rightarrow> string \<Rightarrow> unit pfsrs_prog" where
  "processEtStyleTunnelArg sourceDestination input =
     (if length sourceDestination < 2
      then fail (Throw (TunnelParseException (''Tunnel argument must have source and destination between a '' @ quote @ '':'' @ quote)))
      else catch_logic (tunnel_branches (sourceDestination ! 0) (sourceDestination ! 1))
        (\<lambda>what. fail (Throw (TunnelParseException (''Invalid tunnel argument '' @ quote @ input @ quote @ '': '' @ what)))))"

fun ssh_parts :: "string \<Rightarrow> bool \<Rightarrow> string \<Rightarrow> string list \<Rightarrow> string list" where
  "ssh_parts [] inBrackets currentPart sshArgParts = sshArgParts @ [currentPart]"
| "ssh_parts (c # cs) inBrackets currentPart sshArgParts =
     (if c = CHR ''['' then ssh_parts cs True currentPart sshArgParts
      else if c = CHR '']'' then ssh_parts cs False currentPart sshArgParts
      else if c = CHR '':'' \<and> \<not> inBrackets then ssh_parts cs inBrackets [] (sshArgParts @ [currentPart])
      else ssh_parts cs inBrackets (currentPart @ [c]) sshArgParts)"

definition parseSshTunnelArg :: "string \<Rightarrow> string list outcome" where
  "parseSshTunnelArg input =
     (let sshArgParts = ssh_parts input False [] [] in
      if length sshArgParts < 4 then Throw (TunnelParseException
        ''The 4 part ssh-style tunneling arg (bind_address:port:host:hostport) must be supplied.'')
      else if 4 < length sshArgParts then Throw (TunnelParseException
        ''Ipv6 addresses must be inside of square brackets, ie [::1]:8080:[::]:9090'')
      else Ok sshArgParts)"

primrec et_style_each :: "string list \<Rightarrow> string \<Rightarrow> unit pfsrs_prog" where
  "et_style_each [] input = ret ()"
| "et_style_each (element # es) input =
     bnd (processEtStyleTunnelArg (split element CHR '':'') input) (\<lambda>_. et_style_each es input)"

definition ssh_style :: "string \<Rightarrow> unit pfsrs_prog" where
  "ssh_style tunnelArg = bnd (outcome_prog (parseSshTunnelArg tunnelArg)) (\<lambda>p.
     bnd (outcome_prog (stoi (p ! 1))) (\<lambda>sport. bnd (outcome_prog (stoi (p ! 3))) (\<lambda>dport.
     push_back (request_for (local_endpoint (p ! 0) sport) (local_endpoint (p ! 2) dport)))))"

definition parseRangesToRequests :: "string \<Rightarrow> PortForwardSourceRequest list outcome" where
  "parseRangesToRequests input =
     (let splitByComma = split input CHR '','';
          body = (if 1 < length splitByComma then et_style_each splitByComma input
                  else bnd (outcome_prog (vec_at splitByComma 0)) (\<lambda>tunnelArg.
                    let sourceDestination = split tunnelArg CHR '':'' in
                    if length sourceDestination \<le> 2 then processEtStyleTunnelArg sourceDestination input
                    else ssh_style tunnelArg))
      in case body [] of (Ok _, pfsrs) \<Rightarrow> Ok pfsrs | (r, _) \<Rightarrow> lift_bad r)"

section \<open>HostParsing\<close>

record ParsedHostString =
  hs_user :: string
  hs_host :: string
  hs_portSuffix :: string

definition parse_host_port :: "string \<Rightarrow> string \<times> string" where
  "parse_host_port remaining =
     (if remaining \<noteq> [] \<and> hd remaining = CHR ''[''
      then (case str_find CHR '']'' remaining of
          None \<Rightarrow> (remaining, [])
        | Some closeBracket \<Rightarrow> (take (closeBracket + 1) remaining,
            if closeBracket + 1 < length remaining \<and> remaining ! (closeBracket + 1) = CHR '':''
            then drop (closeBracket + 1) remaining else []))
      else (case str_find CHR '':'' remaining of
          None \<Rightarrow> (remaining, [])
        | Some colonIndex \<Rightarrow> (take colonIndex remaining, drop colonIndex remaining)))"

definition parseHostString :: "string \<Rightarrow> ParsedHostString" where
  "parseHostString hostString =
     (let (user, remaining) = (case str_find CHR ''@'' hostString of
            None \<Rightarrow> ([], hostString)
          | Some atIndex \<Rightarrow> (take atIndex hostString, drop (atIndex + 1) hostString));
          (host, portSuffix) = parse_host_port remaining
      in \<lparr>hs_user = user, hs_host = host, hs_portSuffix = portSuffix\<rparr>)"

section \<open>Printing a tunnel and reading it back\<close>

text \<open>What an argument of the command line can ask for, how it is written, and the requests it stands for.\<close>

datatype tunnel_arg =
    Ports int int
  | PortRange int int nat
  | PathToPath string string
  | PortToPath int string
  | PathToPort string int
  | EnvToPath string string

fun show_source :: "tunnel_arg \<Rightarrow> string" where
  "show_source (Ports p q) = decimal p"
| "show_source (PortRange p q n) = decimal p @ CHR ''-'' # decimal (p + int n)"
| "show_source (PathToPath s d) = s"
| "show_source (PortToPath p d) = decimal p"
| "show_source (PathToPort s q) = s"
| "show_source (EnvToPath v d) = v"

fun show_destination :: "tunnel_arg \<Rightarrow> string" where
  "show_destination (Ports p q) = decimal q"
| "show_destination (PortRange p q n) = decimal q @ CHR ''-'' # decimal (q + int n)"
| "show_destination (PathToPath s d) = d"
| "show_destination (PortToPath p d) = d"
| "show_destination (PathToPort s q) = decimal q"
| "show_destination (EnvToPath v d) = d"

definition show_tunnel :: "tunnel_arg \<Rightarrow> string" where
  "show_tunnel t = show_source t @ CHR '':'' # show_destination t"

fun show_tunnels :: "tunnel_arg list \<Rightarrow> string" where
  "show_tunnels [] = []"
| "show_tunnels [t] = show_tunnel t"
| "show_tunnels (t # ts) = show_tunnel t @ CHR '','' # show_tunnels ts"

fun tunnel_requests :: "tunnel_arg \<Rightarrow> PortForwardSourceRequest list" where
  "tunnel_requests (Ports p q) = [request_for (local_endpoint ''localhost'' p) (port_endpoint q)]"
| "tunnel_requests (PortRange p q n) =
     map (\<lambda>i. request_for (local_endpoint ''localhost'' (p + int i)) (port_endpoint (q + int i))) [0..<Suc n]"
| "tunnel_requests (PathToPath s d) = [request_for (name_endpoint s) (name_endpoint d)]"
| "tunnel_requests (PortToPath p d) = [request_for (local_endpoint ''localhost'' p) (name_endpoint d)]"
| "tunnel_requests (PathToPort s q) = [request_for (name_endpoint s) (port_endpoint q)]"
| "tunnel_requests (EnvToPath v d) = [env_request v (name_endpoint d)]"

definition plain :: "string \<Rightarrow> bool" where
  "plain s \<longleftrightarrow> CHR '':'' \<notin> set s \<and> CHR '','' \<notin> set s"

definition wf_port :: "int \<Rightarrow> bool" where
  "wf_port p \<longleftrightarrow> 0 \<le> p \<and> p < 2 ^ 31"

fun wf_tunnel :: "tunnel_arg \<Rightarrow> bool" where
  "wf_tunnel (Ports p q) = (wf_port p \<and> wf_port q)"
| "wf_tunnel (PortRange p q n) = (wf_port p \<and> wf_port q \<and> wf_port (p + int n) \<and> wf_port (q + int n) \<and> int n < 2 ^ 31 - 1)"
| "wf_tunnel (PathToPath s d) = (isSocketPath s \<and> plain s \<and> isSocketPath d \<and> plain d)"
| "wf_tunnel (PortToPath p d) = (wf_port p \<and> isSocketPath d \<and> plain d)"
| "wf_tunnel (PathToPort s q) = (isSocketPath s \<and> plain s \<and> wf_port q)"
| "wf_tunnel (EnvToPath v d) = (\<not> isSocketPath v \<and> \<not> only_chars portChars v \<and> plain v \<and> \<not> only_chars portChars d \<and> plain d)"

lemma decimal_port:
  assumes "wf_port p"
  shows decimal_stoi: "stoi (decimal p) = Ok p"
    and decimal_notin: "\<not> is_digit c \<Longrightarrow> c \<notin> set (decimal p)"
    and decimal_nonempty: "decimal p \<noteq> []"
    and decimal_only: "only_chars portChars (decimal p)"
proof -
  show "stoi (decimal p) = Ok p" using assms by (intro stoi_decimal) (auto simp: wf_port_def)
  have d: "decimal p = nat_dec (nat p)" using assms by (simp add: decimal_def wf_port_def)
  show "\<not> is_digit c \<Longrightarrow> c \<notin> set (decimal p)" "decimal p \<noteq> []"
    using nat_dec_digits by (auto simp: d)
  have "c \<in> set portChars" if "is_digit c" for c
  proof -
    obtain n :: nat where n: "n = of_char c" by blast
    then have c: "c = char_of n" by simp
    have "n = 48 \<or> n = 49 \<or> n = 50 \<or> n = 51 \<or> n = 52 \<or> n = 53 \<or> n = 54 \<or> n = 55 \<or> n = 56 \<or> n = 57"
      using that n by (simp add: is_digit_def) arith
    then show ?thesis unfolding c by (elim disjE) (simp_all add: portChars_def char_of_eq_iff)
  qed
  then show "only_chars portChars (decimal p)"
    using nat_dec_digits by (auto simp: only_chars_def d)
qed

lemma separators [simp]:
  "\<not> is_digit CHR '':''" "\<not> is_digit CHR '',''" "\<not> is_digit CHR ''-''" "\<not> is_digit CHR ''/''"
  by (simp_all add: is_digit_def)

lemma show_plain:
  assumes "wf_tunnel t"
  shows "plain (show_source t)" and "plain (show_destination t)" and "show_destination t \<noteq> []"
proof -
  have port: "plain (decimal p)" "decimal p \<noteq> []" if "wf_port p" for p
    using that by (simp_all add: plain_def decimal_notin decimal_nonempty)
  have range: "plain (a @ CHR ''-'' # b) \<longleftrightarrow> plain a \<and> plain b" for a b by (auto simp: plain_def)
  show "plain (show_source t)" "plain (show_destination t)" "show_destination t \<noteq> []"
    using assms port by (cases t; simp add: range; auto simp: isSocketPath_def only_chars_def)+
qed

lemma split_two: "d \<notin> set a \<Longrightarrow> d \<notin> set b \<Longrightarrow> b \<noteq> [] \<Longrightarrow> split (a @ d # b) d = [a, b]"
  by (simp add: split_Cons split_none)

lemma split_show: "wf_tunnel t \<Longrightarrow> split (show_tunnel t) CHR '':'' = [show_source t, show_destination t]"
  using show_plain by (simp add: show_tunnel_def split_two plain_def)

lemma port_not_path: "wf_port p \<Longrightarrow> \<not> isSocketPath (decimal p)"
  using decimal_notin [of p "CHR ''/''"] by (cases "decimal p") (auto simp: isSocketPath_def)

lemma path_not_port: "isSocketPath s \<Longrightarrow> \<not> only_chars portChars s"
  by (cases s) (auto simp: isSocketPath_def only_chars_def portChars_def)

lemma range_only: "wf_port p \<Longrightarrow> wf_port q \<Longrightarrow> only_chars portChars (decimal p @ CHR ''-'' # decimal q)"
proof -
  assume "wf_port p" "wf_port q"
  moreover have "CHR ''-'' \<in> set portChars" by (simp add: portChars_def)
  ultimately show ?thesis using decimal_only [of p] decimal_only [of q] by (auto simp: only_chars_def)
qed

lemma range_not_path: "wf_port p \<Longrightarrow> \<not> isSocketPath (decimal p @ CHR ''-'' # x)"
  using port_not_path [of p] by (cases "decimal p") (auto simp: isSocketPath_def)

lemma catch_logic_Ok: "m s = (Ok x, t) \<Longrightarrow> catch_logic m h s = (Ok x, t)"
  by (simp add: catch_logic_def)

lemma range_arg_show:
  assumes "wf_tunnel (PortRange p q n)"
  shows "range_arg (decimal p @ CHR ''-'' # decimal (p + int n)) (decimal q @ CHR ''-'' # decimal (q + int n)) pfsrs
     = (Ok (), pfsrs @ tunnel_requests (PortRange p q n))"
proof -
  have w: "wf_port p" "wf_port q" "wf_port (p + int n)" "wf_port (q + int n)" and n: "int n < 2 ^ 31 - 1"
    using assms by auto
  have "to_int32 (int n) = int n" "to_int32 (int n + 1) = int n + 1"
    using n by (simp_all add: to_int32_id)
  then show ?thesis
    using w by (simp add: range_arg_def Let_def split_two decimal_notin decimal_nonempty vec_at_def outcome_prog_def
        bnd_def decimal_stoi range_requests_def nat_add_distrib)
qed

lemma tunnel_branches_show:
  assumes "wf_tunnel t"
  shows "tunnel_branches (show_source t) (show_destination t) pfsrs = (Ok (), pfsrs @ tunnel_requests t)"
proof (cases t)
  case (PortRange p q n)
  then have w: "wf_port p" "wf_port q" "wf_port (p + int n)" "wf_port (q + int n)" using assms by auto
  then have "str_find CHR ''-'' (decimal p @ CHR ''-'' # y) \<noteq> None" "str_find CHR ''-'' (decimal q @ CHR ''-'' # y) \<noteq> None" for y
    by (simp_all add: str_find_append decimal_notin)
  then show ?thesis
    using w PortRange assms range_arg_show [of p q n]
    by (simp add: tunnel_branches_def Let_def range_not_path range_only)
qed (use assms in \<open>auto simp: tunnel_branches_def Let_def port_not_path path_not_port decimal_only str_find_None_iff
    decimal_notin decimal_stoi outcome_prog_def bnd_def push_back_def socket_arg_def\<close>)

lemma process_show:
  assumes "wf_tunnel t"
  shows "processEtStyleTunnelArg (split (show_tunnel t) CHR '':'') input pfsrs = (Ok (), pfsrs @ tunnel_requests t)"
  using assms by (simp add: processEtStyleTunnelArg_def split_show catch_logic_Ok tunnel_branches_show)

lemma show_tunnel_plain: "wf_tunnel t \<Longrightarrow> CHR '','' \<notin> set (show_tunnel t)" "show_tunnel t \<noteq> []"
  using show_plain [of t] by (auto simp: show_tunnel_def plain_def)

lemma split_show_tunnels:
  assumes "\<forall>t\<in>set ts. wf_tunnel t"
  shows "split (show_tunnels ts) CHR '','' = map show_tunnel ts"
  using assms
proof (induction ts rule: show_tunnels.induct)
  case 1
  then show ?case by (simp add: split_def)
next
  case (2 t)
  then show ?case by (simp add: split_none show_tunnel_plain)
next
  case (3 t u ts)
  then show ?case by (simp add: split_Cons show_tunnel_plain)
qed

lemma et_style_show:
  assumes "\<forall>t\<in>set ts. wf_tunnel t"
  shows "et_style_each (map show_tunnel ts) input pfsrs = (Ok (), pfsrs @ concat (map tunnel_requests ts))"
  using assms by (induction ts arbitrary: pfsrs) (simp_all add: bnd_def process_show)

text \<open>
  C32: a list of tunnels, written one after the other with commas (a port to a port, a range of ports
  to a range, socket paths on either side, an environment variable to a path), is parsed to
  exactly the requests it stands for, in order.\<close>

theorem parseRangesToRequests_show:
  assumes "ts \<noteq> []" and "\<forall>t\<in>set ts. wf_tunnel t"
  shows "parseRangesToRequests (show_tunnels ts) = Ok (concat (map tunnel_requests ts))"
proof (cases "length ts = 1")
  case True
  then obtain t where t: "ts = [t]" by (auto simp: length_Suc_conv)
  then have "split (show_tunnels ts) CHR '','' = [show_tunnel t]" using split_show_tunnels [OF assms(2)] by simp
  moreover have "length (split (show_tunnel t) CHR '':'') \<le> 2" using split_show [of t] assms(2) t by simp
  ultimately show ?thesis
    using process_show [of t] assms(2) t by (simp add: parseRangesToRequests_def vec_at_def outcome_prog_def bnd_def)
next
  case False
  then have "1 < length ts" using assms(1) by (cases ts) auto
  then show ?thesis
    using et_style_show [OF assms(2)] by (simp add: parseRangesToRequests_def split_show_tunnels [OF assms(2)])
qed

theorem parseRangesToRequests_show_witness:
  "parseRangesToRequests (show_tunnels [Ports 8080 80, PortRange 10 20 2, EnvToPath ''SOCK'' ''/tmp/s''])
     = Ok (concat (map tunnel_requests [Ports 8080 80, PortRange 10 20 2, EnvToPath ''SOCK'' ''/tmp/s'']))"
  using parseRangesToRequests_show [of "[Ports 8080 80, PortRange 10 20 2, EnvToPath ''SOCK'' ''/tmp/s'']"]
  by (simp add: wf_port_def plain_def isSocketPath_def only_chars_def portChars_def)

section \<open>Errors\<close>

text \<open>What a branch may throw: errors of \<^verbatim>\<open>stoi\<close> and the parser's own exception.\<close>

definition only_parse_errors :: "('s, 'a) prog \<Rightarrow> bool" where
  "only_parse_errors m \<longleftrightarrow> (\<forall>s e t. m s = (Throw e, t) \<longrightarrow> is_logic_error e \<or> (\<exists>msg. e = TunnelParseException msg))"

lemma ope_structure:
  "only_parse_errors (ret x)" "only_parse_errors (fail (Throw (TunnelParseException msg)))" "only_parse_errors (push_back r)"
  "only_parse_errors (outcome_prog (stoi a))" "only_parse_errors (outcome_prog (vec_at xs i))"
  "only_parse_errors (outcome_prog (parseSshTunnelArg a))" "only_parse_errors (\<lambda>p. (Ok (), p @ rs))"
  by (auto simp: only_parse_errors_def push_back_def outcome_prog_def stoi_def vec_at_def parseSshTunnelArg_def
      is_logic_error_def Let_def split: if_splits)

lemma ope_bnd:
  assumes "only_parse_errors m" and "\<And>x. only_parse_errors (f x)"
  shows "only_parse_errors (bnd m f)"
  unfolding only_parse_errors_def
proof (intro allI impI)
  fix s e t assume "bnd m f s = (Throw e, t)"
  then show "is_logic_error e \<or> (\<exists>msg. e = TunnelParseException msg)"
  proof (cases rule: bnd_cases)
    case (val x u)
    then show ?thesis using assms(2) unfolding only_parse_errors_def by blast
  next
    case (bad q)
    then have "q = Throw e" by (cases q) auto
    then show ?thesis using assms(1) bad unfolding only_parse_errors_def by blast
  qed
qed

lemma ope_if: "only_parse_errors m \<Longrightarrow> only_parse_errors n \<Longrightarrow> only_parse_errors (if b then m else n)"
  by simp

lemmas ope_rules = ope_structure ope_bnd ope_if

lemma tunnel_branches_ope: "only_parse_errors (tunnel_branches a b)"
  unfolding tunnel_branches_def socket_arg_def range_arg_def Let_def by (intro ope_rules)

lemma ssh_style_ope: "only_parse_errors (ssh_style a)"
  unfolding ssh_style_def by (intro ope_rules)

lemma process_throws:
  assumes "processEtStyleTunnelArg sd input s = (Throw e, t)"
  shows "\<exists>msg. e = TunnelParseException msg"
  using assms tunnel_branches_ope [of "sd ! 0" "sd ! 1"]
  by (auto simp: processEtStyleTunnelArg_def catch_logic_def only_parse_errors_def split: if_splits prod.splits outcome.splits)

lemma et_style_throws: "et_style_each es input s = (Throw e, t) \<Longrightarrow> \<exists>msg. e = TunnelParseException msg"
proof (induction es arbitrary: s)
  case (Cons el es)
  then have "bnd (processEtStyleTunnelArg (split el CHR '':'') input) (\<lambda>_. et_style_each es input) s = (Throw e, t)" by simp
  then show ?case
  proof (cases rule: bnd_cases)
    case (val x u)
    then show ?thesis using Cons.IH by blast
  next
    case (bad q)
    then have "q = Throw e" by (cases q) auto
    then show ?thesis using bad process_throws by blast
  qed
qed simp

text \<open>
  which exceptions a tunnel argument can raise. A list, and an argument of at most one colon,
  fail with \<^verbatim>\<open>TunnelParseException\<close> only; the errors of \<^verbatim>\<open>stoi\<close> get out for an ssh-style argument, whose
  ports are converted outside of the \<^verbatim>\<open>try\<close> block. The header promises \<^verbatim>\<open>TunnelParseException\<close> for both.\<close>

lemma parse_exceptions:
  assumes "parseRangesToRequests input = Throw e"
  shows "(\<exists>msg. e = TunnelParseException msg) \<or>
     (is_logic_error e \<and> length (split input CHR '','') = 1 \<and> 2 < length (split (split input CHR '','' ! 0) CHR '':''))"
proof (cases "1 < length (split input CHR '','')")
  case True
  then obtain t where "et_style_each (split input CHR '','') input [] = (Throw e, t)"
    using assms by (auto simp: parseRangesToRequests_def Let_def split: prod.splits outcome.splits)
  then show ?thesis using et_style_throws by blast
next
  case False
  show ?thesis
  proof (cases "split input CHR '',''")
    case Nil
    then show ?thesis using assms by (simp add: parseRangesToRequests_def vec_at_def outcome_prog_def bnd_def)
  next
    case (Cons arg rest)
    then have one: "split input CHR '','' = [arg]" using False by simp
    let ?m = "if length (split arg CHR '':'') \<le> 2 then processEtStyleTunnelArg (split arg CHR '':'') input else ssh_style arg"
    obtain r t where m: "?m [] = (r, t)" by fastforce
    then have "r = Throw e"
      using assms one by (cases r) (auto simp: parseRangesToRequests_def vec_at_def outcome_prog_def bnd_def Let_def split: if_splits)
    then have "is_logic_error e \<or> (\<exists>msg. e = TunnelParseException msg)" if "2 < length (split arg CHR '':'')"
      using that m ssh_style_ope [of arg] unfolding only_parse_errors_def by (metis leD)
    then show ?thesis
      using m one \<open>r = Throw e\<close> process_throws by (cases "2 < length (split arg CHR '':'')") auto
  qed
qed

section \<open>Host strings\<close>

definition bracketed :: "string \<Rightarrow> bool" where
  "bracketed h \<longleftrightarrow> (\<exists>a. h = CHR ''['' # a @ [CHR '']''] \<and> CHR '']'' \<notin> set a)"

definition wf_host :: "string \<Rightarrow> bool" where
  "wf_host h \<longleftrightarrow> (bracketed h \<or> h \<noteq> [] \<and> hd h \<noteq> CHR ''['' \<and> CHR '':'' \<notin> set h) \<and> CHR ''@'' \<notin> set h"

definition wf_suffix :: "string \<Rightarrow> bool" where
  "wf_suffix p \<longleftrightarrow> p = [] \<or> (hd p = CHR '':'' \<and> CHR ''@'' \<notin> set p)"

definition show_host :: "ParsedHostString \<Rightarrow> string" where
  "show_host r = (if hs_user r = [] then [] else hs_user r @ ''@'') @ hs_host r @ hs_portSuffix r"

lemma parse_host_port_show:
  assumes "wf_host h" and "wf_suffix p"
  shows "parse_host_port (h @ p) = (h, p)"
proof (cases "bracketed h")
  case True
  then obtain a where a: "h = CHR ''['' # a @ [CHR '']'']" "CHR '']'' \<notin> set a" by (auto simp: bracketed_def)
  then have "str_find CHR '']'' (h @ p) = Some (Suc (length a))" by (simp add: str_find_append)
  then show ?thesis using a assms(2) by (cases p) (auto simp: parse_host_port_def wf_suffix_def nth_append)
next
  case False
  then have h: "h \<noteq> []" "hd h \<noteq> CHR ''[''" "CHR '':'' \<notin> set h" using assms(1) by (auto simp: wf_host_def)
  show ?thesis
  proof (cases p)
    case Nil
    then show ?thesis using h by (simp add: parse_host_port_def str_find_None_iff [THEN iffD2])
  next
    case (Cons c q)
    then show ?thesis using h assms(2) by (simp add: parse_host_port_def wf_suffix_def str_find_append)
  qed
qed

text \<open>
  A user, a host (a name, or an IPv6 address in brackets) and a port suffix, joined to
  \<^verbatim>\<open>[user@]host[:port]\<close>, are taken apart again by \<^verbatim>\<open>parseHostString\<close>.\<close>

lemma parseHostString_show:
  assumes "CHR ''@'' \<notin> set (hs_user r)" and "wf_host (hs_host r)" and "wf_suffix (hs_portSuffix r)"
  shows "parseHostString (show_host r) = r"
proof -
  have hp: "parse_host_port (hs_host r @ hs_portSuffix r) = (hs_host r, hs_portSuffix r)"
    using assms by (simp add: parse_host_port_show)
  have "CHR ''@'' \<notin> set (hs_host r @ hs_portSuffix r)" using assms by (auto simp: wf_host_def wf_suffix_def)
  then show ?thesis
    using hp assms(1) by (cases "hs_user r = []")
      (simp_all add: parseHostString_def show_host_def str_find_None_iff [THEN iffD2] str_find_append)
qed

lemma parseHostString_show_example:
  "parseHostString (show_host \<lparr>hs_user = ''root'', hs_host = ''[::1]'', hs_portSuffix = '':22''\<rparr>)
     = \<lparr>hs_user = ''root'', hs_host = ''[::1]'', hs_portSuffix = '':22''\<rparr>"
proof (rule parseHostString_show)
  have "bracketed ''[::1]''" unfolding bracketed_def by (rule exI [of _ "''::1''"]) simp
  then show "wf_host (hs_host \<lparr>hs_user = ''root'', hs_host = ''[::1]'', hs_portSuffix = '':22''\<rparr>)"
    by (simp add: wf_host_def)
qed (simp_all add: wf_suffix_def)

end
