(* ===== verification/ET_Router.thy ===== *)
theory ET_Router
  imports ET_Server ET_Loop ET_Tunnel
begin

text \<open>
  The registration of terminals with the server, from \<^verbatim>\<open>terminal/UserTerminalRouter.cpp\<close>, and the state and
  main loop of \<^verbatim>\<open>terminal/TerminalServer.cpp\<close>. The class extends \<^verbatim>\<open>ServerConnection\<close>: its record extends that
  record, and its \<^verbatim>\<open>newClient\<close> is the callback the base class leaves open.
\<close>

section \<open>UserTerminalRouter\<close>

record UserTerminalRouter =
  utr_serverFd :: int
  idInfoMap :: "(string \<times> TerminalUserInfo) list"
  utr_socketHandler :: nat

type_synonym 'a utr_prog = "(UserTerminalRouter \<times> world, 'a) prog"

definition UserTerminalRouter_new :: "nat \<Rightarrow> SocketEndpoint \<Rightarrow> (world, UserTerminalRouter) prog" where
  "UserTerminalRouter_new h ep = bnd (sh_listen h ep) (\<lambda>fds.
     bnd (outcome_prog (vec_at fds 0)) (\<lambda>fd.
     bnd (FATAL_FAIL sys_int) (\<lambda>_. bnd (FATAL_FAIL sys_int) (\<lambda>_.
     ret \<lparr>utr_serverFd = fd, idInfoMap = [], utr_socketHandler = h\<rparr>))))"

text \<open>\<^verbatim>\<open>IdKeyPair\<close>: two empty texts mean that nothing came.\<close>

definition no_pair :: "string \<times> string" where
  "no_pair = ([], [])"

definition register_terminal :: "tprotos \<Rightarrow> int \<Rightarrow> (string \<times> string) utr_prog" where
  "register_terminal T terminalFd = bnd get_obj (\<lambda>u.
     bnd (sys (readPacket (utr_socketHandler u) terminalFd)) (\<lambda>packet. case packet of
       None \<Rightarrow> fail (Abort ''Missing user info packet'')
     | Some p \<Rightarrow>
         if header p \<noteq> TERMINAL_USER_INFO then fail (Abort ''Got an invalid packet header'')
         else bnd (outcome_prog (stringToProto (TerminalUserInfo_codec T) (payload p))) (\<lambda>tui0.
           let tui = tui0\<lparr>tui_fd := Some terminalFd\<rparr>; i = get_or [] (tui_id tui) in
           if map_of (idInfoMap u) i \<noteq> None then
             bnd (sys (Unix_close (utr_socketHandler u) terminalFd)) (\<lambda>_. ret no_pair)
           else bnd (mod_obj (\<lambda>u. u\<lparr>idInfoMap := al_set i tui (idInfoMap u)\<rparr>)) (\<lambda>_.
             ret (i, get_or [] (tui_passkey tui))))))"

definition router_acceptNewConnection :: "tprotos \<Rightarrow> (string \<times> string) utr_prog" where
  "router_acceptNewConnection T = bnd get_obj (\<lambda>u.
     bnd (sys (Unix_accept (utr_socketHandler u) (utr_serverFd u))) (\<lambda>terminalFd.
     bnd (sys GetErrno) (\<lambda>e.
     if terminalFd < 0 then
       (if e \<noteq> EAGAIN \<and> e \<noteq> EWOULDBLOCK then fail (Abort ''Error'') else ret no_pair)
     else catch_runtime (register_terminal T terminalFd)
       (\<lambda>_. bnd (sys (Unix_close (utr_socketHandler u) terminalFd)) (\<lambda>_. ret no_pair)))))"

definition tryGetInfoForConnection :: "UserTerminalRouter \<Rightarrow> Connection \<Rightarrow> TerminalUserInfo option outcome" where
  "tryGetInfoForConnection u c = (case map_of (idInfoMap u) (c_id c) of
      None \<Rightarrow> Abort '' Tried to read from an id that no longer exists''
    | Some tui \<Rightarrow> Ok (if verifyPasskey c (get_or [] (tui_passkey tui)) then Some tui else None))"

section \<open>TerminalServer\<close>

record TerminalServer = ServerConnection +
  terminalRouter :: UserTerminalRouter
  terminalThreads :: "nat list"
  halt :: bool
  routerEndpoint :: SocketEndpoint

type_synonym 'a ts_prog = "(TerminalServer \<times> world, 'a) prog"

definition TerminalServer_new :: "nat \<Rightarrow> SocketEndpoint \<Rightarrow> nat \<Rightarrow> SocketEndpoint \<Rightarrow> (world, TerminalServer) prog" where
  "TerminalServer_new h ep ph rep = bnd (ServerConnection_new h ep) (\<lambda>sv.
     bnd (UserTerminalRouter_new ph rep) (\<lambda>u.
     ret (ServerConnection.extend sv (TerminalServer.fields u [] False rep))))"

definition on_router :: "'a utr_prog \<Rightarrow> 'a ts_prog" where
  "on_router m s = (case m (terminalRouter (fst s), snd s) of (r, (u, w)) \<Rightarrow> (r, ((fst s)\<lparr>terminalRouter := u\<rparr>, w)))"

text \<open>\<^verbatim>\<open>newClient\<close> starts a thread for the connection; its work is in the theory of the sessions.\<close>

definition TerminalServer_newClient :: "nat \<Rightarrow> bool ts_prog" where
  "TerminalServer_newClient p = bnd (mod_obj (\<lambda>s. s\<lparr>terminalThreads := terminalThreads s @ [p]\<rparr>)) (\<lambda>_. ret True)"

definition TerminalServer_shutdown :: "unit ts_prog" where
  "TerminalServer_shutdown = mod_obj (\<lambda>s. s\<lparr>halt := True\<rparr>)"

definition accept_terminal :: "tprotos \<Rightarrow> unit ts_prog" where
  "accept_terminal T = bnd (on_router (router_acceptNewConnection T)) (\<lambda>p.
     if fst p \<noteq> [] then addClientKey (fst p) (snd p) else ret ())"

primrec accept_each :: "int list \<Rightarrow> int list \<Rightarrow> unit ts_prog" where
  "accept_each rfds [] = ret ()"
| "accept_each rfds (i # is) = bnd (if i \<in> set rfds then bnd (acceptNewConnection i) (\<lambda>_. ret ()) else ret ()) (\<lambda>_.
     accept_each rfds is)"

definition FD_SETSIZE :: nat where "FD_SETSIZE = 1024"

text \<open>A round of \<^verbatim>\<open>run\<close>; \<open>serverPortFds\<close> is computed before the loop.\<close>

definition TerminalServer_round :: "tprotos \<Rightarrow> int list \<Rightarrow> unit ts_prog" where
  "TerminalServer_round T serverPortFds = bnd get_obj (\<lambda>s.
     let fds = serverPortFds @ [utr_serverFd (terminalRouter s)] in
     if length fds > FD_SETSIZE then fail (Abort ''Tried to select() on too many FDs'')
     else bnd (sys syscall) (\<lambda>a. case a of
         Err e \<Rightarrow> if e = EINTR then ret () else fail (Abort ''Error'')
       | Ret n _ \<Rightarrow> if n \<le> 0 then ret ()
           else bnd (sys (isset_each fds)) (\<lambda>rfds.
             bnd (accept_each rfds serverPortFds) (\<lambda>_.
             if utr_serverFd (terminalRouter s) \<in> set rfds then accept_terminal T else ret ()))))"

text \<open>Joining a thread waits until it is done.\<close>

primrec join_each :: "nat list \<Rightarrow> unit ts_prog" where
  "join_each [] = ret ()"
| "join_each (t # ts) = bnd (sys sys_int) (\<lambda>_. join_each ts)"

lemma register_keeps [keeps_intros]: "osle.keeps (register_terminal T fd)" "osle.keeps (router_acceptNewConnection T)"
proof -
  show r: "osle.keeps (register_terminal T fd)" for fd
    unfolding register_terminal_def Let_def by (auto intro!: keeps_intros split: option.split)
  show "osle.keeps (router_acceptNewConnection T)"
    unfolding router_acceptNewConnection_def by (auto intro!: keeps_intros r)
qed

lemma on_router_keeps [keeps_intros]: "osle.keeps m \<Longrightarrow> osle.keeps (on_router m)"
proof (rule osle.keepsI, clarify)
  fix s w r s' w' assume k: "osle.keeps m" and run: "on_router m (s, w) = (r, (s', w'))"
  show "obj_script_le (s, w) (s', w')"
    using run osle.keepsD [OF k] by (fastforce simp: on_router_def obj_script_le_def script_le_def split: prod.splits)
qed

lemma accept_keeps [keeps_intros]: "osle.keeps (acceptNewConnection i)" "osle.keeps (accept_terminal T)" "osle.keeps (accept_each rfds is)"
proof -
  show a: "osle.keeps (acceptNewConnection i)" for i
    unfolding acceptNewConnection_def by (auto intro!: keeps_intros split: option.split)
  show "osle.keeps (accept_terminal T)" unfolding accept_terminal_def addClientKey_def by (auto intro!: keeps_intros)
  show "osle.keeps (accept_each rfds is)"
    by (induction "is") (simp_all only: accept_each.simps, (intro keeps_intros a | assumption)+)
qed

lemma uses_syscall: "uses (sys syscall)"
  by (auto simp: uses_def sys_def syscall_def split: list.splits)

lemma uses_if: "uses m \<Longrightarrow> uses n \<Longrightarrow> uses (if b then m else n)"
  by simp

lemma uses_stop: "uses (fail (Abort x))"
  by (simp add: uses_def)

lemma TerminalServer_round_uses: "uses (TerminalServer_round T fds)"
  unfolding TerminalServer_round_def Let_def
  by (intro uses_get uses_if uses_stop uses_bnd uses_syscall) (auto intro!: keeps_intros)

function TerminalServer_loop :: "tprotos \<Rightarrow> int list \<Rightarrow> unit ts_prog" where
  "TerminalServer_loop T fds s =
     (if halt (fst s) then (Ok (), s)
      else bnd (TerminalServer_round T fds) (\<lambda>_ s1. TerminalServer_loop T fds s1) s)"
  by pat_completeness auto
termination
  using TerminalServer_round_uses unfolding uses_def
  by (relation "measure (\<lambda>(T, fds, s). length (script (snd s)))") fastforce+

declare TerminalServer_loop.simps [simp del]

definition TerminalServer_run :: "tprotos \<Rightarrow> unit ts_prog" where
  "TerminalServer_run T = bnd get_obj (\<lambda>s.
     bnd (sys (sh_getEndpointFds (sc_socketHandler s) (serverEndpoint s))) (\<lambda>serverPortFds.
     bnd (TerminalServer_loop T serverPortFds) (\<lambda>_.
     bnd TerminalServer_shutdown (\<lambda>_.
     bnd (mod_obj (\<lambda>s. s\<lparr>halt := True\<rparr>)) (\<lambda>_.
     bnd get_obj (\<lambda>s. join_each (terminalThreads s)))))))"

section \<open>The callback\<close>

interpretation ts: new_client_callback TerminalServer_newClient
  by unfold_locales (auto simp: TerminalServer_newClient_def bnd_def)

end
