(* ===== verification/ET_Terminal.thy ===== *)
theory ET_Terminal
  imports ET_Router
begin

text \<open>
  The threads of \<^verbatim>\<open>terminal/TerminalServer.cpp\<close>: \<^verbatim>\<open>handleConnection\<close>, \<^verbatim>\<open>runTerminal\<close> and \<^verbatim>\<open>runJumpHost\<close>. A thread works
  on the connection object of its client, which handlers of the base class change as well when the
  client comes back, so that a thread is cut into segments: the wait for the first packet, the
  start of a session, and a round of its loop. The lemmas show that every session finds the
  terminal its client was registered with, and what a session passes on.
\<close>

section \<open>A round of runTerminal\<close>

text \<open>How a round ends: the loop goes on, or \<^verbatim>\<open>run\<close> is over.\<close>

definition TS_BUF_SIZE :: nat where "TS_BUF_SIZE = 16 * 1024"

definition terminal_buffer :: "string \<Rightarrow> TerminalBuffer" where
  "terminal_buffer s = \<lparr>tb_buffer = Some s\<rparr>"

text \<open>Output of the terminal. \<open>None\<close>: the round goes on; \<open>Some b\<close>: it ends, and \<open>b\<close> says whether the loop does not.\<close>

definition terminal_output :: "sodium \<Rightarrow> tprotos \<Rightarrow> int \<Rightarrow> bool option en_prog" where
  "terminal_output na T terminalFd = bnd (sys (sys_read terminalFd TS_BUF_SIZE)) (\<lambda>rd.
     if fst rd > 0 then bnd (send_proto na (TerminalBuffer_codec T) TERMINAL_BUFFER (terminal_buffer (snd rd))) (\<lambda>_. ret None)
     else if fst rd = 0 then ret (Some False)
     else bnd (sys GetErrno) (\<lambda>e. if e = EAGAIN \<or> e = EWOULDBLOCK then bnd (sys sys_int) (\<lambda>_. ret (Some True)) else ret (Some False)))"

text \<open>A packet of the client. \<open>h\<close> is the handler of the socket to the terminal.\<close>

definition to_terminal :: "'m codec \<Rightarrow> nat \<Rightarrow> int \<Rightarrow> 8 word \<Rightarrow> Packet \<Rightarrow> unit en_prog" where
  "to_terminal C h terminalFd typ p = bnd (outcome_prog (stringToProto C (payload p))) (\<lambda>msg.
     bnd (sys (writeAllOrThrow h terminalFd [char_of_u8 typ] False)) (\<lambda>_.
     sys (writeProto C h terminalFd msg False)))"

definition terminal_packet :: "sodium \<Rightarrow> tprotos \<Rightarrow> nat \<Rightarrow> int \<Rightarrow> Packet \<Rightarrow> unit en_prog" where
  "terminal_packet na T h terminalFd p =
     (if is_forward_packet p then forward_packet na T p
      else if header p = TERMINAL_BUFFER then to_terminal (TerminalBuffer_codec T) h terminalFd TERMINAL_BUFFER p
      else if header p = KEEP_ALIVE then on_con (Connection_writePacket na (mkPacket KEEP_ALIVE []))
      else if header p = TERMINAL_INFO then to_terminal (TerminalInfo_codec T) h terminalFd TERMINAL_INFO p
      else fail (Abort (''Unknown packet type: '' @ decimal (uint (header p)))))"

section \<open>Reading every packet that is there\<close>

lemma pair_keeps [keeps_intros]: "sle.keeps (Pair x)" "osle.keeps (Pair y)"
  by (simp_all add: sle.keeps_def osle.keeps_def script_le_def obj_script_le_def)

lemma Tcp_listen_loop_keeps [keeps_intros]: "sle.keeps (Tcp_listen_loop h ps fds seen)"
  by (induction ps arbitrary: fds seen) (auto intro!: keeps_intros)

lemma sh_listen_keeps [keeps_intros]: "sle.keeps (sh_listen h ep)" "sle.keeps (sh_getEndpointFds h ep)"
  unfolding sh_listen_def Tcp_listen_def Pipe_listen_def sh_getEndpointFds_def Tcp_getEndpointFds_def Pipe_getEndpointFds_def
  by (auto intro!: keeps_intros split: handler_kind.split option.split)

lemma pump_at: "script_le w (snd (pump h fd dir i out w))"
proof (induction h fd dir i out w rule: pump.induct)
  case (1 h fd dir i out w)
  note closes = sle.keeps_bnd_at [OF Unix_close_keeps(2)]
  show ?case
  proof (subst pump.simps, rule sle.keeps_bnd_at)
    show "sle.keeps (Unix_hasData fd)" unfolding Unix_hasData_def by (rule keeps_intros)
  next
    fix more w1 assume more: "Unix_hasData fd w = (Ok more, w1)"
    show "script_le w1 (snd (if \<not> more then (Ok (False, out), w1)
       else bnd (Unix_read h fd 1024) (\<lambda>rd w2.
         if fst rd = -1 \<and> (errno_now w2 = EAGAIN \<or> errno_now w2 = EWOULDBLOCK) then (Ok (False, out), w2)
         else if fst rd = -1 then
           bnd (Unix_close h fd) (\<lambda>_. ret (True, out @ [(data_of dir i)\<lparr>pwd_error := Some (strerror (errno_now w2))\<rparr>])) w2
         else if fst rd = 0 then
           bnd (Unix_close h fd) (\<lambda>_. ret (True, out @ [(data_of dir i)\<lparr>pwd_closed := Some True\<rparr>])) w2
         else pump h fd dir i (out @ [(data_of dir i)\<lparr>pwd_buffer := Some (snd rd)\<rparr>]) w2) w1))"
      using 1 [OF more] by (auto intro!: sle.keeps_bnd_at [OF Unix_read_keeps(2)] closes sle.R_refl)
  qed
qed

lemma pump_sle [keeps_intros]: "sle.keeps (pump h fd dir i out)"
  using pump_at by (simp add: sle.keeps_def)

lemma accept_first_keeps [keeps_intros]: "sle.keeps (accept_first h fds)"
  by (induction fds) (auto intro!: keeps_intros)

lemma Source_keeps [keeps_intros]:
  "sle.keeps (Source_listen f)" "sle.keeps (Source_update_loop h ps gone dat)" "sle.keeps (Source_update f dat)"
  "sle.keeps (ForwardSourceHandler_new h src dst)" "sle.keeps (closeUnassignedFd f fd)" "sle.keeps (sendDataOnSocket f i s)"
  "sle.keeps (Source_closeSocket f i)" "sle.keeps (getActiveFds f fds)"
proof -
  show l: "sle.keeps (Source_update_loop h ps gone dat)" for h ps gone dat
    by (induction ps arbitrary: gone dat) (auto intro!: keeps_intros)
  show "sle.keeps (Source_update f dat)" unfolding Source_update_def by (auto intro!: keeps_intros l)
qed (auto simp: Source_listen_def ForwardSourceHandler_new_def closeUnassignedFd_def sendDataOnSocket_def
    Source_closeSocket_def getActiveFds_def intro!: keeps_intros split: option.split)

lemma Destination_keeps [keeps_intros]:
  "sle.keeps (Destination_update d dat)" "sle.keeps (Destination_write d s)" "sle.keeps (Destination_close d)"
  unfolding Destination_update_def Destination_write_def Destination_close_def by (auto intro!: keeps_intros)

lemma find_socket_id_keeps [keeps_intros]: "sle.keeps sys_rand" "sle.keeps (find_socket_id n i ds)"
proof -
  show r: "sle.keeps sys_rand" unfolding sys_rand_def by (auto intro!: keeps_intros split: answer.split)
  show "sle.keeps (find_socket_id n i ds)"
    by (induction n i ds rule: find_socket_id.induct) (subst find_socket_id.simps, auto intro!: keeps_intros r)
qed

lemma createSource_keeps [keeps_intros]: "sle.keeps (create_source_endpoint r n)" "osle.keeps (createSource r n)"
proof -
  show c: "sle.keeps (create_source_endpoint r n)" for n
    unfolding create_source_endpoint_def sys_mkdtemp_def by (auto intro!: keeps_intros split: option.split answer.split)
  show "osle.keeps (createSource r n)"
    unfolding createSource_def by (auto intro!: keeps_intros c)
qed

lemma PortForward_update_keeps [keeps_intros]: "osle.keeps PortForward_update"
proof -
  have s: "osle.keeps (update_sources n k rs dat)" for n k rs dat
    by (induction n k rs dat rule: update_sources.induct) (auto intro!: keeps_intros)
  have d: "osle.keeps (update_destinations ds dat)" for ds dat
    by (induction ds arbitrary: dat) (auto intro!: keeps_intros)
  show ?thesis unfolding PortForward_update_def by (auto intro!: keeps_intros s d)
qed

lemma handlePacket_keeps [keeps_intros]: "osle.keeps (handlePacket T p)"
  unfolding handlePacket_def handle_data_def createDestination_def connect_destination_def closeSourceFd_def
    addSourceSocketId_def closeSourceSocketId_def sendDataToSourceOnSocket_def Let_def
  by (auto intro!: keeps_intros split: option.split)

lemma getForwardFds_keeps [keeps_intros]: "sle.keeps (getForwardFds pf)"
proof -
  have "sle.keeps (getForwardFds_sources fs fds)" for fs fds
    by (induction fs arbitrary: fds) (auto intro!: keeps_intros)
  then show ?thesis unfolding getForwardFds_def by (auto intro!: keeps_intros)
qed

lemma forward_ewt [keeps_intros]: "ewt.keeps (forward_packet na T p)" "ewt.keeps (send_proto na C h m)"
  unfolding forward_packet_def send_proto_def by (auto intro!: keeps_intros split: option.split)

lemma terminal_packet_ewt [keeps_intros]: "ewt.keeps (terminal_packet na T h fd p)"
  unfolding terminal_packet_def to_terminal_def by (auto intro!: keeps_intros)

text \<open>A packet was announced and read: less is left to read.\<close>

lemma reader_hasData:
  assumes "BackedReader_hasData (r, w) = (Ok True, (r1, w1))"
  shows "r1 = r \<and> br_socketFd r \<ge> 0 \<and> (localBuffer r \<noteq> [] \<and> w1 = w \<or> localBuffer r = [] \<and> length (script w1) < length (script w))"
  using assms unfolding BackedReader_hasData_def Unix_hasData_def waitForData_def
  by (auto simp: bnd_get_obj elim!: bnd_eq_OkE split: if_splits prod.splits answer.splits dest!: script_shrinks)

lemma reader_read_local:
  assumes "BackedReader_read na (r, w) = (q, (r2, w2))" and "localBuffer r \<noteq> []" and "br_socketFd r \<ge> 0" and "q = Ok x"
  shows "localBuffer r2 = tl (localBuffer r) \<and> w2 = w"
  using assms unfolding BackedReader_read_def br_decrypt_def
  by (auto simp: bnd_get_obj outcome_prog_def elim!: bnd_eq_OkE split: prod.splits)

lemma reader_drain:
  assumes "BackedReader_hasData (r, w) = (Ok True, s1)" and "BackedReader_read na s1 = (Ok x, s2)"
  shows "reader_weight s2 < reader_weight (r, w)"
proof -
  obtain w1 where s1: "s1 = (r, w1)" and c: "br_socketFd r \<ge> 0"
      "localBuffer r \<noteq> [] \<and> w1 = w \<or> localBuffer r = [] \<and> length (script w1) < length (script w)"
    using assms(1) reader_hasData by (cases s1) auto
  have le: "reader_weight s2 \<le> reader_weight s1" using rwt.keepsD [OF rwt_reader(1) assms(2)] by (simp add: no_heavier_def)
  show ?thesis
  proof (cases "localBuffer r = []")
    case True
    then show ?thesis using le c s1 by (simp add: reader_weight_def)
  next
    case False
    obtain r2 w2 where s2: "s2 = (r2, w2)" by force
    have "localBuffer r2 = tl (localBuffer r)" "w2 = w1"
      using reader_read_local [OF assms(2) [unfolded s1 s2] False c(1) refl] by auto
    then show ?thesis using False c s2 by (cases "localBuffer r") (auto simp: reader_weight_def)
  qed
qed

lemma conn_drain_read:
  assumes "Connection_hasData (c, w) = (Ok True, s1)" and "Connection_read na s1 = (Ok (True, x), s2)"
  shows "conn_weight s2 < conn_weight (c, w)"
proof -
  obtain r where r: "reader c = Some r" using assms(1) by (cases "reader c") (auto simp: Connection_hasData_def bnd_get_obj)
  obtain r1 w1 where h: "BackedReader_hasData (r, w) = (Ok True, (r1, w1))" and s1: "s1 = (c\<lparr>reader := Some r1\<rparr>, w1)"
    using assms(1) r by (auto simp: Connection_hasData_def bnd_get_obj on_reader_def split: prod.splits)
  obtain res r2 w2 where br: "BackedReader_read na (r1, w1) = (Ok res, (r2, w2))"
    and rest: "(
       if fst res = -1 then
         (if isSkippableError (errno_now w2) then bnd closeSocketAndMaybeReconnect (\<lambda>_. ret (False, snd res))
          else bnd closeSocketAndMaybeReconnect (\<lambda>_. ret (False, snd res)))
       else ret (fst res > 0, snd res)) (c\<lparr>reader := Some r2\<rparr>, w2) = (Ok (True, x), s2)"
    using assms(2) s1 unfolding Connection_read_def
    by (auto simp: bnd_get_obj on_reader_def GetErrno_def elim!: bnd_eq_OkE split: prod.splits)
  have "s2 = (c\<lparr>reader := Some r2\<rparr>, w2)"
    using rest by (auto simp: GetErrno_def elim!: bnd_eq_OkE split: if_splits)
  then show ?thesis
    using reader_drain [OF h br] r by (simp add: conn_weight_def reader_weight_def)
qed

lemma conn_drain:
  assumes "Connection_hasData (c, w) = (Ok True, s1)" and "Connection_readPacket na s1 = (Ok (True, x), s2)"
  shows "conn_weight s2 < conn_weight (c, w)"
proof -
  have "Connection_read na s1 = (Ok (True, x), s2)"
    using assms(2) by (cases s1) (auto simp: Connection_readPacket_def bnd_get_obj split: if_splits)
  then show ?thesis by (rule conn_drain_read [OF assms(1)])
qed

lemma en_drain:
  assumes "on_con Connection_hasData s = (Ok True, s1)" and "on_con (Connection_readPacket na) s1 = (Ok (True, x), s2)"
  shows "en_weight s2 < en_weight s"
  using assms conn_drain [of "en_conn (fst s)" "snd s"]
  by (auto simp: on_con_def en_weight_def split: prod.splits)

function drain_packets :: "sodium \<Rightarrow> tprotos \<Rightarrow> nat \<Rightarrow> int \<Rightarrow> unit en_prog" where
  "drain_packets na T h fd s = bnd (on_con Connection_hasData) (\<lambda>more s1.
     if \<not> more then (Ok (), s1)
     else bnd (on_con (Connection_readPacket na)) (\<lambda>rd s2.
       if \<not> fst rd then (Ok (), s2)
       else case snd rd of
           None \<Rightarrow> (Ok (), s2)
         | Some p \<Rightarrow> bnd (terminal_packet na T h fd p) (\<lambda>_ s3. drain_packets na T h fd s3) s2) s1) s"
  by pat_completeness auto
termination
proof (relation "measure (\<lambda>(na, T, h, fd, s). en_weight s)", goal_cases)
  case (2 na T h fd s more s1 rd s2 p u s3)
  have "en_weight s2 < en_weight s" using en_drain 2(1,3) 2(2,4) by (metis prod.collapse)
  moreover have "en_weight s3 \<le> en_weight s2" using ewt.keepsD [OF terminal_packet_ewt 2(6)] by (simp add: no_heavier_def)
  ultimately show ?case by simp
qed simp

declare drain_packets.simps [simp del]

section \<open>The loops\<close>

text \<open>
  The descriptors a round waits for: the terminal only while the connection can take what it writes.
\<close>

definition session_fds :: "Connection \<Rightarrow> int \<Rightarrow> int list" where
  "session_fds c terminalFd = (if canBufferWrite (2 * int TS_BUF_SIZE) c then [terminalFd] else []) @
     (if c_socketFd c > 0 then [c_socketFd c] else [])"

text \<open>A round of \<^verbatim>\<open>runTerminal\<close>; the result says whether the loop goes on.\<close>

definition terminal_round :: "sodium \<Rightarrow> tprotos \<Rightarrow> nat \<Rightarrow> int \<Rightarrow> bool en_prog" where
  "terminal_round na T h terminalFd = bnd get_obj (\<lambda>e.
     let serverClientFd = c_socketFd (en_conn e) in
     bnd (sys (getForwardFds (en_pf e))) (\<lambda>pfFds.
     bnd (sys (sys_select (remdups (session_fds (en_conn e) terminalFd @ sorted_list_of_set pfFds)))) (\<lambda>rfd.
     catch_runtime
       (bnd (if terminalFd \<in> set rfd then terminal_output na T terminalFd else ret None) (\<lambda>over.
          case over of
            Some goes_on \<Rightarrow> ret goes_on
          | None \<Rightarrow>
              bnd (forward_updates na T) (\<lambda>_.
              bnd (if serverClientFd > 0 \<and> serverClientFd \<in> set rfd then drain_packets na T h terminalFd else ret ()) (\<lambda>_.
              ret True))))
       (\<lambda>_. bnd (on_con Connection_closeSocket) (\<lambda>_. ret True)))))"

text \<open>A round of \<^verbatim>\<open>runJumpHost\<close>, which moves whole packets.\<close>

definition jump_output :: "sodium \<Rightarrow> nat \<Rightarrow> int \<Rightarrow> bool conn_prog" where
  "jump_output na h terminalFd = catch_runtime
     (bnd (sys (readPacket h terminalFd)) (\<lambda>packet. case packet of
         None \<Rightarrow> ret True
       | Some p \<Rightarrow> bnd (Connection_writePacket na p) (\<lambda>_. ret True)))
     (\<lambda>_. ret False)"

definition jump_input :: "sodium \<Rightarrow> nat \<Rightarrow> int \<Rightarrow> bool conn_prog" where
  "jump_input na h terminalFd = bnd Connection_hasData (\<lambda>more.
     if \<not> more then ret True
     else bnd (Connection_readPacket na) (\<lambda>rd.
       if \<not> fst rd then ret True
       else case snd rd of
           None \<Rightarrow> ret True
         | Some p \<Rightarrow> catch_runtime (bnd (sys (writePacket h terminalFd p)) (\<lambda>_. ret True)) (\<lambda>_. ret False)))"

definition jumphost_round :: "sodium \<Rightarrow> nat \<Rightarrow> int \<Rightarrow> bool conn_prog" where
  "jumphost_round na h terminalFd = bnd get_obj (\<lambda>c.
     let serverClientFd = c_socketFd c in
     bnd (sys (sys_select (remdups (session_fds c terminalFd)))) (\<lambda>rfd.
     catch_runtime
       (bnd (if terminalFd \<in> set rfd then jump_output na h terminalFd else ret True) (\<lambda>goes_on.
          if goes_on \<and> serverClientFd > 0 \<and> serverClientFd \<in> set rfd then jump_input na h terminalFd else ret goes_on))
       (\<lambda>_. bnd Connection_closeSocket (\<lambda>_. ret True))))"

section \<open>The start of a session\<close>

text \<open>
  The loop over \<^verbatim>\<open>payload.reversetunnels()\<close>: the error of the first source that cannot be created, or the
  environment with the names of the pipes.
\<close>

primrec create_sources ::
  "PortForwardSourceRequest list \<Rightarrow> (string \<times> string) list \<Rightarrow> (string + (string \<times> string) list) en_prog" where
  "create_sources [] env = ret (Inr env)"
| "create_sources (r # rs) env =
     bnd (on_pfh (createSource r (pfsr_environmentvariable r \<noteq> None))) (\<lambda>(response, sourceName).
       case pfsresp_error response of
         Some e \<Rightarrow> ret (Inl e)
       | None \<Rightarrow> create_sources rs (case pfsr_environmentvariable r of
             None \<Rightarrow> env | Some v \<Rightarrow> om_set str_less v (get_or [] sourceName) env))"

definition terminal_start :: "sodium \<Rightarrow> tprotos \<Rightarrow> nat \<Rightarrow> int \<Rightarrow> InitialPayload \<Rightarrow> bool en_prog" where
  "terminal_start na T h terminalFd initial =
     bnd (create_sources (reversetunnels initial)
            (foldl (\<lambda>env (n, v). om_set str_less n v env) [] (environmentvariables initial))) (\<lambda>made.
     case made of
       Inl e \<Rightarrow> bnd (send_proto na (InitialResponse_codec T) INITIAL_RESPONSE \<lparr>ir_error = Some e\<rparr>) (\<lambda>_. ret False)
     | Inr env \<Rightarrow>
         bnd (send_proto na (InitialResponse_codec T) INITIAL_RESPONSE \<lparr>ir_error = None\<rparr>) (\<lambda>_.
         bnd (outcome_prog (protoToString (TermInit_codec T) \<lparr>environmentnames = map fst env, environmentvalues = map snd env\<rparr>)) (\<lambda>termInit.
         bnd (sys (writePacket h terminalFd (mkPacket TERMINAL_INIT termInit))) (\<lambda>_. ret True))))"

section \<open>The threads\<close>

text \<open>
  Where a thread stands: it waits for the first packet of the connection at address \<open>p\<close>, or it is in the
  loop of \<^verbatim>\<open>runTerminal\<close>, with its port forward handler and terminal, or in the loop of \<^verbatim>\<open>runJumpHost\<close>.
\<close>

datatype session_pc =
    SWait nat
  | STerminal nat PortForwardHandler int
  | SJump nat int

text \<open>A program over connection and forwards, as a program over the connection alone.\<close>

definition with_pf :: "PortForwardHandler \<Rightarrow> 'a en_prog \<Rightarrow> ('a \<times> PortForwardHandler) conn_prog" where
  "with_pf pf m s = (case m (\<lparr>en_conn = fst s, en_pf = pf\<rparr>, snd s) of
     (x, (e, w)) \<Rightarrow> (map_outcome (\<lambda>a. (a, en_pf e)) x, (en_conn e, w)))"

definition new_pipe_handler :: handler where
  "new_pipe_handler = \<lparr>kind = Pipe, activeSockets = {}, portServerSockets = Map.empty, pipeServerSockets = Map.empty\<rparr>"

definition end_session :: "nat \<Rightarrow> unit ts_prog" where
  "end_session p = bnd get_obj (\<lambda>s. bnd (removeClient (c_id (connObjects s ! p))) (\<lambda>_. ret ()))"

text \<open>The handler of the forwards goes out of scope: its sources stop listening.\<close>

primrec destroy_sources :: "ForwardSourceHandler list \<Rightarrow> (world, unit) prog" where
  "destroy_sources [] = ret ()"
| "destroy_sources (f # fs) = bnd (ForwardSourceHandler_destroy f) (\<lambda>_. destroy_sources fs)"

definition end_terminal :: "nat \<Rightarrow> PortForwardHandler \<Rightarrow> session_pc option ts_prog" where
  "end_terminal p pf = bnd (end_session p) (\<lambda>_. bnd (sys (destroy_sources (sourceHandlers pf))) (\<lambda>_. ret None))"

definition end_jumphost :: "nat \<Rightarrow> session_pc option ts_prog" where
  "end_jumphost p = bnd (end_session p) (\<lambda>_. ret None)"

text \<open>\<^verbatim>\<open>runTerminal\<close> up to its loop. \<open>ph\<close> is the address of the pipe handler the session creates.\<close>

definition runTerminal :: "sodium \<Rightarrow> tprotos \<Rightarrow> nat \<Rightarrow> nat \<Rightarrow> InitialPayload \<Rightarrow> session_pc option ts_prog" where
  "runTerminal na T ph p initial = bnd get_obj (\<lambda>s.
     bnd (outcome_prog (tryGetInfoForConnection (terminalRouter s) (connObjects s ! p))) (\<lambda>maybeUserInfo.
     case maybeUserInfo of
       None \<Rightarrow> bnd (on_conn p Connection_closeSocket) (\<lambda>_. ret None)
     | Some userInfo \<Rightarrow>
         let terminalFd = get_or 0 (tui_fd userInfo) in
         bnd (sys (upd_handler ph (\<lambda>_. new_pipe_handler))) (\<lambda>_.
         bnd (on_conn p (with_pf (PortForwardHandler_new (sc_socketHandler s) ph)
                (terminal_start na T (utr_socketHandler (terminalRouter s)) terminalFd initial))) (\<lambda>(started, pf).
         if started then ret (Some (STerminal p pf terminalFd))
         else bnd (sys (destroy_sources (sourceHandlers pf))) (\<lambda>_. ret None)))))"

definition runJumpHost :: "sodium \<Rightarrow> tprotos \<Rightarrow> nat \<Rightarrow> InitialPayload \<Rightarrow> session_pc option ts_prog" where
  "runJumpHost na T p initial =
     bnd (outcome_prog (protoToString (InitialResponse_codec T) \<lparr>ir_error = None\<rparr>)) (\<lambda>response.
     bnd (on_conn p (Connection_writePacket na (mkPacket INITIAL_RESPONSE response))) (\<lambda>_.
     bnd get_obj (\<lambda>s.
     bnd (outcome_prog (tryGetInfoForConnection (terminalRouter s) (connObjects s ! p))) (\<lambda>maybeUserInfo.
     case maybeUserInfo of
       None \<Rightarrow> bnd (on_conn p Connection_closeSocket) (\<lambda>_. ret None)
     | Some userInfo \<Rightarrow>
         let terminalFd = get_or 0 (tui_fd userInfo) in
         bnd (outcome_prog (protoToString (InitialPayload_codec T) initial)) (\<lambda>text_of.
         bnd (sys (writePacket (utr_socketHandler (terminalRouter s)) terminalFd (mkPacket JUMPHOST_INIT text_of))) (\<lambda>_.
         ret (Some (SJump p terminalFd))))))))"

text \<open>\<^verbatim>\<open>handleConnection\<close>: one attempt to read the first packet, and what follows when it is there.\<close>

definition handleConnection :: "sodium \<Rightarrow> tprotos \<Rightarrow> nat \<Rightarrow> nat \<Rightarrow> session_pc option ts_prog" where
  "handleConnection na T ph p = bnd (on_conn p (Connection_readPacket na)) (\<lambda>rd.
     if \<not> fst rd then bnd (sys sys_int) (\<lambda>_. ret (Some (SWait p)))
     else case snd rd of
         None \<Rightarrow> fail (Abort ''undefined behaviour: no packet'')
       | Some packet \<Rightarrow>
           if header packet \<noteq> INITIAL_PAYLOAD then fail (Abort ''Invalid header: expecting INITIAL_PAYLOAD'')
           else bnd (outcome_prog (stringToProto (InitialPayload_codec T) (payload packet))) (\<lambda>initial.
             if get_or False (jumphost initial) then runJumpHost na T p initial
             else runTerminal na T ph p initial))"

text \<open>An exception that leaves the function of a thread ends the process.\<close>

definition thread_body :: "'a ts_prog \<Rightarrow> 'a ts_prog" where
  "thread_body m s = (case m s of (Throw e, t) \<Rightarrow> (Abort ''std::terminate'', t) | r \<Rightarrow> r)"

definition session_seg :: "sodium \<Rightarrow> tprotos \<Rightarrow> nat \<Rightarrow> session_pc \<Rightarrow> session_pc option ts_prog" where
  "session_seg na T ph pc = thread_body (case pc of
      SWait p \<Rightarrow> handleConnection na T ph p
    | STerminal p pf fd \<Rightarrow> bnd get_obj (\<lambda>s.
        if halt s then end_terminal p pf
        else bnd (on_conn p (with_pf pf (terminal_round na T (utr_socketHandler (terminalRouter s)) fd))) (\<lambda>(goes_on, pf').
          if goes_on then ret (Some (STerminal p pf' fd)) else end_terminal p pf'))
    | SJump p fd \<Rightarrow> bnd get_obj (\<lambda>s.
        if halt s \<or> shuttingDown (connObjects s ! p) then end_jumphost p
        else bnd (on_conn p (jumphost_round na (utr_socketHandler (terminalRouter s)) fd)) (\<lambda>goes_on.
          if goes_on then ret (Some (SJump p fd)) else end_jumphost p)))"

lemmas session_defs = with_pf_def new_pipe_handler_def end_session_def end_terminal_def end_jumphost_def runTerminal_def runJumpHost_def handleConnection_def
  thread_body_def session_seg_def terminal_start_def session_fds_def terminal_round_def jump_output_def jump_input_def
  jumphost_round_def terminal_output_def to_terminal_def terminal_packet_def

declare session_defs [et_defs]

end
