(* ===== verification/ET_Threads.thy ===== *)
theory ET_Threads
  imports ET_Terminal
begin

text \<open>
  The terminal server as a state machine: the accept loop, the handlers of new sockets, the
  registration of terminals and the session threads, interleaved. The lemmas carry the registry of
  the base class through the sessions and tie every connection to the terminal it was registered with.
\<close>

section \<open>What a session does to its connection\<close>

definition en_frame :: "Endpoint \<times> world \<Rightarrow> Endpoint \<times> world \<Rightarrow> bool" where
  "en_frame s t \<longleftrightarrow> conn_frame (en_conn (fst s), snd s) (en_conn (fst t), snd t) \<and>
     shuttingDown (en_conn (fst t)) = shuttingDown (en_conn (fst s))"

interpretation enf: frame en_frame
  by unfold_locales (auto simp: en_frame_def intro: cnf.R_refl cnf.R_trans)

declare enf.keeps_rules [keeps_intros]

lemma enf_basic [keeps_intros]:
  "enf.keeps get_obj" "enf.keeps (sys m)" "enf.keeps (outcome_prog x)" "enf.keeps (on_pfh m1)"
  "cnf.keeps m2 \<Longrightarrow> nsd.keeps m2 \<Longrightarrow> enf.keeps (on_con m2)"
proof -
  have "conn_frame (c, w) (c, w')" for c w w' by (simp add: conn_frame_def)
  then show "enf.keeps get_obj" "enf.keeps (sys m)" "enf.keeps (outcome_prog x)" "enf.keeps (on_pfh m1)"
    by (auto simp: enf.keeps_def en_frame_def get_obj_def sys_def outcome_prog_def on_pfh_def split: prod.splits)
  show "enf.keeps (on_con m2)" if "cnf.keeps m2" "nsd.keeps m2" for m2 :: "'z conn_prog"
    using cnf.keepsD [OF that(1)] nsd.keepsD [OF that(2)]
    by (auto simp: enf.keeps_def en_frame_def on_con_def same_on_def split: prod.splits)
qed

lemma enf_session [keeps_intros]:
  "enf.keeps (send_proto na C h m)" "enf.keeps (forward_packet na T p)" "enf.keeps (terminal_packet na T h' fd p)"
  "enf.keeps (terminal_output na T fd)"
  unfolding send_proto_def forward_packet_def terminal_packet_def to_terminal_def terminal_output_def
  by (auto intro!: keeps_intros split: option.split)

lemma enf_send_each [keeps_intros]: "enf.keeps (send_each na C h ms)"
  by (induction ms) (simp_all only: send_each.simps, (intro keeps_intros | assumption)+)

lemma enf_updates [keeps_intros]: "enf.keeps (forward_updates na T)"
  unfolding forward_updates_def by (auto intro!: keeps_intros)

lemma enf_drain [keeps_intros]: "enf.keeps (drain_packets na T h fd)"
proof -
  have "en_frame s (snd (drain_packets na T h fd s))" for s
  proof (induction na T h fd s rule: drain_packets.induct)
    case (1 na T h fd s)
    show ?case
      by (subst drain_packets.simps)
        (auto intro!: enf.keeps_bnd_at keeps_intros enf.R_refl split: option.split,
          rule 1, assumption, simp, assumption, simp, simp, assumption)
  qed
  then show ?thesis by (simp add: enf.keeps_def)
qed

lemma enf_rounds [keeps_intros]: "enf.keeps (terminal_round na T h fd)" "enf.keeps (terminal_start na T h fd i)"
proof -
  show "enf.keeps (terminal_round na T h fd)"
    unfolding terminal_round_def Let_def by (auto intro!: keeps_intros split: option.split)
  have "enf.keeps (create_sources rs env)" for rs env
    by (induction rs arbitrary: env) (simp_all only: create_sources.simps, auto intro!: keeps_intros split: option.split)
  then show "enf.keeps (terminal_start na T h fd i)"
    unfolding terminal_start_def by (auto intro!: keeps_intros split: sum.split)
qed

lemma with_pf_keeps [keeps_intros]:
  assumes "enf.keeps m"
  shows "cnf.keeps (with_pf pf m)" "nsd.keeps (with_pf pf m)"
  using enf.keepsD [OF assms]
  by (auto simp: cnf.keeps_def nsd.keeps_def en_frame_def same_on_def with_pf_def split: prod.splits) fastforce+

lemma jump_keeps [keeps_intros]:
  "cnf.keeps (jumphost_round na h fd)" "nsd.keeps (jumphost_round na h fd)"
  unfolding jumphost_round_def jump_output_def jump_input_def Let_def
  by (auto intro!: keeps_intros split: option.split)

section \<open>What a session does to the server\<close>

lemma ts_frame [keeps_intros]:
  "svf.keeps (mod_obj (\<lambda>s :: TerminalServer. s\<lparr>terminalRouter := u\<rparr>))" "svf.keeps (on_router m)"
  by (auto simp: svf.keeps_def server_frame_def objects_kept_def registry_ok_def mod_obj_def on_router_def split: prod.splits)

lemmas lives_keeps = svf.keeps_lives [of get_obj] svf.keeps_lives [of "ret _"] svf.keeps_lives [of "fail _"] svf.keeps_lives [of "sys _"]
  svf.keeps_lives [of "outcome_prog _"] svf.keeps_lives [of "on_conn _ _"]

lemma lives_splits:
  "svf.lives m \<Longrightarrow> svf.lives n \<Longrightarrow> svf.lives (if b then m else n)"
  "svf.lives m \<Longrightarrow> (\<And>x. svf.lives (f x)) \<Longrightarrow> svf.lives (case v of None \<Rightarrow> m | Some x \<Rightarrow> f x)"
  "(\<And>x y. svf.lives (g x y)) \<Longrightarrow> svf.lives (case q of (x, y) \<Rightarrow> g x y)"
  by (simp_all split: option.split prod.split)

lemma end_lives: "svf.lives (end_terminal p pf)" "svf.lives (end_jumphost p)"
  unfolding end_terminal_def end_jumphost_def end_session_def
  by (auto intro!: svf.lives_bnd removeClient_lives lives_keeps keeps_intros)

lemma thread_body_lives: "svf.lives m \<Longrightarrow> svf.lives (thread_body m)"
  by (rule svf.livesI) (auto simp: thread_body_def dest: svf.livesD split: prod.splits outcome.splits)

lemma run_lives: "svf.lives (runTerminal na T ph p i)" "svf.lives (runJumpHost na T p i)"
  unfolding runTerminal_def runJumpHost_def Let_def
  by (intro svf.lives_bnd lives_splits lives_keeps; auto intro!: keeps_intros)+

lemma session_seg_lives: "svf.lives (session_seg na T ph pc)"
proof -
  have "svf.lives (handleConnection na T ph p)" for p
    unfolding handleConnection_def
    by (intro svf.lives_bnd lives_splits lives_keeps run_lives; auto intro!: keeps_intros)
  then show ?thesis
    unfolding session_seg_def
    by (cases pc) (auto intro!: thread_body_lives svf.lives_bnd lives_splits lives_keeps end_lives keeps_intros)
qed

lemma accept_terminal_frame: "svf.keeps (accept_terminal T)"
  unfolding accept_terminal_def by (auto intro!: keeps_intros)

section \<open>Registered terminals\<close>

definition registered :: "TerminalServer \<Rightarrow> string \<Rightarrow> string \<Rightarrow> bool" where
  "registered sv i k \<longleftrightarrow> (\<exists>tui. map_of (idInfoMap (terminalRouter sv)) i = Some tui \<and> get_or [] (tui_passkey tui) = k)"

text \<open>Every key the server accepts and every connection it made belong to a registered terminal.\<close>

definition cred_ok :: "TerminalServer \<Rightarrow> bool" where
  "cred_ok sv \<longleftrightarrow> (\<forall>i k. (i, k) \<in> set (clientKeys sv) \<longrightarrow> registered sv i k) \<and>
     (\<forall>c\<in>set (connObjects sv). registered sv (c_id c) (c_key c))"

definition cred_frame :: "TerminalServer \<times> world \<Rightarrow> TerminalServer \<times> world \<Rightarrow> bool" where
  "cred_frame s t \<longleftrightarrow> (cred_ok (fst s) \<longrightarrow> cred_ok (fst t))"

interpretation crf: frame cred_frame
  by unfold_locales (auto simp: cred_frame_def)

declare crf.keeps_rules [keeps_intros]

lemma crf_basic [keeps_intros]:
  "crf.keeps get_obj" "crf.keeps (sys m)" "crf.keeps (outcome_prog x)"
  "(\<And>s. cred_ok s \<Longrightarrow> cred_ok (f s)) \<Longrightarrow> crf.keeps (mod_obj f)"
  by (auto simp: crf.keeps_def cred_frame_def get_obj_def sys_def outcome_prog_def mod_obj_def split: prod.splits)

lemma crf_on_conn [keeps_intros]:
  assumes "cnf.keeps m"
  shows "crf.keeps (on_conn p m)"
proof (rule crf.keepsI, clarify)
  fix sv w q sv' w' assume run: "on_conn p m (sv :: TerminalServer, w) = (q, (sv', w'))"
  then show "cred_frame (sv, w) (sv', w')"
  proof (cases rule: on_conn_cases)
    case (run c')
    have "conn_frame (connObjects sv ! p, w) (c', w')" using cnf.keepsD [OF assms run(2)] .
    then show ?thesis
      using run nth_mem [OF run(1)]
      by (auto simp: cred_frame_def cred_ok_def registered_def conn_frame_def dest!: set_update)
  qed (simp add: crf.R_refl)
qed

lemma cred_ok_simps [simp]:
  "cred_ok (sv\<lparr>poolTasks := x\<rparr>) = cred_ok sv" "cred_ok (sv\<lparr>clientConnections := y\<rparr>) = cred_ok sv"
  "cred_ok (sv\<lparr>terminalThreads := z\<rparr>) = cred_ok sv" "cred_ok (sv\<lparr>halt := b\<rparr>) = cred_ok sv"
  by (simp_all add: cred_ok_def registered_def)

lemma cred_ok_erase: "cred_ok sv \<Longrightarrow> cred_ok (sv\<lparr>clientKeys := al_erase i (clientKeys sv)\<rparr>)"
  by (simp add: cred_ok_def registered_def map_of_al_eraseD)

lemma crf_base [keeps_intros]:
  "crf.keeps (removeClient i)" "crf.keeps (destroyPartialConnection i)" "crf.keeps (acceptNewConnection fd)"
  "crf.keeps (TerminalServer_newClient p)" "crf.keeps m \<Longrightarrow> crf.keeps h \<Longrightarrow> crf.keeps (catch_std m h)"
proof -
  show "crf.keeps (removeClient i)" "crf.keeps (destroyPartialConnection i)" "crf.keeps (acceptNewConnection fd)"
      "crf.keeps (TerminalServer_newClient p)"
    unfolding removeClient_def destroyPartialConnection_def acceptNewConnection_def TerminalServer_newClient_def
    by (auto intro!: keeps_intros cred_ok_erase split: option.split)
  show "crf.keeps (catch_std m h)" if "crf.keeps m" "crf.keeps h" for m h :: "'z ts_prog"
  proof (rule crf.keepsI)
    fix s q t assume run: "catch_std m h s = (q, t)"
    obtain r u where m: "m s = (r, u)" by (cases "m s")
    then have "(\<exists>e. r = Throw e) \<and> h u = (q, t) \<or> t = u"
      using run by (cases r) (auto simp: catch_std_def)
    then show "cred_frame s t"
      using crf.keepsD [OF that(1) m] crf.keepsD [OF that(2), of u] crf.R_trans by blast
  qed
qed

text \<open>A connection is made with the key of its id.\<close>

lemma crf_lookup [keeps_intros]: "crf.keeps (client_lookup na i fd)"
proof (rule crf.keepsI, clarify)
  fix sv w q sv' w' assume run: "client_lookup na i fd (sv :: TerminalServer, w) = (q, (sv', w'))"
  have "sv' = sv \<or> (\<exists>k c. map_of (clientKeys sv) i = Some k \<and> ServerClientConnection_new na (sc_socketHandler sv) i fd k = Ok c \<and>
      sv' = sv\<lparr>connObjects := connObjects sv @ [c],
               clientConnections := al_set i (length (connObjects sv)) (clientConnections sv)\<rparr>)"
    using run unfolding client_lookup_def bnd_get_obj clientConnectionExists_def getClientConnection_def
    by (auto simp: bnd_def outcome_prog_def split: if_splits option.splits outcome.splits)
  then show "cred_frame (sv, w) (sv', w')"
    using ServerClientConnection_new_agrees map_of_SomeD
    by (fastforce simp: cred_frame_def cred_ok_def registered_def)
qed

lemma crf_handler: "crf.keeps (handler_seg na P TerminalServer_newClient pc)"
  unfolding handler_seg_def client_request_def client_respond_def client_finish_def client_cleanup_def
  by (cases pc) (auto intro!: keeps_intros split: decision.split)

lemma crf_session: "crf.keeps (session_seg na T ph pc)"
proof -
  have body: "crf.keeps m \<Longrightarrow> crf.keeps (thread_body m)" for m :: "'z ts_prog"
    by (rule crf.keepsI) (auto simp: thread_body_def dest: crf.keepsD split: prod.splits outcome.splits)
  show ?thesis
    unfolding session_seg_def handleConnection_def runTerminal_def runJumpHost_def end_terminal_def end_jumphost_def
      end_session_def Let_def
    by (cases pc) (auto intro!: body keeps_intros split: option.split)
qed

text \<open>What the router does with a new terminal.\<close>

lemma register_cases:
  assumes "register_terminal T fd (u, w) = (q, (u', w'))"
  obtains (same) "u' = u" "\<And>r. q = Ok r \<Longrightarrow> r = no_pair"
  | (added) tui where "q = Ok (get_or [] (tui_id tui), get_or [] (tui_passkey tui))" "tui_fd tui = Some fd"
      "map_of (idInfoMap u) (get_or [] (tui_id tui)) = None"
      "u' = u\<lparr>idInfoMap := al_set (get_or [] (tui_id tui)) tui (idInfoMap u)\<rparr>"
  using assms unfolding register_terminal_def bnd_get_obj
proof (cases rule: bnd_sys_cases)
  case (val packet w1)
  show thesis
  proof (cases "\<exists>p tui0. packet = Some p \<and> header p = TERMINAL_USER_INFO \<and>
      stringToProto (TerminalUserInfo_codec T) (payload p) = Ok tui0")
    case False
    then show thesis
      using val(2) same
      by (auto simp: bnd_outcome split: option.splits if_splits outcome.splits)
  next
    case True
    then obtain p tui0 where pk: "packet = Some p" "header p = TERMINAL_USER_INFO"
        "stringToProto (TerminalUserInfo_codec T) (payload p) = Ok tui0" by blast
    have t: "(if map_of (idInfoMap u) (get_or [] (tui_id tui0)) \<noteq> None then
             bnd (sys (Unix_close (utr_socketHandler u) fd)) (\<lambda>_. ret no_pair)
           else bnd (mod_obj (\<lambda>u. u\<lparr>idInfoMap := al_set (get_or [] (tui_id tui0)) (tui0\<lparr>tui_fd := Some fd\<rparr>) (idInfoMap u)\<rparr>)) (\<lambda>_.
             ret (get_or [] (tui_id tui0), get_or [] (tui_passkey tui0)))) (u, w1) = (q, (u', w'))"
      using val(2) pk by (simp add: bnd_outcome Let_def cong: if_cong)
    show thesis
    proof (cases "map_of (idInfoMap u) (get_or [] (tui_id tui0)) = None")
      case True
      then show thesis using t added [of "tui0\<lparr>tui_fd := Some fd\<rparr>"] by (simp add: bnd_mod)
    next
      case False
      then have "bnd (sys (Unix_close (utr_socketHandler u) fd)) (\<lambda>_. ret no_pair) (u, w1) = (q, (u', w'))" using t by simp
      then show thesis using same by (cases rule: bnd_sys_cases) auto
    qed
  qed
qed (use same in auto)

lemma router_accept_cases:
  assumes "router_acceptNewConnection T (u, w) = (q, (u', w'))"
  obtains (same) "u' = u" "\<And>r. q = Ok r \<Longrightarrow> r = no_pair"
  | (added) tui where "q = Ok (get_or [] (tui_id tui), get_or [] (tui_passkey tui))"
      "map_of (idInfoMap u) (get_or [] (tui_id tui)) = None"
      "u' = u\<lparr>idInfoMap := al_set (get_or [] (tui_id tui)) tui (idInfoMap u)\<rparr>"
  using assms unfolding router_acceptNewConnection_def bnd_get_obj
proof (cases rule: bnd_sys_cases)
  case (val fd w1)
  show thesis
  proof (cases "fd < 0")
    case True
    then show thesis using val(2) same by (auto split: if_splits)
  next
    case False
    let ?reg = "register_terminal T fd (u, w1)"
    obtain r u1 w2 where reg: "?reg = (r, (u1, w2))" by (metis surj_pair)
    have "r = q \<and> u1 = u' \<or> (\<exists>e. r = Throw e) \<and>
        bnd (sys (Unix_close (utr_socketHandler u) fd)) (\<lambda>_. ret no_pair) (u1, w2) = (q, (u', w'))"
      using val(2) False reg by (auto simp: catch_runtime_def split: outcome.splits exn.splits)
    moreover have "u' = u1 \<and> (\<forall>x. q = Ok x \<longrightarrow> x = no_pair)"
      if "bnd (sys (Unix_close (utr_socketHandler u) fd)) (\<lambda>_. ret no_pair) (u1, w2) = (q, (u', w'))"
      using that by (cases rule: bnd_sys_cases) auto
    ultimately have fin: "r = q \<and> u1 = u' \<or> (\<exists>e. r = Throw e) \<and> u' = u1 \<and> (\<forall>x. q = Ok x \<longrightarrow> x = no_pair)" by blast
    from reg show thesis
      by (cases rule: register_cases) (use same added fin in auto)
  qed
qed (use same in auto)

lemma crf_accept: "crf.keeps (accept_terminal T)"
proof (rule crf.keepsI, clarify)
  fix sv w q sv' w' assume run: "accept_terminal T (sv, w) = (q, (sv', w'))"
  obtain r u w1 where r: "router_acceptNewConnection T (terminalRouter sv, w) = (r, (u, w1))" by (metis surj_pair)
  from r show "cred_frame (sv, w) (sv', w')"
  proof (cases rule: router_accept_cases)
    case same
    have "sv' = sv\<lparr>terminalRouter := u\<rparr>"
      using run r same(2)
      by (cases r) (auto simp: accept_terminal_def on_router_def bnd_def no_pair_def)
    then show ?thesis using same(1) by (simp add: cred_frame_def cred_ok_def registered_def)
  next
    case (added tui)
    let ?i = "get_or [] (tui_id tui)" and ?k = "get_or [] (tui_passkey tui)"
    have "sv' = sv\<lparr>terminalRouter := u, clientKeys := if ?i = [] then clientKeys sv else al_set ?i ?k (clientKeys sv)\<rparr>"
      using run r added(1) by (auto simp: accept_terminal_def on_router_def bnd_def addClientKey_def mod_obj_def)
    then show ?thesis
      using added by (fastforce simp: cred_frame_def cred_ok_def registered_def dest!: al_set_in)
  qed
qed

section \<open>The server as a state machine\<close>

text \<open>
  The server, the handlers of new sockets and the session threads. A step is a round of the accept
  loop on one socket, a segment of a handler, the arrival of a terminal, a segment of a session
  thread, or the end of \<^verbatim>\<open>run\<close>. A handler that calls \<^verbatim>\<open>newClient\<close> starts a thread. \<open>alloc\<close> gives the
  address of the pipe handler a session creates.
\<close>

type_synonym term_state = "TerminalServer \<times> handler_pc list \<times> session_pc list"

datatype term_label = TAccept int | TSegment nat | TTerminal | TSession nat | THalt

definition new_threads :: "TerminalServer \<Rightarrow> TerminalServer \<Rightarrow> session_pc list" where
  "new_threads sv sv' = map SWait (drop (length (terminalThreads sv)) (terminalThreads sv'))"

inductive term_step ::
  "sodium \<Rightarrow> protos \<Rightarrow> tprotos \<Rightarrow> (nat \<Rightarrow> nat) \<Rightarrow> term_state \<Rightarrow> term_label \<Rightarrow> term_state \<Rightarrow> bool"
  for na P T alloc where
  term_accept: "server_step na P TerminalServer_newClient (sv, pcs) (LAccept fd) (sv', pcs') \<Longrightarrow>
     term_step na P T alloc (sv, pcs, ths) (TAccept fd) (sv', pcs', ths)"
| term_segment: "server_step na P TerminalServer_newClient (sv, pcs) (LSegment n) (sv', pcs') \<Longrightarrow>
     term_step na P T alloc (sv, pcs, ths) (TSegment n) (sv', pcs', ths @ new_threads sv sv')"
| term_terminal: "accept_terminal T (sv, w) = (Ok (), (sv', w')) \<Longrightarrow>
     term_step na P T alloc (sv, pcs, ths) TTerminal (sv', pcs, ths)"
| term_session: "n < length ths \<Longrightarrow> session_seg na T (alloc n) (ths ! n) (sv, w) = (Ok (Some pc), (sv', w')) \<Longrightarrow>
     term_step na P T alloc (sv, pcs, ths) (TSession n) (sv', pcs, ths[n := pc])"
| term_ended: "n < length ths \<Longrightarrow> session_seg na T (alloc n) (ths ! n) (sv, w) = (Ok None, (sv', w')) \<Longrightarrow>
     term_step na P T alloc (sv, pcs, ths) (TSession n) (sv', pcs, take n ths @ drop (Suc n) ths)"
| term_halt: "TerminalServer_shutdown (sv, w) = (Ok (), (sv', w')) \<Longrightarrow>
     term_step na P T alloc (sv, pcs, ths) THalt (sv', pcs, ths)"

inductive_cases term_stepE: "term_step na P T alloc st l st'"

definition term_init :: "term_state \<Rightarrow> bool" where
  "term_init st \<longleftrightarrow> server_init (fst st, fst (snd st)) \<and> clientKeys (fst st) = [] \<and> terminalThreads (fst st) = [] \<and>
     idInfoMap (terminalRouter (fst st)) = [] \<and> snd (snd st) = []"

fun session_addr :: "session_pc \<Rightarrow> nat" where
  "session_addr (SWait p) = p"
| "session_addr (STerminal p pf fd) = p"
| "session_addr (SJump p fd) = p"

definition addr_ok :: "TerminalServer \<Rightarrow> nat \<Rightarrow> bool" where
  "addr_ok sv p \<longleftrightarrow> p < length (connObjects sv)"

definition term_inv :: "term_state \<Rightarrow> bool" where
  "term_inv st = (case st of (sv, pcs, ths) \<Rightarrow> server_inv (sv, pcs) \<and> cred_ok sv \<and>
     (\<forall>pc\<in>set ths. addr_ok sv (session_addr pc)))"

lemma addr_ok_kept: "objects_kept sv sv' \<Longrightarrow> addr_ok sv p \<Longrightarrow> addr_ok sv' p"
  by (simp add: objects_kept_def addr_ok_def)

section \<open>The threads a handler starts\<close>

interpretation tth: frame "same_on terminalThreads"
  by unfold_locales (simp_all add: same_on_def)

declare tth.keeps_rules [keeps_intros]

lemma tth_basic [keeps_intros]:
  "tth.keeps get_obj" "tth.keeps (sys m)" "tth.keeps (outcome_prog x)" "tth.keeps (on_conn p m1)"
  "(\<And>s. terminalThreads (f s) = terminalThreads s) \<Longrightarrow> tth.keeps (mod_obj f)"
  by (auto simp: tth.keeps_def same_on_def get_obj_def sys_def outcome_prog_def mod_obj_def on_conn_def split: prod.splits)

lemma tth_catch [keeps_intros]: "tth.keeps m \<Longrightarrow> tth.keeps h \<Longrightarrow> tth.keeps (catch_std m h)"
  by (auto simp: tth.keeps_def same_on_def catch_std_def split: prod.splits outcome.splits) (metis fst_conv snd_conv)+

lemma tth_base [keeps_intros]:
  "tth.keeps (removeClient i)" "tth.keeps (destroyPartialConnection i)" "tth.keeps (client_lookup na i fd)"
  unfolding removeClient_def destroyPartialConnection_def client_lookup_def
  by (auto intro!: keeps_intros split: option.split)

lemma handler_threads:
  assumes "handler_seg na P TerminalServer_newClient pc (sv, w) = (Ok r, (sv', w'))"
  shows "terminalThreads sv' = terminalThreads sv \<or>
    (\<exists>i fd p. pc = PFinish i fd (Created p) \<and> terminalThreads sv' = terminalThreads sv @ [p])"
proof (cases "\<exists>i fd p. pc = PFinish i fd (Created p)")
  case True
  then obtain i fd p where pc: "pc = PFinish i fd (Created p)" by blast
  then show ?thesis
    using assms by (auto simp: handler_seg_def client_finish_def TerminalServer_newClient_def catch_std_def bnd_def
        split: prod.splits outcome.splits)
next
  case False
  have "tth.keeps (handler_seg na P TerminalServer_newClient pc)"
    unfolding handler_seg_def client_request_def client_respond_def client_finish_def client_cleanup_def
    using False by (cases pc) (auto intro!: keeps_intros split: decision.split)
  from tth.keepsD [OF this assms] show ?thesis by (simp add: same_on_def)
qed

section \<open>The invariant\<close>

text \<open>Every value a program returns.\<close>

definition returns :: "('s, 'a) prog \<Rightarrow> ('a \<Rightarrow> bool) \<Rightarrow> bool" where
  "returns m Q \<longleftrightarrow> (\<forall>s x t. m s = (Ok x, t) \<longrightarrow> Q x)"

lemma returns_rules:
  "Q x \<Longrightarrow> returns (ret x) Q" "returns (fail (Abort e)) Q" "(\<And>v. returns (f1 v) Q) \<Longrightarrow> returns (bnd m1 f1) Q"
  "returns m Q \<Longrightarrow> returns n Q \<Longrightarrow> returns (if b then m else n) Q"
  "returns m Q \<Longrightarrow> (\<And>v. returns (f2 v) Q) \<Longrightarrow> returns (case ov of None \<Rightarrow> m | Some v \<Rightarrow> f2 v) Q"
  "(\<And>v u. returns (f3 v u) Q) \<Longrightarrow> returns (case pv of (v, u) \<Rightarrow> f3 v u) Q"
  by (auto simp: returns_def bnd_eq_Ok split: option.split prod.split)

lemma returns_body: "returns m Q \<Longrightarrow> returns (thread_body m) Q"
  unfolding returns_def thread_body_def by (auto split: prod.splits outcome.splits) metis

lemma session_stays: "returns (session_seg na T ph pc) (\<lambda>r. \<forall>pc'. r = Some pc' \<longrightarrow> session_addr pc' = session_addr pc)"
  unfolding session_seg_def handleConnection_def runTerminal_def runJumpHost_def end_terminal_def end_jumphost_def Let_def
  by (cases pc) (auto intro!: returns_body returns_rules)

lemma new_threads_ok:
  assumes "server_step na P TerminalServer_newClient (sv, pcs) (LSegment n) (sv', pcs')" and "server_inv (sv, pcs)"
  shows "objects_kept sv sv' \<and> cred_frame (sv, w) (sv', w') \<and> (\<forall>pc\<in>set (new_threads sv sv'). addr_ok sv' (session_addr pc))"
proof -
  obtain w r sv1 w' where n: "n < length pcs" and run: "handler_seg na P TerminalServer_newClient (pcs ! n) (sv, w) = (Ok r, (sv1, w'))"
      and sv': "sv' = sv1 \<or> (\<exists>fd. sv' = task_done fd sv1)"
    using assms(1) by (cases rule: server_step.cases) blast+
  have f: "objects_kept sv sv1"
    using svf.livesD [OF ts.handler_seg_lives run] by (simp add: server_frame_def)
  have c: "cred_frame (sv, w) (sv1, w')" using crf.keepsD [OF crf_handler run] .
  have "addr_ok sv1 p" if "pcs ! n = PFinish i fd (Created p)" for i fd p
    using assms(2) nth_mem [OF n] that f by (auto simp: server_inv_def addr_ok_def decision_ok_def objects_kept_def)
  then have "\<forall>pc\<in>set (new_threads sv sv1). addr_ok sv1 (session_addr pc)"
    using handler_threads [OF run] by (auto simp: new_threads_def)
  then show ?thesis
    using sv' f c by (auto simp: task_done_def new_threads_def addr_ok_def objects_kept_def cred_frame_def)
qed

lemma term_step_inv:
  assumes "term_inv st" and "term_step na P T alloc st l st'"
  shows "term_inv st'"
  using assms(2)
proof (cases rule: term_step.cases)
  case (term_accept sv pcs fd sv' pcs' ths)
  obtain w w' where run: "\<exists>b. acceptNewConnection fd (sv, w) = (Ok b, (sv', w'))"
    using term_accept(4) by (cases rule: server_step.cases) auto
  have "server_inv (sv', pcs')" using ts.server_step_inv [OF _ term_accept(4)] assms(1) term_accept(1) by (simp add: term_inv_def)
  then show ?thesis
    using run crf.keepsD [OF crf_base(3)] svf.keepsD [OF accept_frame] assms(1) term_accept(1,3) addr_ok_kept
    by (fastforce simp: term_inv_def cred_frame_def server_frame_def)
next
  case (term_segment sv pcs n sv' pcs' ths)
  have inv: "server_inv (sv, pcs)" "cred_ok sv" using assms(1) term_segment(1) by (simp_all add: term_inv_def)
  have "server_inv (sv', pcs')" using ts.server_step_inv [OF inv(1) term_segment(4)] .
  then show ?thesis
    using new_threads_ok [OF term_segment(4) inv(1)] assms(1) term_segment(1,3) addr_ok_kept
    by (auto simp: term_inv_def cred_frame_def)
next
  case (term_terminal sv w sv' w' pcs ths)
  have "server_frame (sv, w) (sv', w')" "cred_frame (sv, w) (sv', w')"
    using svf.keepsD [OF accept_terminal_frame term_terminal(4)] crf.keepsD [OF crf_accept term_terminal(4)] .
  then show ?thesis
    using assms(1) term_terminal(1,3) addr_ok_kept server_inv_frame
    by (fastforce simp: term_inv_def cred_frame_def server_frame_def)
next
  case (term_session n ths sv w pc sv' w' pcs)
  have f: "server_frame (sv, w) (sv', w')" "cred_frame (sv, w) (sv', w')"
    using svf.livesD [OF session_seg_lives term_session(5)] crf.keepsD [OF crf_session term_session(5)] by simp_all
  have "addr_ok sv (session_addr pc)"
    using session_stays term_session(4,5) assms(1) term_session(1) by (fastforce simp: returns_def term_inv_def)
  then show ?thesis
    using assms(1) term_session(1,3) f addr_ok_kept server_inv_frame [OF _ f(1)]
    by (auto simp: term_inv_def cred_frame_def server_frame_def dest!: set_update)
next
  case (term_ended n ths sv w sv' w' pcs)
  have f: "server_frame (sv, w) (sv', w')" "cred_frame (sv, w) (sv', w')"
    using svf.livesD [OF session_seg_lives term_ended(5)] crf.keepsD [OF crf_session term_ended(5)] by simp_all
  then show ?thesis
    using assms(1) term_ended(1,3) addr_ok_kept server_inv_frame [OF _ f(1)]
    by (auto simp: term_inv_def cred_frame_def server_frame_def dest!: in_set_takeD in_set_dropD)
next
  case (term_halt sv w sv' w' pcs ths)
  then have "sv' = sv\<lparr>halt := True\<rparr>" by (simp add: TerminalServer_shutdown_def mod_obj_def)
  moreover have "pc_ok (sv\<lparr>halt := True\<rparr>) pc = pc_ok sv pc" for pc
    by (cases pc) (auto simp: decision_ok_def split: decision.split)
  ultimately show ?thesis
    using assms(1) term_halt(1,3) by (auto simp: term_inv_def server_inv_def registry_ok_def addr_ok_def)
qed

lemma term_init_inv: "term_init st \<Longrightarrow> term_inv st"
  by (cases st) (auto simp: term_init_def term_inv_def cred_ok_def server_init_def intro!: server_init_inv)

interpretation trm: inductive_invariant term_init "term_step na P T alloc" term_inv for na P T alloc
  by unfold_locales (erule term_init_inv, erule (1) term_step_inv)

section \<open>Properties\<close>

lemma verify_own_key: "verifyPasskey c (c_key c)"
  by (simp add: verifyPasskey_def verify_loop_iff Let_def)

definition sample_ts :: TerminalServer where
  "sample_ts = ServerConnection.extend ((sample_registry [])\<lparr>poolTasks := Some []\<rparr>)
     (TerminalServer.fields \<lparr>utr_serverFd = 4, idInfoMap = [], utr_socketHandler = 1\<rparr> [] False no_endpoint)"

text \<open>A terminal arrives on descriptor 6 and gives its id and passkey.\<close>

definition terminal_answers :: "answer list" where
  "terminal_answers = Val 6 # replicate 4 (Val 0) @ readAll_answers (le64 3) @
     readAll_answers (serialize (mkPacket TERMINAL_USER_INFO ''e''))"

definition sample_arrival :: "unit outcome \<times> TerminalServer \<times> world" where
  "sample_arrival = accept_terminal sample_tprotos (sample_ts, sample_world terminal_answers)"

text \<open>A client with that id connects on descriptor 7.\<close>

definition welcome_protos :: protos where
  "welcome_protos = sample_protos\<lparr>ConnectResponse_codec :=
     two_codec \<lparr>status = None, error_text = None\<rparr> (status_response NEW_CLIENT)\<rparr>"

definition client_world :: "answer list \<Rightarrow> world" where
  "client_world as = (sample_world as)\<lparr>handlers := \<lambda>_. sample_handler\<lparr>activeSockets := {7}\<rparr>\<rparr>"

definition sample_seg :: "handler_pc \<Rightarrow> TerminalServer \<Rightarrow> answer list \<Rightarrow> handler_pc option outcome \<times> TerminalServer \<times> world" where
  "sample_seg pc sv as = handler_seg clear_sodium welcome_protos TerminalServer_newClient pc (sv, client_world as)"

definition sample_accepted :: "bool outcome \<times> TerminalServer \<times> world" where
  "sample_accepted = acceptNewConnection 3 (fst (snd sample_arrival), sample_world (Val 7 # replicate 4 (Val 0)))"

definition sample_looked :: "handler_pc option outcome \<times> TerminalServer \<times> world" where
  "sample_looked = sample_seg (PLookup ''id'' 7) (fst (snd sample_accepted)) []"

definition sample_threaded :: "handler_pc option outcome \<times> TerminalServer \<times> world" where
  "sample_threaded = sample_seg (PFinish ''id'' 7 (Created 0)) (fst (snd sample_looked)) []"

definition sample_served :: TerminalServer where
  "sample_served = task_done 7 (fst (snd sample_threaded))"

lemma sample_seg_run:
  assumes "fst (sample_seg pc sv as) = Ok (Some pc')" and "fst (snd (sample_seg pc sv as)) = sv'"
  shows "term_step clear_sodium welcome_protos sample_tprotos Suc (sv, [pc], ths) (TSegment 0) (sv', [pc'], ths @ new_threads sv sv')"
  using assms step_segment [of 0 "[pc]" clear_sodium welcome_protos TerminalServer_newClient sv "client_world as" pc' sv']
  by (auto simp: sample_seg_def prod_eq_iff intro!: term_segment)

lemma served_reach:
  "trm.reach clear_sodium welcome_protos sample_tprotos Suc (sample_served, [], [SWait 0])"
proof -
  let ?reach = "trm.reach clear_sodium welcome_protos sample_tprotos Suc"
  let ?step = "term_step clear_sodium welcome_protos sample_tprotos Suc"
  let ?a = "fst (snd sample_arrival)" and ?c = "fst (snd sample_accepted)" and ?l = "fst (snd sample_looked)" and ?t = "fst (snd sample_threaded)"
  have 0: "?reach (sample_ts, [], [])"
    by (rule trm.reach_init) (simp add: term_init_def server_init_def sample_ts_def sample_registry_def ServerConnection.defs TerminalServer.defs)
  have "fst sample_arrival = Ok ()" by code_simp
  then have "?step (sample_ts, [], []) TTerminal (?a, [], [])"
    by (intro term_terminal [of _ _ "sample_world terminal_answers" _ "snd (snd sample_arrival)"]) (simp add: sample_arrival_def prod_eq_iff)
  note 1 = trm.reach_step [OF 0 this]
  have "fst sample_accepted = Ok True" "poolTasks ?c = Some ([] @ [7])" by code_simp+
  then have "?step (?a, [], []) (TAccept 3) (?c, [] @ [PStart 7], [])"
    by (intro term_accept step_accept [of _ _ "sample_world (Val 7 # replicate 4 (Val 0))" _ "snd (snd sample_accepted)"])
      (simp_all add: sample_accepted_def prod_eq_iff)
  note 2 = trm.reach_step [OF 1 this, simplified]
  have "fst (sample_seg (PStart 7) ?c request_answers) = Ok (Some (PLookup ''id'' 7))"
    "fst (snd (sample_seg (PStart 7) ?c request_answers)) = ?c" by code_simp+
  note 3 = trm.reach_step [OF 2 sample_seg_run [OF this], simplified new_threads_def, simplified]
  have "fst sample_looked = Ok (Some (PRespond ''id'' 7 (Created 0)))" "terminalThreads ?l = terminalThreads ?c" by code_simp+
  note 4 = trm.reach_step [OF 3 sample_seg_run [OF this(1) [unfolded sample_looked_def] refl],
    folded sample_looked_def, simplified new_threads_def this(2), simplified]
  have "fst (sample_seg (PRespond ''id'' 7 (Created 0)) ?l (writeAll_answers 8 @ writeAll_answers 1)) = Ok (Some (PFinish ''id'' 7 (Created 0)))"
    "fst (snd (sample_seg (PRespond ''id'' 7 (Created 0)) ?l (writeAll_answers 8 @ writeAll_answers 1))) = ?l" by code_simp+
  note 5 = trm.reach_step [OF 4 sample_seg_run [OF this], simplified new_threads_def, simplified]
  have "fst sample_threaded = Ok None" and th: "terminalThreads ?t = [0]" "terminalThreads ?l = []" by code_simp+
  then have "?step (?l, [PFinish ''id'' 7 (Created 0)], []) (TSegment 0) (sample_served, [], [] @ new_threads ?l sample_served)"
    using step_done [of 0 "[PFinish ''id'' 7 (Created 0)]" clear_sodium welcome_protos TerminalServer_newClient ?l "client_world []" ?t]
    by (intro term_segment) (auto simp: sample_served_def sample_threaded_def sample_seg_def prod_eq_iff)
  from trm.reach_step [OF 5 this] show ?thesis
    using th by (simp add: new_threads_def sample_served_def task_done_def)
qed

text \<open>
  C8: in every reachable state of the terminal server, every session thread finds the terminal its client
  was registered with: the look-up of the router neither aborts the server nor refuses the
  connection, and the passkey on record is the connection's own.
\<close>

theorem session_has_terminal:
  assumes "trm.reach na P T alloc (sv, pcs, ths)" and "pc \<in> set ths"
  shows "\<exists>tui. tryGetInfoForConnection (terminalRouter sv) (connObjects sv ! session_addr pc) = Ok (Some tui) \<and>
    get_or [] (tui_passkey tui) = c_key (connObjects sv ! session_addr pc)"
proof -
  have "addr_ok sv (session_addr pc)" "cred_ok sv"
    using trm.reach_inv [OF assms(1)] assms(2) by (auto simp: term_inv_def)
  then have "registered sv (c_id (connObjects sv ! session_addr pc)) (c_key (connObjects sv ! session_addr pc))"
    by (simp add: addr_ok_def cred_ok_def)
  then show ?thesis
    using verify_own_key by (auto simp: registered_def tryGetInfoForConnection_def)
qed

theorem session_has_terminal_witness:
  "\<exists>tui. tryGetInfoForConnection (terminalRouter sample_served) (connObjects sample_served ! 0) = Ok (Some tui) \<and>
    get_or [] (tui_passkey tui) = c_key (connObjects sample_served ! 0)"
  using session_has_terminal [OF served_reach, of "SWait 0"] by simp

text \<open>
  C10: a process that connects to the router cannot take over an id that is registered: the entry of that id
  and its key stay as they are, whatever the process sends.
\<close>

theorem registered_id_stays:
  assumes "accept_terminal T (sv, w) = (q, (sv', w'))" and "map_of (idInfoMap (terminalRouter sv)) i = Some tui"
  shows "map_of (idInfoMap (terminalRouter sv')) i = Some tui \<and> map_of (clientKeys sv') i = map_of (clientKeys sv) i"
proof -
  obtain r u w1 where r: "router_acceptNewConnection T (terminalRouter sv, w) = (r, (u, w1))" by (metis surj_pair)
  from r show ?thesis
  proof (cases rule: router_accept_cases)
    case same
    have "sv' = sv\<lparr>terminalRouter := u\<rparr>"
      using assms(1) r same(2) by (cases r) (auto simp: accept_terminal_def on_router_def bnd_def no_pair_def)
    then show ?thesis using same(1) assms(2) by simp
  next
    case (added new)
    let ?i = "get_or [] (tui_id new)" and ?k = "get_or [] (tui_passkey new)"
    have "sv' = sv\<lparr>terminalRouter := u, clientKeys := if ?i = [] then clientKeys sv else al_set ?i ?k (clientKeys sv)\<rparr>"
      using assms(1) r added(1) by (auto simp: accept_terminal_def on_router_def bnd_def addClientKey_def mod_obj_def)
    then show ?thesis using added(2,3) assms(2) by auto
  qed
qed

definition sample_again :: "unit outcome \<times> TerminalServer \<times> world" where
  "sample_again = accept_terminal sample_tprotos (fst (snd sample_arrival), sample_world (terminal_answers @ replicate 3 (Val 0)))"

theorem registered_id_stays_witness:
  "map_of (idInfoMap (terminalRouter (fst (snd sample_again)))) ''id'' =
     map_of (idInfoMap (terminalRouter (fst (snd sample_arrival)))) ''id''"
proof -
  have "\<exists>tui. map_of (idInfoMap (terminalRouter (fst (snd sample_arrival)))) ''id'' = Some tui"
    unfolding not_None_eq [symmetric] by code_simp
  then show ?thesis
    using registered_id_stays [of sample_tprotos "fst (snd sample_arrival)" _ "fst sample_again" "fst (snd sample_again)" "snd (snd sample_again)" "''id''"]
    by (auto simp: sample_again_def)
qed

text \<open>What the documentation of protobuf says of the size of a message with one field of bytes.\<close>

definition buffer_codec_small :: "tprotos \<Rightarrow> bool" where
  "buffer_codec_small T \<longleftrightarrow> (\<forall>s. \<exists>m. SerializeToString (TerminalBuffer_codec T) (terminal_buffer s) = Some m \<and> length m \<le> length s + 16)"

lemma write_buffered:
  assumes "sodium_ok na" and "\<not> encrypted p" and "writer c = Some b" and "bw_socketFd b < 0" and "\<not> shuttingDown c"
    and "disconnectedBytes b + packet_length p \<le> DISCONNECT_BUFFER_BYTES"
  shows "\<exists>b'. Connection_writePacket na p (c, w) = (Ok (), (c\<lparr>writer := Some b'\<rparr>, w)) \<and>
    backupBuffer b' = seal na (bw_crypto b) p # backupBuffer b \<and> bw_sequenceNumber b' = bw_sequenceNumber b + 1"
proof -
  have e: "bw_encrypt na p (b, w) = (Ok (seal na (bw_crypto b) p), (b\<lparr>bw_crypto := incrementNonce (bw_crypto b)\<rparr>, w))"
    using assms(1,2) by (simp add: bw_encrypt_def seal_spec)
  have "\<exists>b'. BackedWriter_write na p (b, w) = (Ok BUFFERED_ONLY, (b', w)) \<and>
      backupBuffer b' = seal na (bw_crypto b) p # backupBuffer b \<and> bw_sequenceNumber b' = bw_sequenceNumber b + 1"
    using assms(4,6) e by (simp add: BackedWriter_write_def bnd_get_obj bnd_def outcome_prog_def)
  then show ?thesis
    using assms(3,5) by (auto simp: Connection_writePacket_def Connection_write_def bnd_get_obj bnd_def on_writer_def GetErrno_def)
qed

text \<open>
  C36: a session thread never waits for its client. While the client is away, the loop reads the terminal
  only when \<^verbatim>\<open>canBufferWrite\<close> holds, and then what it reads goes into the backup at once: the write
  returns, and the newest packet of the backup holds the bytes read.
\<close>

theorem output_never_waits:
  assumes "sodium_ok na" and "buffer_codec_small T" and "c = en_conn e" and "\<not> shuttingDown c" and "writer c = Some b"
    and "fds_agree c" and "c_socketFd c = -1" and "terminalFd \<in> set (session_fds c terminalFd)"
    and "script w = Data bs # rest" and "bs \<noteq> []"
  shows "\<exists>e' b' m w'. terminal_output na T terminalFd (e, w) = (Ok None, (e', w')) \<and> writer (en_conn e') = Some b' \<and>
    backupBuffer b' = seal na (bw_crypto b) (mkPacket TERMINAL_BUFFER m) # backupBuffer b \<and>
    SerializeToString (TerminalBuffer_codec T) (terminal_buffer (take TS_BUF_SIZE bs)) = Some m \<and> script w' = rest"
proof -
  let ?bs = "take TS_BUF_SIZE bs"
  obtain m where m: "SerializeToString (TerminalBuffer_codec T) (terminal_buffer ?bs) = Some m" "length m \<le> length ?bs + 16"
    using assms(2) unfolding buffer_codec_small_def by blast
  have fd: "bw_socketFd b < 0" using assms(5-7) by (simp add: fds_agree_def split: option.splits)
  have "canBufferWrite (2 * int TS_BUF_SIZE) c" using assms(7,8) by (auto simp: session_fds_def split: if_splits)
  then have "disconnectedBytes b + packet_length (mkPacket TERMINAL_BUFFER m) \<le> DISCONNECT_BUFFER_BYTES"
    using assms(4,5) fd m(2) by (auto simp: canBufferWrite_def hasBufferCapacity_def packet_length_def HEADER_SIZE_def TS_BUF_SIZE_def mkPacket_def)
  note wr = write_buffered [OF assms(1) _ assms(5) fd assms(4) this]
  obtain w1 where rd: "sys_read terminalFd TS_BUF_SIZE w = (Ok (int (length ?bs), ?bs), w1)" "script w1 = rest"
    using assms(9) by (auto simp: sys_read_def bnd_def syscall_def emit_def)
  have pos: "0 < int (length ?bs)" using assms(10) by (simp add: TS_BUF_SIZE_def)
  have "\<not> encrypted (mkPacket TERMINAL_BUFFER m)" by (simp add: mkPacket_def)
  from wr [OF this, of w1] obtain b' where b': "Connection_writePacket na (mkPacket TERMINAL_BUFFER m) (c, w1) = (Ok (), (c\<lparr>writer := Some b'\<rparr>, w1))"
      "backupBuffer b' = seal na (bw_crypto b) (mkPacket TERMINAL_BUFFER m) # backupBuffer b" by blast
  have "terminal_output na T terminalFd (e, w) = (Ok None, (e\<lparr>en_conn := c\<lparr>writer := Some b'\<rparr>\<rparr>, w1))"
    using rd(1) pos m(1) b'(1) assms(3)
    by (simp add: terminal_output_def bnd_def sys_def send_proto_def protoToString_def outcome_prog_def on_con_def)
  then show ?thesis using b'(2) m(1) rd(2) by auto
qed

definition plain_tprotos :: tprotos where
  "plain_tprotos = sample_tprotos\<lparr>TerminalBuffer_codec := \<lparr>SerializeToString = (\<lambda>m. Some (get_or [] (tb_buffer m))),
     ParseFromString = (\<lambda>s. Some (terminal_buffer s)), default_message = \<lparr>tb_buffer = None\<rparr>\<rparr>\<rparr>"

definition sample_away :: Endpoint where
  "sample_away = \<lparr>en_conn = (case ServerClientConnection_new clear_sodium 0 ''id'' (-1) sample_key of Ok c \<Rightarrow> c),
     en_pf = PortForwardHandler_new 0 1\<rparr>"

theorem output_never_waits_witness:
  "\<exists>e' b' m w'. terminal_output clear_sodium plain_tprotos 6 (sample_away, sample_world [Data ''hi'']) = (Ok None, (e', w')) \<and>
     writer (en_conn e') = Some b' \<and> length (backupBuffer b') = 1"
proof -
  let ?c = "en_conn sample_away"
  have small: "buffer_codec_small plain_tprotos" by (simp add: buffer_codec_small_def plain_tprotos_def terminal_buffer_def)
  have c: "ServerClientConnection_new clear_sodium 0 ''id'' (-1) sample_key = Ok ?c"
    by (simp add: sample_away_def ServerClientConnection_new_def CryptoHandler_new_def clear_sodium_def sample_key_def KEYBYTES_def)
  have agree: "fds_agree ?c" using ServerClientConnection_new_agrees [OF c] by simp
  have conn: "\<not> shuttingDown ?c" "c_socketFd ?c = -1" by code_simp+
  have "writer ?c \<noteq> None" using ServerClientConnection_new_agrees [OF c] by simp
  then obtain b where b: "writer ?c = Some b" by blast
  have "backupBuffer (the (writer ?c)) = []" "canBufferWrite (2 * int TS_BUF_SIZE) ?c"
    by code_simp (simp add: c [unfolded ServerClientConnection_new_def] canBufferWrite_def sample_away_def
        ServerClientConnection_new_def CryptoHandler_new_def clear_sodium_def sample_key_def KEYBYTES_def
        BackedWriter_new_def hasBufferCapacity_def DISCONNECT_BUFFER_BYTES_def TS_BUF_SIZE_def)
  then have "6 \<in> set (session_fds ?c 6)" "backupBuffer b = []" using b by (simp_all add: session_fds_def)
  with output_never_waits [OF clear_sodium_ok small refl conn(1) b agree conn(2), of 6 "sample_world [Data ''hi'']" "''hi''" "[]"]
  show ?thesis by (force simp: sample_world_def)
qed

text \<open>The first packet of a client that wants a terminal, as it comes over the wire.\<close>

definition greeting :: "answer list" where
  "greeting = (let s = serialize (seal clear_sodium \<lparr>nonce = [0, 0], key = sample_key\<rparr> (mkPacket INITIAL_PAYLOAD [])) in
     [Val 1, Data (be32 (int (length s))), Val 1, Data s, Val 0, Val 22, Val 0, Val 0])"

text \<open>
  A terminal that has gone away ends the server. In a reachable state, with one client that is served, the
  write of \<^verbatim>\<open>TERMINAL_INIT\<close> to a socket that is closed throws out of the session's thread, and the
  whole process terminates.
\<close>

lemma lost_terminal_ends_server:
  "trm.reach clear_sodium welcome_protos sample_tprotos Suc (sample_served, [], [SWait 0]) \<and>
   fst (session_seg clear_sodium sample_tprotos 2 (SWait 0) (sample_served, client_world greeting)) = Abort ''std::terminate''"
proof
  show "fst (session_seg clear_sodium sample_tprotos 2 (SWait 0) (sample_served, client_world greeting)) = Abort ''std::terminate''"
    by code_simp
qed (rule served_reach)

end
