(* ===== verification/ET_UserTerminal.thy ===== *)
theory ET_UserTerminal
  imports ET_Server ET_Loop ET_Tunnel
begin

text \<open>
  The programs at the terminal's end of a session: where the server's pipe is
  (\<^verbatim>\<open>terminal/ServerFifoPath.cpp\<close>) and the loop between that pipe and the terminal
  (\<^verbatim>\<open>terminal/UserTerminalHandler.cpp\<close>), with the terminal itself (\<^verbatim>\<open>terminal/PseudoUserTerminal.hpp\<close>, the one
  implementation of \<^verbatim>\<open>UserTerminal\<close>). The lemmas show that the loop copies every byte in order.
\<close>

unbundle bit_operations_syntax

section \<open>ServerFifoPath\<close>

definition ROUTER_FIFO_BASENAME :: string where "ROUTER_FIFO_BASENAME = ''etserver.idpasskey.fifo''"
definition ROOT_FIFO_DIRECTORY :: string where "ROOT_FIFO_DIRECTORY = ''/var/run''"
definition ROOT_ROUTER_FIFO_NAME :: string where
  "ROOT_ROUTER_FIFO_NAME = ROOT_FIFO_DIRECTORY @ ''/'' @ ROUTER_FIFO_BASENAME"

record ServerFifoPath =
  pathOverride :: "string option"

definition ServerFifoPath_new :: ServerFifoPath where
  "ServerFifoPath_new = \<lparr>pathOverride = None\<rparr>"

definition setPathOverride :: "string \<Rightarrow> ServerFifoPath \<Rightarrow> ServerFifoPath outcome" where
  "setPathOverride path f = (if path = [] then Abort ''Server fifo path must not be empty'' else Ok (f\<lparr>pathOverride := Some path\<rparr>))"

definition IsRoot :: "(world, bool) prog" where
  "IsRoot = bnd sys_int (\<lambda>euid. ret (euid = 0))"

definition IsAbsolutePath :: "string \<Rightarrow> bool" where
  "IsAbsolutePath path \<longleftrightarrow> path \<noteq> [] \<and> hd path = CHR ''/''"

text \<open>\<^verbatim>\<open>getenv\<close>: the value, or a null pointer.\<close>

definition sys_getenv :: "(world, string option) prog" where
  "sys_getenv = bnd syscall (\<lambda>a. case a of Ret _ s \<Rightarrow> ret (Some s) | Err _ \<Rightarrow> ret None)"

definition GetHome :: "(world, string) prog" where
  "GetHome = bnd sys_getenv (\<lambda>home. case home of
      None \<Rightarrow> fail (Abort ''Failed to get the value of the $HOME environment variable.'')
    | Some h \<Rightarrow> if IsAbsolutePath h then ret h else fail (Abort ''Unexpected relative path for $HOME environment variable''))"

text \<open>The directory, and whether it is the default.\<close>

definition GetXdgRuntimeDir :: "(world, string \<times> bool) prog" where
  "GetXdgRuntimeDir = bnd sys_getenv (\<lambda>dataHome.
     let fallback = bnd GetHome (\<lambda>h. ret (h @ ''/.local/share'', True)) in
     case dataHome of None \<Rightarrow> fallback | Some d \<Rightarrow> if IsAbsolutePath d then ret (d, False) else fallback)"

definition TryCreateDirectory :: "string \<Rightarrow> int \<Rightarrow> (world, unit) prog" where
  "TryCreateDirectory dir mode = bnd sys_int (\<lambda>oldMode.
     bnd (emit (Note (''mkdir '' @ decimal mode @ '' '' @ dir))) (\<lambda>_.
     bnd sys_int (\<lambda>rc. bnd GetErrno (\<lambda>e.
     if rc = -1 \<and> e \<noteq> EEXIST then fail (Abort (''Unexpected result creating '' @ dir @ '': '' @ strerror e))
     else bnd sys_int (\<lambda>previous.
       if previous \<noteq> 0 then fail (Abort ''Unexpected result when restoring umask'') else ret ())))))"

text \<open>\<^verbatim>\<open>stat\<close>: the owner and the mode.\<close>

definition sys_stat :: "(world, (int \<times> int) option) prog" where
  "sys_stat = bnd syscall (\<lambda>a. case a of Err _ \<Rightarrow> ret None | Ret uid _ \<Rightarrow> bnd sys_int (\<lambda>mode. ret (Some (uid, mode))))"

definition S_ISDIR :: "int \<Rightarrow> bool" where "S_ISDIR mode \<longleftrightarrow> mode AND 61440 = 16384"

definition check_directory :: "string \<Rightarrow> (world, unit) prog" where
  "check_directory etserverDir = bnd sys_stat (\<lambda>st. case st of
      None \<Rightarrow> fail (Abort (''Failed to create server fifo directory: '' @ etserverDir))
    | Some (uid, mode) \<Rightarrow> bnd sys_int (\<lambda>euid.
        if uid \<noteq> euid then fail (Abort ''Server fifo directory must be owned by the current user'')
        else if \<not> S_ISDIR mode then fail (Abort ''Server fifo directory must be a directory'')
        else if mode AND 18 \<noteq> 0 then fail (Abort ''Server fifo directory must not provide write access to group/other'')
        else ret ()))"

definition createDirectoriesIfRequired :: "ServerFifoPath \<Rightarrow> (world, unit) prog" where
  "createDirectoriesIfRequired f =
     (if pathOverride f \<noteq> None then ret ()
      else bnd IsRoot (\<lambda>root. if root then ret () else
        bnd GetXdgRuntimeDir (\<lambda>(dir, isDefault).
        bnd (if isDefault then
               bnd GetHome (\<lambda>homeDir.
               bnd (TryCreateDirectory (homeDir @ ''/.local'') 493) (\<lambda>_.
               TryCreateDirectory (homeDir @ ''/.local/share'') 493))
             else ret ()) (\<lambda>_.
        bnd (TryCreateDirectory (dir @ ''/etserver'') 448) (\<lambda>_.
        check_directory (dir @ ''/etserver''))))))"

definition getPathForCreation :: "ServerFifoPath \<Rightarrow> (world, string) prog" where
  "getPathForCreation f = (case pathOverride f of
      Some p \<Rightarrow> ret p
    | None \<Rightarrow> bnd IsRoot (\<lambda>root. if root then ret ROOT_ROUTER_FIFO_NAME
        else bnd GetXdgRuntimeDir (\<lambda>(dir, _). ret (dir @ ''/etserver/'' @ ROUTER_FIFO_BASENAME))))"

definition getEndpointForConnect :: "ServerFifoPath \<Rightarrow> SocketEndpoint option" where
  "getEndpointForConnect f = map_option (\<lambda>p. no_endpoint\<lparr>ep_name := Some p\<rparr>) (pathOverride f)"

definition reportConnectionError :: "(world, 'a) prog" where
  "reportConnectionError = bnd GetErrno (\<lambda>e. fail (Throw (RuntimeError
     (if e = ECONNREFUSED then ''The Eternal Terminal daemon is not running. Please (re)start the et daemon on the server.''
      else ''Connection error communicating with et daemon: '' @ strerror e))))"

definition detectAndConnect :: "SocketEndpoint option \<Rightarrow> nat \<Rightarrow> (world, int) prog" where
  "detectAndConnect specificRouterEndpoint h = (case specificRouterEndpoint of
      Some ep \<Rightarrow> bnd (sh_connect h ep) (\<lambda>routerFd. if routerFd < 0 then reportConnectionError else ret routerFd)
    | None \<Rightarrow> bnd (sh_connect h (no_endpoint\<lparr>ep_name := Some ROOT_ROUTER_FIFO_NAME\<rparr>)) (\<lambda>routerFd.
        if routerFd \<ge> 0 then ret routerFd
        else bnd IsRoot (\<lambda>root.
          bnd (if \<not> root then
                 bnd GetXdgRuntimeDir (\<lambda>(dir, _).
                 sh_connect h (no_endpoint\<lparr>ep_name := Some (dir @ ''/etserver/'' @ ROUTER_FIFO_BASENAME)\<rparr>))
               else ret routerFd) (\<lambda>fd2.
          if fd2 < 0 then reportConnectionError else ret fd2))))"

section \<open>PseudoUserTerminal\<close>

text \<open>
  The terminal and its shell. \<^verbatim>\<open>new PseudoUserTerminal()\<close> makes both members zero, and \<^verbatim>\<open>setup\<close> keeps the process id in a
  variable of its own with the name of the member.
\<close>

record PseudoUserTerminal =
  put_pid :: int
  put_masterFd :: int

definition PseudoUserTerminal_new :: PseudoUserTerminal where
  "PseudoUserTerminal_new = \<lparr>put_pid = 0, put_masterFd = 0\<rparr>"

text \<open>\<^verbatim>\<open>getpwuid(getuid())->pw_dir\<close>; \<open>None\<close> is the null pointer.\<close>

definition sys_pw_dir :: "(world, string option) prog" where
  "sys_pw_dir = bnd sys_int (\<lambda>_. bnd syscall (\<lambda>a. case a of Ret _ s \<Rightarrow> ret (Some s) | Err _ \<Rightarrow> ret None))"

text \<open>In the child: it becomes the shell. The answer to \<^verbatim>\<open>execl\<close> is the error, or the end of the shell.\<close>

definition put_runTerminal :: "(world, unit) prog" where
  "put_runTerminal = bnd sys_pw_dir (\<lambda>dir. case dir of
      None \<Rightarrow> fail (Abort ''undefined: null pointer'')
    | Some d \<Rightarrow> bnd (emit (Note (''cd '' @ d))) (\<lambda>_. bnd sys_int (\<lambda>_. bnd sys_getenv (\<lambda>shell. case shell of
        None \<Rightarrow> fail (Abort ''undefined: string of a null pointer'')
      | Some sh \<Rightarrow> bnd sys_int (\<lambda>_. bnd sys_int (\<lambda>_. bnd (emit (Note (sh @ '' -l''))) (\<lambda>_.
          bnd (FATAL_FAIL sys_int) (\<lambda>_. ret ()))))))))"

definition put_setup :: "int \<Rightarrow> PseudoUserTerminal \<Rightarrow> (world, PseudoUserTerminal) prog" where
  "put_setup routerFd t = bnd sys_int (\<lambda>pid.
     if pid = -1 then fail (Abort ''Error'')
     else if pid = 0 then bnd (sys_close routerFd) (\<lambda>_. bnd put_runTerminal (\<lambda>_. fail (Exit 0)))
     else bnd sys_open (\<lambda>fd. bnd sys_int (\<lambda>flags.
       bnd (if flags \<noteq> -1 then bnd sys_int (\<lambda>_. ret ()) else ret ()) (\<lambda>_. ret (t\<lparr>put_masterFd := fd\<rparr>)))))"

definition put_handleSessionEnd :: "PseudoUserTerminal \<Rightarrow> (world, unit) prog" where
  "put_handleSessionEnd t = (if put_pid t > 0 then bnd sys_int (\<lambda>_. ret ()) else ret ())"

definition put_setInfo :: "int list \<Rightarrow> (world, int) prog" where
  "put_setInfo tmpwin = bnd (emit (Note (concat (map (\<lambda>x. '' '' @ decimal x) tmpwin)))) (\<lambda>_. sys_int)"

lemma session_end_never_waits:
  "put_setup routerFd PseudoUserTerminal_new w = (Ok t, w') \<Longrightarrow> put_handleSessionEnd t = ret ()"
  by (auto simp: put_setup_def put_handleSessionEnd_def PseudoUserTerminal_new_def elim!: bnd_eq_OkE split: if_splits)

section \<open>UserTerminalHandler\<close>

record UserTerminalHandler =
  uth_routerFd :: int
  uth_socketHandler :: nat
  uth_term :: PseudoUserTerminal
  noratelimit :: bool
  uth_shuttingDown :: bool

text \<open>The id and the passkey in \<^verbatim>\<open>id/passkey\<close>, and the message that registers them.\<close>

definition user_info :: "string \<Rightarrow> (world, TerminalUserInfo) prog" where
  "user_info idPasskey = bnd (outcome_prog (vec_at (split idPasskey CHR ''/'') 0)) (\<lambda>i.
     bnd (outcome_prog (vec_at (split idPasskey CHR ''/'') 1)) (\<lambda>passkey.
     bnd sys_int (\<lambda>uid. bnd sys_int (\<lambda>gid.
     ret \<lparr>tui_id = Some i, tui_passkey = Some passkey, tui_uid = Some uid, tui_gid = Some gid, tui_fd = None\<rparr>))))"

definition send_user_info :: "tprotos \<Rightarrow> nat \<Rightarrow> int \<Rightarrow> TerminalUserInfo \<Rightarrow> (world, unit) prog" where
  "send_user_info T h routerFd tui = catch_runtime
     (bnd (outcome_prog (protoToString (TerminalUserInfo_codec T) tui)) (\<lambda>s.
        writePacket h routerFd (mkPacket TERMINAL_USER_INFO s)))
     (\<lambda>_. fail (Abort ''Error connecting to router''))"

definition UserTerminalHandler_new ::
  "tprotos \<Rightarrow> nat \<Rightarrow> PseudoUserTerminal \<Rightarrow> bool \<Rightarrow> SocketEndpoint option \<Rightarrow> string \<Rightarrow> (world, UserTerminalHandler) prog" where
  "UserTerminalHandler_new T h t nolimit routerEndpoint idPasskey = bnd (user_info idPasskey) (\<lambda>tui.
     bnd (detectAndConnect routerEndpoint h) (\<lambda>routerFd.
     bnd (send_user_info T h routerFd tui) (\<lambda>_.
     ret \<lparr>uth_routerFd = routerFd, uth_socketHandler = h, uth_term = t, noratelimit = nolimit, uth_shuttingDown = False\<rparr>)))"

text \<open>The state of the loop: the handler and the local variables of \<^verbatim>\<open>runUserTerminal\<close>.\<close>

record UserLoop = UserTerminalHandler +
  pendingInput :: string
  lastSecond :: int
  outputPerSecond :: int

type_synonym 'a ul_prog = "(UserLoop \<times> world, 'a) prog"

text \<open>How a part of the body ends: with the next part, with \<^verbatim>\<open>continue\<close>, or with \<^verbatim>\<open>break\<close>.\<close>

datatype flow = Onward | Again | Over

definition UT_BUF_SIZE :: nat where "UT_BUF_SIZE = 16 * 1024"
definition maxPendingInput :: int where "maxPendingInput = 256 * 1024"

text \<open>The session is over: the terminal is told, and the flag is set.\<close>

definition session_end :: "flow ul_prog" where
  "session_end = bnd get_obj (\<lambda>u. bnd (sys (put_handleSessionEnd (uth_term u))) (\<lambda>_.
     bnd (mod_obj (\<lambda>u. u\<lparr>uth_shuttingDown := True\<rparr>)) (\<lambda>_. ret Over)))"

definition loop_output :: "int \<Rightarrow> flow ul_prog" where
  "loop_output masterFd = bnd (sys (sys_read masterFd UT_BUF_SIZE)) (\<lambda>rd.
     if fst rd > 0 then
       bnd (mod_obj (\<lambda>u. u\<lparr>outputPerSecond := outputPerSecond u + int (length (filter (\<lambda>c. c = CHR 0x0A) (snd rd)))\<rparr>)) (\<lambda>_.
       bnd get_obj (\<lambda>u.
       bnd (sys (writeAllOrThrow (uth_socketHandler u) (uth_routerFd u) (snd rd) False)) (\<lambda>_. ret Onward)))
     else if fst rd = 0 then session_end
     else bnd (sys GetErrno) (\<lambda>e. if e = EAGAIN \<or> e = EWOULDBLOCK then ret Again else session_end))"

text \<open>A message of the router: keys, or a new size of the window, whose fields have 16 bits.\<close>

definition set_info :: "TerminalInfo \<Rightarrow> (world, int) prog" where
  "set_info ti = put_setInfo (map (\<lambda>x. get_or 0 x mod 65536) [ti_row ti, ti_column ti, ti_width ti, ti_height ti])"

definition loop_message :: "tprotos \<Rightarrow> char \<Rightarrow> unit ul_prog" where
  "loop_message T packetType = bnd get_obj (\<lambda>u.
     if packetType = char_of_u8 TERMINAL_BUFFER then
       bnd (sys (readProto (TerminalBuffer_codec T) (uth_socketHandler u) (uth_routerFd u) False)) (\<lambda>tb.
       mod_obj (\<lambda>u. u\<lparr>pendingInput := pendingInput u @ get_or [] (tb_buffer tb)\<rparr>))
     else if packetType = char_of_u8 TERMINAL_INFO then
       bnd (sys (readProto (TerminalInfo_codec T) (uth_socketHandler u) (uth_routerFd u) False)) (\<lambda>ti.
       bnd (sys (set_info ti)) (\<lambda>_. ret ()))
     else ret ())"

definition loop_input :: "tprotos \<Rightarrow> flow ul_prog" where
  "loop_input T = bnd get_obj (\<lambda>u.
     bnd (sys (sys_read (uth_routerFd u) 1)) (\<lambda>rd. bnd (sys GetErrno) (\<lambda>e.
     if fst rd = -1 then
       (if e = EAGAIN \<or> e = EINTR then ret Again else fail (Throw (RuntimeError (''Router read error: '' @ strerror e))))
     else if fst rd = 0 then fail (Throw (RuntimeError ''Router has ended abruptly.  Killing terminal session.''))
     else bnd (loop_message T (hd (snd rd))) (\<lambda>_. ret Onward))))"

definition loop_drain :: "int \<Rightarrow> flow ul_prog" where
  "loop_drain masterFd = bnd get_obj (\<lambda>u.
     if pendingInput u = [] then ret Onward
     else bnd (sys (sys_send masterFd (pendingInput u))) (\<lambda>rc. bnd (sys GetErrno) (\<lambda>e.
       if rc > 0 then bnd (mod_obj (\<lambda>u. u\<lparr>pendingInput := drop (nat rc) (pendingInput u)\<rparr>)) (\<lambda>_. ret Onward)
       else if rc < 0 \<and> e \<noteq> EAGAIN \<and> e \<noteq> EWOULDBLOCK then session_end
       else ret Onward)))"

text \<open>The parts of the body one after the other.\<close>

definition onward :: "flow ul_prog \<Rightarrow> flow ul_prog \<Rightarrow> flow ul_prog" where
  "onward m n = bnd m (\<lambda>x. case x of Onward \<Rightarrow> n | _ \<Rightarrow> ret x)"

definition loop_body :: "tprotos \<Rightarrow> int \<Rightarrow> int list \<Rightarrow> flow ul_prog" where
  "loop_body T masterFd rfd = bnd get_obj (\<lambda>u.
     onward (if masterFd \<in> set rfd \<and> (noratelimit u \<or> outputPerSecond u < 1024) then loop_output masterFd else ret Onward)
       (onward (if uth_routerFd u \<in> set rfd then loop_input T else ret Onward) (loop_drain masterFd)))"

definition user_round :: "tprotos \<Rightarrow> int \<Rightarrow> flow ul_prog" where
  "user_round T masterFd = bnd get_obj (\<lambda>u.
     bnd (sys (isSocketWritable (uth_routerFd u))) (\<lambda>routerWritable.
     bnd (sys (sys_select (remdups ((if routerWritable then [masterFd] else []) @
            (if int (length (pendingInput u)) < maxPendingInput then [uth_routerFd u] else []))))) (\<lambda>rfd.
     bnd (sys time_now) (\<lambda>currentSecond.
     bnd (mod_obj (\<lambda>u. if lastSecond u \<noteq> currentSecond then u\<lparr>outputPerSecond := 0, lastSecond := currentSecond\<rparr> else u)) (\<lambda>_.
     catch_std (loop_body T masterFd rfd)
       (bnd (mod_obj (\<lambda>u. u\<lparr>uth_shuttingDown := True\<rparr>)) (\<lambda>_. ret Over)))))))"

lemma set_info_keeps [keeps_intros]:
  "con.keeps (set_info ti)" "sle.keeps (set_info ti)" "snn.keeps (set_info ti)" "rnn.keeps (set_info ti)"
  unfolding set_info_def put_setInfo_def by (auto intro!: keeps_intros)

lemma handleSessionEnd_keeps [keeps_intros]:
  "con.keeps (put_handleSessionEnd t)" "sle.keeps (put_handleSessionEnd t)" "snn.keeps (put_handleSessionEnd t)"
  "rnn.keeps (put_handleSessionEnd t)"
  unfolding put_handleSessionEnd_def by (auto intro!: keeps_intros)

lemma ul_keeps [keeps_intros]:
  "osle.keeps session_end" "osle.keeps (loop_output fd)" "osle.keeps (loop_message T c)" "osle.keeps (loop_input T)"
  "osle.keeps (loop_drain fd)"
proof -
  show e: "osle.keeps session_end" unfolding session_end_def by (auto intro!: keeps_intros)
  show "osle.keeps (loop_output fd)" unfolding loop_output_def by (auto intro!: keeps_intros e)
  show m: "osle.keeps (loop_message T c)" for c unfolding loop_message_def by (auto intro!: keeps_intros)
  show "osle.keeps (loop_input T)" unfolding loop_input_def by (auto intro!: keeps_intros m)
  show "osle.keeps (loop_drain fd)" unfolding loop_drain_def by (auto intro!: keeps_intros e)
qed

lemma onward_keeps [keeps_intros]: "osle.keeps m \<Longrightarrow> osle.keeps n \<Longrightarrow> osle.keeps (onward m n)"
  unfolding onward_def by (auto intro!: keeps_intros split: flow.split)

lemma catch_std_keeps [keeps_intros]:
  assumes "osle.keeps m" and "osle.keeps h"
  shows "osle.keeps (catch_std m h)"
proof (rule osle.keepsI)
  fix s q t assume run: "catch_std m h s = (q, t)"
  obtain r u where m: "m s = (r, u)" by (cases "m s")
  then have "(\<exists>e. r = Throw e) \<and> h u = (q, t) \<or> t = u" using run by (cases r) (auto simp: catch_std_def)
  then show "obj_script_le s t"
    using osle.keepsD [OF assms(1) m] osle.keepsD [OF assms(2), of u] osle.R_trans by blast
qed

lemma user_round_keeps [keeps_intros]: "osle.keeps (user_round T fd)"
  unfolding user_round_def loop_body_def by (auto intro!: keeps_intros)

lemma read_flag_shrinks: "read_flag w = (Ok b, w') \<Longrightarrow> length (script w') < length (script w)"
  unfolding read_flag_def by (auto elim!: bnd_eq_OkE dest!: script_shrinks split: answer.splits)

function user_loop :: "tprotos \<Rightarrow> int \<Rightarrow> unit ul_prog" where
  "user_loop T masterFd s = bnd (sys read_flag) (\<lambda>stop s1.
     if stop \<or> uth_shuttingDown (fst s1) then (Ok (), s1)
     else bnd (user_round T masterFd) (\<lambda>x s2. if x = Over then (Ok (), s2) else user_loop T masterFd s2) s1) s"
  by pat_completeness auto
termination
proof (relation "measure (\<lambda>(T, fd, s). length (script (snd s)))", goal_cases)
  case (2 T fd s stop s1 x s2)
  have "length (script (snd s1)) < length (script (snd s))"
    using 2(1) read_flag_shrinks by (auto simp: sys_def split: prod.splits)
  moreover have "length (script (snd s2)) \<le> length (script (snd s1))"
    using osle.keepsD [OF user_round_keeps 2(3)] by (simp add: obj_script_le_def script_le_def)
  ultimately show ?case by simp
qed simp

declare user_loop.simps [simp del]

definition runUserTerminal :: "tprotos \<Rightarrow> UserTerminalHandler \<Rightarrow> int \<Rightarrow> (world, UserLoop) prog" where
  "runUserTerminal T u masterFd = bnd time_now (\<lambda>now w.
     case bnd (user_loop T masterFd) (\<lambda>_. sys sys_int)
       (UserTerminalHandler.extend u (UserLoop.fields [] now 0), w) of
       (Ok _, (l, w')) \<Rightarrow> (Ok l, w')
     | (q, (l, w')) \<Rightarrow> (lift_bad q, w'))"

text \<open>Waiting for \<^verbatim>\<open>TERMINAL_INIT\<close>, and the environment it gives.\<close>

primrec set_environment :: "string list \<Rightarrow> string list \<Rightarrow> (world, unit) prog" where
  "set_environment [] values = ret ()"
| "set_environment (n # names) values = bnd (outcome_prog (vec_at values 0)) (\<lambda>v.
     bnd (emit (Note (n @ ''='' @ v))) (\<lambda>_. set_environment names (tl values)))"

lemma readPacket_shrinks:
  assumes "readPacket h fd w = (Ok r, w')"
  shows "length (script w') < length (script w)"
proof -
  define rest where "rest = (\<lambda>lb. let length' = le64_dec lb in
     if length' < 0 \<or> length' > MAX_MESSAGE then
       fail (Throw (RuntimeError ''Invalid size (<0 or >128 MB)''))
     else if length' = 0 then ret None
     else bnd (readAll h fd (nat length') False) (\<lambda>s.
       case Packet_of_string s of Ok p \<Rightarrow> ret (Some p) | r \<Rightarrow> fail (lift_bad r)))"
  have "readPacket h fd = bnd time_now (\<lambda>t. bnd (readAll_loop h fd 8 False t []) rest)"
    by (simp add: readPacket_def readAll_def rest_def bnd_assoc)
  then obtain t w1 where t: "time_now w = (Ok t, w1)" and r: "bnd (readAll_loop h fd 8 False t []) rest w1 = (Ok r, w')"
    using assms by (auto elim: bnd_eq_OkE)
  have "sle.keeps (bnd (readAll_loop h fd 8 False t []) rest)"
    unfolding rest_def Let_def by (auto intro!: keeps_intros split: outcome.split)
  from sle_length [OF this r] show ?thesis
    using t by (auto simp: time_now_def elim!: bnd_eq_OkE dest!: script_shrinks split: answer.splits)
qed

function await_init :: "tprotos \<Rightarrow> nat \<Rightarrow> int \<Rightarrow> (world, unit) prog" where
  "await_init T h routerFd w = bnd (readPacket h routerFd) (\<lambda>packet w1. case packet of
      None \<Rightarrow> await_init T h routerFd w1
    | Some p \<Rightarrow>
        (if header p \<noteq> TERMINAL_INIT then fail (Abort ''Invalid terminal init packet header'')
         else bnd (outcome_prog (stringToProto (TermInit_codec T) (payload p))) (\<lambda>ti.
           set_environment (environmentnames ti) (environmentvalues ti))) w1) w"
  by pat_completeness auto
termination
  using readPacket_shrinks by (relation "measure (\<lambda>(T, h, fd, w). length (script w))") auto

declare await_init.simps [simp del]

definition UserTerminalHandler_run :: "tprotos \<Rightarrow> UserTerminalHandler \<Rightarrow> (world, UserLoop) prog" where
  "UserTerminalHandler_run T u = bnd (await_init T (uth_socketHandler u) (uth_routerFd u)) (\<lambda>_.
     bnd (put_setup (uth_routerFd u) (uth_term u)) (\<lambda>t.
     bnd (runUserTerminal T (u\<lparr>uth_term := t\<rparr>) (put_masterFd t)) (\<lambda>l.
     bnd (sys_close (uth_routerFd u)) (\<lambda>_. ret l))))"

definition UserTerminalHandler_shutdown :: "UserTerminalHandler \<Rightarrow> UserTerminalHandler" where
  "UserTerminalHandler_shutdown u = u\<lparr>uth_shuttingDown := True\<rparr>"

section \<open>Traffic between the terminal and the router\<close>

text \<open>
  \<open>io m r sm sr rm rr\<close>: the bytes \<open>sm\<close> went to the terminal \<open>m\<close> and \<open>sr\<close> to the router \<open>r\<close>, \<open>rm\<close> came from the
  terminal and \<open>rr\<close> from the router, and nothing else moved.
\<close>

definition io :: "int \<Rightarrow> int \<Rightarrow> string \<Rightarrow> string \<Rightarrow> string \<Rightarrow> string \<Rightarrow> world \<Rightarrow> world \<Rightarrow> bool" where
  "io m r sm sr rm rr w w' \<longleftrightarrow>
     (\<forall>f. sent_on f (trace w') = sent_on f (trace w) @ (if f = m then sm else if f = r then sr else []) \<and>
          received_on f (trace w') = received_on f (trace w) @ (if f = m then rm else if f = r then rr else []))"

lemma io_trans:
  "io m r a b c d u v \<Longrightarrow> io m r a' b' c' d' v w \<Longrightarrow> io m r (a @ a') (b @ b') (c @ c') (d @ d') u w"
  by (simp add: io_def)

lemma io_router: "m \<noteq> r \<Longrightarrow> sends r b w w' \<Longrightarrow> receives r d w w' \<Longrightarrow> io m r [] b [] d w w'"
  by (simp add: io_def sends_def receives_def)

lemma io_master: "sends m a w w' \<Longrightarrow> receives m c w w' \<Longrightarrow> io m r a [] c [] w w'"
  by (simp add: io_def sends_def receives_def)

lemma io_quiet: "snn.keeps p \<Longrightarrow> rnn.keeps p \<Longrightarrow> p w = (q, w') \<Longrightarrow> io m r [] [] [] [] w w'"
  using snn_sends [of p w q w' m] rnn_receives [of p w q w' m] by (simp add: io_def sends_def receives_def)

lemma io_refl [simp]: "io m r [] [] [] [] w w"
  by (simp add: io_def)

text \<open>The messages in a stretch of what the router sent, and the keys in them.\<close>

inductive keys_in :: "tprotos \<Rightarrow> string \<Rightarrow> string \<Rightarrow> bool" for T where
  keys_none: "keys_in T [] []"
| keys_buffer: "keys_in T bs ks \<Longrightarrow> frame_of (TerminalBuffer_codec T) tb fr \<Longrightarrow>
     keys_in T (bs @ char_of_u8 TERMINAL_BUFFER # fr) (ks @ get_or [] (tb_buffer tb))"
| keys_info: "keys_in T bs ks \<Longrightarrow> frame_of (TerminalInfo_codec T) ti fr \<Longrightarrow>
     keys_in T (bs @ char_of_u8 TERMINAL_INFO # fr) ks"
| keys_other: "keys_in T bs ks \<Longrightarrow> c \<noteq> char_of_u8 TERMINAL_BUFFER \<Longrightarrow> c \<noteq> char_of_u8 TERMINAL_INFO \<Longrightarrow>
     keys_in T (bs @ [c]) ks"

text \<open>
  While the loop runs, what went to the terminal and what is pending are together the keys received,
  and what came from the terminal went to the router. After the last round a part may be missing.
\<close>

definition exact :: "tprotos \<Rightarrow> int \<Rightarrow> int \<Rightarrow> world \<Rightarrow> UserLoop \<times> world \<Rightarrow> bool" where
  "exact T m r w0 s \<longleftrightarrow> uth_routerFd (fst s) = r \<and>
     (\<exists>sm out bs. io m r sm out out bs w0 (snd s) \<and> keys_in T bs (sm @ pendingInput (fst s)))"

definition ended :: "tprotos \<Rightarrow> int \<Rightarrow> int \<Rightarrow> world \<Rightarrow> world \<Rightarrow> bool" where
  "ended T m r w0 w \<longleftrightarrow> (\<exists>sm sr rm rr bs ks. io m r sm sr rm rr w0 w \<and> keys_in T bs ks \<and>
     prefix bs rr \<and> prefix sm ks \<and> prefix sr rm)"

definition after :: "tprotos \<Rightarrow> int \<Rightarrow> int \<Rightarrow> world \<Rightarrow> flow outcome \<Rightarrow> UserLoop \<times> world \<Rightarrow> bool" where
  "after T m r w0 q t \<longleftrightarrow> (case q of
      Ok x \<Rightarrow> (if x = Over then ended T m r w0 (snd t) else exact T m r w0 t)
    | Throw e \<Rightarrow> ended T m r w0 (snd t) | _ \<Rightarrow> True)"

lemma exact_ended: "exact T m r w0 s \<Longrightarrow> ended T m r w0 (snd s)"
  unfolding exact_def ended_def by (metis prefix_order.refl prefix_append prefixI)

lemma exact_step:
  assumes "exact T m r w0 (u, w)" and "io m r sm out out bs w w'" and "uth_routerFd u' = r"
    and "\<And>bs0 ks. keys_in T bs0 ks \<Longrightarrow> keys_in T (bs0 @ bs) (ks @ k)" and "pendingInput u @ k = sm @ pendingInput u'"
  shows "exact T m r w0 (u', w')"
proof -
  obtain sm0 out0 bs0 where e: "io m r sm0 out0 out0 bs0 w0 w" "keys_in T bs0 (sm0 @ pendingInput u)"
    using assms(1) by (auto simp: exact_def)
  have "keys_in T (bs0 @ bs) ((sm0 @ sm) @ pendingInput u')" using assms(4) [OF e(2)] assms(5) by simp
  moreover have "io m r (sm0 @ sm) (out0 @ out) (out0 @ out) (bs0 @ bs) w0 w'" by (rule io_trans [OF e(1) assms(2)])
  ultimately show ?thesis
    using assms(3) unfolding exact_def by (intro conjI exI [of _ "sm0 @ sm"] exI [of _ "out0 @ out"] exI [of _ "bs0 @ bs"]) simp_all
qed

text \<open>Nothing typed, nothing read from the router: output only.\<close>

lemmas exact_output = exact_step [where bs = "[]" and k = "[]" and sm = "[]", simplified]

lemma ended_step:
  assumes "exact T m r w0 (u, w)" and "io m r [] sr rm bs w w'" and "prefix sr rm"
  shows "ended T m r w0 w'"
proof -
  obtain sm0 out0 bs0 where e: "io m r sm0 out0 out0 bs0 w0 w" "keys_in T bs0 (sm0 @ pendingInput u)"
    using assms(1) by (auto simp: exact_def)
  from io_trans [OF e(1) assms(2)] have "io m r sm0 (out0 @ sr) (out0 @ rm) (bs0 @ bs) w0 w'" by simp
  then show ?thesis using e(2) assms(3) unfolding ended_def by (metis prefixI same_prefix_prefix)
qed

section \<open>The parts of a round\<close>

definition obj_consumes :: "'o \<times> world \<Rightarrow> 'o \<times> world \<Rightarrow> bool" where
  "obj_consumes s t \<longleftrightarrow> consumes (snd s) (snd t)"

interpretation ocn: frame obj_consumes
  by unfold_locales (auto simp: obj_consumes_def intro: con.R_refl con.R_trans)

declare ocn.keeps_rules [keeps_intros]

lemma ocn_basic [keeps_intros]:
  "ocn.keeps get_obj" "ocn.keeps (mod_obj f)" "con.keeps m \<Longrightarrow> ocn.keeps (sys m)" "ocn.keeps (outcome_prog r)"
  by (auto simp: ocn.keeps_def obj_consumes_def get_obj_def mod_obj_def sys_def outcome_prog_def con.R_refl
      dest: con.keepsD split: prod.splits)

lemma ocn_parts [keeps_intros]:
  "ocn.keeps session_end" "ocn.keeps (loop_output fd)" "ocn.keeps (loop_input T)" "ocn.keeps (loop_drain fd)"
  unfolding session_end_def loop_output_def loop_input_def loop_message_def loop_drain_def
  by (auto intro!: keeps_intros)

lemma ended_quiet: "exact T m r w0 (u, w) \<Longrightarrow> io m r [] [] [] [] w w' \<Longrightarrow> ended T m r w0 w'"
  by (rule ended_step) auto

lemma session_end_after:
  assumes "exact T m r w0 (u, w)" and "session_end (u, w) = (q, (u', w'))"
  shows "after T m r w0 q (u', w')"
proof -
  have "io m r [] [] [] [] w w'"
    using assms(2) io_quiet [OF handleSessionEnd_keeps(3,4)] unfolding session_end_def bnd_get_obj
    by (cases rule: bnd_sys_cases) (auto simp: bnd_mod)
  then have "ended T m r w0 w'" by (rule ended_quiet [OF assms(1)])
  moreover have "q \<noteq> Ok x" if "x \<noteq> Over" for x
    using assms(2) that unfolding session_end_def bnd_get_obj by (cases rule: bnd_sys_cases) (auto simp: bnd_mod)
  ultimately show ?thesis by (auto simp: after_def split: outcome.splits)
qed

lemma io_read:
  assumes "sys_read fd n w = (q, w')"
  obtains c where "receives fd c w w'" "sends fd [] w w'" "length c \<le> n" "\<And>e. q \<noteq> Throw e"
    "\<And>p. q = Ok p \<Longrightarrow> snd p = c \<and> (fst p = int (length c) \<or> fst p = -1 \<and> c = [])"
  using postD [OF sys_read_result assms] snn_sends [OF sys_read_keeps(4) assms]
  unfolding read_result_def by metis

lemma loop_output_after:
  assumes "m \<noteq> r" and "exact T m r w0 (u, w)" and "loop_output m (u, w) = (q, (u', w'))" and "\<not> stalls w w'"
  shows "after T m r w0 q (u', w')"
  using assms(3) unfolding loop_output_def
proof (cases rule: bnd_sys_cases)
  case (val rd w1)
  obtain c where c: "receives m c w w1" "sends m [] w w1" "length c \<le> UT_BUF_SIZE"
      "snd rd = c" "fst rd = int (length c) \<or> fst rd = -1 \<and> c = []"
    using io_read [OF val(1)] by metis
  have i: "io m r [] [] c [] w w1" using io_master [OF c(2,1)] .
  show ?thesis
  proof (cases "fst rd > 0")
    case True
    let ?n = "outputPerSecond u + int (length (filter (\<lambda>c. c = CHR 0x0A) (snd rd)))"
    have fd: "uth_routerFd u = r" using assms(2) by (simp add: exact_def)
    have wr: "bnd (sys (writeAllOrThrow (uth_socketHandler u) r c False)) (\<lambda>_. ret Onward) (u\<lparr>outputPerSecond := ?n\<rparr>, w1) = (q, (u', w'))"
      using val(2) True c(4) fd by (simp add: bnd_mod bnd_get_obj)
    have len: "length c < 2 ^ 31" using c(3) by (simp add: UT_BUF_SIZE_def)
    have cons: "consumes w w1" "writeAllOrThrow (uth_socketHandler u) r c False w1 = (q1, w2) \<Longrightarrow> consumes w1 w2" for q1 w2
      using con.keepsD [OF sys_read_keeps(1) val(1)] con.keepsD [OF writeAllOrThrow_keeps(1)] by blast+
    from wr show ?thesis
    proof (cases rule: bnd_sys_cases)
      case (val x w2)
      then have e: "q = Ok Onward" "u' = u\<lparr>outputPerSecond := ?n\<rparr>" "w' = w2" by auto
      have "\<not> stalls w1 w2" using stalls_mono [OF cons(1) cons(2) [OF val(1)]] assms(4) e(3) by blast
      then have s: "sends r c w1 w2" using writeAllOrThrow_sends [OF _ len] val(1) by auto
      have "io m r [] c [] [] w1 w2"
        using io_router [OF assms(1) s] rnn_receives [OF writeAllOrThrow_keeps(4) val(1)] by blast
      from io_trans [OF i this] show ?thesis
        using exact_output [OF assms(2)] e fd by (simp add: after_def)
    next
      case (bad p w2)
      have "\<not> stalls w1 w2" using stalls_mono [OF cons(1) cons(2) [OF bad(1)]] assms(4) bad(4) by auto
      then obtain j where j: "sends r (take j c) w1 w2"
        using postD [OF writeAllOrThrow_result [OF len] bad(1)] by (elim all_resultD) auto
      have "io m r [] (take j c) [] [] w1 w2"
        using io_router [OF assms(1) j] rnn_receives [OF writeAllOrThrow_keeps(4) bad(1)] by blast
      from io_trans [OF i this] have "ended T m r w0 w2" using ended_step [OF assms(2), of "take j c" c] take_is_prefix [of j c] by simp
      then show ?thesis using bad by (cases p) (auto simp: after_def is_ok_def)
    qed
  next
    case False
    then have "c = []" using c(5) by auto
    then have i0: "io m r [] [] [] [] w w1" using i by simp
    have e1: "exact T m r w0 (u, w1)" using exact_output [OF assms(2), of "[]" w1 u] i0 assms(2) by (simp add: exact_def)
    then have "session_end (u, w1) = (q, (u', w')) \<or> q = Ok Again \<and> (u', w') = (u, w1)"
      using val(2) False by (auto split: if_splits)
    then show ?thesis using session_end_after [OF e1] e1 by (auto simp: after_def [of _ _ _ _ "Ok Again"])
  qed
next
  case (bad p w1)
  then show ?thesis using io_read [OF bad(1)] by (cases p) (auto simp: after_def is_ok_def)
qed

lemma keys_in_message:
  "frame_of (TerminalBuffer_codec T) tb fr \<Longrightarrow> keys_in T bs ks \<Longrightarrow>
     keys_in T (bs @ char_of_u8 TERMINAL_BUFFER # fr) (ks @ get_or [] (tb_buffer tb))"
  "frame_of (TerminalInfo_codec T) ti fr \<Longrightarrow> keys_in T bs ks \<Longrightarrow> keys_in T (bs @ char_of_u8 TERMINAL_INFO # fr) (ks @ [])"
  "c \<noteq> char_of_u8 TERMINAL_BUFFER \<Longrightarrow> c \<noteq> char_of_u8 TERMINAL_INFO \<Longrightarrow> keys_in T bs ks \<Longrightarrow> keys_in T (bs @ [c]) (ks @ [])"
  by (auto intro: keys_in.intros)

lemma io_proto:
  assumes "m \<noteq> r" and "codec_ok C" and "readProto C h r tm w = (q, w')"
  obtains bs where "io m r [] [] [] bs w w'" "\<And>x. q = Ok x \<Longrightarrow> frame_of C x bs"
  using postD [OF readProto_receives [OF assms(2)] assms(3)] io_router [OF assms(1) snn_sends [OF readProto_keeps(4) assms(3)]]
  by metis

lemma loop_message_after:
  assumes "m \<noteq> r" and "codec_ok (TerminalBuffer_codec T)" and "codec_ok (TerminalInfo_codec T)"
    and "exact T m r w0 (u, w)" and "io m r [] [] [] [c] w w1" and "loop_message T c (u, w1) = (q, (u', w'))"
  shows "(\<forall>x. q = Ok x \<longrightarrow> exact T m r w0 (u', w')) \<and> (\<forall>e. q = Throw e \<longrightarrow> ended T m r w0 w')"
proof -
  have fd: "uth_routerFd u = r" using assms(4) by (simp add: exact_def)
  note step = exact_step [OF assms(4)]
  consider (buffer) "c = char_of_u8 TERMINAL_BUFFER" | (info) "c \<noteq> char_of_u8 TERMINAL_BUFFER" "c = char_of_u8 TERMINAL_INFO"
    | (other) "c \<noteq> char_of_u8 TERMINAL_BUFFER" "c \<noteq> char_of_u8 TERMINAL_INFO" by blast
  then show ?thesis
  proof cases
    case buffer
    then have "bnd (sys (readProto (TerminalBuffer_codec T) (uth_socketHandler u) r False)) (\<lambda>tb.
       mod_obj (\<lambda>u. u\<lparr>pendingInput := pendingInput u @ get_or [] (tb_buffer tb)\<rparr>)) (u, w1) = (q, (u', w'))"
      using assms(6) fd by (simp add: loop_message_def bnd_get_obj)
    then show ?thesis
    proof (cases rule: bnd_sys_cases)
      case (val tb w2)
      obtain bs where bs: "io m r [] [] [] bs w1 w2" "frame_of (TerminalBuffer_codec T) tb bs"
        using io_proto [OF assms(1,2) val(1)] by metis
      then have i: "io m r [] [] [] (char_of_u8 TERMINAL_BUFFER # bs) w w2" using io_trans [OF assms(5) bs(1)] buffer by simp
      show ?thesis
        using step [OF i _ keys_in_message(1) [OF bs(2)], of u'] val(2) fd by (auto simp: mod_obj_def)
    next
      case (bad p w2)
      obtain bs where "io m r [] [] [] bs w1 w2" using io_proto [OF assms(1,2) bad(1)] by metis
      from io_trans [OF assms(5) this] have "ended T m r w0 w2" by (intro ended_step [OF assms(4), of "[]" "[]" "[c] @ bs"]) simp_all
      then show ?thesis using bad by (cases p) (auto simp: is_ok_def)
    qed
  next
    case info
    then have "bnd (sys (readProto (TerminalInfo_codec T) (uth_socketHandler u) r False)) (\<lambda>ti.
       bnd (sys (set_info ti)) (\<lambda>_. ret ())) (u, w1) = (q, (u', w'))"
      using assms(6) fd by (simp add: loop_message_def bnd_get_obj)
    then show ?thesis
    proof (cases rule: bnd_sys_cases)
      case (val ti w2)
      obtain bs where bs: "io m r [] [] [] bs w1 w2" "frame_of (TerminalInfo_codec T) ti bs"
        using io_proto [OF assms(1,3) val(1)] by metis
      from val(2) have "u' = u" and q: "io m r [] [] [] [] w2 w'"
        using io_quiet [OF set_info_keeps(3,4)] by (cases rule: bnd_sys_cases; auto)+
      have i: "io m r [] [] [] (char_of_u8 TERMINAL_INFO # bs) w w'" using io_trans [OF io_trans [OF assms(5) bs(1)] q] info by simp
      then show ?thesis
        using step [OF i _ keys_in_message(2) [OF bs(2)], of u] ended_step [OF assms(4) i] fd \<open>u' = u\<close> by simp
    next
      case (bad p w2)
      obtain bs where "io m r [] [] [] bs w1 w2" using io_proto [OF assms(1,3) bad(1)] by metis
      from io_trans [OF assms(5) this] have "ended T m r w0 w2" by (intro ended_step [OF assms(4), of "[]" "[]" "[c] @ bs"]) simp_all
      then show ?thesis using bad by (cases p) (auto simp: is_ok_def)
    qed
  next
    case other
    then have "q = Ok ()" "u' = u" "w' = w1" using assms(6) by (auto simp: loop_message_def bnd_get_obj)
    then show ?thesis using step [OF assms(5) _ keys_in_message(3) [OF other], of u] fd by simp
  qed
qed

lemma loop_input_after:
  assumes "m \<noteq> r" and "codec_ok (TerminalBuffer_codec T)" and "codec_ok (TerminalInfo_codec T)"
    and "exact T m r w0 (u, w)" and "loop_input T (u, w) = (q, (u', w'))"
  shows "after T m r w0 q (u', w')"
proof -
  have fd: "uth_routerFd u = r" using assms(4) by (simp add: exact_def)
  from assms(5) have "bnd (sys (sys_read r 1)) (\<lambda>rd. bnd (sys GetErrno) (\<lambda>e.
     if fst rd = -1 then
       (if e = EAGAIN \<or> e = EINTR then ret Again else fail (Throw (RuntimeError (''Router read error: '' @ strerror e))))
     else if fst rd = 0 then fail (Throw (RuntimeError ''Router has ended abruptly.  Killing terminal session.''))
     else bnd (loop_message T (hd (snd rd))) (\<lambda>_. ret Onward))) (u, w) = (q, (u', w'))"
    using fd by (simp add: loop_input_def bnd_get_obj)
  then show ?thesis
  proof (cases rule: bnd_sys_cases)
    case (val rd w1)
    obtain c where c: "receives r c w w1" "sends r [] w w1" "length c \<le> 1"
        "snd rd = c" "fst rd = int (length c) \<or> fst rd = -1 \<and> c = []"
      using io_read [OF val(1)] by metis
    have i: "io m r [] [] [] c w w1" using io_router [OF assms(1) c(2,1)] .
    show ?thesis
    proof (cases "c = []")
      case True
      have "exact T m r w0 (u, w1)" "ended T m r w0 w1"
        using exact_output [OF assms(4), of "[]" w1 u] ended_quiet [OF assms(4)] i True fd by simp_all
      then show ?thesis using val(2) True c(4,5) by (auto simp: after_def split: if_splits)
    next
      case False
      then obtain b where b: "c = [b]" using c(3) by (cases c) auto
      then have rest: "bnd (loop_message T b) (\<lambda>_. ret Onward) (u, w1) = (q, (u', w'))"
        using val(2) c(4,5) by auto
      obtain p u1 w2 where lm: "loop_message T b (u, w1) = (p, (u1, w2))" by (metis surj_pair)
      have "(u', w') = (u1, w2)" "q = (case p of Ok _ \<Rightarrow> Ok Onward | _ \<Rightarrow> lift_bad p)"
        using rest lm by (cases p; simp add: bnd_def)+
      then show ?thesis
        using loop_message_after [OF assms(1-4) i [unfolded b] lm] by (cases p) (auto simp: after_def)
    qed
  next
    case (bad p w1)
    then show ?thesis using io_read [OF bad(1)] by (cases p) (auto simp: after_def is_ok_def)
  qed
qed

lemma loop_drain_after:
  assumes "exact T m r w0 (u, w)" and "loop_drain m (u, w) = (q, (u', w'))"
  shows "after T m r w0 q (u', w')"
proof (cases "pendingInput u = []")
  case True
  then show ?thesis using assms by (auto simp: loop_drain_def bnd_get_obj after_def)
next
  case False
  have fd: "uth_routerFd u = r" using assms(1) by (simp add: exact_def)
  from False assms(2) have "bnd (sys (sys_send m (pendingInput u))) (\<lambda>rc. bnd (sys GetErrno) (\<lambda>e.
       if rc > 0 then bnd (mod_obj (\<lambda>u. u\<lparr>pendingInput := drop (nat rc) (pendingInput u)\<rparr>)) (\<lambda>_. ret Onward)
       else if rc < 0 \<and> e \<noteq> EAGAIN \<and> e \<noteq> EWOULDBLOCK then session_end
       else ret Onward)) (u, w) = (q, (u', w'))"
    by (simp add: loop_drain_def bnd_get_obj)
  then show ?thesis
  proof (cases rule: bnd_sys_cases)
    case (val rc w1)
    obtain k where k: "sends m (take k (pendingInput u)) w w1" "rc < 0 \<and> k = 0 \<or> rc = int k"
      using sys_send_sends [OF val(1)] by metis
    have i: "io m r (take k (pendingInput u)) [] [] [] w w1"
      using io_master [OF k(1) rnn_receives [OF sys_send_keeps(4) val(1)]] .
    show ?thesis
    proof (cases "rc > 0")
      case True
      then have "q = Ok Onward" "u' = u\<lparr>pendingInput := drop k (pendingInput u)\<rparr>" "w' = w1"
        using val(2) k(2) by (auto simp: bnd_mod)
      then show ?thesis
        using exact_step [OF assms(1) i, of u' "[]"] fd by (simp add: after_def)
    next
      case False
      then have "io m r [] [] [] [] w w1" using i k(2) by (cases "k = 0") auto
      then have e1: "exact T m r w0 (u, w1)" using exact_output [OF assms(1), of "[]" w1 u] fd by simp
      have "session_end (u, w1) = (q, (u', w')) \<or> q = Ok Onward \<and> (u', w') = (u, w1)"
        using val(2) False by (auto split: if_splits)
      then show ?thesis using session_end_after [OF e1] e1 by (auto simp: after_def [of _ _ _ _ "Ok Onward"])
    qed
  next
    case (bad p w1)
    have "\<And>e. p \<noteq> Throw e" using bad(1) by (auto simp: sys_send_def bnd_def syscall_def emit_def split: list.splits answer.splits)
    then show ?thesis using bad by (cases p) (auto simp: after_def is_ok_def)
  qed
qed

section \<open>A round and the loop\<close>

text \<open>A part keeps the account, unless the write to the router has stalled.\<close>

definition keeps_account :: "tprotos \<Rightarrow> int \<Rightarrow> int \<Rightarrow> world \<Rightarrow> flow ul_prog \<Rightarrow> bool" where
  "keeps_account T m r w0 p \<longleftrightarrow> ocn.keeps p \<and>
     (\<forall>s q t. exact T m r w0 s \<longrightarrow> p s = (q, t) \<longrightarrow> \<not> stalls (snd s) (snd t) \<longrightarrow> after T m r w0 q t)"

lemma keeps_accountD:
  "keeps_account T m r w0 p \<Longrightarrow> exact T m r w0 s \<Longrightarrow> p s = (q, t) \<Longrightarrow> \<not> stalls (snd s) (snd t) \<Longrightarrow> after T m r w0 q t"
  unfolding keeps_account_def by blast

lemma account_get:
  assumes "\<And>u. keeps_account T m r w0 (f u)"
  shows "keeps_account T m r w0 (bnd get_obj f)"
  unfolding keeps_account_def
proof (intro conjI allI impI)
  show "ocn.keeps (bnd get_obj f)" using assms by (auto simp: keeps_account_def intro!: keeps_intros)
  fix s q t assume "exact T m r w0 s" and "bnd get_obj f s = (q, t)" and "\<not> stalls (snd s) (snd t)"
  then show "after T m r w0 q t" using keeps_accountD [OF assms, of s "fst s"] by (cases s) (simp add: bnd_get_obj)
qed

lemma account_if: "keeps_account T m r w0 p \<Longrightarrow> keeps_account T m r w0 n \<Longrightarrow> keeps_account T m r w0 (if b then p else n)"
  by simp

lemma account_ret: "keeps_account T m r w0 (ret Onward)"
  unfolding keeps_account_def by (auto intro!: keeps_intros simp: after_def)

lemma account_onward:
  assumes "keeps_account T m r w0 p" and "keeps_account T m r w0 n"
  shows "keeps_account T m r w0 (onward p n)"
  unfolding keeps_account_def
proof (intro conjI allI impI)
  have k: "ocn.keeps p" "ocn.keeps n" using assms by (simp_all add: keeps_account_def)
  then show "ocn.keeps (onward p n)" unfolding onward_def by (auto intro!: keeps_intros split: flow.split)
  fix s q t assume e: "exact T m r w0 s" and run: "onward p n s = (q, t)" and st: "\<not> stalls (snd s) (snd t)"
  obtain q1 u where p: "p s = (q1, u)" by (cases "p s")
  note c1 = ocn.keepsD [OF k(1) p, unfolded obj_consumes_def]
  show "after T m r w0 q t"
  proof (cases "q1 = Ok Onward")
    case True
    then have n: "n u = (q, t)" using run p by (simp add: onward_def bnd_def)
    then have "\<not> stalls (snd s) (snd u)" "\<not> stalls (snd u) (snd t)"
      using stalls_mono [OF c1 ocn.keepsD [OF k(2) n, unfolded obj_consumes_def]] st by blast+
    then show ?thesis
      using keeps_accountD [OF assms(1) e p] keeps_accountD [OF assms(2) _ n] True by (simp add: after_def [of _ _ _ _ "Ok Onward"])
  next
    case False
    then have "t = u" "q = q1 \<or> \<not> is_ok q1 \<and> q = lift_bad q1"
      using run p by (cases q1; auto simp: onward_def bnd_def is_ok_def split: flow.splits)+
    then show ?thesis
      using keeps_accountD [OF assms(1) e p] st by (cases q1) (auto simp: after_def is_ok_def)
  qed
qed

lemma select_quiet: "snn.keeps (sys_select fds)" "rnn.keeps (sys_select fds)"
  and select_con: "con.keeps (sys_select fds)"
proof -
  have "snn.keeps (isset_each l)" "rnn.keeps (isset_each l)" "con.keeps (isset_each l)" for l
    by (induction l) (simp_all only: isset_each.simps, (intro keeps_intros | assumption)+)
  then show "snn.keeps (sys_select fds)" "rnn.keeps (sys_select fds)" "con.keeps (sys_select fds)"
    unfolding sys_select_def by (auto intro!: keeps_intros)
qed

lemma account_body:
  assumes "m \<noteq> r" and "codec_ok (TerminalBuffer_codec T)" and "codec_ok (TerminalInfo_codec T)"
  shows "keeps_account T m r w0 (loop_body T m rfd)"
proof -
  have "keeps_account T m r w0 (loop_output m)" "keeps_account T m r w0 (loop_input T)" "keeps_account T m r w0 (loop_drain m)"
    unfolding keeps_account_def
    using loop_output_after [OF assms(1)] loop_input_after [OF assms] loop_drain_after by (auto intro!: keeps_intros)
  then show ?thesis
    unfolding loop_body_def by (intro account_get account_onward account_if account_ret)
qed

text \<open>A stretch of the program that moves no bytes.\<close>

lemma exact_quiet:
  assumes "exact T m r w0 (u, w)" and "io m r [] [] [] [] w w'" and "uth_routerFd u' = uth_routerFd u" and "pendingInput u' = pendingInput u"
  shows "exact T m r w0 (u', w')"
  using exact_output [OF assms(1), of "[]" w' u'] assms by (simp add: exact_def)

lemma bnd_sys_OkE:
  assumes "bnd (sys c) f (ob, w) = (Ok y, t)"
  obtains x w1 where "c w = (Ok x, w1)" and "f x (ob, w1) = (Ok y, t)"
  using assms by (cases rule: bnd_sys_cases) (use that in \<open>auto simp: eq_commute [of "Ok y"]\<close>)

lemma account_round:
  assumes "m \<noteq> r" and "codec_ok (TerminalBuffer_codec T)" and "codec_ok (TerminalInfo_codec T)"
    and "exact T m r w0 (u, w)" and "user_round T m (u, w) = (Ok x, t)" and "\<not> stalls w (snd t)"
  shows "if x = Over then ended T m r w0 (snd t) else exact T m r w0 t"
proof -
  obtain b w1 where w1: "isSocketWritable (uth_routerFd u) w = (Ok b, w1)"
    and r1: "bnd (sys (sys_select (remdups ((if b then [m] else []) @
            (if int (length (pendingInput u)) < maxPendingInput then [uth_routerFd u] else []))))) (\<lambda>rfd.
     bnd (sys time_now) (\<lambda>currentSecond.
     bnd (mod_obj (\<lambda>u. if lastSecond u \<noteq> currentSecond then u\<lparr>outputPerSecond := 0, lastSecond := currentSecond\<rparr> else u)) (\<lambda>_.
     catch_std (loop_body T m rfd) (bnd (mod_obj (\<lambda>u. u\<lparr>uth_shuttingDown := True\<rparr>)) (\<lambda>_. ret Over))))) (u, w1) = (Ok x, t)"
    using assms(5) unfolding user_round_def bnd_get_obj by (rule bnd_sys_OkE)
  obtain rfd w2 where w2: "sys_select (remdups ((if b then [m] else []) @
            (if int (length (pendingInput u)) < maxPendingInput then [uth_routerFd u] else []))) w1 = (Ok rfd, w2)"
    and r2: "bnd (sys time_now) (\<lambda>currentSecond.
     bnd (mod_obj (\<lambda>u. if lastSecond u \<noteq> currentSecond then u\<lparr>outputPerSecond := 0, lastSecond := currentSecond\<rparr> else u)) (\<lambda>_.
     catch_std (loop_body T m rfd) (bnd (mod_obj (\<lambda>u. u\<lparr>uth_shuttingDown := True\<rparr>)) (\<lambda>_. ret Over)))) (u, w2) = (Ok x, t)"
    using r1 by (rule bnd_sys_OkE)
  obtain now w3 where w3: "time_now w2 = (Ok now, w3)" using r2 by (rule bnd_sys_OkE)
  define u1 where "u1 = (if lastSecond u \<noteq> now then u\<lparr>outputPerSecond := 0, lastSecond := now\<rparr> else u)"
  have r3: "catch_std (loop_body T m rfd) (bnd (mod_obj (\<lambda>u. u\<lparr>uth_shuttingDown := True\<rparr>)) (\<lambda>_. ret Over)) (u1, w3) = (Ok x, t)"
    using r2 w3 by (elim bnd_sys_OkE) (simp add: bnd_mod u1_def)
  have q: "io m r [] [] [] [] w w3" and c: "consumes w w3"
    using io_trans [OF io_trans [OF io_quiet [OF isSocketWritable_keeps(4,5) w1] io_quiet [OF select_quiet w2]] io_quiet [OF time_now_keeps(4,5) w3]]
      con.keepsD [OF isSocketWritable_keeps(1) w1] con.keepsD [OF select_con w2] con.keepsD [OF time_now_keeps(1) w3] con.R_trans
    by (simp, blast)
  have e: "exact T m r w0 (u1, w3)" by (rule exact_quiet [OF assms(4) q]) (simp_all add: u1_def)
  obtain p v where p: "loop_body T m rfd (u1, w3) = (p, v)" by (cases "loop_body T m rfd (u1, w3)")
  have a: "keeps_account T m r w0 (loop_body T m rfd)" by (rule account_body [OF assms(1-3)])
  have "snd t = snd v" "p = Ok x \<and> t = v \<or> (\<exists>e. p = Throw e) \<and> x = Over"
    using r3 p by (cases p; cases v; auto simp: catch_std_def bnd_mod)+
  moreover have "consumes w3 (snd v)"
    using a ocn.keepsD [of "loop_body T m rfd", OF _ p] by (simp add: keeps_account_def obj_consumes_def)
  from stalls_mono [OF c this] have "\<not> stalls w3 (snd v)" using assms(6) calculation(1) by auto
  ultimately show ?thesis using keeps_accountD [OF a e p] by (auto simp: after_def)
qed

lemma ocn_catch [keeps_intros]:
  assumes "ocn.keeps p" and "ocn.keeps h"
  shows "ocn.keeps (catch_std p h)"
proof (rule ocn.keepsI)
  fix s q t assume run: "catch_std p h s = (q, t)"
  obtain x u where p: "p s = (x, u)" by (cases "p s")
  then have "(\<exists>e. x = Throw e) \<and> h u = (q, t) \<or> t = u" using run by (cases x) (auto simp: catch_std_def)
  then show "obj_consumes s t"
    using ocn.keepsD [OF assms(1) p] ocn.keepsD [OF assms(2), of u] ocn.R_trans by blast
qed

lemma read_flag_quiet: "snn.keeps read_flag" "rnn.keeps read_flag" "con.keeps read_flag"
  unfolding read_flag_def by (auto intro!: keeps_intros)

lemma user_round_ocn: "ocn.keeps (user_round T m)"
  unfolding user_round_def loop_body_def onward_def
  by (auto intro!: keeps_intros select_con split: flow.split)

lemma user_loop_ocn: "obj_consumes s (snd (user_loop T m s))"
proof (induction T m s rule: user_loop.induct)
  case (1 T m s)
  show ?case
  proof (subst user_loop.simps, rule ocn.keeps_bnd_at)
    show "ocn.keeps (sys read_flag)" by (rule ocn_basic(3) [OF read_flag_quiet(3)])
    fix stop s1 assume f: "sys read_flag s = (Ok stop, s1)"
    show "obj_consumes s1 (snd (if stop \<or> uth_shuttingDown (fst s1) then (Ok (), s1)
        else bnd (user_round T m) (\<lambda>x s2. if x = Over then (Ok (), s2) else user_loop T m s2) s1))"
      using 1 [OF f] by (auto intro!: ocn.keeps_bnd_at [OF user_round_ocn] ocn.R_refl)
  qed
qed

lemma account_loop:
  assumes "m \<noteq> r" and "codec_ok (TerminalBuffer_codec T)" and "codec_ok (TerminalInfo_codec T)"
    and "exact T m r w0 s" and "user_loop T m s = (Ok (), t)" and "\<not> stalls (snd s) (snd t)"
  shows "ended T m r w0 (snd t)"
  using assms
proof (induction T m s rule: user_loop.induct)
  case (1 T m s)
  obtain u w where s: "s = (u, w)" by (cases s)
  obtain stop w1 where f: "read_flag w = (Ok stop, w1)"
    and rest: "(if stop \<or> uth_shuttingDown u then (Ok (), (u, w1))
        else bnd (user_round T m) (\<lambda>x s2. if x = Over then (Ok (), s2) else user_loop T m s2) (u, w1)) = (Ok (), t)"
    using 1(6) s by (subst (asm) user_loop.simps) (auto elim!: bnd_sys_OkE)
  have e: "exact T m r w0 (u, w1)"
    by (rule exact_quiet [OF 1(5) [unfolded s] io_quiet [OF read_flag_quiet(1,2) f]]) simp_all
  have c: "consumes w w1" using con.keepsD [OF read_flag_quiet(3) f] .
  show ?case
  proof (cases "stop \<or> uth_shuttingDown u")
    case True
    then have "t = (u, w1)" using rest by auto
    then show ?thesis using exact_ended [OF e] by simp
  next
    case False
    then obtain x s2 where x: "user_round T m (u, w1) = (Ok x, s2)"
        and go: "(if x = Over then (Ok (), s2) else user_loop T m s2) = (Ok (), t)"
      using rest by (auto elim: bnd_eq_OkE)
    have c2: "consumes w1 (snd s2)" using ocn.keepsD [OF user_round_ocn x] by (simp add: obj_consumes_def)
    have "obj_consumes s2 t" using go user_loop_ocn [of s2 T m] ocn.R_refl [of s2] by (auto split: if_splits)
    then have c3: "consumes (snd s2) (snd t)" by (simp add: obj_consumes_def)
    have st: "\<not> stalls w1 (snd s2)" "\<not> stalls (snd s2) (snd t)"
      using stalls_mono [OF c con.R_trans [OF c2 c3]] stalls_mono [OF c2 c3] 1(7) s by auto
    note r = account_round [OF 1(2-4) e x st(1)]
    show ?thesis
    proof (cases "x = Over")
      case True
      then show ?thesis using r go by simp
    next
      case False
      have f': "sys read_flag s = (Ok stop, (u, w1))" using f s by (simp add: sys_def)
      show ?thesis
        using 1(1) [OF f' _ x _ 1(2-4)] False r go st(2) \<open>\<not> (stop \<or> uth_shuttingDown u)\<close> by simp
    qed
  qed
qed

lemma run_ended:
  assumes "runUserTerminal T u masterFd w = (Ok l, w')" and "masterFd \<noteq> uth_routerFd u" and "\<not> stalls w w'"
    and "codec_ok (TerminalBuffer_codec T)" and "codec_ok (TerminalInfo_codec T)"
  shows "ended T masterFd (uth_routerFd u) w w'"
proof -
  let ?l = "\<lambda>now. UserTerminalHandler.extend u (UserLoop.fields [] now 0)"
  obtain now w1 where t: "time_now w = (Ok now, w1)"
    and run: "(case bnd (user_loop T masterFd) (\<lambda>_. sys sys_int) (?l now, w1) of (Ok _, (l, w')) \<Rightarrow> (Ok l, w')
     | (q, (l, w')) \<Rightarrow> (lift_bad q, w')) = (Ok l, w')"
    using assms(1) unfolding runUserTerminal_def by (auto elim: bnd_eq_OkE)
  then obtain y where "bnd (user_loop T masterFd) (\<lambda>_. sys sys_int) (?l now, w1) = (Ok y, (l, w'))"
    by (auto split: prod.splits outcome.splits)
  then obtain l2 w2 where loop: "user_loop T masterFd (?l now, w1) = (Ok (), (l2, w2))" and fin: "sys sys_int (l2, w2) = (Ok y, (l, w'))"
    by (metis bnd_Ok_pairE old.unit.exhaust)
  have fin': "sys_int w2 = (Ok y, w')" using fin by (auto simp: sys_def split: prod.splits)
  have c: "consumes w w1" "consumes w1 w2" "consumes w2 w'"
    using con.keepsD [OF time_now_keeps(1) t] user_loop_ocn [of "(?l now, w1)" T masterFd] loop con.keepsD [OF sys_int_keeps(1) fin']
    by (simp_all add: obj_consumes_def)
  then have st: "\<not> stalls w1 w2"
    using stalls_mono [OF c(1) con.R_trans [OF c(2,3)]] stalls_mono [OF c(2,3)] assms(3) by blast
  have "exact T masterFd (uth_routerFd u) w (?l now, w1)"
    unfolding exact_def using io_quiet [OF time_now_keeps(4,5) t, of masterFd "uth_routerFd u"]
    by (auto simp: UserTerminalHandler.defs UserLoop.defs intro!: exI [of _ "[]"] keys_none)
  from account_loop [OF assms(2,4,5) this loop] st have e: "ended T masterFd (uth_routerFd u) w w2" by simp
  then obtain sm sr rm rr bs ks where i: "io masterFd (uth_routerFd u) sm sr rm rr w w2" and k: "keys_in T bs ks" "prefix bs rr" "prefix sm ks" "prefix sr rm"
    by (auto simp: ended_def)
  have "io masterFd (uth_routerFd u) sm sr rm rr w w'"
    using io_trans [OF i io_quiet [OF sys_int_keeps(4,5) fin']] by simp
  then show ?thesis using k unfolding ended_def by blast
qed

section \<open>Properties\<close>


definition sample_user :: UserTerminalHandler where
  "sample_user = \<lparr>uth_routerFd = 5, uth_socketHandler = 0, uth_term = PseudoUserTerminal_new, noratelimit = True, uth_shuttingDown = False\<rparr>"

text \<open>One round, with a message with two keys, of which the terminal takes one.\<close>

definition user_answers :: "answer list" where
  "user_answers = [Val 100, Val 0, Val 1, Val 1, Val 0, Val 1, Val 100, Data [char_of_u8 TERMINAL_BUFFER]] @ readAll_answers (le64 1) @ readAll_answers ''e'' @ [Val 1, Val 1, Val 0]"

definition sample_copied :: "UserLoop outcome \<times> world" where
  "sample_copied = runUserTerminal sample_tprotos sample_user 9 (sample_world user_answers)"

lemma sample_copied_eval:
  "is_ok (fst sample_copied)"
  "trace (snd sample_copied) = [Received 5 [char_of_u8 TERMINAL_BUFFER], Received 5 (le64 1), Received 5 ''e'', Sent 9 ''l'']"
  by code_simp+

lemma sample_copied_run:
  "\<exists>l. runUserTerminal sample_tprotos sample_user 9 (sample_world user_answers) = (Ok l, snd sample_copied)"
  "\<not> stalls (sample_world user_answers) (snd sample_copied)"
  using sample_copied_eval
  by (auto simp: is_ok_def sample_copied_def prod_eq_iff stalls_def sample_world_def split: outcome.splits)


end
