(* ===== verification/ET_Client.thy ===== *)
theory ET_Client
  imports ET_Terminal ET_UserTerminal
begin

text \<open>
  The client's end of a session: \<^verbatim>\<open>terminal/TerminalClient.cpp\<close> with its console
  (\<^verbatim>\<open>terminal/PseudoTerminalConsole.hpp\<close>), and the client a jump host runs,
  \<^verbatim>\<open>terminal/UserJumphostHandler.cpp\<close>. The thread that reconnects works between the rounds of a loop:
  answers of the system say how many of its rounds come before the next round of the loop.
\<close>

section \<open>The first connection\<close>

text \<open>
  Three attempts to see the response, one second each. \<open>refused\<close> is what a program does with an error in the response.
\<close>

primrec await_response :: "sodium \<Rightarrow> tprotos \<Rightarrow> (string \<Rightarrow> bool conn_prog) \<Rightarrow> nat \<Rightarrow> bool conn_prog" where
  "await_response na T refused 0 = ret False"
| "await_response na T refused (Suc a) = bnd get_obj (\<lambda>c.
     if c_socketFd c < 0 then bnd (sys sys_int) (\<lambda>_. await_response na T refused a)
     else bnd (sys (sys_select [c_socketFd c])) (\<lambda>rfd.
       if c_socketFd c \<in> set rfd then
         bnd (Connection_readPacket na) (\<lambda>rd.
           if \<not> fst rd then await_response na T refused a
           else case snd rd of
               None \<Rightarrow> fail (Abort ''undefined: no packet'')
             | Some p \<Rightarrow>
                 if header p \<noteq> INITIAL_RESPONSE then fail (Abort ''Missing initial response!'')
                 else bnd (outcome_prog (stringToProto (InitialResponse_codec T) (payload p))) (\<lambda>initialResponse.
                   case ir_error initialResponse of Some e \<Rightarrow> refused e | None \<Rightarrow> ret True))
       else await_response na T refused a))"

text \<open>\<open>True\<close> when the server has accepted, \<open>False\<close> is \<^verbatim>\<open>fail\<close>.\<close>

definition connect_attempt :: "sodium \<Rightarrow> protos \<Rightarrow> tprotos \<Rightarrow> (string \<Rightarrow> bool conn_prog) \<Rightarrow> InitialPayload \<Rightarrow> bool conn_prog" where
  "connect_attempt na P T refused initial = bnd (Client_connect na P) (\<lambda>ok.
     if ok then
       bnd (outcome_prog (protoToString (InitialPayload_codec T) initial)) (\<lambda>s.
       bnd (Connection_writePacket na (mkPacket INITIAL_PAYLOAD s)) (\<lambda>_. await_response na T refused 3))
     else ret False)"

text \<open>
  The loop \<^verbatim>\<open>while (true)\<close> around it, which a \<^verbatim>\<open>break\<close> ends after its first round, so that the count of failures
  is 1 at most. \<open>give_up\<close> handles a \<^verbatim>\<open>runtime_error\<close>.
\<close>

definition first_connection ::
  "sodium \<Rightarrow> protos \<Rightarrow> tprotos \<Rightarrow> (string \<Rightarrow> bool conn_prog) \<Rightarrow> (string \<Rightarrow> unit conn_prog) \<Rightarrow> InitialPayload \<Rightarrow> unit conn_prog" where
  "first_connection na P T refused giving_up initial = catch_runtime
     (bnd (connect_attempt na P T refused initial) (\<lambda>accepted.
        let connectFailCount = (if accepted then 0 else 1 :: int) in
        if connectFailCount = 3 then fail (Throw (RuntimeError ''Connect Timeout'')) else ret ()))
     giving_up"

section \<open>TerminalClient\<close>

record TerminalClient =
  tc_endpoint :: Endpoint
  tc_console :: bool
  tc_shuttingDown :: bool
  keepaliveDuration :: int

record ClientArgs =
  ca_socketHandler :: nat
  ca_pipeSocketHandler :: nat
  ca_socketEndpoint :: SocketEndpoint
  ca_id :: string
  ca_passkey :: string
  ca_console :: bool
  ca_jumphost :: bool
  ca_tunnels :: string
  ca_reverseTunnels :: string
  ca_forwardSshAgent :: bool
  ca_identityAgent :: string
  ca_keepaliveDuration :: int
  ca_envVars :: "(string \<times> string) list"

text \<open>A tunnel that cannot be opened is only logged.\<close>

primrec open_tunnels :: "PortForwardSourceRequest list \<Rightarrow> unit pf_prog" where
  "open_tunnels [] = ret ()"
| "open_tunnels (r # rs) = bnd (createSource r False) (\<lambda>_. open_tunnels rs)"

definition agent_request :: "string \<Rightarrow> PortForwardSourceRequest" where
  "agent_request authSock = env_request ''SSH_AUTH_SOCK'' (name_endpoint authSock)"

definition agent_tunnel :: "ClientArgs \<Rightarrow> (world, PortForwardSourceRequest list) prog" where
  "agent_tunnel a =
     (if \<not> ca_forwardSshAgent a then ret []
      else bnd (if ca_identityAgent a \<noteq> [] then ret (ca_identityAgent a)
                else bnd sys_getenv (\<lambda>authSockEnv. case authSockEnv of None \<Rightarrow> fail (Exit 1) | Some s \<Rightarrow> ret s)) (\<lambda>authSock.
        ret (if authSock \<noteq> [] then [agent_request authSock] else [])))"

definition parsed_tunnels :: "string \<Rightarrow> ('s, PortForwardSourceRequest list) prog" where
  "parsed_tunnels s = (if s = [] then ret [] else outcome_prog (parseRangesToRequests s))"

definition make_payload :: "ClientArgs \<Rightarrow> InitialPayload pf_prog" where
  "make_payload a = catch_runtime
     (bnd (parsed_tunnels (ca_tunnels a)) (\<lambda>ts.
      bnd (open_tunnels ts) (\<lambda>_.
      bnd (parsed_tunnels (ca_reverseTunnels a)) (\<lambda>rs.
      bnd (sys (agent_tunnel a)) (\<lambda>agent.
      ret \<lparr>jumphost = Some (ca_jumphost a), reversetunnels = rs @ agent,
           environmentvariables = foldl (\<lambda>env (n, v). om_set str_less n v env) [] (ca_envVars a)\<rparr>)))))
     (\<lambda>_. fail (Exit 1))"

definition TerminalClient_new :: "sodium \<Rightarrow> protos \<Rightarrow> tprotos \<Rightarrow> ClientArgs \<Rightarrow> (world, TerminalClient) prog" where
  "TerminalClient_new na P T a w =
     (case make_payload a (PortForwardHandler_new (ca_socketHandler a) (ca_pipeSocketHandler a), w) of
        (Ok initial, (pf, w1)) \<Rightarrow>
          (case first_connection na P T (\<lambda>_. fail (Exit 1)) (\<lambda>_. fail (Exit 1)) initial
                  (ClientConnection_new (ca_socketHandler a) (ca_socketEndpoint a) (ca_id a) (ca_passkey a), w1) of
             (Ok _, (c, w2)) \<Rightarrow>
               (Ok \<lparr>tc_endpoint = \<lparr>en_conn = c, en_pf = pf\<rparr>, tc_console = ca_console a, tc_shuttingDown = False,
                    keepaliveDuration = ca_keepaliveDuration a\<rparr>, w2)
           | (q, (c, w2)) \<Rightarrow> (lift_bad q, w2))
      | (q, (pf, w1)) \<Rightarrow> (lift_bad q, w1))"

definition TerminalClient_shutdown :: "TerminalClient \<Rightarrow> TerminalClient" where
  "TerminalClient_shutdown t = t\<lparr>tc_shuttingDown := True\<rparr>"

section \<open>PseudoTerminalConsole\<close>

definition console_new :: "(world, unit) prog" where
  "console_new = bnd sys_int (\<lambda>_. ret ())"

definition console_setup :: "(world, unit) prog" where
  "console_setup = bnd sys_int (\<lambda>_. bnd (emit (Note ''raw mode'')) (\<lambda>_. bnd sys_int (\<lambda>_. ret ())))"

definition console_teardown :: "(world, unit) prog" where
  "console_teardown = bnd (emit (Note ''restore mode'')) (\<lambda>_. bnd sys_int (\<lambda>_. ret ()))"

text \<open>The fields of \<^verbatim>\<open>winsize\<close> have 16 bits; they are whatever \<^verbatim>\<open>ioctl\<close> left in them.\<close>

definition getTerminalInfo :: "(world, TerminalInfo) prog" where
  "getTerminalInfo = bnd sys_int (\<lambda>_. bnd sys_int (\<lambda>row. bnd sys_int (\<lambda>col. bnd sys_int (\<lambda>x. bnd sys_int (\<lambda>y.
     ret \<lparr>ti_id = None, ti_row = Some (row mod 2 ^ 16), ti_column = Some (col mod 2 ^ 16),
          ti_width = Some (x mod 2 ^ 16), ti_height = Some (y mod 2 ^ 16)\<rparr>)))))"

definition console_write :: "string \<Rightarrow> (world, unit) prog" where
  "console_write s = Raw_writeAll STDOUT_FILENO s"

section \<open>A round of the client\<close>

record ClientLoop = TerminalClient +
  keepaliveTime :: int
  waitingOnKeepalive :: bool
  lastTerminalInfo :: TerminalInfo

type_synonym 'a cl_prog = "(ClientLoop \<times> world, 'a) prog"

definition on_en :: "'a en_prog \<Rightarrow> 'a cl_prog" where
  "on_en m s = (case m (tc_endpoint (fst s), snd s) of (x, (e, w)) \<Rightarrow> (x, ((fst s)\<lparr>tc_endpoint := e\<rparr>, w)))"

text \<open>\<^verbatim>\<open>keepaliveTime = time(NULL) + keepaliveDuration\<close>.\<close>

definition touch :: "unit cl_prog" where
  "touch = bnd (sys time_now) (\<lambda>t. mod_obj (\<lambda>c. c\<lparr>keepaliveTime := t + keepaliveDuration c\<rparr>))"

text \<open>Keys: \<open>True\<close> is the \<^verbatim>\<open>break\<close> at the end of the input.\<close>

definition console_input :: "sodium \<Rightarrow> tprotos \<Rightarrow> bool cl_prog" where
  "console_input na T = bnd (sys (sys_read STDOUT_FILENO TS_BUF_SIZE)) (\<lambda>rd. bnd (sys GetErrno) (\<lambda>savedErrno.
     if fst rd > 0 then
       bnd (on_en (send_proto na (TerminalBuffer_codec T) TERMINAL_BUFFER (terminal_buffer (snd rd)))) (\<lambda>_.
       bnd touch (\<lambda>_. ret False))
     else if fst rd = 0 then ret True
     else ret (savedErrno \<noteq> EAGAIN \<and> savedErrno \<noteq> EWOULDBLOCK)))"

definition client_packet :: "sodium \<Rightarrow> tprotos \<Rightarrow> Packet \<Rightarrow> string \<Rightarrow> string cl_prog" where
  "client_packet na T p coalesced =
     (if is_forward_packet p then bnd touch (\<lambda>_. bnd (on_en (forward_packet na T p)) (\<lambda>_. ret coalesced))
      else if header p = TERMINAL_BUFFER then
        bnd get_obj (\<lambda>c. if tc_console c then
            bnd (outcome_prog (stringToProto (TerminalBuffer_codec T) (payload p))) (\<lambda>tb.
            bnd touch (\<lambda>_. ret (coalesced @ get_or [] (tb_buffer tb))))
          else ret coalesced)
      else if header p = KEEP_ALIVE then bnd (mod_obj (\<lambda>c. c\<lparr>waitingOnKeepalive := False\<rparr>)) (\<lambda>_. ret coalesced)
      else fail (Abort (''Unknown packet type: '' @ decimal (uint (header p)))))"

definition cl_weight :: "ClientLoop \<times> world \<Rightarrow> nat" where
  "cl_weight s = en_weight (tc_endpoint (fst s), snd s)"

interpretation clw: frame "no_heavier cl_weight"
  by unfold_locales (auto simp: no_heavier_def)

declare clw.keeps_rules [keeps_intros]

lemma clw_basic [keeps_intros]:
  "clw.keeps get_obj" "clw.keeps (outcome_prog x)" "sle.keeps m \<Longrightarrow> clw.keeps (sys m)"
  "(\<And>c. tc_endpoint (f c) = tc_endpoint c) \<Longrightarrow> clw.keeps (mod_obj f)" "ewt.keeps m1 \<Longrightarrow> clw.keeps (on_en m1)"
proof -
  show "clw.keeps (on_en m1)" if k: "ewt.keeps m1" for m1 :: "'z en_prog"
  proof (rule clw.keepsI, clarify)
    fix c w q c' w' assume "on_en m1 (c, w) = (q, (c', w'))"
    then obtain e where "m1 (tc_endpoint c, w) = (q, (e, w'))" "c' = c\<lparr>tc_endpoint := e\<rparr>"
      by (auto simp: on_en_def split: prod.splits)
    then show "no_heavier cl_weight (c, w) (c', w')"
      using ewt.keepsD [OF k] by (fastforce simp: no_heavier_def cl_weight_def)
  qed
qed (auto simp: clw.keeps_def no_heavier_def cl_weight_def en_weight_def conn_weight_def outcome_prog_def get_obj_def sys_def
    mod_obj_def dest: sle_length split: prod.splits)

lemma client_packet_weight [keeps_intros]: "clw.keeps touch" "clw.keeps (client_packet na T p acc)"
proof -
  show t: "clw.keeps touch" unfolding touch_def by (auto intro!: keeps_intros)
  show "clw.keeps (client_packet na T p acc)" unfolding client_packet_def by (auto intro!: keeps_intros t)
qed

lemma client_drains:
  assumes "on_en (on_con Connection_hasData) s = (Ok True, s1)" and "on_en (on_con (Connection_read na)) s1 = (Ok (True, x), s2)"
  shows "cl_weight s2 < cl_weight s"
  using assms conn_drain_read [of "en_conn (tc_endpoint (fst s))" "snd s"]
  by (auto simp: on_en_def on_con_def cl_weight_def en_weight_def split: prod.splits)

function client_drain :: "sodium \<Rightarrow> tprotos \<Rightarrow> string \<Rightarrow> string cl_prog" where
  "client_drain na T coalesced s = bnd (on_en (on_con Connection_hasData)) (\<lambda>more s1.
     if \<not> more then (Ok coalesced, s1)
     else bnd (on_en (on_con (Connection_read na))) (\<lambda>rd s2.
       if \<not> fst rd then (Ok coalesced, s2)
       else case snd rd of
           None \<Rightarrow> (Ok coalesced, s2)
         | Some p \<Rightarrow> bnd (client_packet na T p coalesced) (\<lambda>acc s3. client_drain na T acc s3) s2) s1) s"
  by pat_completeness auto
termination
proof (relation "measure (\<lambda>(na, T, acc, s). cl_weight s)", goal_cases)
  case (2 na T acc s more s1 rd s2 p u s3)
  have "cl_weight s2 < cl_weight s" using client_drains 2(1,3) 2(2,4) by (metis prod.collapse)
  moreover have "cl_weight s3 \<le> cl_weight s2" using clw.keepsD [OF client_packet_weight(2) 2(6)] by (simp add: no_heavier_def)
  ultimately show ?case by simp
qed simp

declare client_drain.simps [simp del]

definition client_socket :: "sodium \<Rightarrow> tprotos \<Rightarrow> unit cl_prog" where
  "client_socket na T = bnd (client_drain na T []) (\<lambda>coalesced. bnd get_obj (\<lambda>c.
     if tc_console c \<and> coalesced \<noteq> [] then sys (console_write coalesced) else ret ()))"

definition client_keepalive :: "sodium \<Rightarrow> int \<Rightarrow> unit cl_prog" where
  "client_keepalive na clientFd =
     (if clientFd > 0 then
        bnd (sys time_now) (\<lambda>now. bnd get_obj (\<lambda>c.
          if keepaliveTime c < now then
            bnd touch (\<lambda>_.
              if waitingOnKeepalive c then
                bnd (on_en (on_con closeSocketAndMaybeReconnect)) (\<lambda>_. mod_obj (\<lambda>c. c\<lparr>waitingOnKeepalive := False\<rparr>))
              else
                bnd (on_en (on_con (Connection_writePacket na (mkPacket KEEP_ALIVE [])))) (\<lambda>_.
                mod_obj (\<lambda>c. c\<lparr>waitingOnKeepalive := True\<rparr>)))
          else ret ()))
      else if clientFd < 0 then mod_obj (\<lambda>c. c\<lparr>waitingOnKeepalive := False\<rparr>)
      else ret ())"

text \<open>\<^verbatim>\<open>operator!=\<close> of two messages compares what they serialise to.\<close>

definition proto_neq :: "'m codec \<Rightarrow> 'm \<Rightarrow> 'm \<Rightarrow> bool" where
  "proto_neq C a b \<longleftrightarrow> get_or [] (SerializeToString C a) \<noteq> get_or [] (SerializeToString C b)"

definition client_window :: "sodium \<Rightarrow> tprotos \<Rightarrow> unit cl_prog" where
  "client_window na T = bnd get_obj (\<lambda>c.
     if \<not> tc_console c then ret ()
     else bnd (sys getTerminalInfo) (\<lambda>ti.
       if proto_neq (TerminalInfo_codec T) ti (lastTerminalInfo c) then
         bnd (mod_obj (\<lambda>c. c\<lparr>lastTerminalInfo := ti\<rparr>)) (\<lambda>_.
         on_en (send_proto na (TerminalInfo_codec T) TERMINAL_INFO ti))
       else ret ()))"

primrec send_touch :: "sodium \<Rightarrow> 'm codec \<Rightarrow> 8 word \<Rightarrow> 'm list \<Rightarrow> unit cl_prog" where
  "send_touch na C h [] = ret ()"
| "send_touch na C h (m # ms) = bnd (on_en (send_proto na C h m)) (\<lambda>_. bnd touch (\<lambda>_. send_touch na C h ms))"

definition client_forwards :: "sodium \<Rightarrow> tprotos \<Rightarrow> unit cl_prog" where
  "client_forwards na T = bnd (on_en (on_pfh PortForward_update)) (\<lambda>(requests, dataToSend).
     bnd (send_touch na (PortForwardDestinationRequest_codec T) PORT_FORWARD_DESTINATION_REQUEST requests) (\<lambda>_.
     send_touch na (PortForwardData_codec T) PORT_FORWARD_DATA dataToSend))"

definition client_fds :: "ClientLoop \<Rightarrow> int set \<Rightarrow> int list" where
  "client_fds c pfFds = remdups ((if tc_console c then [STDOUT_FILENO] else []) @
     (let clientFd = c_socketFd (en_conn (tc_endpoint c)) in if clientFd > 0 then [clientFd] else []) @ sorted_list_of_set pfFds)"

text \<open>The body of the loop; the result says whether the loop goes on.\<close>

definition client_round :: "sodium \<Rightarrow> tprotos \<Rightarrow> bool cl_prog" where
  "client_round na T = bnd get_obj (\<lambda>c.
     let clientFd = c_socketFd (en_conn (tc_endpoint c)) in
     bnd (sys (getForwardFds (en_pf (tc_endpoint c)))) (\<lambda>pfFds.
     bnd (sys (sys_select (client_fds c pfFds))) (\<lambda>rfd.
     catch_runtime
       (bnd (if tc_console c \<and> STDOUT_FILENO \<in> set rfd then console_input na T else ret False) (\<lambda>over.
          if over then ret False
          else
            bnd (if clientFd > 0 \<and> clientFd \<in> set rfd then client_socket na T else ret ()) (\<lambda>_.
            bnd (client_keepalive na clientFd) (\<lambda>_.
            bnd (client_window na T) (\<lambda>_.
            bnd (client_forwards na T) (\<lambda>_. ret True))))))
       (\<lambda>_. bnd (mod_obj (\<lambda>c. c\<lparr>tc_shuttingDown := True\<rparr>)) (\<lambda>_. ret True)))))"

section \<open>The answers the parts use up\<close>

lemma lift_keeps [keeps_intros]:
  "osle.keeps m1 \<Longrightarrow> osle.keeps (on_con m1)" "osle.keeps m2 \<Longrightarrow> osle.keeps (on_pfh m2)" "osle.keeps m3 \<Longrightarrow> osle.keeps (on_en m3)"
  by (auto simp: osle.keeps_def on_con_def on_pfh_def on_en_def obj_script_le_def script_le_def split: prod.splits)
    (metis fst_conv snd_conv)+

lemma write_status_keeps [keeps_intros]:
  "osle.keeps e1 \<Longrightarrow> osle.keeps e2 \<Longrightarrow> osle.keeps e3 \<Longrightarrow> osle.keeps e4 \<Longrightarrow>
     osle.keeps (case st of SKIPPED \<Rightarrow> e1 | BUFFERED_ONLY \<Rightarrow> e2 | SUCCESS \<Rightarrow> e3 | WROTE_WITH_FAILURE \<Rightarrow> e4)"
  by (cases st) simp_all

lemma conn_methods_keeps [keeps_intros]:
  "osle.keeps (Connection_read na)" "osle.keeps (Connection_readPacket na)" "osle.keeps (Connection_writePacket na p)"
  "osle.keeps Connection_hasData" "osle.keeps (pollReconnect_round P)"
  unfolding Connection_readPacket_def Connection_writePacket_def Connection_hasData_def Connection_read_def Connection_write_def
    pollReconnect_round_def
  by (auto intro!: keeps_intros)

lemma en_parts_keeps [keeps_intros]: "osle.keeps (send_proto na C h m)" "osle.keeps (forward_packet na T p)"
  unfolding send_proto_def forward_packet_def by (auto intro!: keeps_intros split: option.split)

lemma console_keeps [keeps_intros]:
  "sle.keeps getTerminalInfo" "sle.keeps (console_write s)" "sle.keeps console_setup" "sle.keeps console_teardown"
  unfolding getTerminalInfo_def console_write_def console_setup_def console_teardown_def by (auto intro!: keeps_intros)

lemma touch_keeps [keeps_intros]: "osle.keeps touch"
  unfolding touch_def by (auto intro!: keeps_intros)

lemma send_touch_keeps [keeps_intros]: "osle.keeps (send_touch na C h ms)"
  by (induction ms) (auto intro!: keeps_intros)

lemma client_parts_keeps [keeps_intros]:
  "osle.keeps (console_input na T)" "osle.keeps (client_packet na T p acc)" "osle.keeps (client_keepalive na fd)"
  "osle.keeps (client_window na T)" "osle.keeps (client_forwards na T)"
  unfolding console_input_def client_packet_def client_keepalive_def client_window_def client_forwards_def
  by (auto intro!: keeps_intros)

lemma client_drain_keeps [keeps_intros]: "osle.keeps (client_drain na T acc)"
proof -
  have "obj_script_le s (snd (client_drain na T acc s))" for s
  proof (induction na T acc s rule: client_drain.induct)
    case (1 na T acc s)
    show ?case
    proof (subst client_drain.simps, rule osle.keeps_bnd_at, intro keeps_intros)
      fix more s1 assume more: "on_en (on_con Connection_hasData) s = (Ok more, s1)"
      show "obj_script_le s1 (snd (if \<not> more then (Ok acc, s1)
         else bnd (on_en (on_con (Connection_read na))) (\<lambda>rd s2.
           if \<not> fst rd then (Ok acc, s2)
           else case snd rd of None \<Rightarrow> (Ok acc, s2)
             | Some p \<Rightarrow> bnd (client_packet na T p acc) (\<lambda>acc s3. client_drain na T acc s3) s2) s1))"
      proof (cases more)
        case True
        have "obj_script_le s1 (snd (bnd (on_en (on_con (Connection_read na))) (\<lambda>rd s2.
           if \<not> fst rd then (Ok acc, s2)
           else case snd rd of None \<Rightarrow> (Ok acc, s2)
             | Some p \<Rightarrow> bnd (client_packet na T p acc) (\<lambda>acc s3. client_drain na T acc s3) s2) s1))"
        proof (rule osle.keeps_bnd_at, intro keeps_intros)
          fix rd s2 assume rd: "on_en (on_con (Connection_read na)) s1 = (Ok rd, s2)"
          have "obj_script_le s2 (snd (bnd (client_packet na T p acc) (\<lambda>acc s3. client_drain na T acc s3) s2))"
            if "fst rd" "snd rd = Some p" for p
            by (rule osle.keeps_bnd_at, intro keeps_intros) (use 1 [OF more] True rd that in auto)
          then show "obj_script_le s2 (snd (if \<not> fst rd then (Ok acc, s2)
             else case snd rd of None \<Rightarrow> (Ok acc, s2)
               | Some p \<Rightarrow> bnd (client_packet na T p acc) (\<lambda>acc s3. client_drain na T acc s3) s2))"
            by (auto simp: osle.R_refl split: option.split)
        qed
        then show ?thesis using True by simp
      qed (simp add: osle.R_refl)
    qed
  qed
  then show ?thesis by (simp add: osle.keeps_def)
qed

lemma client_round_keeps [keeps_intros]: "osle.keeps (client_round na T)"
  unfolding client_round_def client_socket_def Let_def by (auto intro!: keeps_intros)

section \<open>The loop of the client\<close>

text \<open>The rounds the reconnect thread has before the loop goes on.\<close>

function reconnect_turns :: "protos \<Rightarrow> unit conn_prog" where
  "reconnect_turns P s = bnd (sys read_flag) (\<lambda>turn s1.
     if turn \<and> reconnectThread (fst s1) = Running then
       bnd (pollReconnect_round P) (\<lambda>fin s2.
         reconnect_turns P (if fin then ((fst s2)\<lparr>reconnectThread := Finished\<rparr>, snd s2) else s2)) s1
     else (Ok (), s1)) s"
  by pat_completeness auto
termination
proof (relation "measure (\<lambda>(P, s). length (script (snd s)))", goal_cases)
  case (2 P s turn s1 fin s2)
  have "length (script (snd s1)) < length (script (snd s))"
    using 2(1) read_flag_shrinks by (auto simp: sys_def split: prod.splits)
  moreover have "length (script (snd s2)) \<le> length (script (snd s1))"
    using osle.keepsD [OF conn_methods_keeps(5) 2(3)] by (simp add: obj_script_le_def script_le_def)
  ultimately show ?case by simp
qed simp

declare reconnect_turns.simps [simp del]

lemma flag_shrinks: "sys read_flag s = (Ok b, t) \<Longrightarrow> length (script (snd t)) < length (script (snd s))"
  using read_flag_shrinks by (auto simp: sys_def split: prod.splits)

lemma reconnect_turns_keeps [keeps_intros]: "osle.keeps (reconnect_turns P)"
proof -
  have "obj_script_le s (snd (reconnect_turns P s))" for s
  proof (induction P s rule: reconnect_turns.induct)
    case (1 P s)
    show ?case
    proof (subst reconnect_turns.simps, rule osle.keeps_bnd_at, intro keeps_intros)
      fix turn s1 assume turn: "sys read_flag s = (Ok turn, s1)"
      have "obj_script_le s1 (snd (bnd (pollReconnect_round P) (\<lambda>fin s2.
          reconnect_turns P (if fin then ((fst s2)\<lparr>reconnectThread := Finished\<rparr>, snd s2) else s2)) s1))"
        if "turn \<and> reconnectThread (fst s1) = Running"
      proof (rule osle.keeps_bnd_at, intro keeps_intros)
        fix fin s2 assume "pollReconnect_round P s1 = (Ok fin, s2)"
        from 1 [OF turn that this] show "obj_script_le s2 (snd (reconnect_turns P
            (if fin then ((fst s2)\<lparr>reconnectThread := Finished\<rparr>, snd s2) else s2)))"
          by (auto simp: obj_script_le_def split: if_splits)
      qed
      then show "obj_script_le s1 (snd (if turn \<and> reconnectThread (fst s1) = Running then
          bnd (pollReconnect_round P) (\<lambda>fin s2.
            reconnect_turns P (if fin then ((fst s2)\<lparr>reconnectThread := Finished\<rparr>, snd s2) else s2)) s1
        else (Ok (), s1)))"
        by (simp add: osle.R_refl)
    qed
  qed
  then show ?thesis by (simp add: osle.keeps_def)
qed

lemma osle_length: "osle.keeps m \<Longrightarrow> m s = (r, t) \<Longrightarrow> length (script (snd t)) \<le> length (script (snd s))"
  using osle.keepsD by (fastforce simp: obj_script_le_def script_le_def)

function client_loop :: "sodium \<Rightarrow> protos \<Rightarrow> tprotos \<Rightarrow> unit cl_prog" where
  "client_loop na P T s = bnd (on_en (on_con (reconnect_turns P))) (\<lambda>_. bnd (sys read_flag) (\<lambda>stop s1.
     if shuttingDown (en_conn (tc_endpoint (fst s1))) \<or> stop \<or> tc_shuttingDown (fst s1) then (Ok (), s1)
     else bnd (client_round na T) (\<lambda>goes_on s2. if goes_on then client_loop na P T s2 else (Ok (), s2)) s1)) s"
  by pat_completeness auto
termination
proof (relation "measure (\<lambda>(na, P, T, s). length (script (snd s)))", goal_cases)
  case (2 na P T s u s0 stop s1 goes_on s2)
  have "osle.keeps (on_en (on_con (reconnect_turns P)))" by (intro keeps_intros)
  from osle_length [OF this 2(1)] have "length (script (snd s0)) \<le> length (script (snd s))" .
  moreover have "length (script (snd s2)) \<le> length (script (snd s1))" by (rule osle_length [OF client_round_keeps 2(4)])
  ultimately show ?case using flag_shrinks [OF 2(2)] by simp
qed simp

declare client_loop.simps [simp del]

definition first_info :: TerminalInfo where
  "first_info = \<lparr>ti_id = None, ti_row = None, ti_column = None, ti_width = None, ti_height = None\<rparr>"

definition command_buffer :: "string \<Rightarrow> bool \<Rightarrow> TerminalBuffer" where
  "command_buffer command noexit = terminal_buffer (command @ (if noexit then [CHR 0x0A] else ''; exit'' @ [CHR 0x0A]))"

definition client_session :: "sodium \<Rightarrow> protos \<Rightarrow> tprotos \<Rightarrow> string \<Rightarrow> bool \<Rightarrow> unit cl_prog" where
  "client_session na P T command noexit =
     bnd (if command \<noteq> [] then on_en (send_proto na (TerminalBuffer_codec T) TERMINAL_BUFFER (command_buffer command noexit)) else ret ()) (\<lambda>_.
     bnd (client_loop na P T) (\<lambda>_. bnd get_obj (\<lambda>c. if tc_console c then sys console_teardown else ret ())))"

definition TerminalClient_run :: "sodium \<Rightarrow> protos \<Rightarrow> tprotos \<Rightarrow> string \<Rightarrow> bool \<Rightarrow> TerminalClient \<Rightarrow> (world, ClientLoop) prog" where
  "TerminalClient_run na P T command noexit t =
     bnd (if tc_console t then console_setup else ret ()) (\<lambda>_. bnd time_now (\<lambda>now w.
       case client_session na P T command noexit
           (TerminalClient.extend t (ClientLoop.fields (now + keepaliveDuration t) False first_info), w) of
         (Ok _, (l, w')) \<Rightarrow> (Ok l, w')
       | (q, (l, w')) \<Rightarrow> (lift_bad q, w')))"

definition TerminalClient_destroy :: "TerminalClient \<Rightarrow> (world, unit) prog" where
  "TerminalClient_destroy t w =
     (case Connection_shutdown (en_conn (tc_endpoint t), w) of
        (Ok _, (c, w1)) \<Rightarrow> destroy_sources (sourceHandlers (en_pf (tc_endpoint t))) w1
      | (q, (c, w1)) \<Rightarrow> (q, w1))"

section \<open>UserJumphostHandler\<close>

record UserJumphostHandler =
  ujh_routerSocketHandler :: nat
  ujh_routerFd :: int
  jumpClientSocketHandler :: nat
  ujh_idpasskey :: string
  dstSocketEndpoint :: SocketEndpoint
  ujh_shuttingDown :: bool

definition UserJumphostHandler_new ::
  "nat \<Rightarrow> string \<Rightarrow> SocketEndpoint \<Rightarrow> nat \<Rightarrow> SocketEndpoint option \<Rightarrow> (world, UserJumphostHandler) prog" where
  "UserJumphostHandler_new jh idpasskey dst rh router = bnd (detectAndConnect router rh) (\<lambda>fd.
     ret \<lparr>ujh_routerSocketHandler = rh, ujh_routerFd = fd, jumpClientSocketHandler = jh, ujh_idpasskey = idpasskey,
          dstSocketEndpoint = dst, ujh_shuttingDown = False\<rparr>)"

definition UserJumphostHandler_shutdown :: "UserJumphostHandler \<Rightarrow> UserJumphostHandler" where
  "UserJumphostHandler_shutdown u = u\<lparr>ujh_shuttingDown := True\<rparr>"

definition send_jump_info :: "tprotos \<Rightarrow> nat \<Rightarrow> int \<Rightarrow> TerminalUserInfo \<Rightarrow> (world, unit) prog" where
  "send_jump_info T h routerFd tui = catch_runtime
     (bnd (outcome_prog (protoToString (TerminalUserInfo_codec T) tui)) (\<lambda>s.
        writePacket h routerFd (mkPacket TERMINAL_USER_INFO s)))
     (\<lambda>_. fail (Abort ''Cannot send idpasskey to router''))"

function await_jump_init :: "tprotos \<Rightarrow> nat \<Rightarrow> int \<Rightarrow> (world, InitialPayload) prog" where
  "await_jump_init T h routerFd w = bnd (readPacket h routerFd) (\<lambda>packet w1. case packet of
      None \<Rightarrow> await_jump_init T h routerFd w1
    | Some p \<Rightarrow>
        (if header p \<noteq> JUMPHOST_INIT then fail (Abort ''Invalid jumphost init packet header'')
         else outcome_prog (stringToProto (InitialPayload_codec T) (payload p))) w1) w"
  by pat_completeness auto
termination
  using readPacket_shrinks by (relation "measure (\<lambda>(T, h, fd, w). length (script w))") auto

declare await_jump_init.simps [simp del]

text \<open>The state of its loop: the connection to the destination and the local variables.\<close>

record JumpLoop = UserJumphostHandler +
  jumpclient :: Connection
  is_reconnecting :: bool
  jumpKeepaliveTime :: int

type_synonym 'a jl_prog = "(JumpLoop \<times> world, 'a) prog"

definition on_jump :: "'a conn_prog \<Rightarrow> 'a jl_prog" where
  "on_jump m s = (case m (jumpclient (fst s), snd s) of (x, (c, w)) \<Rightarrow> (x, ((fst s)\<lparr>jumpclient := c\<rparr>, w)))"

definition SERVER_KEEP_ALIVE_DURATION :: int where "SERVER_KEEP_ALIVE_DURATION = 11"

definition jump_touch :: "unit jl_prog" where
  "jump_touch = bnd (sys time_now) (\<lambda>t. mod_obj (\<lambda>j. j\<lparr>jumpKeepaliveTime := t + SERVER_KEEP_ALIVE_DURATION\<rparr>))"

text \<open>\<^verbatim>\<open>waitReconnect\<close> of a thread that still runs: it runs to its end first.\<close>

definition join_reconnect :: "protos \<Rightarrow> unit conn_prog" where
  "join_reconnect P = bnd get_obj (\<lambda>c. bnd (if reconnectThread c = Running then pollReconnect P else ret ()) (\<lambda>_. waitReconnect))"

text \<open>From the router to the destination: \<open>True\<close> is the \<^verbatim>\<open>continue\<close> after an attempt to reconnect.\<close>

definition jump_up :: "sodium \<Rightarrow> protos \<Rightarrow> int \<Rightarrow> bool jl_prog" where
  "jump_up na P jumpClientFd = bnd get_obj (\<lambda>j.
     if jumpClientFd < 0 then
       bnd (if is_reconnecting j then
              bnd (on_jump (join_reconnect P)) (\<lambda>_. mod_obj (\<lambda>j. j\<lparr>is_reconnecting := False\<rparr>))
            else
              bnd (mod_obj (\<lambda>j. j\<lparr>is_reconnecting := True\<rparr>)) (\<lambda>_. on_jump closeSocketAndMaybeReconnect)) (\<lambda>_.
       bnd (sys sys_int) (\<lambda>_. ret True))
     else
       bnd (sys (readPacket (ujh_routerSocketHandler j) (ujh_routerFd j))) (\<lambda>packet.
       bnd (case packet of None \<Rightarrow> ret () | Some p \<Rightarrow> on_jump (Connection_writePacket na p)) (\<lambda>_.
       bnd jump_touch (\<lambda>_. ret False))))"

definition jump_down :: "sodium \<Rightarrow> unit jl_prog" where
  "jump_down na = bnd (on_jump Connection_hasData) (\<lambda>more.
     bnd (if more then
            bnd (on_jump (Connection_readPacket na)) (\<lambda>rd. bnd get_obj (\<lambda>j.
              if \<not> fst rd then ret ()
              else case snd rd of
                  None \<Rightarrow> ret ()
                | Some p \<Rightarrow> sys (writePacket (ujh_routerSocketHandler j) (ujh_routerFd j) p)))
          else ret ()) (\<lambda>_. jump_touch))"

definition jump_round :: "sodium \<Rightarrow> protos \<Rightarrow> bool jl_prog" where
  "jump_round na P = bnd get_obj (\<lambda>j.
     let jumpClientFd = c_socketFd (jumpclient j) in
     bnd (sys (sys_select (remdups (ujh_routerFd j # (if jumpClientFd > 0 then [jumpClientFd] else []))))) (\<lambda>rfd.
     catch_runtime
       (bnd (if ujh_routerFd j \<in> set rfd then jump_up na P jumpClientFd else ret False) (\<lambda>again.
          if again then ret True
          else
            bnd (if jumpClientFd > 0 \<and> jumpClientFd \<in> set rfd then jump_down na else ret ()) (\<lambda>_.
            if jumpClientFd > 0 then
              bnd (sys time_now) (\<lambda>now. bnd get_obj (\<lambda>j.
                bnd (if jumpKeepaliveTime j < now then
                       bnd (on_jump Connection_closeSocket) (\<lambda>_. mod_obj (\<lambda>j. j\<lparr>is_reconnecting := False\<rparr>))
                     else ret ()) (\<lambda>_. ret True)))
            else ret True)))
       (\<lambda>_. ret False)))"

lemma on_jump_keeps [keeps_intros]: "osle.keeps m \<Longrightarrow> osle.keeps (on_jump m)"
  by (auto simp: osle.keeps_def on_jump_def obj_script_le_def script_le_def split: prod.splits)
    (metis fst_conv snd_conv)+

lemma pollReconnect_keeps [keeps_intros]: "osle.keeps (pollReconnect P)"
proof -
  have "obj_script_le s (snd (pollReconnect P s))" for s
  proof (induction P s rule: pollReconnect.induct)
    case (1 P s)
    show ?case
      by (subst pollReconnect.simps, rule osle.keeps_bnd_at, intro keeps_intros)
        (use 1 in \<open>auto simp: obj_script_le_def script_le_def\<close>)
  qed
  then show ?thesis by (simp add: osle.keeps_def)
qed

lemma jump_parts_keeps [keeps_intros]: "osle.keeps jump_touch" "osle.keeps (join_reconnect P)"
  unfolding jump_touch_def join_reconnect_def by (auto intro!: keeps_intros)

lemma jump_round_keeps [keeps_intros]: "osle.keeps (jump_round na P)"
  unfolding jump_round_def jump_up_def jump_down_def Let_def by (auto intro!: keeps_intros split: option.split)

function jump_loop :: "sodium \<Rightarrow> protos \<Rightarrow> unit jl_prog" where
  "jump_loop na P s = bnd (on_jump (reconnect_turns P)) (\<lambda>_. bnd (sys read_flag) (\<lambda>stop s1.
     if shuttingDown (jumpclient (fst s1)) \<or> stop \<or> ujh_shuttingDown (fst s1) then (Ok (), s1)
     else bnd (jump_round na P) (\<lambda>goes_on s2. if goes_on then jump_loop na P s2 else (Ok (), s2)) s1)) s"
  by pat_completeness auto
termination
proof (relation "measure (\<lambda>(na, P, s). length (script (snd s)))", goal_cases)
  case (2 na P s u s0 stop s1 goes_on s2)
  have "osle.keeps (on_jump (reconnect_turns P))" by (intro keeps_intros)
  from osle_length [OF this 2(1)] have "length (script (snd s0)) \<le> length (script (snd s))" .
  moreover have "length (script (snd s2)) \<le> length (script (snd s1))" by (rule osle_length [OF jump_round_keeps 2(4)])
  ultimately show ?case using flag_shrinks [OF 2(2)] by simp
qed simp

declare jump_loop.simps [simp del]

definition show_endpoint :: "SocketEndpoint \<Rightarrow> string" where
  "show_endpoint se = get_or [] (ep_name se) @ (case ep_port se of None \<Rightarrow> [] | Some p \<Rightarrow> '':'' @ decimal p)"

definition jump_failed :: "SocketEndpoint \<Rightarrow> string \<Rightarrow> 'a conn_prog" where
  "jump_failed dst e = fail (Throw (RuntimeError (''Could not make initial connection to '' @ show_endpoint dst @ '': '' @ e)))"

definition UserJumphostHandler_run :: "sodium \<Rightarrow> protos \<Rightarrow> tprotos \<Rightarrow> UserJumphostHandler \<Rightarrow> (world, unit) prog" where
  "UserJumphostHandler_run na P T u =
     bnd (user_info (ujh_idpasskey u)) (\<lambda>tui.
     bnd (send_jump_info T (ujh_routerSocketHandler u) (ujh_routerFd u) tui) (\<lambda>_.
     bnd (await_jump_init T (ujh_routerSocketHandler u) (ujh_routerFd u)) (\<lambda>initial.
     if \<not> get_or False (jumphost initial) then fail (Abort ''Jumphost should be set by the initial client'')
     else (\<lambda>w.
       case bnd (first_connection na P T (\<lambda>e. fail (Throw (RuntimeError (''Error initializing connection: '' @ e)))) (jump_failed (dstSocketEndpoint u))
                   (initial\<lparr>jumphost := Some False\<rparr>)) (\<lambda>_. sys time_now)
              (ClientConnection_new (jumpClientSocketHandler u) (dstSocketEndpoint u) (get_or [] (tui_id tui)) (get_or [] (tui_passkey tui)), w) of
         (Ok now, (c, w1)) \<Rightarrow>
           (case bnd (jump_loop na P) (\<lambda>_. sys (sys_close (ujh_routerFd u)))
                   (UserJumphostHandler.extend u (JumpLoop.fields c False (now + SERVER_KEEP_ALIVE_DURATION)), w1) of
              (Ok _, (l, w2)) \<Rightarrow> (Ok (), w2)
            | (q, (l, w2)) \<Rightarrow> (lift_bad q, w2))
       | (q, (c, w1)) \<Rightarrow> (lift_bad q, w1)))))"

section \<open>A client that could not connect\<close>

lemma connect_failed_writer:
  assumes "Client_connect na P (c, w) = (Ok False, (c', w'))" and "writer c = None" and "\<not> shuttingDown c"
  shows "writer c' = None \<and> \<not> shuttingDown c'"
proof -
  define dial :: "bool conn_prog" where "dial = bnd (sys (sh_connect (c_socketHandler c) (remoteEndpoint c))) (\<lambda>fd.
        bnd (mod_obj (\<lambda>c. c\<lparr>c_socketFd := fd\<rparr>)) (\<lambda>_.
          if fd = -1 then ret False
          else
            bnd (sys (writeProto (ConnectRequest_codec P) (c_socketHandler c) fd (connect_request c) True)) (\<lambda>_.
            bnd (sys (readProto (ConnectResponse_codec P) (c_socketHandler c) fd True)) (\<lambda>response.
              if get_status response \<noteq> NEW_CLIENT \<and> get_status response \<noteq> RETURNING_CLIENT then
                fail (Throw (RuntimeError ''Error connecting to server''))
              else
                bnd (outcome_prog (CryptoHandler_new na (c_key c) SERVER_CLIENT_NONCE_MSB)) (\<lambda>rch.
                bnd (mod_obj (\<lambda>c. c\<lparr>reader := Some (BackedReader_new (c_socketHandler c) rch fd)\<rparr>)) (\<lambda>_.
                bnd (outcome_prog (CryptoHandler_new na (c_key c) CLIENT_SERVER_NONCE_MSB)) (\<lambda>wch.
                bnd (mod_obj (\<lambda>c. c\<lparr>writer := Some (BackedWriter_new (c_socketHandler c) wch fd)\<rparr>)) (\<lambda>_.
                ret True))))))))"
  have run: "catch_runtime dial (\<lambda>_. bnd get_obj (\<lambda>c.
      if c_socketFd c \<noteq> -1 then bnd (sys (Unix_close (c_socketHandler c) (c_socketFd c))) (\<lambda>_. ret False)
      else ret False)) (c, w) = (Ok False, (c', w'))"
    using assms(1) unfolding Client_connect_def by (simp add: bnd_get_obj dial_def)
  obtain q c1 w1 where d: "dial (c, w) = (q, (c1, w1))" by (metis prod.collapse)
  have keeps: "writer c1 = None \<and> \<not> shuttingDown c1" if "q \<noteq> Ok True"
    using d that assms(2,3) unfolding dial_def
    by (auto simp: bnd_mod bnd_outcome elim!: bnd_sys_cases split: if_splits outcome.splits)
  show ?thesis
  proof (cases "\<exists>e. q = Throw (RuntimeError e)")
    case True
    then have "c' = c1"
      using run d by (auto simp: bnd_get_obj catch_runtime_def elim!: bnd_sys_cases split: if_splits)
    then show ?thesis using keeps True by auto
  next
    case False
    then have "q = Ok False" "c' = c1"
      using run d by (auto simp: catch_runtime_def split: outcome.splits exn.splits)
    then show ?thesis using keeps by auto
  qed
qed

lemma waits_only:
  "fst (sys_int w) = Blocked \<or> (\<exists>n w'. sys_int w = (Ok n, w'))" "fst (time_now w) = Blocked \<or> (\<exists>n w'. time_now w = (Ok n, w'))"
  by (auto simp: sys_int_def time_now_def syscall_def bnd_def split: list.split answer.split)

lemma bnd_blocked: "fst (m s) = Blocked \<or> (\<exists>x t. m s = (Ok x, t) \<and> fst (f x t) = Blocked) \<Longrightarrow> fst (bnd m f s) = Blocked"
  by (cases "m s") (auto simp: bnd_def)

lemma console_setup_waits: "fst (console_setup w) = Blocked \<or> (\<exists>w'. console_setup w = (Ok (), w'))"
proof -
  consider "fst (sys_int w) = Blocked" | n w1 where "sys_int w = (Ok n, w1)" using waits_only by blast
  then show ?thesis
  proof cases
    case 2
    define w2 where "w2 = w1\<lparr>trace := trace w1 @ [Note ''raw mode'']\<rparr>"
    consider "fst (sys_int w2) = Blocked" | m w3 where "sys_int w2 = (Ok m, w3)" using waits_only by blast
    then show ?thesis
      using 2 by cases (auto simp: console_setup_def bnd_def emit_def w2_def split: prod.split outcome.split)
  qed (auto simp: console_setup_def bnd_blocked)
qed


text \<open>The name of the server is unknown: \<^verbatim>\<open>getaddrinfo\<close> fails.\<close>

definition sample_args :: ClientArgs where
  "sample_args = \<lparr>ca_socketHandler = 0, ca_pipeSocketHandler = 1, ca_socketEndpoint = \<lparr>ep_name = Some ''nowhere'', ep_port = Some 2022\<rparr>,
     ca_id = ''id'', ca_passkey = sample_key, ca_console = True, ca_jumphost = False, ca_tunnels = [], ca_reverseTunnels = [],
     ca_forwardSshAgent = False, ca_identityAgent = [], ca_keepaliveDuration = 5, ca_envVars = []\<rparr>"

definition sample_codecs :: tprotos where
  "sample_codecs = sample_tprotos\<lparr>TerminalBuffer_codec := two_codec \<lparr>tb_buffer = None\<rparr> (command_buffer ''ls'' False)\<rparr>"


end
