(* ===== verification/ET_ClientLoop.thy ===== *)
theory ET_ClientLoop
  imports ET_Client
begin

text \<open>
  What the client and the jump host keep of their connection. Both own one as a part of their state
  and work on it through calls of its methods: what follows from that is proved in a locale, which the two
  loops (and the pair of a connection with its port forwards) are instances of.
\<close>

section \<open>A state with a connection in it\<close>

locale holds_connection =
  fixes con :: "'o \<Rightarrow> Connection" and put :: "Connection \<Rightarrow> 'o \<Rightarrow> 'o"
  assumes con_put: "con (put c x) = c"
begin

definition through :: "'a conn_prog \<Rightarrow> ('o \<times> world, 'a) prog" where
  "through m s = (case m (con (fst s), snd s) of (r, (c, w)) \<Rightarrow> (r, (put c (fst s), w)))"

definition con_kept :: "'o \<times> world \<Rightarrow> 'o \<times> world \<Rightarrow> bool" where
  "con_kept s t \<longleftrightarrow> conn_frame (con (fst s), snd s) (con (fst t), snd t)"

end

sublocale holds_connection < frame con_kept
  by unfold_locales (auto simp: con_kept_def intro: cnf.R_refl cnf.R_trans)

context holds_connection
begin

lemma keeps_through: "cnf.keeps m \<Longrightarrow> keeps (through m)"
  by (rule keepsI) (auto simp: through_def con_kept_def con_put dest!: cnf.keepsD split: prod.splits)

lemma keeps_basic:
  "keeps get_obj" "keeps (sys m)" "keeps (outcome_prog x)" "(\<And>y. con (f y) = con y) \<Longrightarrow> keeps (mod_obj f)"
  by (auto simp: keeps_def con_kept_def get_obj_def sys_def outcome_prog_def mod_obj_def conn_frame_def split: prod.splits)

lemmas keeps_all = keeps_structure keeps_basic

text \<open>A round of a loop: the other thread has its turn, the flags are read, and the body says whether to go on.\<close>

lemma kept_turn:
  assumes "keeps other" and "keeps body"
    and "\<And>u s0 stop s1 go s2. other s = (Ok u, s0) \<Longrightarrow> sys read_flag s0 = (Ok stop, s1) \<Longrightarrow> \<not> over stop s1 \<Longrightarrow>
      body s1 = (Ok go, s2) \<Longrightarrow> go \<Longrightarrow> con_kept s2 (snd (again s2))"
  shows "con_kept s (snd (bnd other (\<lambda>_. bnd (sys read_flag) (\<lambda>stop s1. if over stop s1 then (Ok (), s1)
    else bnd body (\<lambda>go s2. if go then again s2 else (Ok (), s2)) s1)) s))"
proof (rule keeps_bnd_at [OF assms(1)], rule keeps_bnd_at [OF keeps_basic(2)])
  fix u s0 stop s1 assume o: "other s = (Ok u, s0)" and f: "sys read_flag s0 = (Ok stop, s1)"
  show "con_kept s1 (snd (if over stop s1 then (Ok (), s1) else bnd body (\<lambda>go s2. if go then again s2 else (Ok (), s2)) s1))"
  proof (cases "over stop s1")
    case False
    have "con_kept s1 (snd (bnd body (\<lambda>go s2. if go then again s2 else (Ok (), s2)) s1))"
      by (rule keeps_bnd_at [OF assms(2)]) (simp add: assms(3) [OF o f False] R_refl)
    then show ?thesis using False by simp
  qed (simp add: R_refl)
qed

end

interpretation ecf: holds_connection en_conn "\<lambda>x e. e\<lparr>en_conn := x\<rparr>"
  by unfold_locales simp

interpretation clc: holds_connection "\<lambda>c :: ClientLoop. en_conn (tc_endpoint c)"
    "\<lambda>x c. c\<lparr>tc_endpoint := (tc_endpoint c)\<lparr>en_conn := x\<rparr>\<rparr>"
  by unfold_locales simp

interpretation jlc: holds_connection "\<lambda>j :: JumpLoop. jumpclient j" "\<lambda>x j. j\<lparr>jumpclient := x\<rparr>"
  by unfold_locales simp

declare ecf.keeps_all [keeps_intros] clc.keeps_all [keeps_intros] jlc.keeps_all [keeps_intros]

section \<open>The parts of the loops\<close>

lemma ecf_parts [keeps_intros]: "cnf.keeps m \<Longrightarrow> ecf.keeps (on_con m)" "ecf.keeps (on_pfh m1)"
proof -
  show "ecf.keeps (on_con m)" if "cnf.keeps m" for m :: "'z conn_prog"
    using ecf.keeps_through [OF that] by (simp add: ecf.through_def [abs_def] on_con_def [abs_def])
  show "ecf.keeps (on_pfh m1)"
    by (auto simp: ecf.keeps_def ecf.con_kept_def on_pfh_def conn_frame_def split: prod.splits)
qed

lemma clc_on_en [keeps_intros]: "ecf.keeps m \<Longrightarrow> clc.keeps (on_en m)"
  by (rule clc.keepsI) (auto simp: on_en_def clc.con_kept_def ecf.con_kept_def dest!: ecf.keepsD split: prod.splits)

lemma jlc_on_jump [keeps_intros]: "cnf.keeps m \<Longrightarrow> jlc.keeps (on_jump m)"
  using jlc.keeps_through [of m] by (simp add: jlc.through_def [abs_def] on_jump_def [abs_def])

lemma ecf_messages [keeps_intros]: "ecf.keeps (send_proto na C h m)" "ecf.keeps (forward_packet na T p)"
  unfolding send_proto_def forward_packet_def by (auto intro!: keeps_intros split: option.split)

lemma reconnect_frame [keeps_intros]: "cnf.keeps (reconnect_turns P)" "cnf.keeps (join_reconnect P)"
proof -
  have "conn_frame s (snd (reconnect_turns P s))" for s
  proof (induction P s rule: reconnect_turns.induct)
    case (1 P s)
    have rest: "conn_frame s1 (snd (if turn \<and> reconnectThread (fst s1) = Running then
        bnd (pollReconnect_round P) (\<lambda>fin s2.
          reconnect_turns P (if fin then ((fst s2)\<lparr>reconnectThread := Finished\<rparr>, snd s2) else s2)) s1
        else (Ok (), s1)))"
      if f: "sys read_flag s = (Ok turn, s1)" for turn s1
    proof (cases "turn \<and> reconnectThread (fst s1) = Running")
      case True
      have "conn_frame s2 (snd (reconnect_turns P (if fin then ((fst s2)\<lparr>reconnectThread := Finished\<rparr>, snd s2) else s2)))"
        if "pollReconnect_round P s1 = (Ok fin, s2)" for fin s2
        by (rule cnf.R_trans [OF _ 1 [OF f True that]]) (simp add: conn_frame_def fds_agree_def)
      then show ?thesis using True by (simp add: cnf.keeps_bnd_at keeps_intros)
    qed (simp only: if_False snd_conv cnf.R_refl)
    show ?case by (subst reconnect_turns.simps, rule cnf.keeps_bnd_at, intro keeps_intros, rule rest)
  qed
  then show "cnf.keeps (reconnect_turns P)" by (simp add: cnf.keeps_def)
  have "cnf.keeps (pollReconnect P)" using pollReconnect_frame by (simp add: cnf.keeps_def)
  then show "cnf.keeps (join_reconnect P)"
    unfolding join_reconnect_def waitReconnect_def by (auto intro!: keeps_intros)
qed

section \<open>The client\<close>

lemma clc_parts [keeps_intros]:
  "clc.keeps touch" "clc.keeps (console_input na T)" "clc.keeps (client_packet na T p acc)" "clc.keeps (client_keepalive na fd)"
  "clc.keeps (client_window na T)"
proof -
  show t: "clc.keeps touch" unfolding touch_def by (auto intro!: keeps_intros)
  show "clc.keeps (console_input na T)" "clc.keeps (client_packet na T p acc)" "clc.keeps (client_keepalive na fd)"
    "clc.keeps (client_window na T)"
    unfolding console_input_def client_packet_def client_keepalive_def client_window_def by (auto intro!: keeps_intros t)
qed

lemma clc_forwards [keeps_intros]: "clc.keeps (send_touch na C h ms)" "clc.keeps (client_forwards na T)"
proof -
  show s: "clc.keeps (send_touch na C h ms)" for C h and ms :: "'m list"
    by (induction ms) (simp_all only: send_touch.simps, (intro keeps_intros | assumption)+)
  show "clc.keeps (client_forwards na T)" unfolding client_forwards_def by (auto intro!: keeps_intros s)
qed

lemma clc_drain [keeps_intros]: "clc.keeps (client_drain na T acc)"
proof -
  have "clc.con_kept s (snd (client_drain na T acc s))" for s
  proof (induction na T acc s rule: client_drain.induct)
    case (1 na T acc s)
    show ?case
      by (subst client_drain.simps)
        (auto intro!: clc.keeps_bnd_at keeps_intros clc.R_refl split: option.split,
          rule 1, assumption, simp, assumption, simp, simp, assumption)
  qed
  then show ?thesis by (simp add: clc.keeps_def)
qed

lemma clc_round [keeps_intros]: "clc.keeps (client_round na T)"
  unfolding client_round_def client_socket_def Let_def by (auto intro!: keeps_intros)

lemma clc_loop [keeps_intros]: "clc.keeps (client_loop na P T)"
proof -
  have "clc.con_kept s (snd (client_loop na P T s))" for s
    by (induction na P T s rule: client_loop.induct) (subst client_loop.simps, rule clc.kept_turn, (intro keeps_intros)+, blast)
  then show ?thesis by (simp add: clc.keeps_def)
qed

lemma clc_session: "clc.keeps (client_session na P T command noexit)"
  unfolding client_session_def by (auto intro!: keeps_intros)

section \<open>The jump host\<close>

lemma jlc_round [keeps_intros]: "jlc.keeps (jump_round na P)"
proof -
  have "jlc.keeps jump_touch" unfolding jump_touch_def by (auto intro!: keeps_intros)
  then show ?thesis
    unfolding jump_round_def jump_up_def jump_down_def Let_def by (auto intro!: keeps_intros)
qed

lemma jump_loop_keeps: "jlc.keeps (jump_loop na P)"
proof -
  have "jlc.con_kept s (snd (jump_loop na P s))" for s
    by (induction na P s rule: jump_loop.induct) (subst jump_loop.simps, rule jlc.kept_turn, (intro keeps_intros)+, blast)
  then show ?thesis by (simp add: jlc.keeps_def)
qed

section \<open>The client's connection from its first packet to its last\<close>

lemma await_response_frame: "(\<And>e. cnf.keeps (refused e)) \<Longrightarrow> cnf.keeps (await_response na T refused n)"
  by (induction n) (auto intro!: keeps_intros)

lemma first_connection_agrees:
  assumes "first_connection na P T refused giving_up initial (c, w) = (Ok (), (c', w'))"
    and "writer c = None" and "\<not> shuttingDown c" and "\<And>e. cnf.keeps (refused e)" and "\<And>e s. \<not> is_ok (fst (giving_up e s))"
    and "writer c' \<noteq> None"
  shows "c_id c' = c_id c \<and> c_key c' = c_key c \<and> fds_agree c' \<and> reader c' \<noteq> None"
proof -
  obtain b where "connect_attempt na P T refused initial (c, w) = (Ok b, (c', w'))"
    using assms(1) unfolding first_connection_def
  proof (elim catch_runtime_OkE)
    fix e u assume "giving_up e u = (Ok (), (c', w'))"
    then show thesis using assms(5) [of e u] by (simp add: is_ok_def)
  qed (auto elim!: bnd_eq_OkE simp: Let_def split: if_splits)
  then obtain ok c1 w1 where con: "Client_connect na P (c, w) = (Ok ok, (c1, w1))"
    and rest: "(if ok then bnd (outcome_prog (protoToString (InitialPayload_codec T) initial)) (\<lambda>s.
       bnd (Connection_writePacket na (mkPacket INITIAL_PAYLOAD s)) (\<lambda>_. await_response na T refused 3))
     else ret False) (c1, w1) = (Ok b, (c', w'))"
    unfolding connect_attempt_def by (elim bnd_Ok_pairE)
  have ok
  proof (rule ccontr)
    assume "\<not> ok"
    then have "c' = c1" "writer c1 = None" using con rest connect_failed_writer assms(2,3) by auto
    then show False using assms(6) by simp
  qed
  then have "Client_connect na P (c, w) = (Ok True, (c1, w1))" using con by simp
  then have c1: "c_id c1 = c_id c \<and> c_key c1 = c_key c \<and> fds_agree c1 \<and> reader c1 \<noteq> None"
    by (rule Client_connect_True) (simp add: fds_agree_def BackedReader_new_def BackedWriter_new_def)
  have "cnf.keeps (bnd (outcome_prog (protoToString (InitialPayload_codec T) initial)) (\<lambda>s.
       bnd (Connection_writePacket na (mkPacket INITIAL_PAYLOAD s)) (\<lambda>_. await_response na T refused 3)))"
    by (intro keeps_intros await_response_frame assms(4))
  from cnf.keepsD [OF this] have "conn_frame (c1, w1) (c', w')" using rest \<open>ok\<close> by simp
  then show ?thesis using c1 by (auto simp: conn_frame_def)
qed

text \<open>
  C19: A client that has connected keeps its session: whatever the server, the user and the system do, when its loop
  ends its connection still has the id and the passkey it was started with, a reader and a writer, and all
  three name the same socket, through any number of reconnections.\<close>

theorem client_keeps_session:
  assumes "TerminalClient_new na P T a w = (Ok t, w1)" and "writer (en_conn (tc_endpoint t)) \<noteq> None"
    and "TerminalClient_run na P T command noexit t w2 = (Ok l, w3)"
  shows "c_id (en_conn (tc_endpoint l)) = ca_id a \<and> c_key (en_conn (tc_endpoint l)) = ca_passkey a \<and>
    fds_agree (en_conn (tc_endpoint l)) \<and> reader (en_conn (tc_endpoint l)) \<noteq> None \<and> writer (en_conn (tc_endpoint l)) \<noteq> None"
proof -
  let ?c = "ClientConnection_new (ca_socketHandler a) (ca_socketEndpoint a) (ca_id a) (ca_passkey a)"
  obtain initial w0 where "first_connection na P T (\<lambda>_. fail (Exit 1)) (\<lambda>_. fail (Exit 1)) initial (?c, w0) =
      (Ok (), (en_conn (tc_endpoint t), w1))"
    using assms(1) by (auto simp: TerminalClient_new_def split: prod.splits outcome.splits)
  from first_connection_agrees [OF this] assms(2)
  have t: "c_id (en_conn (tc_endpoint t)) = ca_id a \<and> c_key (en_conn (tc_endpoint t)) = ca_passkey a \<and>
      fds_agree (en_conn (tc_endpoint t)) \<and> reader (en_conn (tc_endpoint t)) \<noteq> None"
    by (simp add: ClientConnection_new_def Connection_new_def is_ok_def cnf.keeps_fail)
  obtain now w4 x where "client_session na P T command noexit
      (TerminalClient.extend t (ClientLoop.fields (now + keepaliveDuration t) False first_info), w4) = (Ok x, (l, w3))"
    using assms(3) unfolding TerminalClient_run_def by (auto elim!: bnd_eq_OkE split: prod.splits outcome.splits)
  from clc.keepsD [OF clc_session this] have "conn_frame (en_conn (tc_endpoint t), w4) (en_conn (tc_endpoint l), w3)"
    by (simp add: clc.con_kept_def TerminalClient.defs)
  then show ?thesis using t assms(2) by (auto simp: conn_frame_def)
qed

text \<open>A client whose server is slow to respond, one round with a keepalive, and a request to stop.\<close>

definition started_args :: ClientArgs where
  "started_args = sample_args\<lparr>ca_socketEndpoint := \<lparr>ep_name = Some ''host'', ep_port = Some 2022\<rparr>, ca_console := False\<rparr>"

definition started_codecs :: tprotos where
  "started_codecs = sample_tprotos\<lparr>InitialPayload_codec := two_codec
     \<lparr>jumphost = None, reversetunnels = [], environmentvariables = []\<rparr> \<lparr>jumphost = Some False, reversetunnels = [], environmentvariables = []\<rparr>\<rparr>"

definition client_started :: "TerminalClient outcome \<times> world" where
  "client_started = TerminalClient_new clear_sodium sample_protos started_codecs started_args
     (sample_world (accepted_answers @ writeAll_answers 100 @ [Val 0, Val 0, Val 0]))"

definition started_client :: TerminalClient where
  "started_client = (case fst client_started of Ok t \<Rightarrow> t)"

definition client_answers :: "answer list" where
  "client_answers = [Val 100, Val 0, Val 0, Val 0, Val 200, Val 200] @ writeAll_answers 100 @ [Val 0, Val 1]"

definition client_ran :: "ClientLoop outcome \<times> world" where
  "client_ran = TerminalClient_run clear_sodium sample_protos started_codecs [] False started_client ((snd client_started)\<lparr>script := client_answers\<rparr>)"

theorem client_keeps_session_witness:
  "\<exists>l. fst client_ran = Ok l \<and> waitingOnKeepalive l \<and> c_id (en_conn (tc_endpoint l)) = ''id'' \<and> fds_agree (en_conn (tc_endpoint l))"
proof -
  have ok: "is_ok (fst client_started)" "writer (en_conn (tc_endpoint started_client)) \<noteq> None"
    "(case fst client_ran of Ok l \<Rightarrow> waitingOnKeepalive l | _ \<Rightarrow> False)" by code_simp+
  have new: "TerminalClient_new clear_sodium sample_protos started_codecs started_args
      (sample_world (accepted_answers @ writeAll_answers 100 @ [Val 0, Val 0, Val 0])) = (Ok started_client, snd client_started)"
    using ok(1) by (auto simp: is_ok_def started_client_def client_started_def prod_eq_iff split: outcome.splits)
  obtain l where l: "fst client_ran = Ok l" "waitingOnKeepalive l" using ok(3) by (auto split: outcome.splits)
  then have "TerminalClient_run clear_sodium sample_protos started_codecs [] False started_client ((snd client_started)\<lparr>script := client_answers\<rparr>) =
      (Ok l, snd client_ran)" by (simp add: client_ran_def prod_eq_iff)
  from client_keeps_session [OF new ok(2) this] show ?thesis using l by (auto simp: started_args_def sample_args_def)
qed

end
