(* ===== verification/ET_Pane.thy ===== *)
theory ET_Pane
  imports ET_Loop "HOL-Library.Sublist"
begin

text \<open>
  The terminal of an HTM pane, from \<^verbatim>\<open>htm/TerminalHandler.cpp\<close>: a shell on a pseudo terminal and the
  lines it printed last, which are sent again to a client that comes back. The lemmas show that
  the lines kept stay within the two limits and are the end of what the shell printed.
\<close>

record TerminalHandler =
  masterFd :: int
  childPid :: int
  th_run :: bool
  th_buffer :: "string list"
  bufferLength :: int

type_synonym 'a th_prog = "(TerminalHandler \<times> world, 'a) prog"

definition MAX_BUFFER_LINES :: nat where "MAX_BUFFER_LINES = 1024"
definition MAX_BUFFER_CHARS :: int where "MAX_BUFFER_CHARS = 128 * 1024"
definition BUF_SIZE :: nat where "BUF_SIZE = 16 * 1024"

text \<open>The members that the constructor leaves alone have no value yet; \<^verbatim>\<open>start\<close> sets them.\<close>

definition TerminalHandler_new :: TerminalHandler where
  "TerminalHandler_new = \<lparr>masterFd = -1, childPid = -1, th_run = True, th_buffer = [], bufferLength = 0\<rparr>"

text \<open>
  \<^verbatim>\<open>forkpty\<close> answers with the process id, and sets the descriptor of the terminal. In the child it
  returns 0, and the process goes on as the user's shell.
\<close>

definition TerminalHandler_start :: "unit th_prog" where
  "TerminalHandler_start = bnd (sys sys_int) (\<lambda>pid.
     if pid = -1 then fail (Abort ''Error'')
     else if pid = 0 then fail (Exit 0)
     else bnd (sys sys_open) (\<lambda>fd. mod_obj (\<lambda>t. t\<lparr>masterFd := fd, childPid := pid\<rparr>)))"

text \<open>New text joins the last line; the rest of the pieces are lines of their own.\<close>

definition append_tokens :: "string list \<Rightarrow> string list \<Rightarrow> string list" where
  "append_tokens buffer tokens =
     (if buffer = [] then tokens else butlast buffer @ (last buffer @ hd tokens) # tl tokens)"

text \<open>The two limits: lines first, then characters. The second loop reads the front of the deque.\<close>

definition trim_lines :: "string list \<times> int \<Rightarrow> string list \<times> int" where
  "trim_lines p = (let amountToErase = length (fst p) - MAX_BUFFER_LINES in
     (drop amountToErase (fst p), snd p - (\<Sum>l\<leftarrow>take amountToErase (fst p). int (length l))))"

fun trim_chars :: "string list \<Rightarrow> int \<Rightarrow> (string list \<times> int) outcome" where
  "trim_chars [] n = (if n > MAX_BUFFER_CHARS then Abort ''undefined: front of an empty deque'' else Ok ([], n))"
| "trim_chars (l # ls) n = (if n > MAX_BUFFER_CHARS then trim_chars ls (n - int (length l)) else Ok (l # ls, n))"

definition keep_lines :: "string \<Rightarrow> unit th_prog" where
  "keep_lines newChars =
     (let tokens = split newChars (CHR 0x0A) in
      bnd get_obj (\<lambda>t.
      let trimmed = trim_lines (append_tokens (th_buffer t) tokens, bufferLength t + (\<Sum>l\<leftarrow>tokens. int (length l))) in
      bnd (outcome_prog (trim_chars (fst trimmed) (snd trimmed))) (\<lambda>kept.
      mod_obj (\<lambda>t. t\<lparr>th_buffer := fst kept, bufferLength := snd kept\<rparr>))))"

definition poll_ended :: "string th_prog" where
  "poll_ended = bnd (sys sys_int) (\<lambda>rc. bnd (sys GetErrno) (\<lambda>e.
     if rc < 0 \<and> e \<noteq> ECHILD then fail (Abort ''Error'')
     else bnd (mod_obj (\<lambda>t. t\<lparr>th_run := False\<rparr>)) (\<lambda>_. ret [])))"

definition pollUserTerminal :: "string th_prog" where
  "pollUserTerminal = bnd get_obj (\<lambda>t.
     if \<not> th_run t then ret []
     else bnd (sys (select_isset (masterFd t))) (\<lambda>ready.
       if \<not> ready then ret []
       else catch_runtime
         (bnd (sys (sys_read (masterFd t) BUF_SIZE)) (\<lambda>rd.
            if fst rd < 0 then fail (Throw (RuntimeError ''Terminal Failure''))
            else if fst rd > 0 then bnd (keep_lines (snd rd)) (\<lambda>_. ret (snd rd))
            else poll_ended))
         (\<lambda>_. bnd (mod_obj (\<lambda>t. t\<lparr>th_run := False\<rparr>)) (\<lambda>_. ret []))))"

definition TerminalHandler_appendData :: "string \<Rightarrow> unit th_prog" where
  "TerminalHandler_appendData data = bnd get_obj (\<lambda>t. sys (Raw_writeAll (masterFd t) data))"

text \<open>The window size goes to the terminal with one \<^verbatim>\<open>ioctl\<close>, whose result is not looked at.\<close>

definition updateTerminalSize :: "int \<Rightarrow> int \<Rightarrow> unit th_prog" where
  "updateTerminalSize col row = bnd (sys (emit (Note (''winsize '' @ decimal col @ '' '' @ decimal row)))) (\<lambda>_.
     bnd (sys sys_int) (\<lambda>_. ret ()))"

definition TerminalHandler_stop :: "unit th_prog" where
  "TerminalHandler_stop = bnd (sys sys_int) (\<lambda>_. mod_obj (\<lambda>t. t\<lparr>th_run := False\<rparr>))"

lemmas pane_defs = TerminalHandler_start_def pollUserTerminal_def keep_lines_def poll_ended_def
  TerminalHandler_appendData_def updateTerminalSize_def TerminalHandler_stop_def

lemma pane_keeps [keeps_intros]:
  "osle.keeps TerminalHandler_start" "osle.keeps pollUserTerminal" "osle.keeps (TerminalHandler_appendData d)"
  "osle.keeps (updateTerminalSize c r)" "osle.keeps TerminalHandler_stop"
  unfolding pane_defs Let_def by (auto intro!: keeps_intros)

section \<open>The lines kept\<close>

definition chars_of :: "string list \<Rightarrow> int" where
  "chars_of ls = (\<Sum>l\<leftarrow>ls. int (length l))"

definition th_inv :: "TerminalHandler \<Rightarrow> bool" where
  "th_inv t \<longleftrightarrow> bufferLength t = chars_of (th_buffer t) \<and> length (th_buffer t) \<le> MAX_BUFFER_LINES \<and>
     bufferLength t \<le> MAX_BUFFER_CHARS"

lemma chars_of_simps [simp]: "chars_of [] = 0" "chars_of (l # ls) = int (length l) + chars_of ls"
  "chars_of (a @ b) = chars_of a + chars_of b"
  by (simp_all add: chars_of_def)

lemma concat_split_from: "concat (split_from d s item) = item @ filter (\<lambda>c. c \<noteq> d) s"
  by (induction d s item rule: split_from.induct) auto

lemma concat_split: "concat (split s d) = filter (\<lambda>c. c \<noteq> d) s"
  by (simp add: split_def concat_split_from)

lemma split_nonempty: "s \<noteq> [] \<Longrightarrow> split s d \<noteq> []"
proof -
  have "split_from d s item \<noteq> []" if "s \<noteq> [] \<or> item \<noteq> []" for item
    using that by (induction d s item rule: split_from.induct) auto
  then show "s \<noteq> [] \<Longrightarrow> split s d \<noteq> []" by (simp add: split_def)
qed

lemma append_tokens_facts:
  assumes "tokens \<noteq> []"
  shows "concat (append_tokens b tokens) = concat b @ concat tokens"
    and "chars_of (append_tokens b tokens) = chars_of b + chars_of tokens"
proof -
  obtain k ks where t: "tokens = k # ks" using assms by (cases tokens) auto
  show "concat (append_tokens b tokens) = concat b @ concat tokens"
    "chars_of (append_tokens b tokens) = chars_of b + chars_of tokens"
    by (cases b rule: rev_cases; simp add: append_tokens_def t)+
qed

lemma trim_chars_Ok:
  assumes "n = chars_of ls"
  obtains k where "trim_chars ls n = Ok (drop k ls, chars_of (drop k ls))" "chars_of (drop k ls) \<le> MAX_BUFFER_CHARS"
  using assms
proof (induction ls n arbitrary: thesis rule: trim_chars.induct)
  case (1 n)
  then show ?case by (simp add: MAX_BUFFER_CHARS_def)
next
  case (2 l ls n)
  show ?case
  proof (cases "n > MAX_BUFFER_CHARS")
    case True
    then obtain k where "trim_chars ls (n - int (length l)) = Ok (drop k ls, chars_of (drop k ls))"
        "chars_of (drop k ls) \<le> MAX_BUFFER_CHARS"
      using 2 by auto
    then show ?thesis using True 2(2) [of "Suc k"] by simp
  next
    case False
    then show ?thesis using 2(2) [of 0] 2(3) by simp
  qed
qed

lemma trim_lines_facts:
  assumes "n = chars_of ls"
  obtains k where "trim_lines (ls, n) = (drop k ls, chars_of (drop k ls))" "length (drop k ls) \<le> MAX_BUFFER_LINES"
proof
  let ?k = "length ls - MAX_BUFFER_LINES"
  have "chars_of ls = chars_of (take ?k ls) + chars_of (drop ?k ls)"
    by (metis append_take_drop_id chars_of_simps(3))
  then show "trim_lines (ls, n) = (drop ?k ls, chars_of (drop ?k ls))"
    using assms by (simp add: trim_lines_def chars_of_def Let_def)
qed simp

lemma suffix_concat_drop: "suffix (concat (drop k ls)) (concat ls)"
  by (metis append_take_drop_id concat_append suffixI)

text \<open>What \<open>keep_lines\<close> does: it cannot fail, and it keeps an end of the text it had with the new one.\<close>

lemma keep_lines_spec:
  assumes "s \<noteq> []" and "bufferLength t = chars_of (th_buffer t)"
  obtains t' where "keep_lines s (t, w) = (Ok (), (t', w))" "th_inv t'"
    "suffix (concat (th_buffer t')) (concat (th_buffer t) @ filter (\<lambda>c. c \<noteq> CHR 0x0A) s)"
    "masterFd t' = masterFd t" "th_run t' = th_run t"
proof -
  let ?tok = "split s (CHR 0x0A)"
  let ?b = "append_tokens (th_buffer t) ?tok"
  note at = append_tokens_facts [OF split_nonempty [OF assms(1)], of "th_buffer t" "CHR 0x0A"]
  then have n: "bufferLength t + (\<Sum>l\<leftarrow>?tok. int (length l)) = chars_of ?b"
    using assms(2) by (simp add: chars_of_def)
  obtain k where k: "trim_lines (?b, chars_of ?b) = (drop k ?b, chars_of (drop k ?b))" "length (drop k ?b) \<le> MAX_BUFFER_LINES"
    by (rule trim_lines_facts [OF refl])
  obtain j where j: "trim_chars (drop k ?b) (chars_of (drop k ?b)) = Ok (drop j (drop k ?b), chars_of (drop j (drop k ?b)))"
      "chars_of (drop j (drop k ?b)) \<le> MAX_BUFFER_CHARS"
    by (rule trim_chars_Ok [OF refl])
  let ?t = "t\<lparr>th_buffer := drop j (drop k ?b), bufferLength := chars_of (drop j (drop k ?b))\<rparr>"
  have "keep_lines s (t, w) = (Ok (), (?t, w))"
    using n k(1) j(1) by (simp add: keep_lines_def Let_def bnd_def outcome_prog_def)
  moreover have "th_inv ?t" using k(2) j(2) by (simp add: th_inv_def)
  moreover have "suffix (concat (th_buffer ?t)) (concat (th_buffer t) @ filter (\<lambda>c. c \<noteq> CHR 0x0A) s)"
    using suffix_concat_drop [of "j + k" ?b] at(1) by (simp add: concat_split add.commute)
  ultimately show thesis using that [of ?t] by simp
qed

lemma sys_read_receives:
  "sys_read fd n w = (Ok rd, w') \<Longrightarrow> receives fd (if fst rd < 0 then [] else snd rd) w w' \<and> (fst rd > 0 \<longrightarrow> snd rd \<noteq> []) \<and>
     (fst rd = 0 \<longrightarrow> snd rd = [])"
  by (auto simp: kernel_defs bnd_def receives_def min_def split: list.splits answer.splits if_splits)

lemma poll_ended_spec:
  "poll_ended (t, w) = (Ok s, (t', w')) \<or> (\<exists>e. fst (poll_ended (t, w)) = Throw e) \<Longrightarrow>
     s = [] \<and> t' = t\<lparr>th_run := False\<rparr> \<and> trace w' = trace w"
  by (cases "script w") (auto simp: poll_ended_def bnd_def kernel_defs split: answer.splits if_splits)


definition sample_pane :: TerminalHandler where
  "sample_pane = TerminalHandler_new\<lparr>masterFd := 4, th_buffer := [''$ ''], bufferLength := 2\<rparr>"


text \<open>
  a line break at the end of a read is forgotten. The same text leaves two lines when it
  comes in one read and one line when the read ends after the line break.\<close>

lemma keep_lines_glues:
  assumes "CHR 0x0A \<notin> set a" and "CHR 0x0A \<notin> set b" and "a \<noteq> []" and "b \<noteq> []" and "length a + length b \<le> 1000"
    and "th_buffer t = []" and "bufferLength t = 0"
  shows "(\<exists>t1. keep_lines (a @ CHR 0x0A # b) (t, w) = (Ok (), (t1, w)) \<and> th_buffer t1 = [a, b]) \<and>
    (\<exists>t2. bnd (keep_lines (a @ [CHR 0x0A])) (\<lambda>_. keep_lines b) (t, w) = (Ok (), (t2, w)) \<and> th_buffer t2 = [a @ b])"
proof -
  have s: "split (a @ CHR 0x0A # b) (CHR 0x0A) = [a, b]" "split (a @ [CHR 0x0A]) (CHR 0x0A) = [a]" "split b (CHR 0x0A) = [b]"
    using assms(1-4) split_Cons [of "CHR 0x0A" a "[]"] by (simp_all add: split_Cons split_none) (simp add: split_def)
  have "int (length a) + int (length b) \<le> MAX_BUFFER_CHARS" "int (length a) \<le> MAX_BUFFER_CHARS"
    using assms(5) by (simp_all add: MAX_BUFFER_CHARS_def)
  then show ?thesis
    using s assms(6,7) by (simp add: keep_lines_def Let_def bnd_def outcome_prog_def append_tokens_def trim_lines_def MAX_BUFFER_LINES_def)
qed

end
