(* ===== verification/ET_Multiplexer.thy ===== *)
theory ET_Multiplexer
  imports ET_Pane ET_Tunnel Complex_Main
begin

text \<open>
  The window layout of an HTM session, from \<^verbatim>\<open>htm/MultiplexerState.cpp\<close>: tabs, panes and splits in
  maps by their ids, with the operations that build and take apart the tree. Objects are reached
  through the map that owns them.
\<close>

section \<open>Sizes\<close>

text \<open>
  A \<^verbatim>\<open>float\<close> is a rational number; after each operation it is rounded to 24 binary digits, to the
  nearest value and in the middle to the even one. The sizes are positive and far from overflow.
\<close>

fun nlog2 :: "nat \<Rightarrow> nat" where
  "nlog2 n = (if n < 2 then 0 else Suc (nlog2 (n div 2)))"

declare nlog2.simps [simp del]

definition pow2 :: "int \<Rightarrow> rat" where
  "pow2 e = (if 0 \<le> e then 2 ^ nat e else 1 / 2 ^ nat (- e))"

definition round_even :: "rat \<Rightarrow> int" where
  "round_even r = (let f = floor r; d = r - of_int f in
     if d < 1 / 2 \<or> (d = 1 / 2 \<and> even f) then f else f + 1)"

definition round_f32 :: "rat \<Rightarrow> rat" where
  "round_f32 x = (if x \<le> 0 then 0 else
     let (a, b) = quotient_of x;
         e0 = int (nlog2 (nat a)) - int (nlog2 (nat b));
         e = (if pow2 e0 \<le> x then e0 else e0 - 1);
         ulp = pow2 (max (e - 23) (-149))
     in of_int (round_even (x / ulp)) * ulp)"

section \<open>State\<close>

record Pane =
  p_id :: string
  p_parentId :: string
  terminal :: TerminalHandler

record Split =
  s_id :: string
  s_parentId :: string
  vertical :: bool
  panes_or_splits :: "string list"
  sizes :: "rat list"

record Tab =
  t_id :: string
  pane_or_split_id :: string
  order :: int

record MultiplexerState =
  ms_socketHandler :: nat
  tabs :: "(string \<times> Tab) list"
  panes :: "(string \<times> Pane) list"
  splits :: "(string \<times> Split) list"
  closed_ids :: "string set"

type_synonym 'a ms_prog = "(MultiplexerState \<times> world, 'a) prog"

text \<open>\<^verbatim>\<open>sole::uuid4().str()\<close>: the environment draws it.\<close>

definition uuid4 :: "(world, string) prog" where
  "uuid4 = bnd syscall (\<lambda>a. case a of Ret _ u \<Rightarrow> ret u | Err _ \<Rightarrow> fail Blocked)"

definition new_pane :: "string \<Rightarrow> string \<Rightarrow> Pane" where
  "new_pane i parent = \<lparr>p_id = i, p_parentId = parent, terminal = TerminalHandler_new\<rparr>"

definition set_pane :: "string \<Rightarrow> (Pane \<Rightarrow> Pane) \<Rightarrow> MultiplexerState \<Rightarrow> MultiplexerState" where
  "set_pane i f m = m\<lparr>panes := al_map i f (panes m)\<rparr>"

definition set_split :: "string \<Rightarrow> (Split \<Rightarrow> Split) \<Rightarrow> MultiplexerState \<Rightarrow> MultiplexerState" where
  "set_split i f m = m\<lparr>splits := al_map i f (splits m)\<rparr>"

definition set_tab :: "string \<Rightarrow> (Tab \<Rightarrow> Tab) \<Rightarrow> MultiplexerState \<Rightarrow> MultiplexerState" where
  "set_tab i f m = m\<lparr>tabs := al_map i f (tabs m)\<rparr>"

definition no_pane :: string where
  "no_pane = ''Tried to get a pane that doesn'' @ quote @ ''t exist: ''"

definition getTab :: "string \<Rightarrow> MultiplexerState \<Rightarrow> Tab outcome" where
  "getTab i m = (case map_of (tabs m) i of None \<Rightarrow> Abort (no_pane @ i) | Some t \<Rightarrow> Ok t)"

definition getPane :: "string \<Rightarrow> MultiplexerState \<Rightarrow> Pane outcome" where
  "getPane i m = (case map_of (panes m) i of None \<Rightarrow> Abort (no_pane @ i) | Some p \<Rightarrow> Ok p)"

definition getSplit :: "string \<Rightarrow> MultiplexerState \<Rightarrow> Split outcome" where
  "getSplit i m = (case map_of (splits m) i of None \<Rightarrow> Abort (no_pane @ i) | Some s \<Rightarrow> Ok s)"

definition fatalIfFound :: "string \<Rightarrow> unit ms_prog" where
  "fatalIfFound i = bnd get_obj (\<lambda>m.
     if map_of (panes m) i \<noteq> None then fail (Abort (''Found unexpected id in panes: '' @ i))
     else if map_of (splits m) i \<noteq> None then fail (Abort (''Found unexpected id in splits: '' @ i))
     else if map_of (tabs m) i \<noteq> None then fail (Abort (''Found unexpected id in tabs: '' @ i))
     else ret ())"

text \<open>A method of the terminal of the pane with id \<open>i\<close>.\<close>

definition on_terminal :: "string \<Rightarrow> 'a th_prog \<Rightarrow> 'a ms_prog" where
  "on_terminal i f s = (case map_of (panes (fst s)) i of
      None \<Rightarrow> (Abort ''undefined: no such pane'', s)
    | Some p \<Rightarrow> (case f (terminal p, snd s) of (r, (t, w)) \<Rightarrow> (r, (set_pane i (\<lambda>p. p\<lparr>terminal := t\<rparr>) (fst s), w))))"

text \<open>A method of a terminal that is in no pane of the map any more.\<close>

definition detached :: "'a th_prog \<Rightarrow> TerminalHandler \<Rightarrow> (world, 'a) prog" where
  "detached f t w = (case f (t, w) of (r, (_, w')) \<Rightarrow> (r, w'))"

section \<open>Operations\<close>

definition MultiplexerState_new :: "nat \<Rightarrow> world \<Rightarrow> MultiplexerState outcome \<times> world" where
  "MultiplexerState_new h w =
     (case bnd (sys uuid4) (\<lambda>tid.
        bnd (mod_obj (\<lambda>m. m\<lparr>tabs := om_insert str_less tid \<lparr>t_id = tid, pane_or_split_id = [], order = 0\<rparr> (tabs m)\<rparr>)) (\<lambda>_.
        bnd (sys uuid4) (\<lambda>pid.
        bnd (mod_obj (\<lambda>m. m\<lparr>panes := om_insert str_less pid (new_pane pid tid) (panes m)\<rparr>)) (\<lambda>_.
        bnd (on_terminal pid TerminalHandler_start) (\<lambda>_.
        mod_obj (set_tab tid (\<lambda>t. t\<lparr>pane_or_split_id := pid\<rparr>)))))))
        (\<lparr>ms_socketHandler = h, tabs = [], panes = [], splits = [], closed_ids = {}\<rparr>, w)
      of (r, (m, w')) \<Rightarrow> (case r of Ok _ \<Rightarrow> Ok m | q \<Rightarrow> lift_bad q, w'))"

definition ms_appendData :: "string \<Rightarrow> string \<Rightarrow> unit ms_prog" where
  "ms_appendData uid data = bnd get_obj (\<lambda>m.
     if map_of (panes m) uid = None then fail (Abort ''Tried to write to non-existent terminal'')
     else on_terminal uid (TerminalHandler_appendData data))"

definition newTab :: "string \<Rightarrow> string \<Rightarrow> unit ms_prog" where
  "newTab tabId paneId =
     bnd (fatalIfFound tabId) (\<lambda>_. bnd (fatalIfFound paneId) (\<lambda>_.
     bnd (mod_obj (\<lambda>m. m\<lparr>tabs := om_insert str_less tabId
            \<lparr>t_id = tabId, pane_or_split_id = paneId, order = int (length (tabs m))\<rparr> (tabs m)\<rparr>)) (\<lambda>_.
     bnd (mod_obj (\<lambda>m. m\<lparr>panes := om_insert str_less paneId (new_pane paneId tabId) (panes m)\<rparr>)) (\<lambda>_.
     on_terminal paneId TerminalHandler_start))))"

text \<open>
  The loops that look for a child: they stop at the first one, and stop the server when the last
  element is not it.
\<close>

fun replace_loop :: "string \<Rightarrow> string \<Rightarrow> string \<Rightarrow> string list \<Rightarrow> string list outcome" where
  "replace_loop msg old new [] = Ok []"
| "replace_loop msg old new (z # zs) =
     (if z = old then Ok (new # zs)
      else if zs = [] then Abort msg
      else case replace_loop msg old new zs of Ok r \<Rightarrow> Ok (z # r) | q \<Rightarrow> q)"

fun erase_loop :: "string \<Rightarrow> string \<Rightarrow> string list \<Rightarrow> rat list \<Rightarrow> (string list \<times> rat list) outcome" where
  "erase_loop msg old [] szs = Ok ([], szs)"
| "erase_loop msg old (z # zs) [] = (if z = old then Abort ''undefined: erase past the end'' else if zs = [] then Abort msg
      else (case erase_loop msg old zs [] of Ok r \<Rightarrow> Ok (z # fst r, snd r) | q \<Rightarrow> q))"
| "erase_loop msg old (z # zs) (f # fs) =
     (if z = old then Ok (zs, fs)
      else if zs = [] then Abort msg
      else case erase_loop msg old zs fs of Ok r \<Rightarrow> Ok (z # fst r, f # snd r) | q \<Rightarrow> q)"

definition two_way :: "string \<Rightarrow> string \<Rightarrow> bool \<Rightarrow> string \<Rightarrow> string \<Rightarrow> Split" where
  "two_way i parent vert a b = \<lparr>s_id = i, s_parentId = parent, vertical = vert, panes_or_splits = [a, b], sizes = [1 / 2, 1 / 2]\<rparr>"

text \<open>The three ways \<^verbatim>\<open>newSplit\<close> goes on once the new pane and the source are there.\<close>

definition continue_split :: "Split \<Rightarrow> string \<Rightarrow> unit ms_prog" where
  "continue_split sp paneId =
     bnd (mod_obj (set_split (s_id sp) (\<lambda>s. s\<lparr>sizes := map (\<lambda>x. round_f32 (x / 2)) (sizes s) @ [1 / 2],
            panes_or_splits := panes_or_splits s @ [paneId]\<rparr>))) (\<lambda>_.
     mod_obj (set_pane paneId (\<lambda>p. p\<lparr>p_parentId := s_id sp\<rparr>)))"

definition insert_split :: "string \<Rightarrow> string \<Rightarrow> bool \<Rightarrow> string \<Rightarrow> string \<Rightarrow> MultiplexerState \<Rightarrow> MultiplexerState" where
  "insert_split u parent vert sourceId paneId m =
     set_pane sourceId (\<lambda>p. p\<lparr>p_parentId := u\<rparr>) (set_pane paneId (\<lambda>p. p\<lparr>p_parentId := u\<rparr>)
       (m\<lparr>splits := om_insert str_less u (two_way u parent vert sourceId paneId) (splits m)\<rparr>))"

definition split_other_way :: "Split \<Rightarrow> string \<Rightarrow> string \<Rightarrow> bool \<Rightarrow> unit ms_prog" where
  "split_other_way parentSplit sourceId paneId vert = bnd (sys uuid4) (\<lambda>u.
     bnd (mod_obj (insert_split u (s_id parentSplit) vert sourceId paneId)) (\<lambda>_.
     bnd (outcome_prog (replace_loop ''SourcePane missing from parent split'' sourceId u (panes_or_splits parentSplit))) (\<lambda>kids.
     mod_obj (set_split (s_id parentSplit) (\<lambda>s. s\<lparr>panes_or_splits := kids\<rparr>)))))"

definition split_root :: "Pane \<Rightarrow> string \<Rightarrow> string \<Rightarrow> bool \<Rightarrow> unit ms_prog" where
  "split_root sourcePane sourceId paneId vert = bnd get_obj (\<lambda>m.
     bnd (outcome_prog (getTab (p_parentId sourcePane) m)) (\<lambda>tab.
     bnd (sys uuid4) (\<lambda>u.
     bnd (mod_obj (insert_split u (t_id tab) vert sourceId paneId)) (\<lambda>_.
     mod_obj (set_tab (t_id tab) (\<lambda>t. t\<lparr>pane_or_split_id := u\<rparr>))))))"

definition newSplit :: "string \<Rightarrow> string \<Rightarrow> bool \<Rightarrow> unit ms_prog" where
  "newSplit sourceId paneId vert =
     bnd (fatalIfFound paneId) (\<lambda>_.
     bnd (mod_obj (\<lambda>m. m\<lparr>panes := om_insert str_less paneId (new_pane paneId []) (panes m)\<rparr>)) (\<lambda>_.
     bnd (on_terminal paneId TerminalHandler_start) (\<lambda>_.
     bnd get_obj (\<lambda>m.
     bnd (outcome_prog (getPane sourceId m)) (\<lambda>sourcePane.
     case map_of (splits m) (p_parentId sourcePane) of
       Some sp \<Rightarrow> (if vertical sp = vert then continue_split sp paneId else split_other_way sp sourceId paneId vert)
     | None \<Rightarrow> split_root sourcePane sourceId paneId vert)))))"

text \<open>The parts of \<^verbatim>\<open>closePane\<close>: the pane was a tab of its own, or the child of a split.\<close>

fun erase_tab_of :: "string \<Rightarrow> (string \<times> Tab) list \<Rightarrow> (string \<times> Tab) list outcome" where
  "erase_tab_of i [] = Abort ''Could not find tab''"
| "erase_tab_of i (kt # ts) =
     (if pane_or_split_id (snd kt) = i then Ok ts
      else case erase_tab_of i ts of Ok r \<Rightarrow> Ok (kt # r) | q \<Rightarrow> q)"

definition shift :: "int \<Rightarrow> string \<times> Tab \<Rightarrow> string \<times> Tab" where
  "shift n kt = (fst kt, if order (snd kt) > n then (snd kt)\<lparr>order := order (snd kt) - 1\<rparr> else snd kt)"

definition close_tab :: "Pane \<Rightarrow> unit ms_prog" where
  "close_tab pane = bnd get_obj (\<lambda>m.
     bnd (outcome_prog (getTab (p_parentId pane) m)) (\<lambda>tab.
     bnd (mod_obj (\<lambda>m. m\<lparr>tabs := map (shift (order tab)) (tabs m)\<rparr>)) (\<lambda>_.
     bnd get_obj (\<lambda>m1.
     bnd (outcome_prog (erase_tab_of (p_id pane) (tabs m1))) (\<lambda>ts.
     mod_obj (\<lambda>m. m\<lparr>tabs := ts\<rparr>))))))"

definition normalize_sizes :: "rat list \<Rightarrow> rat list" where
  "normalize_sizes szs = (let newSize = length szs; oldSize = newSize + 1 in
     map (\<lambda>x. round_f32 (round_f32 (x * of_nat oldSize) / of_nat newSize)) szs)"

definition collapse_split :: "string \<Rightarrow> unit ms_prog" where
  "collapse_split sid = bnd get_obj (\<lambda>m. bnd (outcome_prog (getSplit sid m)) (\<lambda>sp.
     bnd (outcome_prog (vec_at (panes_or_splits sp) 0)) (\<lambda>only.
     bnd (outcome_prog (getPane only m)) (\<lambda>pane.
     bnd (mod_obj (set_pane only (\<lambda>p. p\<lparr>p_parentId := s_parentId sp\<rparr>))) (\<lambda>_.
     bnd (if map_of (tabs m) (s_parentId sp) \<noteq> None
          then mod_obj (set_tab (s_parentId sp) (\<lambda>t. t\<lparr>pane_or_split_id := p_id pane\<rparr>))
          else bnd (outcome_prog (getSplit (s_parentId sp) m)) (\<lambda>parentSplit.
            bnd (outcome_prog (replace_loop ''Could not find parent split'' (s_id sp) (p_id pane) (panes_or_splits parentSplit))) (\<lambda>kids.
            mod_obj (set_split (s_parentId sp) (\<lambda>s. s\<lparr>panes_or_splits := kids\<rparr>))))) (\<lambda>_.
     mod_obj (\<lambda>m. m\<lparr>splits := al_erase (s_id sp) (splits m)\<rparr>)))))))"

definition missing_child :: "Split \<Rightarrow> Pane \<Rightarrow> string" where
  "missing_child sp pane = ''Parent pane '' @ s_id sp @ '' did not contain child pane '' @ p_id pane"

definition close_child :: "Pane \<Rightarrow> unit ms_prog" where
  "close_child pane = bnd get_obj (\<lambda>m. bnd (outcome_prog (getSplit (p_parentId pane) m)) (\<lambda>sp.
     bnd (outcome_prog (erase_loop (missing_child sp pane) (p_id pane) (panes_or_splits sp) (sizes sp))) (\<lambda>left.
     bnd (mod_obj (set_split (p_parentId pane) (\<lambda>s. s\<lparr>panes_or_splits := fst left, sizes := snd left\<rparr>))) (\<lambda>_.
     if length (fst left) > 1
     then mod_obj (set_split (p_parentId pane) (\<lambda>s. s\<lparr>sizes := normalize_sizes (sizes s)\<rparr>))
     else collapse_split (p_parentId pane)))))"

definition closePane :: "string \<Rightarrow> unit ms_prog" where
  "closePane paneId = bnd get_obj (\<lambda>m.
     if paneId \<in> closed_ids m then ret ()
     else case map_of (panes m) paneId of
       None \<Rightarrow> fail (Abort (''Tried to close a pane that doesn'' @ quote @ ''t exist''))
     | Some pane \<Rightarrow>
         bnd (mod_obj (\<lambda>m. m\<lparr>panes := al_erase paneId (panes m), closed_ids := insert paneId (closed_ids m)\<rparr>)) (\<lambda>_.
         bnd (sys (detached TerminalHandler_stop (terminal pane))) (\<lambda>_.
         if map_of (tabs m) (p_parentId pane) \<noteq> None then close_tab pane else close_child pane)))"

definition numPanes :: "MultiplexerState \<Rightarrow> int" where
  "numPanes m = int (length (panes m))"

definition resizePane :: "string \<Rightarrow> int \<Rightarrow> int \<Rightarrow> unit ms_prog" where
  "resizePane paneId cols rows = bnd get_obj (\<lambda>m.
     bnd (outcome_prog (getPane paneId m)) (\<lambda>_. on_terminal paneId (updateTerminalSize cols rows)))"

end
