(* ===== verification/ET_Layout.thy ===== *)
theory ET_Layout
  imports ET_Multiplexer
begin

text \<open>
  The layout of an HTM session is a forest. An abstract forest with its four changes (a leaf is added,
  a leaf is split, a leaf is taken out, a split with one child collapses), the forest that a
  \<open>MultiplexerState\<close> stands for, and the proof that \<^verbatim>\<open>newTab\<close>, \<^verbatim>\<open>newSplit\<close> and \<^verbatim>\<open>closePane\<close> change it just so.
\<close>

section \<open>The forest\<close>

text \<open>
  The abstract layout: who is whose parent and what are the children of each node. In a forest the
  two agree and every step to the parent goes down by some measure, so there are no cycles.
\<close>

definition forest :: "('i \<Rightarrow> 'i option) \<Rightarrow> ('i \<Rightarrow> 'i set) \<Rightarrow> bool" where
  "forest P K \<longleftrightarrow> (\<forall>c k. P c = Some k \<longleftrightarrow> c \<in> K k) \<and> (\<exists>d :: 'i \<Rightarrow> nat. \<forall>c k. P c = Some k \<longrightarrow> d k < d c)"

lemma forestD: "forest P K \<Longrightarrow> P c = Some k \<longleftrightarrow> c \<in> K k"
  by (simp add: forest_def)

lemma forest_measure: "forest P K \<Longrightarrow> \<exists>d :: 'i \<Rightarrow> nat. \<forall>c k. P c = Some k \<longrightarrow> d k < d c" for P :: "'i \<Rightarrow> 'i option"
  unfolding forest_def by blast

lemma forestI:
  assumes "\<And>c k. P c = Some k \<longleftrightarrow> c \<in> K k" and "\<And>c k. P c = Some k \<Longrightarrow> (d :: 'i \<Rightarrow> nat) k < d c"
  shows "forest P K"
  using assms unfolding forest_def by blast

lemma forest_add:
  assumes "forest P K" and "P c = None" and "K c = {}" and "k \<noteq> c"
  shows "forest (P(c \<mapsto> k)) (K(k := insert c (K k)))"
proof -
  obtain d :: "'a \<Rightarrow> nat" where d: "\<And>x y. P x = Some y \<Longrightarrow> d y < d x" using forest_measure [OF assms(1)] by blast
  have *: "P x = Some y \<longleftrightarrow> x \<in> K y" for x y using forestD [OF assms(1)] by simp
  show ?thesis
  proof (rule forestI [where d = "d(c := Suc (d k))"])
    show "(P(c \<mapsto> k)) x = Some y \<longleftrightarrow> x \<in> (K(k := insert c (K k))) y" for x y
      using assms(2) * [of x y] * [of c y] by auto
    show "(P(c \<mapsto> k)) x = Some y \<Longrightarrow> (d(c := Suc (d k))) y < (d(c := Suc (d k))) x" for x y
      using d [of x y] * [of x c] assms(3,4) by (auto split: if_splits)
  qed
qed

lemma forest_split:
  assumes "forest P K" and "P s = Some q" and "P u = None" "K u = {}" and "P c = None" "K c = {}" and "u \<noteq> c" and "K s = {}"
  shows "forest (P(c \<mapsto> u, s \<mapsto> u, u \<mapsto> q)) (K(q := insert u (K q - {s}), u := {s, c}))"
proof -
  obtain d :: "'a \<Rightarrow> nat" where d: "\<And>x y. P x = Some y \<Longrightarrow> d y < d x" using forest_measure [OF assms(1)] by blast
  have *: "P x = Some y \<longleftrightarrow> x \<in> K y" for x y using forestD [OF assms(1)] by simp
  have ne: "u \<noteq> q" "q \<noteq> c" "q \<noteq> s" "s \<noteq> u" "s \<noteq> c" using assms * [of s q] * [of s s] by auto
  let ?d = "(\<lambda>x. 2 * d x)(u := 2 * d s - 1, c := 2 * d s)"
  show ?thesis
  proof (rule forestI [where d = ?d])
    show "(P(c \<mapsto> u, s \<mapsto> u, u \<mapsto> q)) x = Some y \<longleftrightarrow> x \<in> (K(q := insert u (K q - {s}), u := {s, c})) y" for x y
      using assms * [of x y] ne by (auto simp: * [symmetric])
    show "?d y < ?d x" if "(P(c \<mapsto> u, s \<mapsto> u, u \<mapsto> q)) x = Some y" for x y
      using that d [of x y] d [OF assms(2)] * [of x c] * [of x u] assms ne by (auto split: if_splits)
  qed
qed

lemma forest_remove:
  assumes "forest P K" and "P c = Some k"
  shows "forest (P(c := None)) (K(k := K k - {c}))"
proof -
  obtain d :: "'a \<Rightarrow> nat" where d: "\<And>x y. P x = Some y \<Longrightarrow> d y < d x" using forest_measure [OF assms(1)] by blast
  have *: "P x = Some y \<longleftrightarrow> x \<in> K y" for x y using forestD [OF assms(1)] by simp
  show ?thesis
  proof (rule forestI [where d = d])
    show "(P(c := None)) x = Some y \<longleftrightarrow> x \<in> (K(k := K k - {c})) y" for x y
      using assms(2) * [of x y] by (auto simp: * [symmetric])
  qed (auto simp: d split: if_splits)
qed

lemma forest_collapse:
  assumes "forest P K" and "K q = {c}" and "P q = Some r"
  shows "forest (P(c \<mapsto> r, q := None)) (K(q := {}, r := insert c (K r - {q})))"
proof -
  obtain d :: "'a \<Rightarrow> nat" where d: "\<And>x y. P x = Some y \<Longrightarrow> d y < d x" using forest_measure [OF assms(1)] by blast
  have *: "P x = Some y \<longleftrightarrow> x \<in> K y" for x y using forestD [OF assms(1)] by simp
  have c: "P c = Some q" using * [of c q] assms(2) by simp
  have lt: "d r < d q" "d q < d c" using d assms(3) c by auto
  then have ne: "r \<noteq> q" "c \<noteq> q" "c \<noteq> r" by auto
  have kq: "P x = Some q \<longleftrightarrow> x = c" for x using * [of x q] assms(2) by simp
  show ?thesis
  proof (rule forestI [where d = d])
    show "(P(c \<mapsto> r, q := None)) x = Some y \<longleftrightarrow> x \<in> (K(q := {}, r := insert c (K r - {q}))) y" for x y
      using kq [of x] assms(3) c ne * [of x y] * [of x r] by (cases "y = q"; cases "y = r"; cases "x = c"; cases "x = q"; simp)
    show "d y < d x" if "(P(c \<mapsto> r, q := None)) x = Some y" for x y
      using that d [of x y] lt by (auto split: if_splits)
  qed
qed

section \<open>The layout of a state\<close>

definition par :: "MultiplexerState \<Rightarrow> string \<Rightarrow> string option" where
  "par m c = (case map_of (panes m) c of Some p \<Rightarrow> Some (p_parentId p)
    | None \<Rightarrow> map_option s_parentId (map_of (splits m) c))"

definition kids :: "MultiplexerState \<Rightarrow> string \<Rightarrow> string list" where
  "kids m k = (case map_of (tabs m) k of Some t \<Rightarrow> [pane_or_split_id t]
    | None \<Rightarrow> (case map_of (splits m) k of Some s \<Rightarrow> panes_or_splits s | None \<Rightarrow> []))"

definition child_set :: "MultiplexerState \<Rightarrow> string \<Rightarrow> string set" where
  "child_set m k = set (kids m k)"

text \<open>An id belongs to one map at most, and the object there has it as its own.\<close>

definition id_at :: "string \<Rightarrow> Tab option \<Rightarrow> Pane option \<Rightarrow> Split option \<Rightarrow> bool" where
  "id_at k t p s \<longleftrightarrow> (t \<noteq> None \<longrightarrow> t_id (the t) = k \<and> p = None \<and> s = None) \<and> (p \<noteq> None \<longrightarrow> p_id (the p) = k \<and> s = None) \<and>
     (s \<noteq> None \<longrightarrow> s_id (the s) = k)"

definition ids_ok :: "MultiplexerState \<Rightarrow> bool" where
  "ids_ok m \<longleftrightarrow> distinct (map fst (tabs m)) \<and> distinct (map fst (panes m)) \<and> distinct (map fst (splits m)) \<and>
     (\<forall>k. id_at k (map_of (tabs m) k) (map_of (panes m) k) (map_of (splits m) k))"

definition split_ok :: "Split \<Rightarrow> bool" where
  "split_ok s \<longleftrightarrow> distinct (panes_or_splits s) \<and> length (sizes s) = length (panes_or_splits s) \<and> 2 \<le> length (panes_or_splits s)"

definition orders_ok :: "(string \<times> Tab) list \<Rightarrow> bool" where
  "orders_ok ts \<longleftrightarrow> (\<lambda>kt. order (snd kt)) ` set ts = {0..<int (length ts)}"

definition mux_inv :: "MultiplexerState \<Rightarrow> bool" where
  "mux_inv m \<longleftrightarrow> ids_ok m \<and> forest (par m) (child_set m) \<and>
     (\<forall>k s. map_of (splits m) k = Some s \<longrightarrow> split_ok s) \<and> orders_ok (tabs m) \<and>
     map_of (tabs m) [] = None \<and> map_of (splits m) [] = None"

definition fresh_id :: "string \<Rightarrow> MultiplexerState \<Rightarrow> bool" where
  "fresh_id i m \<longleftrightarrow> map_of (panes m) i = None \<and> map_of (splits m) i = None \<and> map_of (tabs m) i = None"

lemma fresh_no_node:
  assumes "fresh_id i m"
  shows "par m i = None" and "kids m i = []" and "child_set m i = {}"
  using assms by (simp_all add: fresh_id_def par_def kids_def child_set_def)

lemma layout_insert_pane:
  assumes "map_of (panes m) i = None" and "map_of (splits m) i = None"
  shows "par (m\<lparr>panes := om_insert lt i x (panes m)\<rparr>) = (par m)(i \<mapsto> p_parentId x)"
    and "kids (m\<lparr>panes := om_insert lt i x (panes m)\<rparr>) = kids m"
  using assms by (auto simp: par_def kids_def map_of_om_insert fun_eq_iff split: option.splits)

lemma layout_set_pane:
  "map_of (panes m) i = Some p \<Longrightarrow> par (set_pane i f m) = (par m)(i \<mapsto> p_parentId (f p))" "kids (set_pane i f m) = kids m"
  by (auto simp: par_def kids_def set_pane_def fun_eq_iff split: option.splits)

lemma layout_set_split:
  assumes "map_of (splits m) i = Some s" and "\<And>s. s_parentId (f s) = s_parentId s" and "map_of (tabs m) i = None"
  shows "par (set_split i f m) = par m" and "kids (set_split i f m) = (kids m)(i := panes_or_splits (f s))"
  using assms by (auto simp: par_def kids_def set_split_def fun_eq_iff split: option.splits)

lemma layout_set_tab:
  assumes "map_of (tabs m) i = Some t"
  shows "par (set_tab i f m) = par m" and "kids (set_tab i f m) = (kids m)(i := [pane_or_split_id (f t)])"
  using assms by (auto simp: par_def kids_def set_tab_def fun_eq_iff split: option.splits)

lemma layout_insert_split:
  assumes "map_of (panes m) i = None" and "map_of (splits m) i = None" and "map_of (tabs m) i = None"
  shows "par (m\<lparr>splits := om_insert lt i x (splits m)\<rparr>) = (par m)(i \<mapsto> s_parentId x)"
    and "kids (m\<lparr>splits := om_insert lt i x (splits m)\<rparr>) = (kids m)(i := panes_or_splits x)"
  using assms by (auto simp: par_def kids_def map_of_om_insert fun_eq_iff split: option.splits)

lemma layout_erase_pane:
  assumes "map_of (splits m) i = None"
  shows "par (m\<lparr>panes := al_erase i (panes m), closed_ids := cl\<rparr>) = (par m)(i := None)"
    and "kids (m\<lparr>panes := al_erase i (panes m), closed_ids := cl\<rparr>) = kids m"
  using assms by (auto simp: par_def kids_def fun_eq_iff split: option.splits)

lemma layout_erase_split:
  assumes "map_of (panes m) i = None" and "map_of (tabs m) i = None"
  shows "par (m\<lparr>splits := al_erase i (splits m)\<rparr>) = (par m)(i := None)"
    and "kids (m\<lparr>splits := al_erase i (splits m)\<rparr>) = (kids m)(i := [])"
  using assms by (auto simp: par_def kids_def fun_eq_iff split: option.splits)

lemma layout_terminal:
  "par (set_pane i (\<lambda>p. p\<lparr>terminal := t\<rparr>) m) = par m" "kids (set_pane i (\<lambda>p. p\<lparr>terminal := t\<rparr>) m) = kids m"
  by (auto simp: par_def kids_def set_pane_def fun_eq_iff split: option.splits)

lemma id_at_maps:
  "(\<And>p. p_id (f p) = p_id p) \<Longrightarrow> id_at k t (map_option f q) z \<longleftrightarrow> id_at k t q z"
  "(\<And>y. s_id (g y) = s_id y) \<Longrightarrow> id_at k t q (map_option g z) \<longleftrightarrow> id_at k t q z"
  "(\<And>y. t_id (h y) = t_id y) \<Longrightarrow> id_at k (map_option h t) q z \<longleftrightarrow> id_at k t q z"
  by (auto simp: id_at_def)

lemma ids_ok_sets:
  "(\<And>p. p_id (f p) = p_id p) \<Longrightarrow> ids_ok (set_pane i f m) \<longleftrightarrow> ids_ok m"
  "(\<And>s. s_id (g s) = s_id s) \<Longrightarrow> ids_ok (set_split i g m) \<longleftrightarrow> ids_ok m"
  "(\<And>t. t_id (h t) = t_id t) \<Longrightarrow> ids_ok (set_tab i h m) \<longleftrightarrow> ids_ok m"
proof -
  have *: "(if k = i then map_option f (map_of xs i) else map_of xs k) = map_option (if k = i then f else id) (map_of xs k)"
    for k :: string and f :: "'x \<Rightarrow> 'x" and xs by (simp add: option.map_id)
  show "ids_ok (set_pane i f m) \<longleftrightarrow> ids_ok m" if "\<And>p. p_id (f p) = p_id p" for f
    unfolding ids_ok_def set_pane_def using that by (simp add: *) (simp add: id_at_maps, metis)
  show "ids_ok (set_split i g m) \<longleftrightarrow> ids_ok m" if "\<And>p. s_id (g p) = s_id p" for g
    unfolding ids_ok_def set_split_def using that by (simp add: *) (simp add: id_at_maps, metis)
  show "ids_ok (set_tab i h m) \<longleftrightarrow> ids_ok m" if "\<And>p. t_id (h p) = t_id p" for h
    unfolding ids_ok_def set_tab_def using that by (simp add: *) (simp add: id_at_maps, metis)
qed

lemma ids_ok_inserts:
  assumes "ids_ok m" and "fresh_id i m"
  shows "p_id x = i \<Longrightarrow> ids_ok (m\<lparr>panes := om_insert lt i x (panes m)\<rparr>)"
    and "s_id y = i \<Longrightarrow> ids_ok (m\<lparr>splits := om_insert lt i y (splits m)\<rparr>)"
    and "t_id z = i \<Longrightarrow> ids_ok (m\<lparr>tabs := om_insert lt i z (tabs m)\<rparr>)"
  using assms by (auto simp: ids_ok_def fresh_id_def map_of_om_insert id_at_def)

lemma ids_ok_erases:
  assumes "ids_ok m"
  shows "ids_ok (m\<lparr>panes := al_erase i (panes m), closed_ids := cl\<rparr>)" and "ids_ok (m\<lparr>splits := al_erase i (splits m)\<rparr>)"
  using assms by (auto simp: ids_ok_def id_at_def)

lemma ids_okD:
  assumes "ids_ok m"
  shows "map_of (tabs m) k = Some t \<Longrightarrow> t_id t = k \<and> map_of (panes m) k = None \<and> map_of (splits m) k = None"
    and "map_of (panes m) k = Some p \<Longrightarrow> p_id p = k \<and> map_of (tabs m) k = None \<and> map_of (splits m) k = None"
    and "map_of (splits m) k = Some s \<Longrightarrow> s_id s = k \<and> map_of (tabs m) k = None \<and> map_of (panes m) k = None"
proof -
  have "id_at k (map_of (tabs m) k) (map_of (panes m) k) (map_of (splits m) k)" using assms by (simp add: ids_ok_def)
  then show "map_of (tabs m) k = Some t \<Longrightarrow> t_id t = k \<and> map_of (panes m) k = None \<and> map_of (splits m) k = None"
    "map_of (panes m) k = Some p \<Longrightarrow> p_id p = k \<and> map_of (tabs m) k = None \<and> map_of (splits m) k = None"
    "map_of (splits m) k = Some s \<Longrightarrow> s_id s = k \<and> map_of (tabs m) k = None \<and> map_of (panes m) k = None"
    by (auto simp: id_at_def)
qed

section \<open>The loops\<close>

lemma replace_loop_Ok:
  "old \<in> set zs \<Longrightarrow> distinct zs \<Longrightarrow> replace_loop msg old new zs = Ok (map (\<lambda>z. if z = old then new else z) zs)"
proof (induction zs)
  case (Cons z zs)
  then show ?case by (cases "z = old") (auto intro!: map_idI [symmetric])
qed simp

lemma erase_loop_Ok:
  "x \<in> set zs \<Longrightarrow> distinct zs \<Longrightarrow> length fs = length zs \<Longrightarrow>
     \<exists>gs. erase_loop msg x zs fs = Ok (removeAll x zs, gs) \<and> length gs = length zs - 1"
proof (induction zs arbitrary: fs)
  case (Cons z zs)
  obtain f fs' where fs: "fs = f # fs'" "length fs' = length zs" using Cons.prems(3) by (cases fs) auto
  show ?case
  proof (cases "z = x")
    case True
    then show ?thesis using Cons.prems(2) fs by simp
  next
    case False
    then have "x \<in> set zs" using Cons.prems(1) by simp
    then obtain gs where "erase_loop msg x zs fs' = Ok (removeAll x zs, gs)" "length gs = length zs - 1"
      using Cons.IH [of fs'] Cons.prems(2) fs(2) by auto
    then show ?thesis using False fs \<open>x \<in> set zs\<close> by (cases zs) auto
  qed
qed simp

lemma erase_tab_of_Ok:
  assumes "map_of ts k = Some t" and "distinct (map fst ts)"
    and "\<And>k' t'. (k', t') \<in> set ts \<Longrightarrow> pane_or_split_id t' = i \<longleftrightarrow> k' = k"
  shows "erase_tab_of i ts = Ok (al_erase k ts)"
  using assms
proof (induction ts)
  case (Cons kt ts)
  obtain k0 t0 where kt: "kt = (k0, t0)" by force
  have "k \<notin> fst ` set ts \<Longrightarrow> al_erase k ts = ts" by (auto simp: al_erase_def image_iff intro!: filter_True)
  then show ?case
    using Cons kt by (cases "k0 = k") (auto simp: al_erase_def)
qed simp

lemma set_om_insert:
  assumes "map_of xs k = None"
  shows "set (om_insert lt k v xs) = insert (k, v) (set xs)" and "length (om_insert lt k v xs) = Suc (length xs)"
proof -
  have "k \<notin> fst ` set xs \<Longrightarrow> set (om_set lt k v xs) = insert (k, v) (set xs) \<and> length (om_set lt k v xs) = Suc (length xs)"
    by (induction xs) (auto simp: insert_commute)
  then show "set (om_insert lt k v xs) = insert (k, v) (set xs)" "length (om_insert lt k v xs) = Suc (length xs)"
    using assms by (auto simp: om_insert_def map_of_None_notin)
qed

text \<open>The orders of the tabs stay the numbers from 0 on.\<close>

lemma orders_insert:
  "orders_ok ts \<Longrightarrow> map_of ts k = None \<Longrightarrow> order t = int (length ts) \<Longrightarrow> orders_ok (om_insert lt k t ts)"
  by (auto simp: orders_ok_def set_om_insert)

lemma orders_al_map: "(\<And>t. order (f t) = order t) \<Longrightarrow> orders_ok (al_map k f ts) \<longleftrightarrow> orders_ok ts"
proof -
  assume f: "\<And>t. order (f t) = order t"
  have "map (\<lambda>kt. order (snd kt)) (al_map k f ts) = map (\<lambda>kt. order (snd kt)) ts" by (induction ts) (auto simp: al_map_def f)
  then have "(\<lambda>kt. order (snd kt)) ` set (al_map k f ts) = (\<lambda>kt. order (snd kt)) ` set ts" by (metis set_map)
  then show ?thesis by (simp add: orders_ok_def al_map_def)
qed

lemma map_of_shift: "map_of (map (shift n) ts) k = map_option (\<lambda>t. snd (shift n (k, t))) (map_of ts k)"
  by (induction ts) (auto simp: shift_def)

lemma shift_range: "a \<in> {0..<n} \<Longrightarrow> (\<lambda>x. if x > a then x - 1 else x) ` ({0..<n} - {a}) = {0..<n - (1 :: int)}"
proof (intro equalityI subsetI)
  fix y assume a: "a \<in> {0..<n}" and y: "y \<in> {0..<n - 1}"
  show "y \<in> (\<lambda>x. if x > a then x - 1 else x) ` ({0..<n} - {a})"
  proof (cases "y < a")
    case True
    then show ?thesis using y by (intro image_eqI [of _ _ y]) auto
  next
    case False
    then show ?thesis using y a by (intro image_eqI [of _ _ "y + 1"]) auto
  qed
qed (auto split: if_splits)

lemma orders_erase:
  assumes "orders_ok ts" and "map_of ts k = Some t" and "distinct (map fst ts)"
  shows "orders_ok (al_erase k (map (shift (order t)) ts))"
proof -
  let ?o = "\<lambda>kt :: string \<times> Tab. order (snd kt)"
  let ?f = "\<lambda>x. if x > order t then x - 1 else x"
  have mem: "(k, t) \<in> set ts" using assms(2) by (rule map_of_SomeD)
  have "card (?o ` set ts) = length ts" using assms(1) by (simp add: orders_ok_def)
  moreover have dts: "distinct ts" using assms(3) by (simp add: distinct_map)
  ultimately have inj: "inj_on ?o (set ts)" by (intro eq_card_imp_inj_on) (simp_all add: distinct_card)
  have keys: "fst kt = k \<longleftrightarrow> kt = (k, t)" if "kt \<in> set ts" for kt
    using that assms(2,3) by (metis eq_fst_iff map_of_is_SomeI option.inject prod.collapse fst_conv)
  have er: "al_erase k (map (shift (order t)) ts) = map (shift (order t)) (filter (\<lambda>kt. kt \<noteq> (k, t)) ts)"
    unfolding al_erase_def filter_map by (rule arg_cong [of _ _ "map (shift (order t))"], rule filter_cong) (auto simp: shift_def keys)
  have "filter (\<lambda>kt. kt \<noteq> (k, t)) ts = remove1 (k, t) ts"
    unfolding distinct_remove1_removeAll [OF dts] removeAll_filter_not_eq by (rule filter_cong) auto
  then have len: "length (filter (\<lambda>kt. kt \<noteq> (k, t)) ts) = length ts - 1" using mem by (simp add: length_remove1)
  have "?o ` set (map (shift (order t)) (filter (\<lambda>kt. kt \<noteq> (k, t)) ts)) = ?f ` (?o ` (set ts - {(k, t)}))"
    unfolding set_map set_filter image_image by (rule image_cong) (auto simp: shift_def)
  also have "?o ` (set ts - {(k, t)}) = {0..<int (length ts)} - {order t}"
    using inj_on_image_set_diff [OF inj, of "set ts" "{(k, t)}"] mem assms(1) by (simp add: orders_ok_def)
  also have "?f ` \<dots> = {0..<int (length ts) - 1}"
  proof (rule shift_range)
    show "order t \<in> {0..<int (length ts)}" using imageI [OF mem, of ?o] assms(1) by (simp add: orders_ok_def)
  qed
  finally have "?o ` set (al_erase k (map (shift (order t)) ts)) = {0..<int (length ts) - 1}" unfolding er .
  moreover have "int (length (al_erase k (map (shift (order t)) ts))) = int (length ts) - 1"
    unfolding er length_map len using length_pos_if_in_set [OF mem] by linarith
  ultimately show ?thesis by (simp add: orders_ok_def)
qed

section \<open>The operations keep the forest\<close>

lemma fatalIfFound_Ok: "fatalIfFound i (m, w) = (Ok x, t) \<longleftrightarrow> fresh_id i m \<and> t = (m, w)"
  by (auto simp: fatalIfFound_def bnd_def fresh_id_def)

lemma on_terminal_Ok:
  assumes "on_terminal i f (m, w) = (Ok x, (m', w'))"
  obtains p t where "map_of (panes m) i = Some p" "f (terminal p, w) = (Ok x, (t, w'))"
    "m' = set_pane i (\<lambda>p. p\<lparr>terminal := t\<rparr>) m"
  using assms by (auto simp: on_terminal_def split: option.splits prod.splits)

lemma mux_inv_terminal [simp]: "mux_inv (set_pane i (\<lambda>p. p\<lparr>terminal := t\<rparr>) m) \<longleftrightarrow> mux_inv m"
proof -
  have "splits (set_pane i (\<lambda>p. p\<lparr>terminal := t\<rparr>) m) = splits m" "tabs (set_pane i (\<lambda>p. p\<lparr>terminal := t\<rparr>) m) = tabs m"
    by (simp_all add: set_pane_def)
  moreover have "child_set (set_pane i (\<lambda>p. p\<lparr>terminal := t\<rparr>) m) = child_set m"
    by (simp add: child_set_def fun_eq_iff layout_terminal)
  ultimately show ?thesis by (simp add: mux_inv_def layout_terminal ids_ok_sets)
qed

lemma child_set_upd: "kids m' = (kids m)(i := xs) \<Longrightarrow> child_set m' = (child_set m)(i := set xs)"
  by (auto simp: child_set_def fun_eq_iff)

lemma newTab_inv:
  assumes "mux_inv m" and "newTab t p (m, w) = (Ok (), (m', w'))" and "t \<noteq> p" and "t \<noteq> []"
  shows "mux_inv m'"
proof -
  let ?tab = "\<lparr>t_id = t, pane_or_split_id = p, order = int (length (tabs m))\<rparr>"
  let ?m1 = "m\<lparr>tabs := om_insert str_less t ?tab (tabs m)\<rparr>"
  let ?m2 = "?m1\<lparr>panes := om_insert str_less p (new_pane p t) (panes ?m1)\<rparr>"
  have fr: "fresh_id t m" "fresh_id p m" and run: "on_terminal p TerminalHandler_start (?m2, w) = (Ok (), (m', w'))"
    using assms(2) unfolding newTab_def by (auto elim!: bnd_eq_OkE simp: fatalIfFound_Ok)
  have fr1: "fresh_id p ?m1" using fr assms(3) by (simp add: fresh_id_def map_of_om_insert)
  have ids: "ids_ok ?m2" using assms(1) fr fr1 by (intro ids_ok_inserts) (simp_all add: mux_inv_def new_pane_def)
  have kids1: "kids ?m1 = (kids m)(t := [p])" "par ?m1 = par m"
    using fr(1) by (auto simp: kids_def par_def fresh_id_def map_of_om_insert fun_eq_iff split: option.splits)
  have "par ?m2 = (par m)(p \<mapsto> t)" "kids ?m2 = (kids m)(t := [p])"
    using layout_insert_pane [of ?m1 p str_less "new_pane p t"] fr1 kids1 by (simp_all add: fresh_id_def new_pane_def)
  moreover have "forest ((par m)(p \<mapsto> t)) ((child_set m)(t := insert p (child_set m t)))"
    using assms(1,3) fr by (intro forest_add) (simp_all add: mux_inv_def fresh_no_node)
  ultimately have "forest (par ?m2) (child_set ?m2)"
    using child_set_upd [of ?m2 m t "[p]"] fresh_no_node(3) [OF fr(1)] by simp
  moreover have "orders_ok (tabs ?m2)" using assms(1) fr(1) by (simp add: mux_inv_def orders_insert fresh_id_def)
  ultimately have "mux_inv ?m2" using ids assms(1,4) by (simp add: mux_inv_def map_of_om_insert)
  then show ?thesis using run by (auto elim!: on_terminal_Ok)
qed

text \<open>
  The state that \<^verbatim>\<open>newSplit\<close> has once the new pane is in the map: all as before, and the new pane
  has no parent that counts.
\<close>

definition pane_added :: "string \<Rightarrow> MultiplexerState \<Rightarrow> MultiplexerState \<Rightarrow> bool" where
  "pane_added i m m1 \<longleftrightarrow> fresh_id i m \<and> tabs m1 = tabs m \<and> splits m1 = splits m \<and> ids_ok m1 \<and>
     par m1 = (par m)(i \<mapsto> []) \<and> kids m1 = kids m \<and> (\<exists>p. map_of (panes m1) i = Some p \<and> p_parentId p = []) \<and>
     (\<forall>k. k \<noteq> i \<longrightarrow> map_of (panes m1) k = map_of (panes m) k)"

lemma pane_added_start:
  assumes "ids_ok m" and "fresh_id i m"
    and "on_terminal i TerminalHandler_start (m\<lparr>panes := om_insert str_less i (new_pane i []) (panes m)\<rparr>, w) = (Ok (), (m1, w1))"
  shows "pane_added i m m1"
proof -
  let ?m = "m\<lparr>panes := om_insert str_less i (new_pane i []) (panes m)\<rparr>"
  obtain t where m1: "m1 = set_pane i (\<lambda>p. p\<lparr>terminal := t\<rparr>) ?m" using assms(3) by (rule on_terminal_Ok)
  have "ids_ok m1" unfolding m1 using assms by (simp add: ids_ok_sets ids_ok_inserts new_pane_def)
  moreover have "par m1 = (par m)(i \<mapsto> [])" "kids m1 = kids m"
    unfolding m1 layout_terminal using assms(2) by (simp_all add: layout_insert_pane fresh_id_def new_pane_def)
  ultimately show ?thesis
    using assms(2) unfolding pane_added_def m1 by (auto simp: set_pane_def map_of_om_insert fresh_id_def new_pane_def)
qed

lemma splits_upd_ok:
  "\<forall>k s. map_of xs k = Some s \<longrightarrow> split_ok s \<Longrightarrow> split_ok (f s0) \<Longrightarrow> map_of xs i = Some s0 \<Longrightarrow>
     map_of (al_map i f xs) k = Some s \<Longrightarrow> split_ok s"
  by (auto split: if_splits)

lemma continue_split_inv:
  assumes "mux_inv m" and "pane_added i m m1" and "map_of (splits m1) q = Some sp"
    and "continue_split sp i (m1, w) = (Ok (), (m', w'))"
  shows "mux_inv m'"
proof -
  have q: "s_id sp = q" "map_of (tabs m1) q = None" "map_of (panes m1) q = None"
    using ids_okD(3) [OF _ assms(3)] assms(2) by (simp_all add: pane_added_def)
  let ?f = "\<lambda>s. s\<lparr>sizes := map (\<lambda>x. round_f32 (x / 2)) (sizes s) @ [1 / 2], panes_or_splits := panes_or_splits s @ [i]\<rparr>"
  have m': "m' = set_pane i (\<lambda>p. p\<lparr>p_parentId := q\<rparr>) (set_split q ?f m1)"
    using assms(4) q(1) by (simp add: continue_split_def bnd_def)
  obtain p where p: "map_of (panes m1) i = Some p" using assms(2) by (auto simp: pane_added_def)
  have mq: "map_of (splits m) q = Some sp" and fr: "fresh_id i m" using assms(2,3) by (auto simp: pane_added_def)
  then have ne: "q \<noteq> i" and ok: "split_ok sp" using assms(1) by (auto simp: fresh_id_def mux_inv_def)
  have kq: "kids m q = panes_or_splits sp" using q(2) mq assms(2) by (simp add: kids_def pane_added_def)
  have "i \<notin> set (panes_or_splits sp)"
    using forestD [of "par m" "child_set m" i q] assms(1) fr kq by (simp add: mux_inv_def fresh_no_node child_set_def)
  then have ok': "split_ok (?f sp)" using ok by (simp add: split_ok_def)
  have pp: "map_of (panes (set_split q ?f m1)) i = Some p" using p by (simp add: set_split_def)
  have lay: "par m' = (par m)(i \<mapsto> q)" "kids m' = (kids m)(q := kids m q @ [i])"
    unfolding m' using layout_set_pane(1) [OF pp, of "\<lambda>p. p\<lparr>p_parentId := q\<rparr>"] layout_set_split [OF assms(3) _ q(2), of ?f] assms(2) kq
    by (simp_all add: pane_added_def layout_set_pane(2))
  have "forest ((par m)(i \<mapsto> q)) ((child_set m)(q := insert i (child_set m q)))"
    using assms(1) fr ne by (intro forest_add) (simp_all add: mux_inv_def fresh_no_node)
  then have "forest (par m') (child_set m')"
    using child_set_upd [OF lay(2)] lay(1) by (simp add: child_set_def)
  moreover have "ids_ok m'" unfolding m' using assms(2) by (simp add: ids_ok_sets pane_added_def)
  moreover have "splits m' = al_map q ?f (splits m)" "tabs m' = tabs m"
    unfolding m' using assms(2) by (simp_all add: set_pane_def set_split_def pane_added_def)
  ultimately show ?thesis
    using assms(1) splits_upd_ok [of "splits m" ?f, OF _ ok' mq] mq unfolding mux_inv_def by (auto split: if_splits)
qed

lemma insert_split_layout:
  assumes "pane_added i m m1" and "fresh_id u m" and "u \<noteq> i" and "map_of (panes m) z = Some p" and "m2 = insert_split u q vert z i m1"
  shows "par m2 = (par m)(i \<mapsto> u, z \<mapsto> u, u \<mapsto> q)" and "kids m2 = (kids m)(u := [z, i])" and "ids_ok m2"
    and "tabs m2 = tabs m" and "splits m2 = om_insert str_less u (two_way u q vert z i) (splits m)"
proof -
  have fi: "fresh_id i m" and m1: "ids_ok m1" "par m1 = (par m)(i \<mapsto> [])" "kids m1 = kids m" "tabs m1 = tabs m" "splits m1 = splits m"
    and old: "\<And>k. k \<noteq> i \<Longrightarrow> map_of (panes m1) k = map_of (panes m) k" and new: "\<exists>p. map_of (panes m1) i = Some p"
    using assms(1) by (auto simp: pane_added_def)
  have ne: "z \<noteq> i" "z \<noteq> u" using fi assms(2,4) by (auto simp: fresh_id_def)
  obtain pi where pi: "map_of (panes m1) i = Some pi" using new by blast
  have pz: "map_of (panes m1) z = Some p" using old ne assms(4) by simp
  let ?a = "m1\<lparr>splits := om_insert str_less u (two_way u q vert z i) (splits m1)\<rparr>"
  let ?f = "\<lambda>p. p\<lparr>p_parentId := u\<rparr>"
  have m2: "m2 = set_pane z ?f (set_pane i ?f ?a)" using assms(5) by (simp add: insert_split_def)
  have fu: "map_of (panes m1) u = None" "map_of (splits m1) u = None" "map_of (tabs m1) u = None"
    using assms(2,3) old m1 by (simp_all add: fresh_id_def)
  note a = layout_insert_split [OF fu, of str_less "two_way u q vert z i"]
  have b: "map_of (panes ?a) i = Some pi" and c: "map_of (panes (set_pane i ?f ?a)) z = Some p"
    using pi pz ne by (simp_all add: set_pane_def)
  show "par m2 = (par m)(i \<mapsto> u, z \<mapsto> u, u \<mapsto> q)"
    unfolding m2 using layout_set_pane(1) [OF c, of ?f] layout_set_pane(1) [OF b, of ?f] a(1) m1(2) ne assms(3)
    by (auto simp: two_way_def fun_eq_iff)
  show "kids m2 = (kids m)(u := [z, i])"
    unfolding m2 using layout_set_pane(2) a(2) m1(3) by (simp add: two_way_def)
  show "ids_ok m2"
    unfolding m2 using ids_ok_inserts(2) [OF m1(1), of u "two_way u q vert z i" str_less] fu
    by (simp add: ids_ok_sets fresh_id_def two_way_def)
  show "tabs m2 = tabs m" "splits m2 = om_insert str_less u (two_way u q vert z i) (splits m)"
    unfolding m2 using m1 by (simp_all add: set_pane_def)
qed

text \<open>Once the parent \<open>q\<close> of the source has the new split in the place of the source, the forest is whole again.\<close>

lemma insert_split_forest:
  assumes "mux_inv m" and "pane_added i m m1" and "fresh_id u m" and "u \<noteq> i" and "map_of (panes m) z = Some p"
    and "p_parentId p = q" and "par m' = (par m)(i \<mapsto> u, z \<mapsto> u, u \<mapsto> q)"
    and "kids m' = (kids m)(u := [z, i], q := xs)" and "set xs = insert u (child_set m q - {z})"
  shows "forest (par m') (child_set m')"
proof -
  have fi: "fresh_id i m" using assms(2) by (simp add: pane_added_def)
  have z: "par m z = Some q" using assms(5,6) by (simp add: par_def)
  have kz: "child_set m z = {}"
    using ids_okD(2) [OF _ assms(5)] assms(1) by (simp add: child_set_def kids_def mux_inv_def)
  have uq: "u \<noteq> q" using forestD [of "par m" "child_set m" z q] assms(1,3) z by (auto simp: mux_inv_def fresh_no_node)
  have "forest ((par m)(i \<mapsto> u, z \<mapsto> u, u \<mapsto> q)) ((child_set m)(q := insert u (child_set m q - {z}), u := {z, i}))"
    using assms(1,3,4) fi z kz by (intro forest_split) (simp_all add: mux_inv_def fresh_no_node)
  moreover have "child_set m' = (child_set m)(q := insert u (child_set m q - {z}), u := {z, i})"
    using assms(8,9) uq by (auto simp: child_set_def fun_eq_iff)
  ultimately show ?thesis using assms(7) by simp
qed

lemma two_way_ok: "z \<noteq> i \<Longrightarrow> split_ok (two_way u q vert z i)"
  by (simp add: two_way_def split_ok_def)

text \<open>The next id that \<^verbatim>\<open>uuid4\<close> draws is a new one.\<close>

definition draws_fresh :: "string \<Rightarrow> MultiplexerState \<Rightarrow> answer list \<Rightarrow> bool" where
  "draws_fresh i m as = (case as of Ret _ u # _ \<Rightarrow> fresh_id u m \<and> u \<noteq> i \<and> u \<noteq> [] | _ \<Rightarrow> True)"

lemma uuid4_Ok: "uuid4 w = (Ok u, w') \<Longrightarrow> \<exists>n. script w = Ret n u # script w'"
  by (auto simp: uuid4_def bnd_def syscall_def split: list.splits answer.splits)

lemma split_root_inv:
  assumes "mux_inv m" and "pane_added i m m1" and "map_of (panes m) z = Some p"
    and "split_root p z i vert (m1, w) = (Ok (), (m', w'))"
    and "draws_fresh i m (script w)"
  shows "mux_inv m'"
proof -
  let ?q = "p_parentId p"
  obtain tab u w1 where tab: "map_of (tabs m) ?q = Some tab" and u: "uuid4 w = (Ok u, w1)"
    and m': "m' = set_tab (t_id tab) (\<lambda>t. t\<lparr>pane_or_split_id := u\<rparr>) (insert_split u (t_id tab) vert z i m1)"
    using assms(2,4) unfolding split_root_def
    by (auto elim!: bnd_eq_OkE simp: outcome_prog_def getTab_def pane_added_def split: option.splits prod.splits)
  have q: "t_id tab = ?q" using ids_okD(1) [OF _ tab] assms(1) by (simp add: mux_inv_def)
  have fu: "fresh_id u m" "u \<noteq> i" "u \<noteq> []" using assms(5) uuid4_Ok [OF u] by (auto simp: draws_fresh_def)
  note L = insert_split_layout [OF assms(2) fu(1,2) assms(3) refl, of ?q vert]
  let ?m2 = "insert_split u ?q vert z i m1"
  have t2: "map_of (tabs ?m2) ?q = Some tab" using L(4) tab by simp
  have lay: "par m' = (par m)(i \<mapsto> u, z \<mapsto> u, u \<mapsto> ?q)" "kids m' = (kids m)(u := [z, i], ?q := [u])"
    unfolding m' q using layout_set_tab [OF t2, of "\<lambda>t. t\<lparr>pane_or_split_id := u\<rparr>"] L(1,2) by simp_all
  have "child_set m ?q = {z}"
    using forestD [of "par m" "child_set m" z ?q] assms(1,3) tab by (auto simp: mux_inv_def child_set_def kids_def par_def)
  then have "forest (par m') (child_set m')"
    using insert_split_forest [OF assms(1,2) fu(1,2) assms(3) refl lay(1,2)] by simp
  moreover have "ids_ok m'" unfolding m' using L(3) q by (simp add: ids_ok_sets)
  moreover have "splits m' = om_insert str_less u (two_way u ?q vert z i) (splits m)"
    "tabs m' = al_map ?q (\<lambda>t. t\<lparr>pane_or_split_id := u\<rparr>) (tabs m)"
    unfolding m' q using L(4,5) by (simp_all add: set_tab_def)
  moreover have "z \<noteq> i" using assms(2,3) by (auto simp: pane_added_def fresh_id_def)
  ultimately show ?thesis
    using assms(1) fu two_way_ok [of z i u ?q vert] unfolding mux_inv_def by (auto simp: map_of_om_insert fresh_id_def orders_al_map split: if_splits)
qed

lemma split_other_way_inv:
  assumes "mux_inv m" and "pane_added i m m1" and "map_of (panes m) z = Some p" and "map_of (splits m) (p_parentId p) = Some sp"
    and "split_other_way sp z i vert (m1, w) = (Ok (), (m', w'))" and "draws_fresh i m (script w)"
  shows "mux_inv m'"
proof -
  let ?q = "p_parentId p"
  have q: "s_id sp = ?q" "map_of (tabs m) ?q = None" using ids_okD(3) [OF _ assms(4)] assms(1) by (auto simp: mux_inv_def)
  have ok: "split_ok sp" using assms(1,4) by (simp add: mux_inv_def)
  have kq: "child_set m ?q = set (panes_or_splits sp)" using q(2) assms(4) by (simp add: child_set_def kids_def)
  have z: "z \<in> set (panes_or_splits sp)"
    using forestD [of "par m" "child_set m" z ?q] assms(1,3) kq by (simp add: mux_inv_def par_def)
  let ?kids = "\<lambda>u. map (\<lambda>y. if y = z then u else y) (panes_or_splits sp)"
  have rl: "replace_loop msg z u (panes_or_splits sp) = Ok (?kids u)" for msg u
    using z ok by (simp add: replace_loop_Ok split_ok_def)
  obtain u w1 where u: "uuid4 w = (Ok u, w1)"
    and m': "m' = set_split ?q (\<lambda>s. s\<lparr>panes_or_splits := ?kids u\<rparr>) (insert_split u ?q vert z i m1)"
    using assms(5) unfolding split_other_way_def rl q(1)
    by (auto elim!: bnd_eq_OkE simp: outcome_prog_def split: prod.splits)
  have fu: "fresh_id u m" "u \<noteq> i" "u \<noteq> []" using assms(6) uuid4_Ok [OF u] by (auto simp: draws_fresh_def)
  note L = insert_split_layout [OF assms(2) fu(1,2) assms(3) refl, of ?q vert]
  let ?m2 = "insert_split u ?q vert z i m1"
  have uq: "u \<noteq> ?q" using fu(1) assms(4) by (auto simp: fresh_id_def)
  have s2: "map_of (splits ?m2) ?q = Some sp" "map_of (tabs ?m2) ?q = None"
    using L(4,5) assms(4) q(2) uq by (simp_all add: map_of_om_insert)
  have lay: "par m' = (par m)(i \<mapsto> u, z \<mapsto> u, u \<mapsto> ?q)" "kids m' = (kids m)(u := [z, i], ?q := ?kids u)"
    unfolding m' using layout_set_split [OF s2(1) _ s2(2), of "\<lambda>s. s\<lparr>panes_or_splits := ?kids u\<rparr>"] L(1,2) by simp_all
  have "set (?kids u) = insert u (child_set m ?q - {z})" unfolding kq using z by auto
  then have "forest (par m') (child_set m')"
    using insert_split_forest [OF assms(1,2) fu(1,2) assms(3) refl lay(1,2)] by simp
  moreover have "ids_ok m'" unfolding m' using L(3) by (simp add: ids_ok_sets)
  moreover have sm: "splits m' = al_map ?q (\<lambda>s. s\<lparr>panes_or_splits := ?kids u\<rparr>) (om_insert str_less u (two_way u ?q vert z i) (splits m))"
    "tabs m' = tabs m"
    unfolding m' using L(4,5) by (simp_all add: set_split_def)
  moreover have "z \<noteq> i" using assms(2,3) by (auto simp: pane_added_def fresh_id_def)
  moreover have "u \<notin> set (panes_or_splits sp)"
    using forestD [of "par m" "child_set m" u ?q] assms(1) kq fu(1) by (simp add: mux_inv_def fresh_no_node)
  then have "split_ok (sp\<lparr>panes_or_splits := ?kids u\<rparr>)"
    using ok by (auto simp: split_ok_def distinct_map inj_on_def)
  ultimately show ?thesis
    using assms(1,4) fu two_way_ok [of z i u ?q vert] uq unfolding mux_inv_def by (auto simp: map_of_om_insert fresh_id_def split: if_splits)
qed

lemma start_script: "TerminalHandler_start (t, w) = (Ok (), (t', w')) \<Longrightarrow> script w' = drop 2 (script w)"
  by (auto simp: TerminalHandler_start_def bnd_def kernel_defs split: list.splits answer.splits if_splits)

lemma newSplit_inv:
  assumes "mux_inv m" and "newSplit z i vert (m, w) = (Ok (), (m', w'))" and "draws_fresh i m (drop 2 (script w))"
  shows "mux_inv m'"
proof -
  obtain m1 w1 p where fr: "fresh_id i m"
    and st: "on_terminal i TerminalHandler_start (m\<lparr>panes := om_insert str_less i (new_pane i []) (panes m)\<rparr>, w) = (Ok (), (m1, w1))"
    and p: "map_of (panes m1) z = Some p"
    and run: "(case map_of (splits m1) (p_parentId p) of
       Some sp \<Rightarrow> (if vertical sp = vert then continue_split sp i else split_other_way sp z i vert)
     | None \<Rightarrow> split_root p z i vert) (m1, w1) = (Ok (), (m', w'))"
    using assms(2) unfolding newSplit_def
    by (auto elim!: bnd_eq_OkE simp: fatalIfFound_Ok outcome_prog_def getPane_def split: option.splits)
  have add: "pane_added i m m1" using pane_added_start [OF _ fr st] assms(1) by (simp add: mux_inv_def)
  have dr: "draws_fresh i m (script w1)" using assms(3) st by (auto elim!: on_terminal_Ok dest: start_script)
  have zi: "z \<noteq> i"
  proof
    assume "z = i"
    then have "p_parentId p = []" using p add by (auto simp: pane_added_def)
    then show False
      using run add assms(1) by (auto simp: pane_added_def mux_inv_def split_root_def getTab_def outcome_prog_def bnd_def)
  qed
  have pz: "map_of (panes m) z = Some p" using p add zi by (simp add: pane_added_def)
  have sp: "splits m1 = splits m" using add by (simp add: pane_added_def)
  show ?thesis
    using run continue_split_inv [OF assms(1) add] split_other_way_inv [OF assms(1) add pz _ _ dr] split_root_inv [OF assms(1) add pz _ dr]
    by (auto simp: sp split: option.splits if_splits)
qed

text \<open>The state once the pane is out of the map.\<close>

definition pane_gone :: "string \<Rightarrow> Pane \<Rightarrow> MultiplexerState \<Rightarrow> MultiplexerState \<Rightarrow> bool" where
  "pane_gone i p m m1 \<longleftrightarrow> map_of (panes m) i = Some p \<and> tabs m1 = tabs m \<and> splits m1 = splits m \<and> ids_ok m1 \<and>
     par m1 = (par m)(i := None) \<and> kids m1 = kids m \<and> panes m1 = al_erase i (panes m)"

lemma pane_goneI:
  assumes "mux_inv m" and "map_of (panes m) i = Some p"
  shows "pane_gone i p m (m\<lparr>panes := al_erase i (panes m), closed_ids := cl\<rparr>)"
  using assms ids_okD(2) [OF _ assms(2)] by (simp add: pane_gone_def ids_ok_erases layout_erase_pane mux_inv_def)

lemma close_tab_run:
  assumes "mux_inv m" and "pane_gone i p m m1" and "map_of (tabs m) (p_parentId p) = Some t"
  shows "close_tab p (m1, w) = (Ok (), (m1\<lparr>tabs := al_erase (p_parentId p) (map (shift (order t)) (tabs m))\<rparr>, w))"
proof -
  let ?q = "p_parentId p"
  have i: "p_id p = i" "par m i = Some ?q"
    using assms(1,2) ids_okD(2) by (auto simp: pane_gone_def mux_inv_def par_def)
  have "erase_tab_of i (map (shift (order t)) (tabs m)) = Ok (al_erase ?q (map (shift (order t)) (tabs m)))"
  proof (rule erase_tab_of_Ok)
    have dt: "distinct (map fst (tabs m))" using assms(1) by (simp add: mux_inv_def ids_ok_def)
    have keys: "map fst (map (shift (order t)) (tabs m)) = map fst (tabs m)" by (simp add: shift_def comp_def)
    then show "distinct (map fst (map (shift (order t)) (tabs m)))" using dt by (simp only:)
    show "map_of (map (shift (order t)) (tabs m)) ?q = Some (snd (shift (order t) (?q, t)))"
      using assms(3) by (simp add: map_of_shift)
    show "pane_or_split_id t' = i \<longleftrightarrow> k' = ?q" if mem: "(k', t') \<in> set (map (shift (order t)) (tabs m))" for k' t'
    proof -
      obtain t0 where t0: "(k', t0) \<in> set (tabs m)" "pane_or_split_id t' = pane_or_split_id t0"
        using mem by (auto simp: shift_def)
      then have "kids m k' = [pane_or_split_id t0]" using dt by (simp add: kids_def)
      then show ?thesis using t0(2) forestD [of "par m" "child_set m" i k'] assms(1) i(2) by (auto simp: mux_inv_def child_set_def)
    qed
  qed
  then show ?thesis
    using assms(2,3) i(1) by (simp add: close_tab_def bnd_def outcome_prog_def getTab_def pane_gone_def)
qed

lemma close_tab_inv:
  assumes "mux_inv m" and "pane_gone i p m m1" and "map_of (tabs m) (p_parentId p) = Some t"
  shows "mux_inv (m1\<lparr>tabs := al_erase (p_parentId p) (map (shift (order t)) (tabs m))\<rparr>)" (is "mux_inv ?m")
proof -
  let ?q = "p_parentId p"
  have i: "par m i = Some ?q" using assms(2) by (simp add: pane_gone_def par_def)
  have lookup: "map_of (tabs ?m) k = (if k = ?q then None else map_option (\<lambda>x. snd (shift (order t) (k, x))) (map_of (tabs m) k))" for k
    by (simp add: map_of_shift)
  have qs: "map_of (splits m) ?q = None" using ids_okD(1) [OF _ assms(3)] assms(1) by (simp add: mux_inv_def)
  have rest: "panes ?m = panes m1" "splits ?m = splits m" using assms(2) by (simp_all add: pane_gone_def)
  have rest3: "par ?m = par m1" by (auto simp: par_def fun_eq_iff split: option.splits)
  have "kids ?m = (kids m)(?q := [])"
  proof
    show "kids ?m k = ((kids m)(?q := [])) k" for k
      using qs rest(2) unfolding kids_def lookup by (auto simp: shift_def split: option.splits)
  qed
  moreover have "child_set m ?q - {i} = {}"
    using assms(3) forestD [of "par m" "child_set m" i ?q] i assms(1) by (simp add: mux_inv_def child_set_def kids_def)
  ultimately have "child_set ?m = (child_set m)(?q := child_set m ?q - {i})" using child_set_upd [of ?m m ?q "[]"] by (metis empty_set)
  then have "forest (par ?m) (child_set ?m)"
    using forest_remove [of "par m" "child_set m" i ?q] assms(1,2) i rest3 by (simp add: mux_inv_def pane_gone_def)
  moreover have "ids_ok ?m"
  proof -
    have m1: "ids_ok m1" "tabs m1 = tabs m" using assms(2) by (simp_all add: pane_gone_def)
    have "map fst (map (shift (order t)) (tabs m)) = map fst (tabs m)" by (simp add: shift_def comp_def)
    then have "distinct (map fst (map (shift (order t)) (tabs m)))" using m1 unfolding ids_ok_def by (simp only:)
    then have "distinct (map fst (tabs ?m))" using distinct_al_erase by simp
    moreover have "id_at k (map_of (tabs ?m) k) (map_of (panes m1) k) (map_of (splits m1) k)" for k
    proof -
      have "id_at k (map_of (tabs m) k) (map_of (panes m1) k) (map_of (splits m1) k)" using m1 by (simp add: ids_ok_def)
      then show ?thesis unfolding lookup by (auto simp: id_at_def shift_def)
    qed
    ultimately show ?thesis using m1 by (simp add: ids_ok_def)
  qed
  moreover have "orders_ok (tabs ?m)" using orders_erase [OF _ assms(3)] assms(1) by (simp add: mux_inv_def ids_ok_def)
  ultimately show ?thesis using assms(1) lookup [of "[]"] rest(2) unfolding mux_inv_def by auto
qed

text \<open>A pane in a split: what is left after its place in the split is gone.\<close>

lemma child_of_split:
  assumes "mux_inv m" and "pane_gone i p m m1" and "map_of (tabs m) (p_parentId p) = None"
  obtains sp gs where "map_of (splits m) (p_parentId p) = Some sp" "split_ok sp" "s_id sp = p_parentId p" "p_id p = i"
    "i \<in> set (panes_or_splits sp)" "child_set m (p_parentId p) = set (panes_or_splits sp)"
    "\<And>msg. erase_loop msg i (panes_or_splits sp) (sizes sp) = Ok (removeAll i (panes_or_splits sp), gs msg)"
    "\<And>msg. length (gs msg) = length (panes_or_splits sp) - 1"
proof -
  let ?q = "p_parentId p"
  have i: "p_id p = i" "par m i = Some ?q" using assms(1,2) ids_okD(2) by (auto simp: pane_gone_def mux_inv_def par_def)
  then have mem: "i \<in> set (kids m ?q)"
    using forestD [of "par m" "child_set m" i ?q] assms(1) by (simp add: mux_inv_def child_set_def)
  then obtain sp where sp: "map_of (splits m) ?q = Some sp" using assms(3) by (cases "map_of (splits m) ?q") (auto simp: kids_def)
  then have k: "kids m ?q = panes_or_splits sp" using assms(3) by (simp add: kids_def)
  have ok: "split_ok sp" and sid: "s_id sp = ?q" using assms(1) sp ids_okD(3) by (auto simp: mux_inv_def)
  have "\<exists>gs. erase_loop msg i (panes_or_splits sp) (sizes sp) = Ok (removeAll i (panes_or_splits sp), gs) \<and>
      length gs = length (panes_or_splits sp) - 1" for msg
    using erase_loop_Ok [of i "panes_or_splits sp" "sizes sp" msg] ok mem k by (simp add: split_ok_def)
  then obtain gs where "\<And>msg. erase_loop msg i (panes_or_splits sp) (sizes sp) = Ok (removeAll i (panes_or_splits sp), gs msg)"
      "\<And>msg. length (gs msg) = length (panes_or_splits sp) - 1" by metis
  then show thesis using that sp ok sid i(1) mem k by (simp add: child_set_def)
qed

lemma removeAll_length: "distinct xs \<Longrightarrow> x \<in> set xs \<Longrightarrow> length (removeAll x xs) = length xs - 1"
  by (metis distinct_remove1_removeAll length_remove1)

lemma shrunk_split_inv:
  assumes "mux_inv m" and "pane_gone i p m m1" and "map_of (tabs m) (p_parentId p) = None"
    and "map_of (splits m) (p_parentId p) = Some sp" and "\<And>s. s_parentId (f s) = s_parentId s" and "\<And>s. s_id (f s) = s_id s"
    and "panes_or_splits (f sp) = removeAll i (panes_or_splits sp)" and "length (sizes (f sp)) = length (panes_or_splits sp) - 1"
    and "2 < length (panes_or_splits sp)"
  shows "mux_inv (set_split (p_parentId p) f m1)"
proof -
  let ?q = "p_parentId p"
  obtain gs where o: "split_ok sp" "i \<in> set (panes_or_splits sp)" "child_set m ?q = set (panes_or_splits sp)"
    using child_of_split [OF assms(1-3)] assms(4) by (metis option.inject)
  have q1: "map_of (splits m1) ?q = Some sp" "map_of (tabs m1) ?q = None" using assms(2,3,4) by (simp_all add: pane_gone_def)
  note lay = layout_set_split [OF q1(1) assms(5) q1(2)]
  have "child_set (set_split ?q f m1) = (child_set m)(?q := child_set m ?q - {i})"
    using child_set_upd [of "set_split ?q f m1" m ?q] lay(2) assms(2,7) o(3) by (simp add: pane_gone_def)
  moreover have "par m i = Some ?q" using assms(2) by (simp add: pane_gone_def par_def)
  ultimately have "forest (par (set_split ?q f m1)) (child_set (set_split ?q f m1))"
    using forest_remove [of "par m" "child_set m" i ?q] assms(1,2) lay(1) by (simp add: mux_inv_def pane_gone_def)
  moreover have "split_ok (f sp)"
    using o assms(7-9) removeAll_length [of "panes_or_splits sp" i] by (auto simp: split_ok_def distinct_removeAll)
  moreover have "splits (set_split ?q f m1) = al_map ?q f (splits m)" "tabs (set_split ?q f m1) = tabs m"
    using assms(2) by (simp_all add: set_split_def pane_gone_def)
  moreover have "ids_ok (set_split ?q f m1)" using assms(2,6) by (simp add: ids_ok_sets pane_gone_def)
  ultimately show ?thesis using assms(1,4) unfolding mux_inv_def by (auto split: if_splits)
qed

text \<open>
  Two children, of which \<open>i\<close> goes: the other one, \<open>c\<close>, takes the place of the split \<open>q\<close> below \<open>r\<close>. In the
  state \<open>m3\<close> its parent is set and the list of \<open>r\<close> still has the split.
\<close>

definition promoted :: "MultiplexerState \<Rightarrow> string \<Rightarrow> string \<Rightarrow> string \<Rightarrow> string \<Rightarrow> MultiplexerState \<Rightarrow> bool" where
  "promoted m i q c r m3 \<longleftrightarrow> ids_ok m3 \<and> par m3 = (par m)(i := None, c \<mapsto> r) \<and> kids m3 = (kids m)(q := [c]) \<and>
     tabs m3 = tabs m \<and> map_of (panes m3) q = None \<and> map_of (tabs m) q = None \<and>
     (\<forall>k. k \<noteq> q \<longrightarrow> map_of (splits m3) k = map_of (splits m) k) \<and> r \<noteq> q \<and> q \<in> child_set m r \<and> c \<notin> child_set m r \<and>
     q \<noteq> [] \<and> forest ((par m)(i := None, c \<mapsto> r, q := None)) ((child_set m)(q := {}, r := insert c (child_set m r - {q})))"

lemma promoted_final:
  assumes "promoted m i q c r m3" and "kids m4 = (kids m3)(r := xs)" and "set xs = insert c (child_set m r - {q})"
    and "par m4 = par m3" and "ids_ok m4" and "orders_ok (tabs m4)" and "map_of (tabs m4) [] = None" "map_of (splits m4) [] = None"
    and "map_of (panes m4) q = None" and "map_of (tabs m4) q = None"
    and "\<And>k s. k \<noteq> q \<Longrightarrow> map_of (splits m4) k = Some s \<Longrightarrow> split_ok s"
  shows "mux_inv (m4\<lparr>splits := al_erase q (splits m4)\<rparr>)" (is "mux_inv ?m5")
proof -
  note e = layout_erase_split [OF assms(9,10)]
  have "child_set ?m5 = (child_set m)(q := {}, r := insert c (child_set m r - {q}))"
    using e(2) assms(1-3) by (auto simp: child_set_def fun_eq_iff promoted_def)
  moreover have "par ?m5 = (par m)(i := None, c \<mapsto> r, q := None)" using e(1) assms(1,4) by (simp add: promoted_def)
  moreover have "ids_ok ?m5" using assms(5) by (rule ids_ok_erases)
  ultimately show ?thesis using assms(1,6-8,11) unfolding mux_inv_def promoted_def by auto
qed

lemma promoted_tab:
  assumes "mux_inv m" and "promoted m i q c r m3" and "map_of (tabs m) r = Some t"
  defines "m4 \<equiv> set_tab r (\<lambda>t. t\<lparr>pane_or_split_id := c\<rparr>) m3"
  shows "mux_inv (m4\<lparr>splits := al_erase q (splits m4)\<rparr>)"
proof (rule promoted_final [OF assms(2)])
  have t3: "map_of (tabs m3) r = Some t" using assms(2,3) by (simp add: promoted_def)
  show "kids m4 = (kids m3)(r := [c])" "par m4 = par m3" unfolding m4_def using layout_set_tab [OF t3] by simp_all
  show "set [c] = insert c (child_set m r - {q})" using assms(2,3) by (auto simp: promoted_def child_set_def kids_def)
  show "ids_ok m4" unfolding m4_def using assms(2) by (simp add: ids_ok_sets promoted_def)
  show "split_ok s" if "k \<noteq> q" "map_of (splits m4) k = Some s" for k s
    using that assms(1,2) by (simp add: m4_def set_tab_def promoted_def mux_inv_def)
qed (use assms(1,2) in \<open>auto simp: m4_def set_tab_def orders_al_map mux_inv_def promoted_def\<close>)

lemma promoted_split:
  assumes "mux_inv m" and "promoted m i q c r m3" and "map_of (tabs m) r = None" and "map_of (splits m) r = Some ps"
  defines "xs \<equiv> map (\<lambda>y. if y = q then c else y) (panes_or_splits ps)"
  defines "m4 \<equiv> set_split r (\<lambda>s. s\<lparr>panes_or_splits := xs\<rparr>) m3"
  shows "mux_inv (m4\<lparr>splits := al_erase q (splits m4)\<rparr>)"
proof (rule promoted_final [OF assms(2)])
  have k: "child_set m r = set (panes_or_splits ps)" using assms(3,4) by (simp add: child_set_def kids_def)
  have r3: "map_of (splits m3) r = Some ps" "map_of (tabs m3) r = None" using assms(2-4) by (auto simp: promoted_def)
  show "kids m4 = (kids m3)(r := xs)" "par m4 = par m3"
    unfolding m4_def using layout_set_split [OF r3(1) _ r3(2), of "\<lambda>s. s\<lparr>panes_or_splits := xs\<rparr>"] by simp_all
  show "set xs = insert c (child_set m r - {q})" unfolding k xs_def using assms(2) k by (auto simp: promoted_def)
  show "ids_ok m4" unfolding m4_def using assms(2) by (simp add: ids_ok_sets promoted_def)
  have "split_ok ps" using assms(1,4) by (simp add: mux_inv_def)
  then have ok: "split_ok (ps\<lparr>panes_or_splits := xs\<rparr>)"
    using assms(2) k by (auto simp: xs_def split_ok_def distinct_map inj_on_def promoted_def)
  show "split_ok s" if "k \<noteq> q" "map_of (splits m4) k = Some s" for k s
    using that assms(1,2) ok r3(1) by (auto simp: m4_def set_split_def promoted_def mux_inv_def split: if_splits)
qed (use assms(1,2) in \<open>auto simp: m4_def set_split_def mux_inv_def promoted_def\<close>)

text \<open>The split and its two children before the collapse.\<close>

lemma pane_gone_pair:
  assumes "mux_inv m" and "pane_gone i p m m1" and "map_of (tabs m) (p_parentId p) = None"
    and "map_of (splits m) (p_parentId p) = Some sp" and "removeAll i (panes_or_splits sp) = [c]"
  shows "child_set m (p_parentId p) - {i} = {c}" and "par m c = Some (p_parentId p)" and "c \<noteq> i"
    and "par m (p_parentId p) = Some (s_parentId sp)" and "map_of (panes m) (p_parentId p) = None" and "p_parentId p \<noteq> i"
proof -
  let ?q = "p_parentId p"
  have inv: "ids_ok m" "forest (par m) (child_set m)" using assms(1) by (auto simp: mux_inv_def)
  have i: "map_of (panes m) i = Some p" using assms(2) by (simp add: pane_gone_def)
  have "child_set m ?q = set (panes_or_splits sp)" using assms(3,4) by (simp add: child_set_def kids_def)
  then show cq: "child_set m ?q - {i} = {c}" using assms(5) by (metis list.set(1) list.simps(15) set_removeAll)
  then show "par m c = Some ?q" "c \<noteq> i" using forestD [OF inv(2), of c ?q] by auto
  show qn: "map_of (panes m) ?q = None" using ids_okD(3) [OF inv(1) assms(4)] by simp
  then show "par m ?q = Some (s_parentId sp)" using assms(4) by (simp add: par_def)
  show "?q \<noteq> i" using qn i by auto
qed

lemma collapse_promotes:
  assumes "mux_inv m" and "pane_gone i p m m1" and "map_of (tabs m) (p_parentId p) = None"
    and "map_of (splits m) (p_parentId p) = Some sp" and "removeAll i (panes_or_splits sp) = [c]"
    and "m2 = set_split (p_parentId p) (\<lambda>s. s\<lparr>panes_or_splits := [c], sizes := gs\<rparr>) m1" and "map_of (panes m) c = Some pn"
  shows "promoted m i (p_parentId p) c (s_parentId sp) (set_pane c (\<lambda>p. p\<lparr>p_parentId := s_parentId sp\<rparr>) m2)"
proof -
  define q where "q = p_parentId p"
  define r where "r = s_parentId sp"
  let ?f = "\<lambda>s. s\<lparr>panes_or_splits := [c], sizes := gs\<rparr>"
  let ?g = "\<lambda>p. p\<lparr>p_parentId := r\<rparr>"
  have inv: "ids_ok m" "forest (par m) (child_set m)" using assms(1) by (auto simp: mux_inv_def)
  note q = pane_gone_pair [OF assms(1-5), folded q_def r_def]
  have m1: "tabs m1 = tabs m" "splits m1 = splits m" "ids_ok m1" "par m1 = (par m)(i := None)" "kids m1 = kids m"
      "panes m1 = al_erase i (panes m)" "map_of (panes m) i = Some p" using assms(2) by (auto simp: pane_gone_def)
  have pi: "par m i = Some q" using m1(7) by (simp add: par_def q_def)
  obtain d :: "string \<Rightarrow> nat" where d: "\<And>x y. par m x = Some y \<Longrightarrow> d y < d x" using forest_measure [OF inv(2)] by blast
  have ne: "r \<noteq> q" "c \<noteq> q" "c \<noteq> r" using d [OF q(2)] d [OF q(4)] by auto
  have fo: "forest ((par m)(i := None, c \<mapsto> r, q := None)) ((child_set m)(q := {}, r := insert c (child_set m r - {q})))"
    using forest_collapse [OF forest_remove [OF inv(2) pi], of q c r] q ne by (simp add: fun_upd_twist)
  have q1: "map_of (splits m1) q = Some sp" "map_of (tabs m1) q = None" using m1 assms(3,4) by (simp_all add: q_def)
  have lay: "par m2 = par m1" "kids m2 = (kids m1)(q := [c])"
    unfolding assms(6) using layout_set_split [OF q1(1) _ q1(2), of ?f] by (simp_all add: q_def)
  have pn2: "map_of (panes m2) c = Some pn" using assms(6,7) m1(6) q(3) by (simp add: set_split_def)
  have "par (set_pane c ?g m2) = (par m)(i := None, c \<mapsto> r)" "kids (set_pane c ?g m2) = (kids m)(q := [c])"
    using layout_set_pane(1) [OF pn2, of ?g] layout_set_pane(2) [of c ?g m2] lay m1(4,5) by simp_all
  moreover have "ids_ok (set_pane c ?g m2)" using m1(3) by (simp add: ids_ok_sets assms(6))
  moreover have "q \<in> child_set m r" "c \<notin> child_set m r" using q(2,4) ne(1) by (metis forestD inv(2) option.inject)+
  moreover have "q \<noteq> []" using assms(1,4) by (auto simp: q_def mux_inv_def)
  ultimately show ?thesis
    unfolding q_def [symmetric] r_def [symmetric] promoted_def
    using fo ne q(5) m1 assms(3,6) by (auto simp: set_pane_def set_split_def q_def)
qed

lemma collapse_split_run:
  assumes "mux_inv m" and "pane_gone i p m m1" and "map_of (tabs m) (p_parentId p) = None"
    and "map_of (splits m) (p_parentId p) = Some sp" and "removeAll i (panes_or_splits sp) = [c]"
    and "m2 = set_split (p_parentId p) (\<lambda>s. s\<lparr>panes_or_splits := [c], sizes := gs\<rparr>) m1"
  shows "if map_of (splits m) c \<noteq> None then \<exists>msg m'. collapse_split (p_parentId p) (m2, w) = (Abort msg, m')
    else \<exists>m'. collapse_split (p_parentId p) (m2, w) = (Ok (), (m', w)) \<and> mux_inv m'"
proof -
  let ?q = "p_parentId p"
  let ?r = "s_parentId sp"
  let ?m3 = "set_pane c (\<lambda>p. p\<lparr>p_parentId := ?r\<rparr>) m2"
  have ids: "ids_ok m" using assms(1) by (simp add: mux_inv_def)
  note q = pane_gone_pair [OF assms(1-5)]
  have m2: "tabs m2 = tabs m" "panes m2 = al_erase i (panes m)" "map_of (splits m2) ?q = Some (sp\<lparr>panes_or_splits := [c], sizes := gs\<rparr>)"
    "\<And>k. k \<noteq> ?q \<Longrightarrow> map_of (splits m2) k = map_of (splits m) k"
    using assms(2,4,6) by (simp_all add: set_split_def pane_gone_def)
  have sid: "s_id sp = ?q" using ids_okD(3) [OF ids assms(4)] by simp
  show ?thesis
  proof (cases "map_of (splits m) c")
    case (Some s)
    then have "map_of (panes m2) c = None" using ids_okD(3) [OF ids Some] m2(2) by simp
    then show ?thesis
      using Some m2(3) by (simp add: collapse_split_def bnd_get_obj bnd_def outcome_prog_def getSplit_def vec_at_def getPane_def)
  next
    case None
    then obtain pn where pn: "map_of (panes m) c = Some pn" using q(2) by (auto simp: par_def split: option.splits)
    note pr = collapse_promotes [OF assms(1-6) pn]
    have pn2: "map_of (panes m2) c = Some pn" "p_id pn = c" using pn m2(2) q(3) ids_okD(2) [OF ids pn] by simp_all
    have body: "collapse_split ?q (m2, w) = bnd (if map_of (tabs m) ?r \<noteq> None
          then mod_obj (set_tab ?r (\<lambda>t. t\<lparr>pane_or_split_id := c\<rparr>))
          else bnd (outcome_prog (getSplit ?r m2)) (\<lambda>parentSplit.
            bnd (outcome_prog (replace_loop ''Could not find parent split'' ?q c (panes_or_splits parentSplit))) (\<lambda>kids.
            mod_obj (set_split ?r (\<lambda>s. s\<lparr>panes_or_splits := kids\<rparr>))))) (\<lambda>_.
       mod_obj (\<lambda>m. m\<lparr>splits := al_erase ?q (splits m)\<rparr>)) (?m3, w)"
      using pn2 sid m2 by (simp add: collapse_split_def bnd_get_obj bnd_def outcome_prog_def getSplit_def vec_at_def getPane_def)
    show ?thesis
    proof (cases "map_of (tabs m) ?r")
      case (Some t)
      then show ?thesis using None body promoted_tab [OF assms(1) pr Some] by (simp add: bnd_def)
    next
      case tn: None
      have qr: "?q \<in> child_set m ?r" "?r \<noteq> ?q" using pr by (simp_all add: promoted_def)
      then obtain ps where ps: "map_of (splits m) ?r = Some ps"
        using tn by (cases "map_of (splits m) ?r") (auto simp: child_set_def kids_def)
      have "split_ok ps" using ps assms(1) by (simp add: mux_inv_def)
      then have "replace_loop msg ?q c (panes_or_splits ps) = Ok (map (\<lambda>y. if y = ?q then c else y) (panes_or_splits ps))" for msg
        using qr ps tn by (intro replace_loop_Ok) (simp_all add: child_set_def kids_def split_ok_def)
      then show ?thesis
        using None body tn ps qr m2(4) promoted_split [OF assms(1) pr tn ps] by (simp add: bnd_def outcome_prog_def getSplit_def)
    qed
  qed
qed

text \<open>The pane's only sibling is a split: the case that \<^verbatim>\<open>closePane\<close> does not expect.\<close>

definition lone_split_sibling :: "MultiplexerState \<Rightarrow> string \<Rightarrow> bool" where
  "lone_split_sibling m i = (case map_of (panes m) i of None \<Rightarrow> False
    | Some p \<Rightarrow> map_of (tabs m) (p_parentId p) = None \<and> (case map_of (splits m) (p_parentId p) of None \<Rightarrow> False
      | Some sp \<Rightarrow> (case removeAll i (panes_or_splits sp) of [c] \<Rightarrow> map_of (splits m) c \<noteq> None | _ \<Rightarrow> False)))"

lemma close_child_run:
  assumes "mux_inv m" and "pane_gone i p m m1" and "map_of (tabs m) (p_parentId p) = None"
  shows "if lone_split_sibling m i then \<exists>msg m'. close_child p (m1, w) = (Abort msg, m')
    else \<exists>m'. close_child p (m1, w) = (Ok (), (m', w)) \<and> mux_inv m'"
proof -
  let ?q = "p_parentId p"
  obtain sp gs where sp: "map_of (splits m) ?q = Some sp" "split_ok sp" "s_id sp = ?q" "p_id p = i" "i \<in> set (panes_or_splits sp)"
    and er: "\<And>msg. erase_loop msg i (panes_or_splits sp) (sizes sp) = Ok (removeAll i (panes_or_splits sp), gs msg)"
    and len: "\<And>msg. length (gs msg) = length (panes_or_splits sp) - 1"
    by (rule child_of_split [OF assms]) blast
  let ?left = "removeAll i (panes_or_splits sp)"
  define g where "g = gs (missing_child sp p)"
  let ?m2 = "set_split ?q (\<lambda>s. s\<lparr>panes_or_splits := ?left, sizes := g\<rparr>) m1"
  have body: "close_child p (m1, w) = (if length ?left > 1
      then mod_obj (set_split ?q (\<lambda>s. s\<lparr>sizes := normalize_sizes (sizes s)\<rparr>)) else collapse_split ?q) (?m2, w)"
    using sp(1,4) er [of "missing_child sp p"] assms(2)
    by (simp add: g_def close_child_def bnd_get_obj bnd_def outcome_prog_def getSplit_def pane_gone_def)
  have pi: "map_of (panes m) i = Some p" using assms(2) by (simp add: pane_gone_def)
  have ll: "length ?left = length (panes_or_splits sp) - 1" "2 \<le> length (panes_or_splits sp)"
    using sp(2,5) by (simp_all add: removeAll_length split_ok_def)
  show ?thesis
  proof (cases "length ?left > 1")
    case True
    let ?f = "\<lambda>s. s\<lparr>panes_or_splits := ?left, sizes := normalize_sizes g\<rparr>"
    have "\<not> lone_split_sibling m i" using True sp(1) pi by (auto simp: lone_split_sibling_def split: list.splits option.splits)
    moreover have "set_split ?q (\<lambda>s. s\<lparr>sizes := normalize_sizes (sizes s)\<rparr>) ?m2 = set_split ?q ?f m1"
      by (simp add: set_split_def al_map_def)
    moreover have "mux_inv (set_split ?q ?f m1)"
      using True ll len g_def by (intro shrunk_split_inv [OF assms sp(1)]) (simp_all add: normalize_sizes_def Let_def)
    ultimately show ?thesis using body True by simp
  next
    case False
    then obtain c where c: "?left = [c]" using ll by (cases ?left) auto
    have "lone_split_sibling m i \<longleftrightarrow> map_of (splits m) c \<noteq> None" using c sp(1) pi assms(3) by (simp add: lone_split_sibling_def)
    then show ?thesis using collapse_split_run [OF assms sp(1) c refl, of g w] body False unfolding c by (simp split: if_splits)
  qed
qed

lemma stop_run: "script w \<noteq> [] \<Longrightarrow> \<exists>w'. detached TerminalHandler_stop t w = (Ok (), w')"
  by (cases "script w"; cases "hd (script w)") (auto simp: detached_def TerminalHandler_stop_def bnd_def kernel_defs)

lemma closePane_run:
  assumes "mux_inv m" and "i \<notin> closed_ids m" and "map_of (panes m) i = Some p" and "script w \<noteq> []"
  shows "if lone_split_sibling m i then \<exists>msg s. closePane i (m, w) = (Abort msg, s)
    else \<exists>m' w'. closePane i (m, w) = (Ok (), (m', w')) \<and> mux_inv m'"
proof -
  let ?m1 = "m\<lparr>panes := al_erase i (panes m), closed_ids := insert i (closed_ids m)\<rparr>"
  have gone: "pane_gone i p m ?m1" using assms(1,3) by (rule pane_goneI)
  obtain w1 where w1: "detached TerminalHandler_stop (terminal p) w = (Ok (), w1)" using stop_run [OF assms(4)] by blast
  have body: "closePane i (m, w) = (if map_of (tabs m) (p_parentId p) \<noteq> None then close_tab p else close_child p) (?m1, w1)"
    using assms(2,3) w1 by (simp add: closePane_def bnd_get_obj bnd_def)
  show ?thesis
  proof (cases "map_of (tabs m) (p_parentId p)")
    case None
    then show ?thesis using close_child_run [OF assms(1) gone None, of w1] body by (auto split: if_splits)
  next
    case (Some t)
    then have "\<not> lone_split_sibling m i" using assms(3) by (simp add: lone_split_sibling_def)
    then show ?thesis
      using body Some close_tab_run [OF assms(1) gone Some] close_tab_inv [OF assms(1) gone Some] by simp
  qed
qed

lemma closePane_inv: "mux_inv m \<Longrightarrow> closePane i (m, w) = (Ok (), (m', w')) \<Longrightarrow> mux_inv m'"
proof -
  assume inv: "mux_inv m" and run: "closePane i (m, w) = (Ok (), (m', w'))"
  show "mux_inv m'"
  proof (cases "i \<in> closed_ids m")
    case True
    then show ?thesis using run inv by (simp add: closePane_def bnd_get_obj)
  next
    case False
    obtain p where p: "map_of (panes m) i = Some p"
      using run False by (cases "map_of (panes m) i") (auto simp: closePane_def bnd_get_obj)
    have "script w \<noteq> []"
      using run False p by (auto simp: closePane_def bnd_get_obj bnd_def detached_def TerminalHandler_stop_def sys_int_def syscall_def)
    then show ?thesis using closePane_run [OF inv False p, of w] run by (auto split: if_splits)
  qed
qed

section \<open>Reachable layouts\<close>

text \<open>The operations as steps. Between two of them the environment may have new answers.\<close>

datatype mux_call =
    NewTab string string
  | NewSplit string string bool
  | ClosePane string
  | AppendData string string
  | ResizePane string int int

fun mux_run :: "mux_call \<Rightarrow> unit ms_prog" where
  "mux_run (NewTab t p) = newTab t p"
| "mux_run (NewSplit z p v) = newSplit z p v"
| "mux_run (ClosePane p) = closePane p"
| "mux_run (AppendData p d) = ms_appendData p d"
| "mux_run (ResizePane p c r) = resizePane p c r"

text \<open>What the client and the generator of ids guarantee: ids are not empty, two ids of a request differ.\<close>

fun call_ok :: "mux_call \<Rightarrow> MultiplexerState \<Rightarrow> world \<Rightarrow> bool" where
  "call_ok (NewTab t p) m w = (t \<noteq> p \<and> t \<noteq> [])"
| "call_ok (NewSplit z p v) m w = draws_fresh p m (drop 2 (script w))"
| "call_ok _ m w = True"

inductive mux_step :: "MultiplexerState \<Rightarrow> mux_call \<Rightarrow> MultiplexerState \<Rightarrow> bool" where
  mux_stepI: "call_ok c m w \<Longrightarrow> mux_run c (m, w) = (Ok (), (m', w')) \<Longrightarrow> mux_step m c m'"

inductive_cases mux_stepE: "mux_step m c m'"

definition mux_init :: "MultiplexerState \<Rightarrow> bool" where
  "mux_init m \<longleftrightarrow> (\<exists>h w w' n t n' p as. script w = Ret n t # Ret n' p # as \<and> t \<noteq> p \<and> t \<noteq> [] \<and> MultiplexerState_new h w = (Ok m, w'))"

lemma init_inv: "mux_init m \<Longrightarrow> mux_inv m"
proof -
  assume "mux_init m"
  then obtain h w w' n t n' p as where s: "script w = Ret n t # Ret n' p # as" and tp: "t \<noteq> p" "t \<noteq> []"
    and run: "MultiplexerState_new h w = (Ok m, w')" unfolding mux_init_def by blast
  obtain th where m: "m = \<lparr>ms_socketHandler = h, tabs = [(t, \<lparr>t_id = t, pane_or_split_id = p, order = 0\<rparr>)],
      panes = [(p, \<lparr>p_id = p, p_parentId = t, terminal = th\<rparr>)], splits = [], closed_ids = {}\<rparr>"
    using run s by (auto simp: MultiplexerState_new_def bnd_def uuid4_def syscall_def om_insert_def on_terminal_def
        new_pane_def set_pane_def set_tab_def al_map_def split: prod.splits outcome.splits)
  have "forest (par m) (child_set m)"
  proof (rule forestI [where d = "\<lambda>x. if x = p then 1 else 0"])
    show "par m c = Some k \<longleftrightarrow> c \<in> child_set m k" for c k by (auto simp: m par_def child_set_def kids_def)
    show "par m c = Some k \<Longrightarrow> (if k = p then 1 else 0) < (if c = p then 1 else (0 :: nat))" for c k
      using tp by (auto simp: m par_def split: if_splits)
  qed
  then show ?thesis using tp by (auto simp: mux_inv_def ids_ok_def id_at_def orders_ok_def m)
qed

interpretation mux: inductive_invariant mux_init mux_step mux_inv
proof unfold_locales
  show "mux_init m \<Longrightarrow> mux_inv m" for m by (rule init_inv)
  fix m c m' assume inv: "mux_inv m" and "mux_step m c m'"
  then obtain w w' where ok: "call_ok c m w" and run: "mux_run c (m, w) = (Ok (), (m', w'))" by (auto elim: mux_stepE)
  show "mux_inv m'"
  proof (cases c)
    case (NewTab t p)
    then show ?thesis using newTab_inv [OF inv] ok run by simp
  next
    case (NewSplit z p v)
    then show ?thesis using newSplit_inv [OF inv] ok run by simp
  next
    case (ClosePane p)
    then show ?thesis using closePane_inv [OF inv] run by simp
  next
    case (AppendData p d)
    then show ?thesis using run inv by (auto simp: ms_appendData_def bnd_get_obj elim!: on_terminal_Ok split: if_splits)
  next
    case (ResizePane p cl r)
    then show ?thesis
      using run inv by (auto simp: resizePane_def bnd_get_obj outcome_prog_def elim!: bnd_eq_OkE on_terminal_Ok)
  qed
qed


definition sample_start :: world where
  "sample_start = sample_world [Ret 0 ''t1'', Ret 0 ''p1'', Val 100, Val 5]"

definition sample_layout :: MultiplexerState where
  "sample_layout = (case fst (MultiplexerState_new 0 sample_start) of Ok m \<Rightarrow> m | _ \<Rightarrow> undefined)"

lemma sample_layout_reach: "mux.reach sample_layout"
proof -
  have "MultiplexerState_new 0 sample_start = (Ok sample_layout, snd (MultiplexerState_new 0 sample_start))"
    unfolding sample_layout_def sample_start_def sample_world_def
    by (simp add: MultiplexerState_new_def bnd_def uuid4_def om_insert_def on_terminal_def TerminalHandler_start_def kernel_defs new_pane_def)
  then have "mux_init sample_layout"
    unfolding mux_init_def by (intro exI conjI) (auto simp: sample_start_def sample_world_def)
  then show ?thesis by (rule mux.reach_init)
qed


text \<open>
  C33: closing a pane of a reachable layout takes it out and leaves a good layout, in every case but
  one: when its only sibling is a split, \<^verbatim>\<open>getPane\<close> is asked for that split and the server stops.\<close>

theorem closePane_outcome:
  assumes "mux.reach m" and "i \<notin> closed_ids m" and "map_of (panes m) i \<noteq> None" and "script w \<noteq> []"
  shows "if lone_split_sibling m i then \<exists>msg s. closePane i (m, w) = (Abort msg, s)
    else \<exists>m' w'. closePane i (m, w) = (Ok (), (m', w')) \<and> mux_inv m'"
  using closePane_run [OF mux.reach_inv [OF assms(1)] assms(2)] assms(3,4) by blast

theorem closePane_outcome_witness: "\<exists>m' w'. closePane ''p1'' (sample_layout, sample_world [Val 0]) = (Ok (), (m', w')) \<and> mux_inv m'"
proof -
  have s: "panes sample_layout = [(''p1'', \<lparr>p_id = ''p1'', p_parentId = ''t1'',
        terminal = TerminalHandler_new\<lparr>masterFd := 5, childPid := 100\<rparr>\<rparr>)]" "closed_ids sample_layout = {}"
      "splits sample_layout = []"
    unfolding sample_layout_def sample_start_def sample_world_def
    by (simp_all add: MultiplexerState_new_def bnd_def uuid4_def om_insert_def on_terminal_def TerminalHandler_start_def kernel_defs
        new_pane_def set_pane_def set_tab_def al_map_def)
  then have "\<not> lone_split_sibling sample_layout ''p1''" by (simp add: lone_split_sibling_def)
  then show ?thesis
    using closePane_outcome [OF sample_layout_reach, of "''p1''" "sample_world [Val 0]"] s by (simp add: sample_world_def)
qed

text \<open>
  the server can be stopped by three requests. From the first layout, splitting the pane, splitting
  the new pane in the other direction and closing the first one ends in \<^verbatim>\<open>STFATAL\<close>.\<close>

lemma nested_split_close_aborts:
  "\<exists>msg s. bnd (newSplit ''p1'' ''p2'' True) (\<lambda>_. bnd (newSplit ''p2'' ''p3'' False) (\<lambda>_. closePane ''p1''))
     (sample_layout, sample_world [Val 101, Val 6, Ret 0 ''s1'', Val 102, Val 7, Ret 0 ''s2'', Val 0]) = (Abort msg, s)"
proof -
  let ?r = "bnd (newSplit ''p1'' ''p2'' True) (\<lambda>_. bnd (newSplit ''p2'' ''p3'' False) (\<lambda>_. closePane ''p1''))
     (sample_layout, sample_world [Val 101, Val 6, Ret 0 ''s1'', Val 102, Val 7, Ret 0 ''s2'', Val 0])"
  have "case fst ?r of Abort _ \<Rightarrow> True | _ \<Rightarrow> False" by code_simp
  then show ?thesis by (cases "fst ?r") (auto simp: prod_eq_iff)
qed

text \<open>
  the ids of closed panes can be used again, against what the comment at \<^verbatim>\<open>closed\<close> says, and a pane
  opened under such an id cannot be closed any more: \<^verbatim>\<open>closePane\<close> returns without doing anything.\<close>

lemma closed_id_reused:
  assumes "i \<in> closed_ids m" and "fresh_id i m" and "fresh_id t m" and "t \<noteq> i" and "script w = Val pid # Val fd # as" and "0 < pid" and "0 \<le> fd"
  shows "\<exists>m' w'. newTab t i (m, w) = (Ok (), (m', w')) \<and> map_of (panes m') i \<noteq> None \<and> closePane i (m', w') = (Ok (), (m', w'))"
proof -
  let ?m1 = "m\<lparr>tabs := om_insert str_less t \<lparr>t_id = t, pane_or_split_id = i, order = int (length (tabs m))\<rparr> (tabs m),
     panes := om_insert str_less i (new_pane i t) (panes m)\<rparr>"
  have st: "fatalIfFound t (m, w) = (Ok (), (m, w))" "fatalIfFound i (m, w) = (Ok (), (m, w))" using assms(2,3) by (simp_all add: fatalIfFound_Ok)
  have p: "map_of (panes ?m1) i = Some (new_pane i t)" using assms(2) by (simp add: map_of_om_insert fresh_id_def)
  let ?th = "\<lambda>p. p\<lparr>terminal := TerminalHandler_new\<lparr>masterFd := fd, childPid := pid\<rparr>\<rparr>"
  have "\<exists>w'. on_terminal i TerminalHandler_start (?m1, w) = (Ok (), (set_pane i ?th ?m1, w'))"
    using p assms(5-7) by (simp add: on_terminal_def TerminalHandler_start_def bnd_def kernel_defs new_pane_def)
  then obtain w' where on: "on_terminal i TerminalHandler_start (?m1, w) = (Ok (), (set_pane i ?th ?m1, w'))" by blast
  have "newTab t i (m, w) = (Ok (), (set_pane i ?th ?m1, w'))" using st on by (simp add: newTab_def bnd_def)
  moreover have "map_of (panes (set_pane i ?th ?m1)) i \<noteq> None" using p by (simp add: set_pane_def)
  moreover have "closePane i (set_pane i ?th ?m1, w') = (Ok (), (set_pane i ?th ?m1, w'))"
    using assms(1) by (simp add: closePane_def bnd_get_obj set_pane_def)
  ultimately show ?thesis by blast
qed

end
