(* ===== verification/ET_HtmServer.thy ===== *)
theory ET_HtmServer
  imports ET_Layout
begin

text \<open>
  The HTM daemon and its client, from \<^verbatim>\<open>htm/HtmServer.cpp\<close>, \<^verbatim>\<open>htm/HtmClient.cpp\<close>, \<^verbatim>\<open>htm/IpcPair*\<close> and the parts
  of \<^verbatim>\<open>htm/MultiplexerState.cpp\<close> that write to the client. Base64 and the JSON printer are parameters.
\<close>

section \<open>Messages\<close>

definition INSERT_KEYS :: char where "INSERT_KEYS = CHR ''1''"
definition INIT_STATE :: char where "INIT_STATE = CHR ''2''"
definition CLIENT_CLOSE_PANE :: char where "CLIENT_CLOSE_PANE = CHR ''3''"
definition APPEND_TO_PANE :: char where "APPEND_TO_PANE = CHR ''4''"
definition NEW_TAB :: char where "NEW_TAB = CHR ''5''"
definition SERVER_CLOSE_PANE :: char where "SERVER_CLOSE_PANE = CHR ''8''"
definition NEW_SPLIT :: char where "NEW_SPLIT = CHR ''9''"
definition RESIZE_PANE :: char where "RESIZE_PANE = CHR ''A''"
definition DEBUG_LOG :: char where "DEBUG_LOG = CHR ''B''"
definition INSERT_DEBUG_KEYS :: char where "INSERT_DEBUG_KEYS = CHR ''C''"
definition SESSION_END :: char where "SESSION_END = CHR ''D''"

definition UUID_LENGTH :: nat where "UUID_LENGTH = 36"

lemmas htm_codes = INSERT_KEYS_def INIT_STATE_def CLIENT_CLOSE_PANE_def APPEND_TO_PANE_def NEW_TAB_def
  SERVER_CLOSE_PANE_def NEW_SPLIT_def RESIZE_PANE_def DEBUG_LOG_def INSERT_DEBUG_KEYS_def SESSION_END_def

text \<open>An \<^verbatim>\<open>int32_t\<close> as the four bytes it has in memory.\<close>

definition le32 :: "int \<Rightarrow> string" where
  "le32 x = le_bytes 4 x"

definition le32_dec :: "string \<Rightarrow> int" where
  "le32_dec s = to_int32 (le_val s)"

lemma le32_roundtrip: "0 \<le> x \<Longrightarrow> x < 2 ^ 31 \<Longrightarrow> le32_dec (le32 x) = x"
  by (simp add: le32_dec_def le32_def le_val_le_bytes to_int32_id)

section \<open>MultiplexerState towards the client\<close>

datatype json =
    JString string
  | JBool bool
  | JInt int
  | JStrings "string list"
  | JFloats "rat list"
  | JObject "(string \<times> json) list"

definition Pane_toJson :: "Pane \<Rightarrow> json" where
  "Pane_toJson p = JObject [(''id'', JString (p_id p))]"

definition Split_toJson :: "Split \<Rightarrow> json" where
  "Split_toJson s = JObject [(''id'', JString (s_id s)), (''vertical'', JBool (vertical s)),
     (''panesOrSplits'', JStrings (panes_or_splits s)), (''sizes'', JFloats (sizes s))]"

definition Tab_toJson :: "Tab \<Rightarrow> json" where
  "Tab_toJson t = JObject [(''id'', JString (t_id t)), (''order'', JInt (order t)), (''paneOrSplit'', JString (pane_or_split_id t))]"

definition json_map :: "string \<Rightarrow> ('v \<Rightarrow> json) \<Rightarrow> (string \<times> 'v) list \<Rightarrow> (string \<times> json) list" where
  "json_map name f xs = (if xs = [] then [] else [(name, JObject (map (\<lambda>kv. (fst kv, f (snd kv))) xs))])"

definition toJsonString :: "(json \<Rightarrow> string) \<Rightarrow> string ms_prog" where
  "toJsonString dump = bnd (sys syscall) (\<lambda>a. case a of
      Err _ \<Rightarrow> fail (Abort ''undefined: string from a null pointer'')
    | Ret _ shell \<Rightarrow> bnd get_obj (\<lambda>m. ret (dump (JObject ([(''shell'', JString shell)] @ json_map ''tabs'' Tab_toJson (tabs m) @
        json_map ''panes'' Pane_toJson (panes m) @ json_map ''splits'' Split_toJson (splits m))))))"

text \<open>The messages that carry the output of a pane, and that say it is gone.\<close>

definition send_pane :: "base64 \<Rightarrow> int \<Rightarrow> string \<Rightarrow> string \<Rightarrow> unit ms_prog" where
  "send_pane B fd paneId terminalData = bnd get_obj (\<lambda>m.
     bnd (sys (writeAllOrThrow (ms_socketHandler m) fd [APPEND_TO_PANE] False)) (\<lambda>_.
     bnd (sys (writeB64 B (ms_socketHandler m) fd
       (le32 (to_int32 (int (EncodedLength B (length terminalData) + length paneId)))))) (\<lambda>_.
     bnd (sys (writeAllOrThrow (ms_socketHandler m) fd paneId False)) (\<lambda>_.
     sys (writeB64 B (ms_socketHandler m) fd terminalData)))))"

definition send_pane_closed :: "base64 \<Rightarrow> int \<Rightarrow> string \<Rightarrow> unit ms_prog" where
  "send_pane_closed B fd paneId = bnd get_obj (\<lambda>m.
     bnd (sys (writeAllOrThrow (ms_socketHandler m) fd [SERVER_CLOSE_PANE] False)) (\<lambda>_.
     bnd (sys (writeB64 B (ms_socketHandler m) fd (le32 (to_int32 (int (length paneId)))))) (\<lambda>_.
     sys (writeAllOrThrow (ms_socketHandler m) fd paneId False))))"

text \<open>\<^verbatim>\<open>update\<close>: the loop over the panes ends at the first one whose terminal has ended.\<close>

primrec update_each :: "base64 \<Rightarrow> int \<Rightarrow> string list \<Rightarrow> unit ms_prog" where
  "update_each B fd [] = ret ()"
| "update_each B fd (i # is) = bnd (on_terminal i pollUserTerminal) (\<lambda>terminalData.
     bnd (if terminalData \<noteq> [] then send_pane B fd i terminalData else ret ()) (\<lambda>_.
     bnd get_obj (\<lambda>m. bnd (outcome_prog (getPane i m)) (\<lambda>p.
     if \<not> th_run (terminal p) then bnd (closePane i) (\<lambda>_. send_pane_closed B fd i)
     else update_each B fd is))))"

definition ms_update :: "base64 \<Rightarrow> int \<Rightarrow> unit ms_prog" where
  "ms_update B fd = bnd get_obj (\<lambda>m. update_each B fd (map fst (panes m)))"

text \<open>The lines of a pane with line breaks between them; a break is left out as long as nothing precedes it.\<close>

definition join_lines :: "string list \<Rightarrow> string" where
  "join_lines ls = foldl (\<lambda>acc l. (if acc \<noteq> [] then acc @ [CHR 0x0A] else acc) @ l) [] ls"

primrec send_buffers_each :: "base64 \<Rightarrow> int \<Rightarrow> (string \<times> Pane) list \<Rightarrow> unit ms_prog" where
  "send_buffers_each B fd [] = ret ()"
| "send_buffers_each B fd (ip # ps) =
     bnd (if th_buffer (terminal (snd ip)) \<noteq> [] then send_pane B fd (fst ip) (join_lines (th_buffer (terminal (snd ip)))) else ret ()) (\<lambda>_.
     send_buffers_each B fd ps)"

definition sendTerminalBuffers :: "base64 \<Rightarrow> int \<Rightarrow> unit ms_prog" where
  "sendTerminalBuffers B fd = bnd get_obj (\<lambda>m. send_buffers_each B fd (panes m))"

section \<open>IpcPairEndpoint, IpcPairServer, HtmServer\<close>

record HtmServer =
  htm_socketHandler :: nat
  endpointFd :: int
  htm_serverFd :: int
  htm_endpoint :: SocketEndpoint
  htm_state :: MultiplexerState
  running :: bool

type_synonym 'a htm_prog = "(HtmServer \<times> world, 'a) prog"

definition on_state :: "'a ms_prog \<Rightarrow> 'a htm_prog" where
  "on_state f s = (case f (htm_state (fst s), snd s) of (r, (m, w)) \<Rightarrow> (r, ((fst s)\<lparr>htm_state := m\<rparr>, w)))"

definition closeEndpoint :: "unit htm_prog" where
  "closeEndpoint = bnd get_obj (\<lambda>h.
     bnd (sys (writeAllOrThrow (htm_socketHandler h) (endpointFd h) [SESSION_END] False)) (\<lambda>_.
     bnd (sys (Unix_close (htm_socketHandler h) (endpointFd h))) (\<lambda>_.
     mod_obj (\<lambda>h. h\<lparr>endpointFd := -1\<rparr>))))"

text \<open>The destructor of the base class closes an endpoint that is still open.\<close>

definition IpcPairEndpoint_destroy :: "unit htm_prog" where
  "IpcPairEndpoint_destroy = bnd get_obj (\<lambda>h. if endpointFd h \<ge> 0 then closeEndpoint else ret ())"

definition HtmServer_new :: "nat \<Rightarrow> SocketEndpoint \<Rightarrow> (world, HtmServer) prog" where
  "HtmServer_new h ep = bnd (sh_listen h ep) (\<lambda>fds.
     bnd (outcome_prog (vec_at fds 0)) (\<lambda>fd.
     bnd (MultiplexerState_new h) (\<lambda>m.
     ret \<lparr>htm_socketHandler = h, endpointFd = -1, htm_serverFd = fd, htm_endpoint = ep, htm_state = m, running = True\<rparr>)))"

definition IpcPairServer_destroy :: "unit htm_prog" where
  "IpcPairServer_destroy = bnd get_obj (\<lambda>h. bnd (sys (sys_close (htm_serverFd h))) (\<lambda>_. IpcPairEndpoint_destroy))"

definition sendDebug :: "base64 \<Rightarrow> string \<Rightarrow> unit htm_prog" where
  "sendDebug B msg = bnd get_obj (\<lambda>h.
     bnd (sys (writeAllOrThrow (htm_socketHandler h) (endpointFd h) [DEBUG_LOG] False)) (\<lambda>_.
     bnd (sys (writeB64 B (htm_socketHandler h) (endpointFd h) (le32 (to_int32 (int (EncodedLength B (length msg))))))) (\<lambda>_.
     sys (writeB64 B (htm_socketHandler h) (endpointFd h) msg))))"

definition crlf :: string where
  "crlf = [CHR 0x0A, CHR 0x0D]"

definition HtmServer_recover :: "base64 \<Rightarrow> (json \<Rightarrow> string) \<Rightarrow> unit htm_prog" where
  "HtmServer_recover B dump = bnd get_obj (\<lambda>h.
     let write = (\<lambda>s. sys (writeAllOrThrow (htm_socketHandler h) (endpointFd h) s False)) in
     bnd (write (CHR 0x1B # ''[###q'')) (\<lambda>_.
     bnd (sendDebug B (''Initializing HTM, please wait...'' @ crlf)) (\<lambda>_.
     bnd (on_state (toJsonString dump)) (\<lambda>jsonString.
     bnd (write [INIT_STATE]) (\<lambda>_.
     bnd (sys (writeB64 B (htm_socketHandler h) (endpointFd h) (le32 (to_int32 (int (length jsonString)))))) (\<lambda>_.
     bnd (write jsonString) (\<lambda>_.
     bnd (on_state (sendTerminalBuffers B (endpointFd h))) (\<lambda>_.
     sendDebug B (''HTM initialized.'' @ crlf @ ''Press escape in this terminal to disconnect.'' @ crlf @
       ''Press x in this terminal to shut down HTM'' @ crlf)))))))))"

definition pollAccept :: "base64 \<Rightarrow> (json \<Rightarrow> string) \<Rightarrow> unit htm_prog" where
  "pollAccept B dump = bnd get_obj (\<lambda>h.
     bnd (sys (Unix_accept (htm_socketHandler h) (htm_serverFd h))) (\<lambda>fd.
     if fd < 0 then ret ()
     else bnd (if endpointFd h \<ge> 0 then closeEndpoint else ret ()) (\<lambda>_.
       bnd (mod_obj (\<lambda>h. h\<lparr>endpointFd := fd\<rparr>)) (\<lambda>_. HtmServer_recover B dump))))"

definition GetTempDirectory :: string where
  "GetTempDirectory = ''/tmp/''"

definition getPipeName :: "int \<Rightarrow> string" where
  "getPipeName myuid = GetTempDirectory @ ''htm.'' @ decimal myuid @ ''.ipc''"

text \<open>Reading the parts of a request from the client.\<close>

definition htm_read :: "nat \<Rightarrow> string htm_prog" where
  "htm_read n = bnd get_obj (\<lambda>h. sys (readAll (htm_socketHandler h) (endpointFd h) n False))"

definition htm_read_int :: "base64 \<Rightarrow> int htm_prog" where
  "htm_read_int B = bnd get_obj (\<lambda>h. bnd (sys (readB64 B (htm_socketHandler h) (endpointFd h) 4)) (\<lambda>s. ret (le32_dec s)))"

text \<open>A negative length becomes a huge \<^verbatim>\<open>size_t\<close>: the string cannot be made.\<close>

definition insert_keys :: "base64 \<Rightarrow> int \<Rightarrow> unit htm_prog" where
  "insert_keys B len = bnd (htm_read UUID_LENGTH) (\<lambda>uid. bnd get_obj (\<lambda>h.
     let rest = to_int32 (len - int UUID_LENGTH) in
     if rest < 0 then fail (Throw LengthError)
     else bnd (sys (readB64EncodedLength B (htm_socketHandler h) (endpointFd h) (nat rest))) (\<lambda>data.
     on_state (ms_appendData uid data))))"

text \<open>The first byte of an empty text is its terminating zero.\<close>

definition debug_keys :: "(json \<Rightarrow> string) \<Rightarrow> int \<Rightarrow> unit htm_prog" where
  "debug_keys dump len =
     (if len < 0 then fail (Throw LengthError)
      else bnd (htm_read (nat len)) (\<lambda>data.
        let c = (if data = [] then CHR 0x00 else hd data) in
        bnd (if c = CHR ''x'' then mod_obj (\<lambda>h. h\<lparr>running := False\<rparr>) else ret ()) (\<lambda>_.
        bnd (if c = CHR 0x1B then closeEndpoint else ret ()) (\<lambda>_.
        if c = CHR ''d'' then bnd (on_state (toJsonString dump)) (\<lambda>_. ret ()) else ret ()))))"

definition close_request :: "unit htm_prog" where
  "close_request = bnd (htm_read UUID_LENGTH) (\<lambda>paneId.
     bnd (on_state (closePane paneId)) (\<lambda>_. bnd get_obj (\<lambda>h.
     if numPanes (htm_state h) = 0 then mod_obj (\<lambda>h. h\<lparr>running := False\<rparr>) else ret ())))"

definition signed_char :: "char \<Rightarrow> int" where
  "signed_char c = (if (of_char c :: int) < 128 then of_char c else of_char c - 256)"

definition htm_request :: "base64 \<Rightarrow> (json \<Rightarrow> string) \<Rightarrow> unit htm_prog" where
  "htm_request B dump = bnd (htm_read 1) (\<lambda>h. bnd (htm_read_int B) (\<lambda>len.
     let header = hd h in
     if header = INSERT_KEYS then insert_keys B len
     else if header = INSERT_DEBUG_KEYS then debug_keys dump len
     else if header = NEW_TAB then bnd (htm_read UUID_LENGTH) (\<lambda>tabId. bnd (htm_read UUID_LENGTH) (\<lambda>paneId.
       on_state (newTab tabId paneId)))
     else if header = NEW_SPLIT then bnd (htm_read UUID_LENGTH) (\<lambda>sourceId. bnd (htm_read UUID_LENGTH) (\<lambda>paneId.
       bnd (htm_read 1) (\<lambda>v. on_state (newSplit sourceId paneId (v = ''1'')))))
     else if header = RESIZE_PANE then bnd (htm_read_int B) (\<lambda>cols. bnd (htm_read_int B) (\<lambda>rows.
       bnd (htm_read UUID_LENGTH) (\<lambda>paneId. on_state (resizePane paneId cols rows))))
     else if header = CLIENT_CLOSE_PANE then close_request
     else fail (Abort (''Got unknown packet header: '' @ decimal (signed_char header)))))"

text \<open>A round of the loop of \<^verbatim>\<open>run\<close>.\<close>

definition HtmServer_round :: "base64 \<Rightarrow> (json \<Rightarrow> string) \<Rightarrow> unit htm_prog" where
  "HtmServer_round B dump = bnd get_obj (\<lambda>h.
     if endpointFd h < 0 then pollAccept B dump
     else catch_runtime
       (bnd (sys (select_isset (endpointFd h))) (\<lambda>ready.
        bnd (if ready then htm_request B dump else ret ()) (\<lambda>_.
        bnd get_obj (\<lambda>h1. if endpointFd h1 > 0 then on_state (ms_update B (endpointFd h1)) else ret ()))))
       (\<lambda>_. closeEndpoint))"

lemmas htm_defs = toJsonString_def send_pane_def send_pane_closed_def ms_update_def sendTerminalBuffers_def closeEndpoint_def
  sendDebug_def HtmServer_recover_def pollAccept_def htm_read_def htm_read_int_def insert_keys_def debug_keys_def close_request_def
  htm_request_def

section \<open>The loops end when the answers do\<close>

lemma on_terminal_keeps [keeps_intros]: "osle.keeps f \<Longrightarrow> osle.keeps (on_terminal i f)"
proof (rule osle.keepsI, clarify)
  fix m w r m' w' assume k: "osle.keeps f" and run: "on_terminal i f (m, w) = (r, (m', w'))"
  show "obj_script_le (m, w) (m', w')"
    using run osle.keepsD [OF k] by (fastforce simp: on_terminal_def obj_script_le_def script_le_def split: option.splits prod.splits)
qed

lemma detached_keeps [keeps_intros]: "osle.keeps f \<Longrightarrow> sle.keeps (detached f t)"
proof (rule sle.keepsI)
  fix w r w' assume k: "osle.keeps f" and run: "detached f t w = (r, w')"
  show "script_le w w'"
    using run osle.keepsD [OF k] by (fastforce simp: detached_def obj_script_le_def script_le_def split: prod.splits)
qed

lemma on_state_keeps [keeps_intros]: "osle.keeps f \<Longrightarrow> osle.keeps (on_state f)"
proof (rule osle.keepsI, clarify)
  fix h w r h' w' assume k: "osle.keeps f" and run: "on_state f (h, w) = (r, (h', w'))"
  show "obj_script_le (h, w) (h', w')"
    using run osle.keepsD [OF k] by (fastforce simp: on_state_def obj_script_le_def script_le_def split: prod.splits)
qed

lemma uuid4_keeps [keeps_intros]: "sle.keeps uuid4"
  unfolding uuid4_def by (auto intro!: keeps_intros)

lemma mux_keeps [keeps_intros]:
  "osle.keeps (fatalIfFound i)" "osle.keeps (newTab t i)" "osle.keeps (newSplit z i v)" "osle.keeps (closePane i)"
  "osle.keeps (ms_appendData i d)" "osle.keeps (resizePane i c r)"
proof -
  show f: "osle.keeps (fatalIfFound i)" for i unfolding fatalIfFound_def by (auto intro!: keeps_intros)
  show "osle.keeps (newTab t i)" unfolding newTab_def by (auto intro!: keeps_intros f)
  show "osle.keeps (newSplit z i v)"
    unfolding newSplit_def continue_split_def split_other_way_def split_root_def by (auto intro!: keeps_intros f)
  show "osle.keeps (closePane i)"
    unfolding closePane_def close_tab_def close_child_def collapse_split_def by (auto intro!: keeps_intros)
  show "osle.keeps (ms_appendData i d)" "osle.keeps (resizePane i c r)"
    unfolding ms_appendData_def resizePane_def by (auto intro!: keeps_intros)
qed

lemma send_keeps [keeps_intros]: "osle.keeps (send_pane B fd i d)" "osle.keeps (send_pane_closed B fd i)" "osle.keeps (toJsonString dump)"
  unfolding send_pane_def send_pane_closed_def toJsonString_def by (auto intro!: keeps_intros)

lemma update_keeps [keeps_intros]: "osle.keeps (ms_update B fd)" "osle.keeps (sendTerminalBuffers B fd)"
proof -
  have "osle.keeps (update_each B fd is)" for "is"
    by (induction "is") (simp_all only: update_each.simps, (intro keeps_intros | assumption)+)
  moreover have "osle.keeps (send_buffers_each B fd ps)" for ps
    by (induction ps) (simp_all only: send_buffers_each.simps, (intro keeps_intros | assumption)+)
  ultimately show "osle.keeps (ms_update B fd)" "osle.keeps (sendTerminalBuffers B fd)"
    unfolding ms_update_def sendTerminalBuffers_def by (auto intro!: keeps_intros)
qed

lemma htm_keeps [keeps_intros]:
  "osle.keeps closeEndpoint" "osle.keeps (sendDebug B x)" "osle.keeps (HtmServer_recover B dump)" "osle.keeps (htm_request B dump)"
proof -
  show c: "osle.keeps closeEndpoint" unfolding closeEndpoint_def by (auto intro!: keeps_intros)
  show d: "osle.keeps (sendDebug B x)" for x unfolding sendDebug_def by (auto intro!: keeps_intros)
  show "osle.keeps (HtmServer_recover B dump)" unfolding HtmServer_recover_def Let_def by (auto intro!: keeps_intros d)
  show "osle.keeps (htm_request B dump)"
    unfolding htm_request_def htm_read_def htm_read_int_def insert_keys_def debug_keys_def close_request_def Let_def
    by (auto intro!: keeps_intros c)
qed

lemma round_uses: "uses (HtmServer_round B dump)"
proof -
  have "uses (pollAccept B dump)"
    unfolding pollAccept_def by (intro uses_get uses_bnd uses_calls) (auto intro!: keeps_intros)
  moreover have "uses (catch_runtime (bnd (sys (select_isset fd)) (\<lambda>ready. bnd (if ready then htm_request B dump else ret ()) (\<lambda>_.
      bnd get_obj (\<lambda>h1. if endpointFd h1 > 0 then on_state (ms_update B (endpointFd h1)) else ret ())))) (\<lambda>_. closeEndpoint))" for fd
    by (intro uses_catch uses_bnd uses_calls) (auto intro!: keeps_intros)
  ultimately show ?thesis unfolding HtmServer_round_def by (intro uses_get) simp
qed

function HtmServer_run :: "base64 \<Rightarrow> (json \<Rightarrow> string) \<Rightarrow> unit htm_prog" where
  "HtmServer_run B dump s =
     (if \<not> running (fst s) then closeEndpoint s
      else bnd (HtmServer_round B dump) (\<lambda>_ s1. HtmServer_run B dump s1) s)"
  by pat_completeness auto
termination
  using round_uses unfolding uses_def
  by (relation "measure (\<lambda>(B, dump, s). length (script (snd s)))") fastforce+

declare HtmServer_run.simps [simp del]

section \<open>HtmClient\<close>

record HtmClient =
  hc_socketHandler :: nat
  hc_endpointFd :: int

type_synonym 'a hc_prog = "(HtmClient \<times> world, 'a) prog"

text \<open>The constructor of \<^verbatim>\<open>IpcPairClient\<close>: five attempts, with a pause after each one that fails.\<close>

fun ipc_connect :: "nat \<Rightarrow> nat \<Rightarrow> SocketEndpoint \<Rightarrow> (world, int) prog" where
  "ipc_connect 0 h ep = fail (Throw (RuntimeError ''Connect to IPC failed''))"
| "ipc_connect (Suc n) h ep = bnd (sh_connect h ep) (\<lambda>fd. if fd < 0 then ipc_connect n h ep else ret fd)"

definition IpcPairClient_new :: "nat \<Rightarrow> SocketEndpoint \<Rightarrow> (world, HtmClient) prog" where
  "IpcPairClient_new h ep = bnd (ipc_connect 5 h ep) (\<lambda>fd. ret \<lparr>hc_socketHandler = h, hc_endpointFd = fd\<rparr>)"

text \<open>A round of the loop; the result says whether the loop goes on.\<close>

definition client_stdin :: "unit hc_prog" where
  "client_stdin = bnd get_obj (\<lambda>c. bnd (sys (sys_read STDIN_FILENO 1024)) (\<lambda>rd.
     if fst rd < 0 then fail (Throw (RuntimeError ''Cannot read from raw socket''))
     else if fst rd = 0 then fail (Throw (RuntimeError ''stdin has closed abruptly.''))
     else sys (writeAllOrThrow (hc_socketHandler c) (hc_endpointFd c) (snd rd) False)))"

definition client_endpoint :: "bool hc_prog" where
  "client_endpoint = bnd get_obj (\<lambda>c. bnd (sys (Unix_read (hc_socketHandler c) (hc_endpointFd c) 1024)) (\<lambda>rd.
     if fst rd < 0 then fail (Throw (RuntimeError ''Cannot read from raw socket''))
     else if fst rd = 0 \<or> snd rd = [SESSION_END] then bnd (mod_obj (\<lambda>c. c\<lparr>hc_endpointFd := -1\<rparr>)) (\<lambda>_. ret False)
     else bnd (sys (Raw_writeAll STDOUT_FILENO (snd rd))) (\<lambda>_. ret True)))"

definition HtmClient_round :: "bool hc_prog" where
  "HtmClient_round = bnd get_obj (\<lambda>c. bnd (sys (sys_select [hc_endpointFd c, STDIN_FILENO])) (\<lambda>rfd.
     bnd (if STDIN_FILENO \<in> set rfd then client_stdin else ret ()) (\<lambda>_.
     if hc_endpointFd c \<in> set rfd then client_endpoint else ret True)))"

lemma client_round_uses: "uses HtmClient_round"
  unfolding HtmClient_round_def client_stdin_def client_endpoint_def
  by (intro uses_get uses_bnd uses_calls) (auto intro!: keeps_intros)

function HtmClient_run :: "unit hc_prog" where
  "HtmClient_run s = bnd HtmClient_round (\<lambda>more s1. if more then HtmClient_run s1 else (Ok (), s1)) s"
  by pat_completeness auto
termination
  using client_round_uses unfolding uses_def
  by (relation "measure (\<lambda>s. length (script (snd s)))") fastforce+

declare HtmClient_run.simps [simp del]

section \<open>Keys reach the shell of their pane\<close>

lemma Raw_writeAll_loop_sends:
  "Raw_writeAll_loop fd buf k w = (Ok (), w') \<Longrightarrow> k \<le> length buf \<Longrightarrow> sends fd (drop k buf) w w'"
proof (induction fd buf k w rule: Raw_writeAll_loop.induct)
  case (1 fd buf k w)
  obtain q w1 where snd: "sys_send fd (drop k buf) w = (q, w1)" by force
  obtain j where j: "j \<le> length (drop k buf)" "sends fd (take j (drop k buf)) w w1" "\<And>n. q = Ok n \<Longrightarrow> n < 0 \<and> j = 0 \<or> n = int j"
    by (rule sys_send_sends [OF snd]) blast
  obtain rc where rc: "q = Ok rc" using "1.prems"(1) snd by (subst (asm) Raw_writeAll_loop.simps) (cases q, auto simp: bnd_def)
  note run = "1.prems"(1) [unfolded Raw_writeAll_loop.simps [of fd buf k w] bnd_Ok [where m = "sys_send fd (drop k buf)" and s = w, OF snd [unfolded rc]]]
  have cat: "take j (drop k buf) @ drop (k + j) buf = drop k buf" by (metis append_take_drop_id drop_drop add.commute)
  consider (again) "rc < 0" "j = 0" | (some) "0 \<le> rc" "rc = int j" using j(3) [OF rc] by auto
  then show ?case
  proof cases
    case again
    then have "Raw_writeAll_loop fd buf k w1 = (Ok (), w')" "errno_now w1 = EAGAIN \<or> errno_now w1 = EWOULDBLOCK"
      using run by (auto split: if_splits)
    then have "sends fd (drop k buf) w1 w'" using "1.IH"(1) [OF snd [unfolded rc]] again "1.prems"(2) by blast
    then show ?thesis using sends_trans [OF j(2)] again by simp
  next
    case some
    have le: "k + j \<le> length buf" using j(1) "1.prems"(2) by simp
    have "sends fd (drop (k + j) buf) w1 w'"
      using run some le "1.IH"(2) [OF snd [unfolded rc]] by (auto simp: sends_def split: if_splits)
    then show ?thesis using sends_trans [OF j(2)] cat by metis
  qed
qed

lemma Raw_writeAll_sends: "Raw_writeAll fd buf w = (Ok (), w') \<Longrightarrow> sends fd buf w w'"
  using Raw_writeAll_loop_sends [of fd buf 0 w w'] by (auto simp: Raw_writeAll_def sends_def split: if_splits)

lemma Raw_writeAll_rnn: "rnn.keeps (Raw_writeAll fd buf)"
proof -
  have "rnn.keeps (Raw_writeAll_loop fd buf k)" for k
  proof (rule rnn.keepsI)
    show "Raw_writeAll_loop fd buf k w = (r, w') \<Longrightarrow> receives_nothing w w'" for w r w'
    proof (induction fd buf k w rule: Raw_writeAll_loop.induct)
      case (1 fd buf k w)
      obtain q w1 where snd: "sys_send fd (drop k buf) w = (q, w1)" by force
      have w1: "receives_nothing w w1" using rnn.keepsD [OF sys_send_keeps(4) snd] .
      show ?case
      proof (cases q)
        case (Ok rc)
        note run = "1.prems" [unfolded Raw_writeAll_loop.simps [of fd buf k w] bnd_Ok [where m = "sys_send fd (drop k buf)" and s = w, OF snd [unfolded Ok]]]
        have "receives_nothing w1 w'"
          using run "1.IH" [OF snd [unfolded Ok]] by (auto simp: rnn.R_refl split: if_splits)
        then show ?thesis by (rule rnn.R_trans [OF w1])
      qed (use "1.prems" snd w1 in \<open>auto simp: Raw_writeAll_loop.simps [of fd buf k w] bnd_def\<close>)
    qed
  qed
  then show ?thesis unfolding Raw_writeAll_def by (auto intro!: keeps_intros)
qed

lemma readB64_receives:
  assumes "readB64 B h fd n w = (Ok out, w')"
  obtains s where "receives fd s w w'" "length s = EncodedLength B n" "DecodeInto B s n = Some out"
proof -
  obtain s where s: "readAll h fd (EncodedLength B n) False w = (Ok s, w')" "DecodeInto B s n = Some out"
    using assms unfolding readB64_def by (auto elim!: bnd_eq_OkE split: option.splits)
  then show ?thesis using that [of s] readAll_receives [OF s(1)] by blast
qed

lemma readB64EncodedLength_receives:
  assumes "readB64EncodedLength B h fd n w = (Ok out, w')"
  obtains s where "receives fd s w w'" "length s = n" "Decode B s = Some out"
proof -
  obtain s where s: "readAll h fd n False w = (Ok s, w')" "Decode B s = Some out"
    using assms unfolding readB64EncodedLength_def by (auto elim!: bnd_eq_OkE split: option.splits)
  then show ?thesis using that [of s] readAll_receives [OF s(1)] by blast
qed

lemma ms_appendData_sends:
  assumes "ms_appendData uid data (m, w) = (Ok (), (m', w'))"
  obtains p where "map_of (panes m) uid = Some p" "sends (masterFd (terminal p)) data w w'" "receives_nothing w w'"
proof -
  have "on_terminal uid (TerminalHandler_appendData data) (m, w) = (Ok (), (m', w'))"
    using assms by (auto simp: ms_appendData_def bnd_get_obj split: if_splits)
  then obtain p t where p: "map_of (panes m) uid = Some p" and t: "TerminalHandler_appendData data (terminal p, w) = (Ok (), (t, w'))"
    by (rule on_terminal_Ok)
  have "Raw_writeAll (masterFd (terminal p)) data w = (Ok (), w')"
    using t by (auto simp: TerminalHandler_appendData_def bnd_get_obj split: prod.splits)
  then show ?thesis using that p Raw_writeAll_sends rnn.keepsD [OF Raw_writeAll_rnn] by blast
qed

text \<open>The message a client sends for keys typed in a pane.\<close>

definition keys_frame :: "base64 \<Rightarrow> string \<Rightarrow> string \<Rightarrow> string" where
  "keys_frame B uid data = INSERT_KEYS # the (Encode B (le32 (int (UUID_LENGTH + EncodedLength B (length data))))) @ uid @ the (Encode B data)"

lemma htm_read_Ok: "htm_read n (h, w) = (Ok bs, t) \<Longrightarrow> \<exists>w'. t = (h, w') \<and> receives (endpointFd h) bs w w' \<and> sends_nothing w w' \<and> length bs = n"
  by (auto simp: htm_read_def bnd_get_obj dest: readAll_receives snn.keepsD [OF readAll_keeps(4)] split: prod.splits)

lemma htm_read_int_Ok:
  assumes "htm_read_int B (h, w) = (Ok n, t)"
  obtains lb out w' where "t = (h, w')" "receives (endpointFd h) lb w w'" "sends_nothing w w'" "length lb = EncodedLength B 4"
    "DecodeInto B lb 4 = Some out" "n = le32_dec out"
proof -
  obtain out w' where "readB64 B (htm_socketHandler h) (endpointFd h) 4 w = (Ok out, w')" "t = (h, w')" "n = le32_dec out"
    using assms by (auto simp: htm_read_int_def bnd_get_obj elim!: bnd_eq_OkE split: prod.splits)
  then show ?thesis using that snn.keepsD [OF readB64_keeps(4)] by (metis readB64_receives)
qed

lemma insert_keys_Ok:
  assumes "insert_keys B len (h, w) = (Ok (), (h', w'))"
  obtains uid enc data w1 where "receives (endpointFd h) (uid @ enc) w w1" "sends_nothing w w1" "length uid = UUID_LENGTH"
    "int (length enc) = to_int32 (len - int UUID_LENGTH)" "Decode B enc = Some data"
    "ms_appendData uid data (htm_state h, w1) = (Ok (), (htm_state h', w'))"
proof -
  let ?rest = "to_int32 (len - int UUID_LENGTH)"
  obtain uid u where uid: "receives (endpointFd h) uid w u" "length uid = UUID_LENGTH" "sends_nothing w u"
    and run: "(if ?rest < 0 then fail (Throw LengthError)
       else bnd (sys (readB64EncodedLength B (htm_socketHandler h) (endpointFd h) (nat ?rest))) (\<lambda>data. on_state (ms_appendData uid data))) (h, u)
       = (Ok (), (h', w'))"
    using assms unfolding insert_keys_def
    by (auto elim!: bnd_eq_OkE dest!: htm_read_Ok simp: Let_def)
  then have pos: "0 \<le> ?rest" by (auto split: if_splits)
  obtain data w1 where rd: "readB64EncodedLength B (htm_socketHandler h) (endpointFd h) (nat ?rest) u = (Ok data, w1)"
    and ap: "ms_appendData uid data (htm_state h, w1) = (Ok (), (htm_state h', w'))"
    using run pos by (auto elim!: bnd_eq_OkE simp: on_state_def split: prod.splits)
  obtain enc where "receives (endpointFd h) enc u w1" "length enc = nat ?rest" "Decode B enc = Some data"
    by (rule readB64EncodedLength_receives [OF rd])
  then show ?thesis using that [of uid enc w1 data] uid ap pos receives_trans snn.R_trans [OF uid(3) snn.keepsD [OF readB64EncodedLength_keeps(4) rd]] by simp
qed

text \<open>
  C34: keys typed in a pane reach its shell. When the bytes the server takes from the client for
  one request are the message for the keys \<open>data\<close> of the pane \<open>uid\<close>, and the request succeeds, then the pane
  is there and exactly \<open>data\<close> went to its terminal.\<close>

theorem keys_reach_pane:
  assumes "base64_ok B" and "length uid = UUID_LENGTH" and "EncodedLength B (length data) < 2 ^ 30"
    and "htm_read 1 (h, w) = (Ok [INSERT_KEYS], (h, w1))" and "htm_request B dump (h, w) = (Ok (), (h', w'))"
    and "receives (endpointFd h) (keys_frame B uid data) w w'"
  shows "\<exists>p. map_of (panes (htm_state h)) uid = Some p \<and> sends (masterFd (terminal p)) data w w'"
proof -
  let ?fd = "endpointFd h"
  let ?n = "int (UUID_LENGTH + EncodedLength B (length data))"
  have n: "to_int32 (?n - int UUID_LENGTH) = int (EncodedLength B (length data))" "le32_dec (le32 ?n) = ?n"
    using assms(3) by (simp_all add: to_int32_id le32_roundtrip UUID_LENGTH_def)
  obtain c e where c: "Encode B (le32 ?n) = Some c" "length c = EncodedLength B 4" "DecodeInto B c 4 = Some (le32 ?n)"
    and e: "Encode B data = Some e" "length e = EncodedLength B (length data)" "Decode B e = Some data"
    using assms(1) unfolding base64_ok_def by (metis le32_def length_le_bytes)
  obtain len t where ri: "htm_read_int B (h, w1) = (Ok len, t)" and ik: "insert_keys B len t = (Ok (), (h', w'))"
    using assms(4,5) by (auto simp: htm_request_def Let_def elim!: bnd_eq_OkE)
  obtain lb out w2 where t: "t = (h, w2)" and lb: "receives ?fd lb w1 w2" "sends_nothing w1 w2" "length lb = EncodedLength B 4" "DecodeInto B lb 4 = Some out"
    "len = le32_dec out" by (rule htm_read_int_Ok [OF ri])
  obtain u2 e2 d2 w3 where r: "receives ?fd (u2 @ e2) w2 w3" "sends_nothing w2 w3" "length u2 = UUID_LENGTH" "int (length e2) = to_int32 (len - int UUID_LENGTH)"
    "Decode B e2 = Some d2" and ap: "ms_appendData u2 d2 (htm_state h, w3) = (Ok (), (htm_state h', w'))"
    by (rule insert_keys_Ok [OF ik [unfolded t]])
  obtain p where p: "map_of (panes (htm_state h)) u2 = Some p" "sends (masterFd (terminal p)) d2 w3 w'" "receives_nothing w3 w'"
    by (rule ms_appendData_sends [OF ap])
  have w1: "receives ?fd [INSERT_KEYS] w w1" "sends_nothing w w1" using htm_read_Ok [OF assms(4)] by auto
  have "receives ?fd [] w3 w'" using p(3) by (simp add: receives_Nil)
  then have "receives ?fd ([INSERT_KEYS] @ lb @ u2 @ e2) w w'"
    using receives_trans [OF w1(1) receives_trans [OF lb(1) receives_trans [OF r(1)]]] by fastforce
  from receives_unique [OF assms(6) this] have "lb @ u2 @ e2 = c @ uid @ e"
    using c(1) e(1) by (simp add: keys_frame_def)
  then have eq: "lb = c" "u2 = uid" "e2 = e" using lb(3) c(2) r(3) assms(2) by simp_all
  then have "d2 = data" using r(5) e(3) by simp
  moreover have "sends_nothing w w3" using snn.R_trans [OF w1(2) snn.R_trans [OF lb(2) r(2)]] .
  ultimately show ?thesis using p eq by (auto simp: sends_def sends_nothing_def)
qed

definition plain_base64 :: base64 where
  "plain_base64 = \<lparr>EncodedLength = (\<lambda>n. n), Encode = Some, Decode = Some, DecodeInto = (\<lambda>s n. Some s)\<rparr>"

definition sample_uid :: string where
  "sample_uid = ''0123456789abcdef0123456789abcdef0123''"

definition sample_htm :: HtmServer where
  "sample_htm = \<lparr>htm_socketHandler = 0, endpointFd = 5, htm_serverFd = 4, htm_endpoint = no_endpoint,
     htm_state = \<lparr>ms_socketHandler = 0, tabs = [], panes = [(sample_uid, (new_pane sample_uid ''t'')\<lparr>terminal := TerminalHandler_new\<lparr>masterFd := 7\<rparr>\<rparr>)],
       splits = [], closed_ids = {}\<rparr>, running = True\<rparr>"

definition one_read :: "string \<Rightarrow> answer list" where
  "one_read bs = [Val 0, Val 1, Val 1, Data bs, Val 0]"

definition sample_request :: world where
  "sample_request = sample_world (one_read ''1'' @ one_read (le32 38) @ one_read sample_uid @ one_read ''ls'' @ [Val 2])"

lemma plain_base64_ok: "base64_ok plain_base64"
  by (simp add: base64_ok_def plain_base64_def)

theorem keys_reach_pane_witness:
  "\<exists>p. map_of (panes (htm_state sample_htm)) sample_uid = Some p \<and>
     sends (masterFd (terminal p)) ''ls'' sample_request (snd (snd (htm_request plain_base64 (\<lambda>_. []) (sample_htm, sample_request))))"
proof -
  let ?r = "htm_request plain_base64 (\<lambda>_. []) (sample_htm, sample_request)"
  have "fst (htm_read 1 (sample_htm, sample_request)) = Ok [INSERT_KEYS]" by code_simp
  then obtain w1 where rd: "htm_read 1 (sample_htm, sample_request) = (Ok [INSERT_KEYS], (sample_htm, w1))"
    using htm_read_Ok by (metis prod.collapse)
  have "fst ?r = Ok ()" by code_simp
  then have rq: "?r = (Ok (), (fst (snd ?r), snd (snd ?r)))" by (simp add: prod_eq_iff)
  have "trace (snd (snd ?r)) = [Received 5 ''1'', Received 5 (le32 38), Received 5 sample_uid, Received 5 ''ls'', Sent 7 ''ls'']"
    "trace sample_request = []" by code_simp+
  then have rc: "receives (endpointFd sample_htm) (keys_frame plain_base64 sample_uid ''ls'') sample_request (snd (snd ?r))"
    by (simp add: receives_def keys_frame_def plain_base64_def sample_htm_def UUID_LENGTH_def INSERT_KEYS_def)
  show ?thesis
    by (rule keys_reach_pane [OF plain_base64_ok _ _ rd rq rc]) (simp_all add: UUID_LENGTH_def sample_uid_def plain_base64_def)
qed

text \<open>
  A client that goes away takes the daemon with it. When a request fails because the client is
  gone, the handler of the error sends \<^verbatim>\<open>SESSION_END\<close> to the same client; that write throws as well, outside of
  any handler, and leaves \<^verbatim>\<open>run\<close>.\<close>

lemma hangup_ends_daemon:
  assumes "running h" and "0 \<le> endpointFd h" and "select_isset (endpointFd h) w = (Ok True, w1)"
    and "htm_request B dump (h, w1) = (Throw (RuntimeError e), (h2, w2))"
    and "writeAllOrThrow (htm_socketHandler h2) (endpointFd h2) [SESSION_END] False w2 = (Throw e2, w3)"
  shows "HtmServer_run B dump (h, w) = (Throw e2, (h2, w3))"
proof -
  have "closeEndpoint (h2, w2) = (Throw e2, (h2, w3))" using assms(5) by (simp add: closeEndpoint_def bnd_get_obj bnd_def)
  then have "HtmServer_round B dump (h, w) = (Throw e2, (h2, w3))"
    using assms(2-4) by (simp add: HtmServer_round_def bnd_get_obj bnd_def catch_runtime_def)
  then show ?thesis using assms(1) by (simp add: HtmServer_run.simps [of B dump "(h, w)"] bnd_def)
qed

definition sample_hangup :: world where
  "sample_hangup = sample_world [Val 1, Val 0, Val 1, Val 1, Data [], Val 0, Val 0, Val 1, Err EPIPE]"

lemma hangup_ends_daemon_example:
  "\<exists>h2 w3 e2. HtmServer_run plain_base64 (\<lambda>_. []) (sample_htm, sample_hangup) = (Throw e2, (h2, w3))"
proof -
  let ?w1 = "snd (select_isset 5 sample_hangup)"
  let ?r = "htm_request plain_base64 (\<lambda>_. []) (sample_htm, ?w1)"
  let ?v = "writeAllOrThrow (htm_socketHandler (fst (snd ?r))) (endpointFd (fst (snd ?r))) [SESSION_END] False (snd (snd ?r))"
  have "fst (select_isset 5 sample_hangup) = Ok True" by code_simp
  then have a: "select_isset (endpointFd sample_htm) sample_hangup = (Ok True, ?w1)" by (simp add: prod_eq_iff sample_htm_def)
  have "case fst ?r of Throw (RuntimeError _) \<Rightarrow> True | _ \<Rightarrow> False" by code_simp
  then obtain e where b: "?r = (Throw (RuntimeError e), (fst (snd ?r), snd (snd ?r)))"
    by (cases "fst ?r") (auto simp: prod_eq_iff split: exn.splits)
  have "case fst ?v of Throw _ \<Rightarrow> True | _ \<Rightarrow> False" by code_simp
  then obtain e2 where c: "?v = (Throw e2, snd ?v)" by (cases "fst ?v") (auto simp: prod_eq_iff)
  show ?thesis using hangup_ends_daemon [OF _ _ a b c] by (auto simp: sample_htm_def)
qed

end
