(* ===== verification/ET_EndToEnd.thy ===== *)
theory ET_EndToEnd
  imports ET_Channel ET_Threads ET_ClientLoop ET_HtmServer
begin

text \<open>
  From end to end: the loop of the client, the session, the loop of the server and the terminal process put
  together. The state is a session with the bytes that the programs above it have read and written; a step
  is a step of the session or a part of one of the two loops on it. The result is what a user sees: the
  shell is given what was typed, and the console shows what the shell printed, in order and without a gap,
  through any number of lost connections.
\<close>

section \<open>The traffic of a terminal\<close>

text \<open>
  \<open>tt_typed\<close> are the keys the client has read and handed over, \<open>tt_up\<close> the packet the server has read and not yet
  dealt with, \<open>tt_pipe\<close> the bytes sent to the terminal process; \<open>tt_printed\<close> are the bytes the server has read from that
  process, \<open>tt_down\<close> the packet the client has read, \<open>tt_coalesced\<close> the output it has collected, and \<open>tt_console\<close> what it has
  shown. A failed write ends a direction.
\<close>

record traffic =
  tt_session :: session
  tt_typed :: string
  tt_up :: "Packet list"
  tt_pipe :: string
  tt_up_live :: bool
  tt_printed :: string
  tt_down :: "Packet list"
  tt_coalesced :: string
  tt_console :: string
  tt_down_live :: bool

text \<open>The session after side \<open>s\<close> has written the packet \<open>p\<close>, by \<open>tx\<close> on its socket.\<close>

definition after_send :: "bool \<Rightarrow> Connection \<Rightarrow> string \<Rightarrow> Packet \<Rightarrow> session \<Rightarrow> session" where
  "after_send s c tx p ses = ses\<lparr>conn := (conn ses)(s := c),
     wire := (wire ses)(s := (if linked ses s then wire ses s @ tx else wire ses s)),
     linked := (linked ses)(s := linked ses s \<and> c_socketFd c \<noteq> -1),
     sent_log := (sent_log ses)(s := sent_log ses s @ [p])\<rparr>"

text \<open>The packets that a step of the session has read on side \<open>s\<close>.\<close>

definition newly_got :: "bool \<Rightarrow> session \<Rightarrow> session \<Rightarrow> Packet list" where
  "newly_got s ses ses' = drop (length (got ses s)) (got ses' s)"

definition is_terminal_write :: "session_label \<Rightarrow> bool" where
  "is_terminal_write l = (case l of LWrite s p \<Rightarrow> header p = TERMINAL_BUFFER | _ \<Rightarrow> False)"

definition is_session_read :: "session_label \<Rightarrow> bool" where
  "is_session_read l = (case l of LRead s \<Rightarrow> True | _ \<Rightarrow> False)"

datatype traffic_label = LKeys | LCommand | LOutput | LTake bool | LPass | LSkip | LCollect | LShow | LLose | LSession session_label

text \<open>
  \<open>h\<close> and \<open>fd\<close> are the server's handler and descriptor of the terminal process. The packets of the other types
  that the loops send and answer are steps of the session.
\<close>

inductive traffic_step :: "sodium \<Rightarrow> protos \<Rightarrow> tprotos \<Rightarrow> nat \<Rightarrow> int \<Rightarrow> traffic \<Rightarrow> traffic_label \<Rightarrow> traffic \<Rightarrow> bool"
  for na P T h fd where
  traffic_keys: "traffic_step na P T h fd st LKeys
      (st\<lparr>tt_session := after_send True (en_conn (tc_endpoint l')) tx (mkPacket TERMINAL_BUFFER z) (tt_session st),
          tt_typed := tt_typed st @ bs\<rparr>)"
  if "en_conn (tc_endpoint l) = conn (tt_session st) True" and "\<not> shuttingDown (conn (tt_session st) True)"
    and "console_input na T (l, w) = (Ok False, (l', w'))"
    and "received_on STDOUT_FILENO (trace w') = received_on STDOUT_FILENO (trace w) @ bs" and "bs \<noteq> []"
    and "sends (c_socketFd (conn (tt_session st) True)) tx w w'"
    and "protoToString (TerminalBuffer_codec T) (terminal_buffer bs) = Ok z" and "packet_ok (mkPacket TERMINAL_BUFFER z)"
| traffic_command: "traffic_step na P T h fd st LCommand
      (st\<lparr>tt_session := after_send True (en_conn e') tx (mkPacket TERMINAL_BUFFER z) (tt_session st),
          tt_typed := tt_typed st @ get_or [] (tb_buffer (command_buffer command noexit))\<rparr>)"
  if "en_conn e = conn (tt_session st) True" and "\<not> shuttingDown (conn (tt_session st) True)"
    and "send_proto na (TerminalBuffer_codec T) TERMINAL_BUFFER (command_buffer command noexit) (e, w) = (Ok (), (e', w'))"
    and "sends (c_socketFd (conn (tt_session st) True)) tx w w'"
    and "protoToString (TerminalBuffer_codec T) (command_buffer command noexit) = Ok z" and "packet_ok (mkPacket TERMINAL_BUFFER z)"
| traffic_output: "traffic_step na P T h fd st LOutput
      (st\<lparr>tt_session := after_send False (en_conn e') tx (mkPacket TERMINAL_BUFFER z) (tt_session st),
          tt_printed := tt_printed st @ bs\<rparr>)"
  if "en_conn e = conn (tt_session st) False" and "\<not> shuttingDown (conn (tt_session st) False)"
    and "terminal_output na T fd (e, w) = (Ok None, (e', w'))"
    and "received_on fd (trace w') = received_on fd (trace w) @ bs"
    and "sends (c_socketFd (conn (tt_session st) False)) tx w w'"
    and "protoToString (TerminalBuffer_codec T) (terminal_buffer bs) = Ok z" and "packet_ok (mkPacket TERMINAL_BUFFER z)"
| traffic_take_up: "traffic_step na P T h fd st (LTake False)
      (st\<lparr>tt_session := ses', tt_up := newly_got False (tt_session st) ses'\<rparr>)"
  if "tt_up_live st" and "tt_up st = []" and "session_step na P (tt_session st) (LRead False) ses'"
| traffic_pass: "traffic_step na P T h fd st LPass
      (st\<lparr>tt_up := [], tt_pipe := tt_pipe st @ tx, tt_up_live := is_ok q\<rparr>)"
  if "tt_up_live st" and "tt_up st = [p]" and "\<not> is_forward_packet p" and "header p \<noteq> KEEP_ALIVE"
    and "terminal_packet na T h fd p (e, w) = (q, (e', w'))" and "\<not> stalls w w'" and "sends fd tx w w'"
| traffic_skip: "traffic_step na P T h fd st LSkip (st\<lparr>tt_up := []\<rparr>)"
  if "tt_up_live st" and "tt_up st = [p]" and "is_forward_packet p \<or> header p = KEEP_ALIVE"
| traffic_take_down: "traffic_step na P T h fd st (LTake True)
      (st\<lparr>tt_session := ses', tt_down := newly_got True (tt_session st) ses'\<rparr>)"
  if "tt_down_live st" and "tt_down st = []" and "session_step na P (tt_session st) (LRead True) ses'"
| traffic_collect: "traffic_step na P T h fd st LCollect (st\<lparr>tt_down := [], tt_coalesced := coalesced\<rparr>)"
  if "tt_down_live st" and "tt_down st = [p]" and "tc_console l"
    and "client_packet na T p (tt_coalesced st) (l, w) = (Ok coalesced, t)"
| traffic_show: "traffic_step na P T h fd st LShow
      (st\<lparr>tt_coalesced := [], tt_console := tt_console st @ tx, tt_down_live := is_ok q\<rparr>)"
  if "tt_down_live st" and "console_write (tt_coalesced st) w = (q, w')" and "sends STDOUT_FILENO tx w w'"
| traffic_lose: "traffic_step na P T h fd st LLose (st\<lparr>tt_down := [], tt_coalesced := [], tt_down_live := False\<rparr>)"
| traffic_session: "traffic_step na P T h fd st (LSession l) (st\<lparr>tt_session := ses'\<rparr>)"
  if "session_step na P (tt_session st) l ses'" and "\<not> is_terminal_write l" and "\<not> is_session_read l"

definition traffic_init :: "sodium \<Rightarrow> protos \<Rightarrow> string \<Rightarrow> traffic \<Rightarrow> bool" where
  "traffic_init na P k st \<longleftrightarrow> session_start na P k (tt_session st) \<and> tt_typed st = [] \<and> tt_up st = [] \<and> tt_pipe st = [] \<and>
     tt_up_live st \<and> tt_printed st = [] \<and> tt_down st = [] \<and> tt_coalesced st = [] \<and> tt_console st = [] \<and> tt_down_live st"

section \<open>What a call receives\<close>

definition obj_receives_nothing :: "'o \<times> world \<Rightarrow> 'o \<times> world \<Rightarrow> bool" where
  "obj_receives_nothing s t \<longleftrightarrow> receives_nothing (snd s) (snd t)"

interpretation orn: frame obj_receives_nothing
  by unfold_locales (auto simp: obj_receives_nothing_def intro: rnn.R_refl rnn.R_trans)

declare orn.keeps_rules [keeps_intros]

lemma orn_basic [keeps_intros]:
  "orn.keeps get_obj" "orn.keeps (mod_obj f)" "rnn.keeps m \<Longrightarrow> orn.keeps (sys m)" "orn.keeps (outcome_prog r)" "orn.keeps (sub gt pt p)"
  by (auto simp: orn.keeps_def obj_receives_nothing_def get_obj_def mod_obj_def sys_def outcome_prog_def sub_def rnn.R_refl
      dest: rnn.keepsD split: prod.splits)

lemma orn_lift [keeps_intros]:
  "orn.keeps m1 \<Longrightarrow> orn.keeps (on_writer m1)" "orn.keeps m2 \<Longrightarrow> orn.keeps (on_con m2)" "orn.keeps m3 \<Longrightarrow> orn.keeps (on_en m3)"
  by (auto simp: orn.keeps_def on_writer_def on_con_def on_en_def obj_receives_nothing_def rnn.R_refl split: option.splits prod.splits)
    (metis snd_conv)+

lemma bw_write_loop_rnn [keeps_intros]: "rnn.keeps (bw_write_loop h fd s k)"
proof -
  have "receives_nothing w (snd (bw_write_loop h fd s k w))" for w
    by (induction h fd s k w rule: bw_write_loop.induct, subst bw_write_loop.simps)
      (auto intro!: rnn.keeps_bnd_at keeps_intros rnn.R_refl)
  then show ?thesis by (simp add: rnn.keeps_def)
qed

lemma orn_write [keeps_intros]: "orn.keeps (Connection_write na p)" "orn.keeps (Connection_writePacket na p)"
proof -
  have w: "orn.keeps (BackedWriter_write na q)" for q
    unfolding BackedWriter_write_def bw_encrypt_def Let_def by (auto intro!: keeps_intros)
  have c: "orn.keeps closeSocketAndMaybeReconnect"
    unfolding closeSocketAndMaybeReconnect_def Client_closeSocketAndMaybeReconnect_def Connection_closeSocket_def waitReconnect_def
    by (auto intro!: keeps_intros split: reconnect_thread.split)
  show "orn.keeps (Connection_write na p)" "orn.keeps (Connection_writePacket na p)"
    unfolding Connection_writePacket_def Connection_write_def
    by (auto intro!: keeps_intros w c split: BackedWriterWriteState.split)
qed

lemma orn_send [keeps_intros]: "orn.keeps (send_proto na C h m)"
  unfolding send_proto_def by (auto intro!: keeps_intros)

section \<open>The programs write as the session does\<close>

lemma writePacket_write:
  assumes "Connection_writePacket na p (c, w) = (Ok (), (c', w'))" and "\<not> shuttingDown c"
  shows "Connection_write na p (c, w) = (Ok True, (c', w'))"
  using assms unfolding Connection_writePacket_def bnd_get_obj
  by (auto elim!: bnd_eq_OkE split: if_splits)

lemma send_proto_write:
  assumes "send_proto na C h m (e, w) = (Ok (), (e', w'))" and "\<not> shuttingDown (en_conn e)" and "protoToString C m = Ok z"
  shows "Connection_write na (mkPacket h z) (en_conn e, w) = (Ok True, (en_conn e', w'))"
proof -
  obtain c' where "Connection_writePacket na (mkPacket h z) (en_conn e, w) = (Ok (), (c', w'))" "e' = e\<lparr>en_conn := c'\<rparr>"
    using assms(1,3) by (auto simp: send_proto_def outcome_prog_def on_con_def bnd_def split: prod.splits outcome.splits)
  then show ?thesis using writePacket_write [OF _ assms(2)] by simp
qed

lemma session_send:
  assumes "Connection_write na p (conn ses s, w) = (Ok True, (c', w'))" and "sends (c_socketFd (conn ses s)) tx w w'" and "packet_ok p"
  shows "session_step na P ses (LWrite s p) (after_send s c' tx p ses)"
  using step_write [OF assms(3,1,2)] by (simp add: after_send_def)

text \<open>Bytes that were read, and nothing else received.\<close>

lemma read_is_all:
  assumes "sys_read fd n w = (Ok rv, w1)" and "receives_nothing w1 w'" and "received_on fd (trace w') = received_on fd (trace w) @ bs"
  shows "snd rv = bs"
proof -
  obtain c where c: "receives fd c w w1" "snd rv = c" using io_read [OF assms(1)] by metis
  have "received_on fd (trace w') = received_on fd (trace w) @ c" using c(1) assms(2) by (simp add: receives_def receives_nothing_def)
  then show ?thesis using c(2) assms(3) by simp
qed

lemma sends_inner:
  assumes "sends fd tx w w'" and "sends_nothing w w1" and "sends_nothing w2 w'"
  shows "sends fd tx w1 w2"
  using assms by (simp add: sends_def sends_nothing_def)

lemma console_input_writes:
  assumes "console_input na T (l, w) = (Ok False, (l', w'))"
    and "received_on STDOUT_FILENO (trace w') = received_on STDOUT_FILENO (trace w) @ bs" and "bs \<noteq> []"
  obtains w1 w2 e' where "sends_nothing w w1" "sends_nothing w2 w'" "tc_endpoint l' = e'"
    "send_proto na (TerminalBuffer_codec T) TERMINAL_BUFFER (terminal_buffer bs) (tc_endpoint l, w1) = (Ok (), (e', w2))"
proof -
  obtain rv w1 where rv: "sys_read STDOUT_FILENO TS_BUF_SIZE w = (Ok rv, w1)"
    and rest: "bnd (sys GetErrno) (\<lambda>savedErrno.
     if fst rv > 0 then
       bnd (on_en (send_proto na (TerminalBuffer_codec T) TERMINAL_BUFFER (terminal_buffer (snd rv)))) (\<lambda>_. bnd touch (\<lambda>_. ret False))
     else if fst rv = 0 then ret True
     else ret (savedErrno \<noteq> EAGAIN \<and> savedErrno \<noteq> EWOULDBLOCK)) (l, w1) = (Ok False, (l', w'))"
    using assms(1) unfolding console_input_def by (rule bnd_sys_OkE)
  have s1: "sends_nothing w w1" using snn.keepsD [OF sys_read_keeps(4) rv] .
  show thesis
  proof (cases "fst rv > 0")
    case True
    then have "bnd (on_en (send_proto na (TerminalBuffer_codec T) TERMINAL_BUFFER (terminal_buffer (snd rv)))) (\<lambda>_. bnd touch (\<lambda>_. ret False))
        (l, w1) = (Ok False, (l', w'))"
      using rest by (auto elim!: bnd_sys_OkE simp: GetErrno_def)
    then obtain l1 w2 where send: "on_en (send_proto na (TerminalBuffer_codec T) TERMINAL_BUFFER (terminal_buffer (snd rv))) (l, w1) = (Ok (), (l1, w2))"
      and t: "touch (l1, w2) = (Ok (), (l', w'))"
      by (elim bnd_Ok_pairE) auto
    obtain now where now: "time_now w2 = (Ok now, w')" "l' = l1\<lparr>keepaliveTime := now + keepaliveDuration l1\<rparr>"
      using t unfolding touch_def by (elim bnd_sys_OkE) (auto simp: mod_obj_def)
    have s2: "sends_nothing w2 w'" and r2: "receives_nothing w2 w'"
      using snn.keepsD [OF time_now_keeps(4) now(1)] rnn.keepsD [OF time_now_keeps(5) now(1)] .
    have r1: "receives_nothing w1 w2"
      using orn.keepsD [OF orn_lift(3) [OF orn_send] send] by (simp add: obj_receives_nothing_def)
    have "snd rv = bs" using read_is_all [OF rv rnn.R_trans [OF r1 r2] assms(2)] .
    moreover obtain e' where "send_proto na (TerminalBuffer_codec T) TERMINAL_BUFFER (terminal_buffer (snd rv)) (tc_endpoint l, w1) = (Ok (), (e', w2))"
        "l1 = l\<lparr>tc_endpoint := e'\<rparr>"
      using send by (auto simp: on_en_def split: prod.splits)
    ultimately show ?thesis using that [OF s1 s2] now(2) by simp
  next
    case False
    have "w' = w1" using False rest by (auto elim!: bnd_sys_OkE simp: GetErrno_def split: if_splits)
    then have "snd rv = bs" using read_is_all [OF rv _ assms(2)] rnn.R_refl by simp
    then show ?thesis using False io_read [OF rv] assms(3) by (metis length_greater_0_conv of_nat_0_less_iff)
  qed
qed

lemma terminal_output_writes:
  assumes "terminal_output na T fd (e, w) = (Ok None, (e', w'))" and "received_on fd (trace w') = received_on fd (trace w) @ bs"
  obtains w1 where "sends_nothing w w1"
    "send_proto na (TerminalBuffer_codec T) TERMINAL_BUFFER (terminal_buffer bs) (e, w1) = (Ok (), (e', w'))"
proof -
  obtain rv w1 where rv: "sys_read fd TS_BUF_SIZE w = (Ok rv, w1)"
    and rest: "(if fst rv > 0 then bnd (send_proto na (TerminalBuffer_codec T) TERMINAL_BUFFER (terminal_buffer (snd rv))) (\<lambda>_. ret None)
     else if fst rv = 0 then ret (Some False)
     else bnd (sys GetErrno) (\<lambda>e. if e = EAGAIN \<or> e = EWOULDBLOCK then bnd (sys sys_int) (\<lambda>_. ret (Some True)) else ret (Some False)))
     (e, w1) = (Ok None, (e', w'))"
    using assms(1) unfolding terminal_output_def by (rule bnd_sys_OkE)
  have send: "send_proto na (TerminalBuffer_codec T) TERMINAL_BUFFER (terminal_buffer (snd rv)) (e, w1) = (Ok (), (e', w'))"
    using rest by (auto elim!: bnd_eq_OkE split: if_splits)
  have "receives_nothing w1 w'" using orn.keepsD [OF orn_send send] by (simp add: obj_receives_nothing_def)
  then have "snd rv = bs" using read_is_all [OF rv _ assms(2)] by blast
  then show thesis using that snn.keepsD [OF sys_read_keeps(4) rv] send by blast
qed

section \<open>What the server sends to the terminal process\<close>

text \<open>The text in packets, and messages as the terminal process reads them: a type and the body of a frame.\<close>

definition buffer_text :: "tprotos \<Rightarrow> string \<Rightarrow> string" where
  "buffer_text T s = (case ParseFromString (TerminalBuffer_codec T) s of Some tb \<Rightarrow> get_or [] (tb_buffer tb) | None \<Rightarrow> [])"

definition text_in :: "tprotos \<Rightarrow> Packet \<Rightarrow> string" where
  "text_in T p = (if header p = TERMINAL_BUFFER then buffer_text T (payload p) else [])"

definition texts :: "tprotos \<Rightarrow> Packet list \<Rightarrow> string" where
  "texts T ps = concat (map (text_in T) ps)"

type_synonym message = "8 word \<times> string"

definition framed :: "message \<Rightarrow> string" where
  "framed m = char_of_u8 (fst m) # proto_frame (snd m)"

definition message_text :: "tprotos \<Rightarrow> message \<Rightarrow> string" where
  "message_text T m = (if fst m = TERMINAL_BUFFER then buffer_text T (snd m) else [])"

definition terminal_type :: "8 word \<Rightarrow> bool" where
  "terminal_type t \<longleftrightarrow> t = TERMINAL_BUFFER \<or> t = TERMINAL_INFO"

definition parses :: "tprotos \<Rightarrow> message \<Rightarrow> bool" where
  "parses T m \<longleftrightarrow> (if fst m = TERMINAL_BUFFER then ParseFromString (TerminalBuffer_codec T) (snd m) \<noteq> None
     else ParseFromString (TerminalInfo_codec T) (snd m) \<noteq> None)"

definition message_ok :: "tprotos \<Rightarrow> message \<Rightarrow> bool" where
  "message_ok T m \<longleftrightarrow> terminal_type (fst m) \<and> int (length (snd m)) \<le> MAX_MESSAGE \<and> parses T m"

text \<open>What can follow whole messages when a write failed early: nothing, or a type alone.\<close>

definition stub :: "string \<Rightarrow> bool" where
  "stub tail \<longleftrightarrow> tail = [] \<or> (\<exists>t. terminal_type t \<and> tail = [char_of_u8 t])"

lemma framed_pair: "framed (t, s) = char_of_u8 t # proto_frame s"
  by (simp add: framed_def)

lemma message_text_simps [simp]:
  "message_text T (TERMINAL_BUFFER, s) = buffer_text T s" "t \<noteq> TERMINAL_BUFFER \<Longrightarrow> message_text T (t, s) = []"
  by (simp_all add: message_text_def)

lemma texts_simps [simp]: "texts T [] = []" "texts T (ps @ qs) = texts T ps @ texts T qs" "texts T [p] = text_in T p"
  by (simp_all add: texts_def)

lemma texts_prefix: "prefix ps qs \<Longrightarrow> prefix (texts T ps) (texts T qs)"
  by (auto simp: prefix_def)

lemma char_of_u8_inj [simp]: "char_of_u8 a = char_of_u8 b \<longleftrightarrow> a = b"
  by (metis u8_of_char_of_u8)

lemma types_differ [simp]: "TERMINAL_BUFFER \<noteq> TERMINAL_INFO" "TERMINAL_INFO \<noteq> TERMINAL_BUFFER" "TERMINAL_BUFFER \<noteq> KEEP_ALIVE"
  by (simp_all add: packet_type_defs)

text \<open>Messages can be told apart: what the terminal process makes of a part of the bytes is the text of some messages.\<close>

lemma next_message:
  assumes "prefix ((char_of_u8 t # fr) @ x) (concat (map framed (drop n ms)) @ tail)" and "n \<le> length ms"
    and "\<forall>m\<in>set ms. message_ok T m" and "stub tail" and "frame_of C m fr"
  shows "\<exists>s. n < length ms \<and> ms ! n = (t, s) \<and> fr = proto_frame s \<and> ParseFromString C s = Some m \<and> prefix x (concat (map framed (drop (Suc n) ms)) @ tail)"
proof (cases "n < length ms")
  case True
  obtain t' s where m: "ms ! n = (t', s)" by (cases "ms ! n")
  have d: "drop n ms = (t', s) # drop (Suc n) ms" using True m by (metis Cons_nth_drop_Suc)
  have "int (length s) \<le> MAX_MESSAGE" using assms(3) nth_mem [OF True] m by (auto simp: message_ok_def)
  moreover have "t' = t" "prefix (fr @ x) (proto_frame s @ concat (map framed (drop (Suc n) ms)) @ tail)"
    using assms(1) by (auto simp: d framed_def)
  ultimately show ?thesis using frame_of_front [OF assms(5)] True m by blast
next
  case False
  then have "prefix (char_of_u8 t # fr @ x) tail" using assms(1) by simp
  then have "fr = []" using assms(4) by (auto simp: stub_def prefix_def Cons_eq_append_conv)
  then show ?thesis using frame_of_not_Nil [OF assms(5)] by simp
qed

lemma first_is_type:
  assumes "prefix (c # x) (concat (map framed (drop n ms)) @ tail)" and "\<forall>m\<in>set ms. message_ok T m" and "stub tail"
  shows "\<exists>t. terminal_type t \<and> c = char_of_u8 t"
proof (cases "drop n ms")
  case Nil
  then show ?thesis using assms(1,3) by (auto simp: stub_def prefix_def)
next
  case (Cons m rest)
  then have "m \<in> set ms" by (metis in_set_dropD list.set_intros(1))
  then show ?thesis using assms(1,2) Cons by (auto simp: framed_def message_ok_def)
qed

lemma keys_in_messages:
  assumes "keys_in T bs ks" and "prefix (bs @ x) (concat (map framed ms) @ tail)" and "\<forall>m\<in>set ms. message_ok T m" and "stub tail"
  shows "\<exists>n\<le>length ms. ks = concat (map (message_text T) (take n ms)) \<and> bs = concat (map framed (take n ms)) \<and> prefix x (concat (map framed (drop n ms)) @ tail)"
  using assms(1,2)
proof (induction arbitrary: x rule: keys_in.induct)
  case keys_none
  then show ?case by (intro exI [of _ 0]) simp
next
  case (keys_buffer bs ks tb fr)
  obtain n where n: "n \<le> length ms" "ks = concat (map (message_text T) (take n ms))" "bs = concat (map framed (take n ms))"
      "prefix ((char_of_u8 TERMINAL_BUFFER # fr) @ x) (concat (map framed (drop n ms)) @ tail)"
    using keys_buffer.IH [of "(char_of_u8 TERMINAL_BUFFER # fr) @ x"] keys_buffer.prems by auto
  from next_message [OF n(4,1) assms(3,4) keys_buffer.hyps(2)]
  obtain s where "n < length ms" "ms ! n = (TERMINAL_BUFFER, s)" "fr = proto_frame s" "ParseFromString (TerminalBuffer_codec T) s = Some tb"
      "prefix x (concat (map framed (drop (Suc n) ms)) @ tail)" by blast
  then show ?case using n(2,3)
    by (intro exI [of _ "Suc n"]) (simp add: take_Suc_conv_app_nth buffer_text_def framed_pair)
next
  case (keys_info bs ks ti fr)
  obtain n where n: "n \<le> length ms" "ks = concat (map (message_text T) (take n ms))" "bs = concat (map framed (take n ms))"
      "prefix ((char_of_u8 TERMINAL_INFO # fr) @ x) (concat (map framed (drop n ms)) @ tail)"
    using keys_info.IH [of "(char_of_u8 TERMINAL_INFO # fr) @ x"] keys_info.prems by auto
  from next_message [OF n(4,1) assms(3,4) keys_info.hyps(2)]
  obtain s where "n < length ms" "ms ! n = (TERMINAL_INFO, s)" "fr = proto_frame s" "prefix x (concat (map framed (drop (Suc n) ms)) @ tail)" by blast
  then show ?case using n(2,3)
    by (intro exI [of _ "Suc n"]) (simp add: take_Suc_conv_app_nth framed_pair)
next
  case (keys_other bs ks c)
  obtain n where n: "n \<le> length ms" "prefix ((c # []) @ x) (concat (map framed (drop n ms)) @ tail)"
    using keys_other.IH [of "[c] @ x"] keys_other.prems by auto
  have "\<exists>t. terminal_type t \<and> c = char_of_u8 t" using first_is_type [OF _ assms(3,4)] n by simp
  then show ?case using keys_other.hyps by (auto simp: terminal_type_def)
qed

text \<open>
  A packet handed to the terminal process: nothing, its type, or a part of its message, which is the message when
  the call succeeds.
\<close>

lemma to_terminal_sends:
  assumes "to_terminal C h fd t p (e, w) = (q, (e', w'))" and "\<not> stalls w w'" and "sends fd tx w w'"
  shows "\<not> is_ok q \<and> (tx = [] \<or> tx = [char_of_u8 t]) \<or>
    (\<exists>m s. ParseFromString C (payload p) = Some m \<and> SerializeToString C m = Some s \<and> int (length s) \<le> MAX_MESSAGE \<and>
       prefix tx (framed (t, s)) \<and> (is_ok q \<longrightarrow> tx = framed (t, s)))"
proof (cases "ParseFromString C (payload p)")
  case None
  then have "w' = w" "\<not> is_ok q" using assms(1) by (auto simp: to_terminal_def stringToProto_def outcome_prog_def bnd_def is_ok_def)
  then show ?thesis using sends_unique [OF assms(3), of "[]"] by (simp add: sends_def)
next
  case (Some m)
  then have run: "bnd (sys (writeAllOrThrow h fd [char_of_u8 t] False)) (\<lambda>_. sys (writeProto C h fd m False)) (e, w) = (q, (e', w'))"
    using assms(1) by (simp add: to_terminal_def stringToProto_def outcome_prog_def bnd_def)
  have len: "length [char_of_u8 t] < 2 ^ 31" by simp
  from run show ?thesis
  proof (cases rule: bnd_sys_cases)
    case (bad r w1)
    then obtain j where "sends fd (take j [char_of_u8 t]) w w'"
      using all_resultD [OF postD [OF writeAllOrThrow_result [OF len] bad(1)]] assms(2) by (metis prod.inject)
    then have "tx = take j [char_of_u8 t]" using sends_unique [OF assms(3)] by blast
    then show ?thesis using bad(2,3) by (cases j; cases r) (auto simp: is_ok_def)
  next
    case (val u w1)
    obtain v where v: "writeProto C h fd m False w1 = (q, w')" "v = e'" using val(2) by (auto simp: sys_def split: prod.splits)
    have c: "consumes w w1" "consumes w1 w'"
      using con.keepsD [OF writeAllOrThrow_keeps(1) val(1)] con.keepsD [OF writeProto_keeps(1) v(1)] .
    have st: "\<not> stalls w w1" "\<not> stalls w1 w'" using stalls_consumes [OF c assms(2)] by simp_all
    have t1: "sends fd [char_of_u8 t] w w1" using writeAllOrThrow_sends [OF _ len st(1)] val(1) by simp
    show ?thesis
    proof (cases "SerializeToString C m")
      case None
      then have "w' = w1" "\<not> is_ok q" using v(1) by (auto simp: writeProto_def is_ok_def fail_def)
      then show ?thesis using sends_unique [OF assms(3)] t1 by blast
    next
      case s: (Some s)
      show ?thesis
      proof (cases "int (length s) \<le> MAX_MESSAGE")
        case False
        then have "w' = w1" "\<not> is_ok q" using v(1) s by (auto simp: writeProto_def is_ok_def fail_def)
        then show ?thesis using sends_unique [OF assms(3)] t1 by blast
      next
        case True
        obtain j where j: "sends fd (take j (proto_frame s)) w1 w'" "\<And>x. q = Ok x \<Longrightarrow> j = length (proto_frame s)"
          using all_resultD [OF postD [OF writeProto_result [OF s] v(1)] st(2)] by metis
        have "tx = char_of_u8 t # take j (proto_frame s)" using sends_unique [OF assms(3) sends_trans [OF t1 j(1)]] by simp
        moreover have "is_ok q \<Longrightarrow> j = length (proto_frame s)" using j(2) by (cases q) (auto simp: is_ok_def)
        ultimately show ?thesis using Some s True by (auto simp: framed_def take_is_prefix)
      qed
    qed
  qed
qed

text \<open>A message that is packed again has the text of the packet.\<close>

lemma repacked_text:
  assumes "codec_ok (TerminalBuffer_codec T)" and "header p = t"
    and "t = TERMINAL_BUFFER \<Longrightarrow> \<exists>m. ParseFromString (TerminalBuffer_codec T) (payload p) = Some m \<and>
      SerializeToString (TerminalBuffer_codec T) m = Some s"
  shows "message_text T (t, s) = text_in T p"
  using assms by (auto simp: message_text_def text_in_def buffer_text_def codec_ok_def)

lemma terminal_packet_sends:
  assumes "terminal_packet na T h fd p (e, w) = (q, (e', w'))" and "\<not> is_forward_packet p" and "header p \<noteq> KEEP_ALIVE"
    and "\<not> stalls w w'" and "sends fd tx w w'" and "codec_ok (TerminalBuffer_codec T)" and "codec_ok (TerminalInfo_codec T)"
  obtains (early) "\<not> is_ok q" "stub tx"
  | (part) m where "message_ok T m" "message_text T m = text_in T p" "prefix tx (framed m)" "is_ok q \<Longrightarrow> tx = framed m"
proof -
  consider (buffer) "header p = TERMINAL_BUFFER" | (info) "header p = TERMINAL_INFO"
    | (other) "header p \<noteq> TERMINAL_BUFFER" "header p \<noteq> TERMINAL_INFO" by blast
  then show thesis
  proof cases
    case buffer
    then have run: "to_terminal (TerminalBuffer_codec T) h fd TERMINAL_BUFFER p (e, w) = (q, (e', w'))"
      using assms(1,2) by (simp add: terminal_packet_def)
    from to_terminal_sends [OF this assms(4,5)] show thesis
    proof (elim disjE exE conjE)
      fix m s assume x: "ParseFromString (TerminalBuffer_codec T) (payload p) = Some m" "SerializeToString (TerminalBuffer_codec T) m = Some s"
        "int (length s) \<le> MAX_MESSAGE" "prefix tx (framed (TERMINAL_BUFFER, s))" "is_ok q \<longrightarrow> tx = framed (TERMINAL_BUFFER, s)"
      then show thesis using part [of "(TERMINAL_BUFFER, s)"] repacked_text [OF assms(6) buffer] assms(6)
        by (auto simp: message_ok_def terminal_type_def parses_def codec_ok_def)
    qed (use early in \<open>auto simp: stub_def terminal_type_def\<close>)
  next
    case info
    then have run: "to_terminal (TerminalInfo_codec T) h fd TERMINAL_INFO p (e, w) = (q, (e', w'))"
      using assms(1-3) by (auto simp: terminal_packet_def packet_type_defs)
    from to_terminal_sends [OF this assms(4,5)] show thesis
    proof (elim disjE exE conjE)
      fix m s assume x: "SerializeToString (TerminalInfo_codec T) m = Some s" "int (length s) \<le> MAX_MESSAGE"
        "prefix tx (framed (TERMINAL_INFO, s))" "is_ok q \<longrightarrow> tx = framed (TERMINAL_INFO, s)"
      then show thesis using part [of "(TERMINAL_INFO, s)"] info assms(7)
        by (auto simp: message_ok_def terminal_type_def text_in_def parses_def codec_ok_def)
    qed (use early in \<open>auto simp: stub_def terminal_type_def\<close>)
  next
    case other
    then have "\<not> is_ok q" "w' = w" using assms(1-3) by (auto simp: terminal_packet_def is_ok_def fail_def)
    then show thesis using early sends_unique [OF assms(5), of "[]"] by (auto simp: sends_def stub_def)
  qed
qed

section \<open>What the client shows\<close>

lemma Raw_writeAll_loop_part: "Raw_writeAll_loop fd buf k w = (q, w') \<Longrightarrow> \<exists>j. sends fd (take j (drop k buf)) w w'"
proof (induction fd buf k w rule: Raw_writeAll_loop.induct)
  case (1 fd buf k w)
  obtain r w1 where snd: "sys_send fd (drop k buf) w = (r, w1)" by force
  obtain i where i: "sends fd (take i (drop k buf)) w w1" "\<And>n. r = Ok n \<Longrightarrow> n < 0 \<and> i = 0 \<or> n = int i"
    by (rule sys_send_sends [OF snd]) blast
  show ?case
  proof (cases r)
    case (Ok n)
    note run = "1.prems" [unfolded Raw_writeAll_loop.simps [of fd buf k w] bnd_Ok [where m = "sys_send fd (drop k buf)" and s = w, OF snd [unfolded Ok]]]
    have "(\<exists>j. sends fd (take j (drop (k + i) buf)) w1 w') \<or> w' = w1"
    proof (cases "n < 0")
      case True
      then have "k + i = k" using i(2) [OF Ok] by auto
      then show ?thesis using run "1.IH"(1) [OF snd [unfolded Ok] True] True by (auto split: if_splits)
    next
      case False
      then have "n = int i" using i(2) [OF Ok] by auto
      then show ?thesis using run "1.IH"(2) [OF snd [unfolded Ok] False] False by (auto split: if_splits)
    qed
    then show ?thesis
    proof
      assume "\<exists>j. sends fd (take j (drop (k + i) buf)) w1 w'"
      then obtain j where j: "sends fd (take j (drop (k + i) buf)) w1 w'" by blast
      have "take i (drop k buf) @ take j (drop (k + i) buf) = take (i + j) (drop k buf)" by (simp add: take_add add.commute)
      then show ?thesis using sends_trans [OF i(1) j] by metis
    qed (use i(1) in blast)
  qed (use "1.prems" snd i(1) in \<open>auto simp: Raw_writeAll_loop.simps [of fd buf k w] bnd_def\<close>)
qed

lemma console_write_sends:
  assumes "console_write s w = (q, w')" and "sends STDOUT_FILENO tx w w'"
  shows "prefix tx s \<and> (is_ok q \<longrightarrow> tx = s)"
proof
  have "\<exists>j. sends STDOUT_FILENO (take j s) w w'"
  proof (cases "Raw_writeAll_loop STDOUT_FILENO s 0 w = (q, w')")
    case True
    then show ?thesis using Raw_writeAll_loop_part by fastforce
  next
    case False
    then have "w' = w" using assms(1) by (auto simp: console_write_def Raw_writeAll_def ret_def fail_def split: if_splits)
    then show ?thesis by (intro exI [of _ 0]) (simp add: sends_def)
  qed
  then show "prefix tx s" using sends_unique [OF assms(2)] take_is_prefix by metis
  show "is_ok q \<longrightarrow> tx = s"
    using Raw_writeAll_sends assms sends_unique by (auto simp: console_write_def is_ok_def split: outcome.splits)
qed

lemma client_packet_text:
  assumes "client_packet na T p acc (l, w) = (Ok out, t)" and "tc_console l"
  shows "out = acc @ text_in T p"
proof (cases "is_forward_packet p")
  case True
  then have "header p \<noteq> TERMINAL_BUFFER" by (auto simp: is_forward_packet_def packet_type_defs)
  then show ?thesis using assms True by (auto simp: client_packet_def text_in_def elim!: bnd_eq_OkE)
next
  case False
  show ?thesis
  proof (cases "header p = TERMINAL_BUFFER")
    case True
    then show ?thesis using assms False
      by (auto simp: client_packet_def bnd_get_obj outcome_prog_def stringToProto_def text_in_def buffer_text_def
          elim!: bnd_eq_OkE split: option.splits)
  next
    case other: False
    then show ?thesis using assms False by (auto simp: client_packet_def text_in_def elim!: bnd_eq_OkE split: if_splits)
  qed
qed

section \<open>The invariant\<close>

definition up_inv :: "tprotos \<Rightarrow> traffic \<Rightarrow> bool" where
  "up_inv T st \<longleftrightarrow> texts T (sent_log (tt_session st) True) = tt_typed st \<and>
     (\<exists>passed ms tail. prefix passed (got (tt_session st) False) \<and> texts T passed = concat (map (message_text T) ms) \<and>
        (\<forall>m\<in>set ms. message_ok T m) \<and> stub tail \<and> prefix (tt_pipe st) (concat (map framed ms) @ tail) \<and>
        (tt_up_live st \<longrightarrow> got (tt_session st) False = passed @ tt_up st \<and> tt_pipe st = concat (map framed ms)))"

definition down_inv :: "tprotos \<Rightarrow> traffic \<Rightarrow> bool" where
  "down_inv T st \<longleftrightarrow> texts T (sent_log (tt_session st) False) = tt_printed st \<and>
     (\<exists>passed. prefix passed (got (tt_session st) True) \<and> prefix (tt_console st) (texts T passed) \<and>
        (tt_down_live st \<longrightarrow> got (tt_session st) True = passed @ tt_down st \<and> tt_console st @ tt_coalesced st = texts T passed))"

definition traffic_start :: "sodium \<Rightarrow> protos \<Rightarrow> tprotos \<Rightarrow> string \<Rightarrow> traffic \<Rightarrow> bool" where
  "traffic_start na P T k st \<longleftrightarrow> codec_ok (TerminalBuffer_codec T) \<and> codec_ok (TerminalInfo_codec T) \<and> traffic_init na P k st"

definition traffic_inv :: "sodium \<Rightarrow> protos \<Rightarrow> tprotos \<Rightarrow> string \<Rightarrow> traffic \<Rightarrow> bool" where
  "traffic_inv na P T k st \<longleftrightarrow> codec_ok (TerminalBuffer_codec T) \<and> codec_ok (TerminalInfo_codec T) \<and>
     ses.reach na P k (tt_session st) \<and> up_inv T st \<and> down_inv T st"

text \<open>The invariants look at the logs of the session only.\<close>

lemma up_inv_logs:
  "up_inv T st \<Longrightarrow> sent_log ses' True = sent_log (tt_session st) True \<Longrightarrow> got ses' False = got (tt_session st) False \<Longrightarrow>
     up_inv T (st\<lparr>tt_session := ses'\<rparr>)"
  by (simp add: up_inv_def)

lemma down_inv_logs:
  "down_inv T st \<Longrightarrow> sent_log ses' False = sent_log (tt_session st) False \<Longrightarrow> got ses' True = got (tt_session st) True \<Longrightarrow>
     down_inv T (st\<lparr>tt_session := ses'\<rparr>)"
  by (simp add: down_inv_def)

lemma after_send_logs [simp]:
  "sent_log (after_send s c tx p ses) = (sent_log ses)(s := sent_log ses s @ [p])" "got (after_send s c tx p ses) = got ses"
  by (simp_all add: after_send_def)

lemma packed_text:
  "codec_ok (TerminalBuffer_codec T) \<Longrightarrow> protoToString (TerminalBuffer_codec T) tb = Ok z \<Longrightarrow>
     text_in T (mkPacket TERMINAL_BUFFER z) = get_or [] (tb_buffer tb)"
  by (auto simp: text_in_def buffer_text_def mkPacket_def protoToString_def codec_ok_def split: option.splits)

lemma buffer_of [simp]: "get_or [] (tb_buffer (terminal_buffer s)) = s"
  by (simp add: terminal_buffer_def get_or_def)

lemma send_keeps_up:
  assumes "up_inv T st" and "down_inv T st" and "codec_ok (TerminalBuffer_codec T)" and "protoToString (TerminalBuffer_codec T) tb = Ok z"
  shows "up_inv T (st\<lparr>tt_session := after_send True c tx (mkPacket TERMINAL_BUFFER z) (tt_session st),
      tt_typed := tt_typed st @ get_or [] (tb_buffer tb)\<rparr>)"
    and "down_inv T (st\<lparr>tt_session := after_send True c tx (mkPacket TERMINAL_BUFFER z) (tt_session st),
      tt_typed := tt_typed st @ get_or [] (tb_buffer tb)\<rparr>)"
  using assms(1,2) packed_text [OF assms(3,4)] by (simp_all add: up_inv_def down_inv_def)

lemma send_keeps_down:
  assumes "up_inv T st" and "down_inv T st" and "codec_ok (TerminalBuffer_codec T)" and "protoToString (TerminalBuffer_codec T) tb = Ok z"
  shows "up_inv T (st\<lparr>tt_session := after_send False c tx (mkPacket TERMINAL_BUFFER z) (tt_session st),
      tt_printed := tt_printed st @ get_or [] (tb_buffer tb)\<rparr>)"
    and "down_inv T (st\<lparr>tt_session := after_send False c tx (mkPacket TERMINAL_BUFFER z) (tt_session st),
      tt_printed := tt_printed st @ get_or [] (tb_buffer tb)\<rparr>)"
  using assms(1,2) packed_text [OF assms(3,4)] by (simp_all add: up_inv_def down_inv_def)

lemma read_logs:
  assumes "session_step na P ses (LRead s) ses'"
  shows "sent_log ses' = sent_log ses \<and> got ses' = (got ses)(s := got ses s @ newly_got s ses ses')"
  using assms by (cases rule: step_logs) (auto simp: newly_got_def)

lemma take_keeps_up:
  assumes "up_inv T st" and "tt_up_live st" and "tt_up st = []" and "session_step na P (tt_session st) (LRead False) ses'"
  shows "up_inv T (st\<lparr>tt_session := ses', tt_up := newly_got False (tt_session st) ses'\<rparr>)"
  using assms read_logs [OF assms(4)] unfolding up_inv_def by (auto intro: prefix_prefix)

lemma take_keeps_down:
  assumes "down_inv T st" and "tt_down_live st" and "tt_down st = []" and "session_step na P (tt_session st) (LRead True) ses'"
  shows "down_inv T (st\<lparr>tt_session := ses', tt_down := newly_got True (tt_session st) ses'\<rparr>)"
  using assms read_logs [OF assms(4)] unfolding down_inv_def by (auto intro: prefix_prefix)

lemma pass_keeps_up:
  assumes "up_inv T st" and "tt_up_live st" and "tt_up st = [p]" and "\<not> is_forward_packet p" and "header p \<noteq> KEEP_ALIVE"
    and "terminal_packet na T h fd p (e, w) = (q, (e', w'))" and "\<not> stalls w w'" and "sends fd tx w w'"
    and "codec_ok (TerminalBuffer_codec T)" and "codec_ok (TerminalInfo_codec T)"
  shows "up_inv T (st\<lparr>tt_up := [], tt_pipe := tt_pipe st @ tx, tt_up_live := is_ok q\<rparr>)"
proof -
  obtain passed ms where i: "texts T passed = concat (map (message_text T) ms)" "\<forall>m\<in>set ms. message_ok T m"
      "got (tt_session st) False = passed @ [p]" "tt_pipe st = concat (map framed ms)"
    using assms(1-3) by (auto simp: up_inv_def)
  from assms(6,4,5,7,8,9,10) show ?thesis
  proof (cases rule: terminal_packet_sends)
    case early
    then show ?thesis using assms(1) i unfolding up_inv_def
      by (intro conjI exI [of _ passed] exI [of _ ms] exI [of _ tx]) (simp_all add: prefix_def)
  next
    case (part m)
    have "prefix (concat (map framed ms) @ tx) (concat (map framed (ms @ [m])) @ [])" using part(3) by simp
    then show ?thesis using assms(1) i part unfolding up_inv_def
      by (intro conjI exI [of _ "passed @ [p]"] exI [of _ "ms @ [m]"] exI [of _ "[]"]) (auto simp: stub_def)
  qed
qed

lemma skip_keeps_up:
  assumes "up_inv T st" and "tt_up_live st" and "tt_up st = [p]" and "is_forward_packet p \<or> header p = KEEP_ALIVE"
  shows "up_inv T (st\<lparr>tt_up := []\<rparr>)"
proof -
  have "text_in T p = []" using assms(4) by (auto simp: text_in_def is_forward_packet_def packet_type_defs)
  moreover obtain passed ms where i: "texts T passed = concat (map (message_text T) ms)" "\<forall>m\<in>set ms. message_ok T m"
      "got (tt_session st) False = passed @ [p]" "tt_pipe st = concat (map framed ms)"
    using assms(1-3) by (auto simp: up_inv_def)
  ultimately show ?thesis using assms(1) unfolding up_inv_def
    by (intro conjI exI [of _ "passed @ [p]"] exI [of _ ms] exI [of _ "[]"]) (simp_all add: stub_def)
qed

lemma collect_keeps_down:
  assumes "down_inv T st" and "tt_down_live st" and "tt_down st = [p]" and "tc_console l"
    and "client_packet na T p (tt_coalesced st) (l, w) = (Ok coalesced, t)"
  shows "down_inv T (st\<lparr>tt_down := [], tt_coalesced := coalesced\<rparr>)"
proof -
  obtain passed where i: "got (tt_session st) True = passed @ [p]" "tt_console st @ tt_coalesced st = texts T passed"
    using assms(1-3) by (auto simp: down_inv_def)
  have "texts T (passed @ [p]) = tt_console st @ coalesced" using client_packet_text [OF assms(5,4)] i(2) by simp
  then show ?thesis using assms(1) i(1) unfolding down_inv_def by (intro conjI exI [of _ "passed @ [p]"]) simp_all
qed

lemma show_keeps_down:
  assumes "down_inv T st" and "tt_down_live st" and "console_write (tt_coalesced st) w = (q, w')" and "sends STDOUT_FILENO tx w w'"
  shows "down_inv T (st\<lparr>tt_coalesced := [], tt_console := tt_console st @ tx, tt_down_live := is_ok q\<rparr>)"
proof -
  obtain passed where i: "got (tt_session st) True = passed @ tt_down st" "tt_console st @ tt_coalesced st = texts T passed"
    using assms(1,2) by (auto simp: down_inv_def)
  then show ?thesis using assms(1) console_write_sends [OF assms(3,4)] unfolding down_inv_def
    by (intro conjI exI [of _ passed]) (auto simp: i(2) [symmetric])
qed

lemma lose_keeps_down: "down_inv T st \<Longrightarrow> down_inv T (st\<lparr>tt_down := [], tt_coalesced := [], tt_down_live := False\<rparr>)"
  by (auto simp: down_inv_def)

text \<open>What the rest of the session does changes no text.\<close>

lemma session_keeps:
  assumes "up_inv T st" and "down_inv T st" and "session_step na P (tt_session st) l ses'"
    and "\<not> is_terminal_write l" and "\<not> is_session_read l"
  shows "up_inv T (st\<lparr>tt_session := ses'\<rparr>) \<and> down_inv T (st\<lparr>tt_session := ses'\<rparr>)"
  using assms(3)
proof (cases rule: step_logs)
  case (put s p)
  then have "text_in T p = []" using assms(4) by (simp add: is_terminal_write_def text_in_def)
  then show ?thesis using assms(1,2) put by (cases s) (auto simp: up_inv_def down_inv_def)
qed (use assms in \<open>auto simp: is_session_read_def up_inv_logs down_inv_logs\<close>)

text \<open>Fields of one direction do not matter to the other.\<close>

lemma other_direction [simp]:
  "down_inv T (st\<lparr>tt_up := u, tt_pipe := pp, tt_up_live := b\<rparr>) = down_inv T st" "down_inv T (st\<lparr>tt_up := u\<rparr>) = down_inv T st"
  "up_inv T (st\<lparr>tt_down := d, tt_coalesced := c\<rparr>) = up_inv T st"
  "up_inv T (st\<lparr>tt_coalesced := c, tt_console := x, tt_down_live := b\<rparr>) = up_inv T st"
  "up_inv T (st\<lparr>tt_down := d, tt_coalesced := c, tt_down_live := b\<rparr>) = up_inv T st"
  by (simp_all add: up_inv_def down_inv_def)

lemma take_other_direction:
  assumes "session_step na P (tt_session st) (LRead s) ses'"
  shows "s = False \<Longrightarrow> down_inv T st \<Longrightarrow> down_inv T (st\<lparr>tt_session := ses', tt_up := u\<rparr>)"
    and "s = True \<Longrightarrow> up_inv T st \<Longrightarrow> up_inv T (st\<lparr>tt_session := ses', tt_down := u\<rparr>)"
  using read_logs [OF assms] by (simp_all add: up_inv_def down_inv_def)

lemma traffic_step_session:
  assumes "traffic_step na P T h fd st l st'" and "ses.reach na P k (tt_session st)"
  shows "ses.reach na P k (tt_session st')"
  using assms(1)
proof cases
  case (traffic_keys l w l' w' bs tx z)
  obtain w1 w2 e' where x: "sends_nothing w w1" "sends_nothing w2 w'" "tc_endpoint l' = e'"
    "send_proto na (TerminalBuffer_codec T) TERMINAL_BUFFER (terminal_buffer bs) (tc_endpoint l, w1) = (Ok (), (e', w2))"
    by (rule console_input_writes [OF traffic_keys(5,6,7)])
  have "Connection_write na (mkPacket TERMINAL_BUFFER z) (conn (tt_session st) True, w1) = (Ok True, (en_conn e', w2))"
    using send_proto_write [OF x(4) _ traffic_keys(9)] traffic_keys(3,4) by simp
  from ses.reach_step [OF assms(2) session_send [OF this sends_inner [OF traffic_keys(8) x(1,2)] traffic_keys(10)]] show ?thesis using traffic_keys(2) x(3) by simp
next
  case (traffic_command e command noexit w e' w' tx z)
  have "Connection_write na (mkPacket TERMINAL_BUFFER z) (conn (tt_session st) True, w) = (Ok True, (en_conn e', w'))"
    using send_proto_write [OF traffic_command(5) _ traffic_command(7)] traffic_command(3,4) by simp
  from ses.reach_step [OF assms(2) session_send [OF this traffic_command(6,8)]] show ?thesis using traffic_command(2) by simp
next
  case (traffic_output e w e' w' bs tx z)
  obtain w1 where x: "sends_nothing w w1"
    "send_proto na (TerminalBuffer_codec T) TERMINAL_BUFFER (terminal_buffer bs) (e, w1) = (Ok (), (e', w'))"
    by (rule terminal_output_writes [OF traffic_output(5,6)])
  have "Connection_write na (mkPacket TERMINAL_BUFFER z) (conn (tt_session st) False, w1) = (Ok True, (en_conn e', w'))"
    using send_proto_write [OF x(2) _ traffic_output(8)] traffic_output(3,4) by simp
  from ses.reach_step [OF assms(2) session_send [OF this sends_inner [OF traffic_output(7) x(1) snn.R_refl] traffic_output(9)]] show ?thesis using traffic_output(2) by simp
qed (use assms(2) ses.reach_step in auto)

lemma traffic_step_inv:
  assumes "traffic_inv na P T k st" and "traffic_step na P T h fd st l st'"
  shows "traffic_inv na P T k st'"
proof -
  have i: "up_inv T st" "down_inv T st" "codec_ok (TerminalBuffer_codec T)" "codec_ok (TerminalInfo_codec T)"
    using assms(1) by (simp_all add: traffic_inv_def)
  have r: "ses.reach na P k (tt_session st')" using traffic_step_session [OF assms(2)] assms(1) by (simp add: traffic_inv_def)
  from assms(2) have "up_inv T st' \<and> down_inv T st'"
  proof cases
    case (traffic_keys l w l' w' bs tx z)
    then show ?thesis using send_keeps_up [OF i(1-3) traffic_keys(9)] by simp
  next
    case (traffic_command e command noexit w e' w' tx z)
    then show ?thesis using send_keeps_up [OF i(1-3) traffic_command(7)] by simp
  next
    case (traffic_output e w e' w' bs tx z)
    then show ?thesis using send_keeps_down [OF i(1-3) traffic_output(8)] by simp
  next
    case (traffic_take_up ses')
    then show ?thesis using take_keeps_up [OF i(1)] take_other_direction(1) i(2) by blast
  next
    case (traffic_pass p e w q e' w' tx)
    then show ?thesis using pass_keeps_up [OF i(1) traffic_pass(3-9) i(3,4)] i(2) by simp
  next
    case (traffic_skip p)
    then show ?thesis using skip_keeps_up [OF i(1)] i(2) by simp
  next
    case (traffic_take_down ses')
    then show ?thesis using take_keeps_down [OF i(2)] take_other_direction(2) i(1) by blast
  next
    case (traffic_collect p l w coalesced t)
    then show ?thesis using collect_keeps_down [OF i(2)] i(1) by simp
  next
    case (traffic_show w q w' tx)
    then show ?thesis using show_keeps_down [OF i(2)] i(1) by simp
  next
    case traffic_lose
    then show ?thesis using lose_keeps_down i by simp
  next
    case (traffic_session l ses')
    then show ?thesis using session_keeps [OF i(1,2)] by blast
  qed
  then show ?thesis using i(3,4) r by (simp add: traffic_inv_def)
qed

lemma traffic_start_inv: "traffic_start na P T k st \<Longrightarrow> traffic_inv na P T k st"
  by (auto simp: traffic_start_def traffic_init_def traffic_inv_def up_inv_def down_inv_def session_start_def session_init_def stub_def
      intro!: ses.reach_init exI [of _ "[]"])

interpretation tra: inductive_invariant "traffic_start na P T k" "traffic_step na P T h fd" "traffic_inv na P T k"
  for na P T k h fd
  by unfold_locales (auto intro: traffic_start_inv traffic_step_inv)

section \<open>From the keyboard to the shell, and back\<close>

text \<open>What the terminal process takes out of the pipe is what was typed.\<close>

lemma reach_up:
  assumes "tra.reach na P T k h fd st" and "\<And>s. length (sent_log (tt_session st) s) < 2 ^ 31" and "keys_in T bs ks" and "prefix bs (tt_pipe st)"
  shows "prefix ks (tt_typed st)"
proof -
  have i: "ses.reach na P k (tt_session st)" "up_inv T st" using tra.reach_inv [OF assms(1)] by (simp_all add: traffic_inv_def)
  then obtain passed ms tail where u: "prefix passed (got (tt_session st) False)" "texts T passed = concat (map (message_text T) ms)"
      "\<forall>m\<in>set ms. message_ok T m" "stub tail" "prefix (tt_pipe st) (concat (map framed ms) @ tail)"
      "texts T (sent_log (tt_session st) True) = tt_typed st"
    by (auto simp: up_inv_def)
  have "prefix (bs @ []) (concat (map framed ms) @ tail)" using prefix_order.trans [OF assms(4) u(5)] by simp
  then obtain n where "ks = concat (map (message_text T) (take n ms))" using keys_in_messages [OF assms(3) _ u(3,4)] by blast
  then have "concat (map (message_text T) ms) = ks @ concat (map (message_text T) (drop n ms))"
    by (metis append_take_drop_id concat_append map_append)
  then have "prefix ks (texts T passed)" using u(2) by simp
  moreover obtain rest where "sent_log (tt_session st) True = got (tt_session st) False @ rest"
    using reach_prefix [OF i(1), of True] assms(2) by (auto simp: within_def)
  then have "prefix passed (sent_log (tt_session st) True)" using u(1) by (auto simp: prefix_def)
  ultimately show ?thesis using texts_prefix u(6) prefix_order.trans by metis
qed

lemma reach_down:
  assumes "tra.reach na P T k h fd st" and "\<And>s. length (sent_log (tt_session st) s) < 2 ^ 31"
  shows "prefix (tt_console st) (tt_printed st)"
proof -
  have i: "ses.reach na P k (tt_session st)" "down_inv T st" using tra.reach_inv [OF assms(1)] by (simp_all add: traffic_inv_def)
  then obtain passed where d: "prefix passed (got (tt_session st) True)" "prefix (tt_console st) (texts T passed)"
      "texts T (sent_log (tt_session st) False) = tt_printed st"
    by (auto simp: down_inv_def)
  obtain rest where "sent_log (tt_session st) False = got (tt_session st) True @ rest"
    using reach_prefix [OF i(1), of False] assms(2) by (auto simp: within_def)
  then have "prefix passed (sent_log (tt_session st) False)" using d(1) by (auto simp: prefix_def)
  then show ?thesis using texts_prefix d(2,3) prefix_order.trans by metis
qed


text \<open>And when everything has been read, all of it is there.\<close>

lemma le64_frame:
  assumes "int (length s) \<le> MAX_MESSAGE" and "ParseFromString C s = Some m"
  shows "frame_of C m (proto_frame s)"
proof -
  have "le64_dec (le64 (int (length s))) = int (length s)" "length (le64 (int (length s))) = 8"
    using assms(1) by (auto simp: MAX_MESSAGE_def intro!: le64_roundtrip)
  then show ?thesis using assms(2) unfolding frame_of_def proto_frame_def by blast
qed

lemma messages_keys: "\<forall>m\<in>set ms. message_ok T m \<Longrightarrow> keys_in T (concat (map framed ms)) (concat (map (message_text T) ms))"
proof (induction ms rule: rev_induct)
  case Nil
  show ?case by (simp add: keys_none)
next
  case (snoc m ms)
  obtain t s where m: "m = (t, s)" by (cases m)
  have k: "keys_in T (concat (map framed ms)) (concat (map (message_text T) ms))" using snoc by simp
  have ok: "terminal_type t" "int (length s) \<le> MAX_MESSAGE" "parses T (t, s)" using snoc.prems m by (auto simp: message_ok_def)
  from ok(1) consider (buffer) "t = TERMINAL_BUFFER" | (info) "t = TERMINAL_INFO" by (auto simp: terminal_type_def)
  then show ?case
  proof cases
    case buffer
    then obtain tb where tb: "ParseFromString (TerminalBuffer_codec T) s = Some tb" using ok(3) by (auto simp: parses_def)
    then show ?thesis using keys_buffer [OF k le64_frame [OF ok(2) tb]] buffer m by (simp add: framed_pair buffer_text_def)
  next
    case info
    then obtain ti where ti: "ParseFromString (TerminalInfo_codec T) s = Some ti" using ok(3) by (auto simp: parses_def)
    then show ?thesis using keys_info [OF k le64_frame [OF ok(2) ti]] info m by (simp add: framed_pair)
  qed
qed

lemma keys_in_all:
  assumes "\<forall>m\<in>set ms. message_ok T m"
  shows "keys_in T (concat (map framed ms)) ks \<longleftrightarrow> ks = concat (map (message_text T) ms)"
proof
  assume "keys_in T (concat (map framed ms)) ks"
  from keys_in_messages [OF this _ assms, of "[]" "[]"] obtain n where n: "n \<le> length ms" "ks = concat (map (message_text T) (take n ms))"
      "concat (map framed ms) = concat (map framed (take n ms))" by (auto simp: stub_def)
  have "concat (map framed (take n ms)) @ concat (map framed (drop n ms)) = concat (map framed ms)"
    by (metis append_take_drop_id concat_append map_append)
  then have "concat (map framed (drop n ms)) = []" using n(3) by simp
  then have "drop n ms = []" by (cases "drop n ms") (auto simp: framed_def)
  then show "ks = concat (map (message_text T) ms)" using n(1,2) by simp
qed (use messages_keys [OF assms] in simp)


section \<open>A key and an echo\<close>

text \<open>
  The user types, the packet is read and passed on; the shell prints the same, which is shown. The bytes of a message are
  those of the stand-in codec.
\<close>

definition traffic_world :: "answer list \<Rightarrow> world" where
  "traffic_world as = (sample_world as)\<lparr>handlers := \<lambda>_. sample_handler\<lparr>activeSockets := {5, 9}\<rparr>\<rparr>"

definition key_packet :: Packet where
  "key_packet = mkPacket TERMINAL_BUFFER ''e''"

definition key_frame :: "bool \<Rightarrow> string" where
  "key_frame s = wire_frame (seal clear_sodium (sample_origin s) key_packet)"

definition frame_answers :: "string \<Rightarrow> answer list" where
  "frame_answers f = [Val 1, Data (take 4 f), Val 1, Data (drop 4 f)]"

definition client_side :: ClientLoop where
  "client_side = TerminalClient.extend \<lparr>tc_endpoint = \<lparr>en_conn = sample_conn True, en_pf = PortForwardHandler_new 0 1\<rparr>,
     tc_console = True, tc_shuttingDown = False, keepaliveDuration = 5\<rparr> (ClientLoop.fields 100 False first_info)"

definition after_read :: "bool \<Rightarrow> Connection \<Rightarrow> Packet \<Rightarrow> session \<Rightarrow> session" where
  "after_read s c p ses = ses\<lparr>conn := (conn ses)(s := c), wire := (wire ses)(\<not> s := []),
     linked := (linked ses)(s := linked ses s \<and> c_socketFd c \<noteq> -1), got := (got ses)(s := got ses s @ [p])\<rparr>"

lemma session_take:
  assumes "Connection_read na (conn ses s, w) = (Ok (True, Some p), (c, w'))" and "receives (c_socketFd (conn ses s)) rx w w'"
    and "wire ses (\<not> s) = rx"
  shows "session_step na P ses (LRead s) (after_read s c p ses)"
  using step_read [OF assms(1,2), of "[]"] assms(3) by (simp add: after_read_def)

text \<open>The reads of the two loops, for bytes that are there.\<close>

lemma read_there:
  assumes "script w = Data bs # as" and "length bs \<le> n"
  shows "sys_read fd n w = (Ok (int (length bs), bs), w\<lparr>script := as, trace := trace w @ [Received fd bs]\<rparr>)"
  using assms by (simp add: sys_read_def syscall_def emit_def bnd_def ret_def)

lemma console_input_there:
  assumes "script w = Data bs # as" and "bs \<noteq> []" and "length bs \<le> TS_BUF_SIZE"
    and "send_proto na (TerminalBuffer_codec T) TERMINAL_BUFFER (terminal_buffer bs)
      (tc_endpoint l, w\<lparr>script := as, trace := trace w @ [Received STDOUT_FILENO bs]\<rparr>) = (Ok (), (e', w2))"
    and "time_now w2 = (Ok now, w')"
  shows "console_input na T (l, w) = (Ok False, (l\<lparr>tc_endpoint := e', keepaliveTime := now + keepaliveDuration l\<rparr>, w'))"
  using assms(2,4,5) read_there [OF assms(1,3), of STDOUT_FILENO]
  by (simp add: console_input_def touch_def on_en_def sys_def bnd_def ret_def GetErrno_def mod_obj_def)

lemma terminal_output_there:
  assumes "script w = Data bs # as" and "bs \<noteq> []" and "length bs \<le> TS_BUF_SIZE"
    and "send_proto na (TerminalBuffer_codec T) TERMINAL_BUFFER (terminal_buffer bs)
      (e, w\<lparr>script := as, trace := trace w @ [Received fd bs]\<rparr>) = (Ok (), (e', w'))"
  shows "terminal_output na T fd (e, w) = (Ok None, (e', w'))"
  using assms(2,4) read_there [OF assms(1,3), of fd] by (simp add: terminal_output_def sys_def bnd_def ret_def)

definition endpoint_of :: "Connection \<Rightarrow> Endpoint" where
  "endpoint_of c = \<lparr>en_conn = c, en_pf = PortForwardHandler_new 0 1\<rparr>"

text \<open>What is typed or printed on descriptor \<open>fd\<close> goes into the connection \<open>c\<close>.\<close>

definition send_run :: "Connection \<Rightarrow> int \<Rightarrow> unit outcome \<times> Endpoint \<times> world" where
  "send_run c fd = send_proto clear_sodium (TerminalBuffer_codec sample_tprotos) TERMINAL_BUFFER (terminal_buffer ''ls'')
     (endpoint_of c, (sample_world [Val 0, Val 100, Val 7])\<lparr>trace := [Received fd ''ls'']\<rparr>)"

definition typed_run :: "unit outcome \<times> Endpoint \<times> world" where
  "typed_run = send_run (sample_conn True) STDOUT_FILENO"

definition read_run :: "Connection \<Rightarrow> string \<Rightarrow> (bool \<times> Packet option) outcome \<times> Connection \<times> world" where
  "read_run c f = Connection_read clear_sodium (c, sample_world (frame_answers f))"

definition up_run :: "(bool \<times> Packet option) outcome \<times> Connection \<times> world" where
  "up_run = read_run (sample_conn False) (key_frame True)"

definition printed_run :: "unit outcome \<times> Endpoint \<times> world" where
  "printed_run = send_run (fst (snd up_run)) 9"

definition down_run :: "(bool \<times> Packet option) outcome \<times> Connection \<times> world" where
  "down_run = read_run (en_conn (fst (snd typed_run))) (key_frame False)"

definition pass_run :: "unit outcome \<times> Endpoint \<times> world" where
  "pass_run = to_terminal (TerminalBuffer_codec sample_tprotos) 0 9 TERMINAL_BUFFER key_packet (endpoint_of (sample_conn False),
     traffic_world [Val 0, Val 0, Val 0, Val 1, Val 0, Val 0, Val 0, Val 8, Val 0, Val 0, Val 0, Val 1])"

definition sent_ok :: "unit outcome \<times> Endpoint \<times> world \<Rightarrow> int \<Rightarrow> bool \<Rightarrow> bool" where
  "sent_ok run fd s \<longleftrightarrow> (case run of (r, e, w) \<Rightarrow> r = Ok () \<and> trace w = [Received fd ''ls'', Sent 5 (key_frame s)] \<and>
     script w = [Val 7] \<and> c_socketFd (en_conn e) = 5)"

definition read_ok :: "(bool \<times> Packet option) outcome \<times> Connection \<times> world \<Rightarrow> string \<Rightarrow> bool" where
  "read_ok run f \<longleftrightarrow> (case run of (r, c, w) \<Rightarrow> r = Ok (True, Some key_packet) \<and> trace w = [Received 5 (take 4 f), Received 5 (drop 4 f)] \<and>
     c_socketFd c = 5 \<and> \<not> shuttingDown c)"

lemma typed_eval: "sent_ok typed_run STDOUT_FILENO True"
  by code_simp

lemma printed_eval: "sent_ok printed_run 9 False"
  by code_simp

lemma up_eval: "read_ok up_run (key_frame True)"
  by code_simp

lemma down_eval: "read_ok down_run (key_frame False)"
  by code_simp

lemma pass_eval:
  "case pass_run of (r, e, w) \<Rightarrow> r = Ok () \<and> trace w = [Sent 9 [char_of_u8 TERMINAL_BUFFER], Sent 9 (le64 1), Sent 9 ''e'']"
  by code_simp

text \<open>The states: after the keys, after the server has read them and passed them on, after the echo.\<close>

definition sample_start :: traffic where
  "sample_start = \<lparr>tt_session = sample_session, tt_typed = [], tt_up = [], tt_pipe = [], tt_up_live = True,
     tt_printed = [], tt_down = [], tt_coalesced = [], tt_console = [], tt_down_live = True\<rparr>"

definition session1 :: session where
  "session1 = after_send True (en_conn (fst (snd typed_run))) (key_frame True) key_packet sample_session"

definition session2 :: session where
  "session2 = after_read False (fst (snd up_run)) key_packet session1"

definition session3 :: session where
  "session3 = after_send False (en_conn (fst (snd printed_run))) (key_frame False) key_packet session2"

definition session4 :: session where
  "session4 = after_read True (fst (snd down_run)) key_packet session3"

definition key_bytes :: string where
  "key_bytes = [char_of_u8 TERMINAL_BUFFER] @ le64 1 @ ''e''"

definition sample_passed :: traffic where
  "sample_passed = sample_start\<lparr>tt_session := session2, tt_typed := ''ls'', tt_pipe := key_bytes\<rparr>"

definition sample_shown :: traffic where
  "sample_shown = sample_passed\<lparr>tt_session := session4, tt_printed := ''ls'', tt_console := ''ls''\<rparr>"

lemmas session_defs' = session1_def session2_def session3_def session4_def after_send_def after_read_def sample_session_def sample_conn_def
  Connection_new_def

lemma key_packed:
  "protoToString (TerminalBuffer_codec sample_tprotos) (terminal_buffer ''ls'') = Ok ''e''" "mkPacket TERMINAL_BUFFER ''e'' = key_packet"
  "packet_ok key_packet" "header key_packet = TERMINAL_BUFFER" "\<not> is_forward_packet key_packet"
  by (simp_all add: sample_tprotos_def two_codec_def protoToString_def terminal_buffer_def key_packet_def packet_ok_def mkPacket_def
      packet_length_def HEADER_SIZE_def is_forward_packet_def packet_type_defs)

lemma newly_after_read [simp]: "newly_got s ses (after_read s c p ses) = [p]"
  by (simp add: newly_got_def after_read_def)

lemma take_frame:
  assumes "read_ok (read_run (conn ses s) f) f" and "c_socketFd (conn ses s) = 5" and "wire ses (\<not> s) = f"
  shows "session_step clear_sodium P ses (LRead s) (after_read s (fst (snd (read_run (conn ses s) f))) key_packet ses)"
proof -
  obtain c w where r: "read_run (conn ses s) f = (Ok (True, Some key_packet), c, w)"
    "trace w = [Received 5 (take 4 f), Received 5 (drop 4 f)]" using assms(1) by (auto simp: read_ok_def)
  have "receives 5 f (sample_world (frame_answers f)) w" using r(2) by (simp add: receives_def sample_world_def)
  then show ?thesis using session_take [of clear_sodium ses s _ key_packet c w f] r(1) assms(2,3) by (simp add: read_run_def)
qed

lemma sample_start_reach: "tra.reach clear_sodium sample_protos sample_tprotos sample_key 0 9 sample_start"
  using sample_session_start
  by (intro tra.reach_init) (simp add: traffic_start_def traffic_init_def sample_start_def sample_tprotos_def two_codec_ok)

lemma keys_reach:
  "tra.reach clear_sodium sample_protos sample_tprotos sample_key 0 9 (sample_start\<lparr>tt_session := session1, tt_typed := ''ls''\<rparr>)"
proof -
  obtain e w where r: "typed_run = (Ok (), e, w)" "trace w = [Received 1 ''ls'', Sent 5 (key_frame True)]" "script w = [Val 7]"
    using typed_eval by (auto simp: sent_ok_def STDOUT_FILENO_def)
  let ?w = "sample_world [Data ''ls'', Val 0, Val 100, Val 7]"
  have t: "time_now w = (Ok 7, w\<lparr>script := []\<rparr>)" using r(3) by (simp add: time_now_def syscall_def bnd_def ret_def)
  have len: "length ''ls'' \<le> TS_BUF_SIZE" by (simp add: TS_BUF_SIZE_def)
  have "console_input clear_sodium sample_tprotos (client_side, ?w) =
      (Ok False, (client_side\<lparr>tc_endpoint := e, keepaliveTime := 7 + keepaliveDuration client_side\<rparr>, w\<lparr>script := []\<rparr>))"
    by (rule console_input_there [OF _ _ len _ t])
      (use r(1) in \<open>simp_all add: sample_world_def typed_run_def send_run_def endpoint_of_def client_side_def TerminalClient.defs ClientLoop.defs\<close>)
  from tra.reach_step [OF sample_start_reach traffic_keys [OF _ _ this, where bs = "''ls''" and tx = "key_frame True" and z = "''e''"]]
  show ?thesis
    using r(2) key_packed
    by (simp add: r(1) sample_start_def session1_def sample_session_def sample_conn_def Connection_new_def client_side_def TerminalClient.defs ClientLoop.defs
        sends_def sample_world_def STDOUT_FILENO_def)
qed

lemma passed_reach: "tra.reach clear_sodium sample_protos sample_tprotos sample_key 0 9 sample_passed"
proof -
  let ?s1 = "sample_start\<lparr>tt_session := session1, tt_typed := ''ls''\<rparr>"
  have "session_step clear_sodium sample_protos session1 (LRead False) session2"
    using take_frame [of session1 False "key_frame True"] up_eval unfolding session2_def up_run_def
    by (simp add: session1_def after_send_def sample_session_def sample_conn_def)
  then have "tra.reach clear_sodium sample_protos sample_tprotos sample_key 0 9 (?s1\<lparr>tt_session := session2, tt_up := [key_packet]\<rparr>)"
    using tra.reach_step [OF keys_reach traffic_take_up [where ses' = session2]] by (simp add: sample_start_def session2_def)
  moreover obtain e w where r: "pass_run = (Ok (), e, w)"
      "trace w = [Sent 9 [char_of_u8 TERMINAL_BUFFER], Sent 9 (le64 1), Sent 9 ''e'']"
    using pass_eval by (auto split: prod.splits)
  have "terminal_packet clear_sodium sample_tprotos 0 9 key_packet (endpoint_of (sample_conn False),
     traffic_world [Val 0, Val 0, Val 0, Val 1, Val 0, Val 0, Val 0, Val 8, Val 0, Val 0, Val 0, Val 1]) = (Ok (), (e, w))"
    using r(1) key_packed by (simp add: terminal_packet_def pass_run_def)
  note pass = traffic_pass [OF _ _ _ _ this, where tx = key_bytes]
  ultimately have "tra.reach clear_sodium sample_protos sample_tprotos sample_key 0 9
      (?s1\<lparr>tt_session := session2, tt_up := [], tt_pipe := key_bytes\<rparr>)"
    using tra.reach_step [OF _ pass] r(2) key_packed
    by (fastforce simp: sample_start_def sends_def traffic_world_def sample_world_def key_bytes_def stalls_def packet_type_defs is_ok_def)
  then show ?thesis by (simp add: sample_passed_def sample_start_def)
qed

lemma up_conn: "c_socketFd (fst (snd up_run)) = 5" "\<not> shuttingDown (fst (snd up_run))"
proof -
  obtain c v where "up_run = (Ok (True, Some key_packet), c, v)" "c_socketFd c = 5" "\<not> shuttingDown c"
    using up_eval by (auto simp: read_ok_def)
  then show "c_socketFd (fst (snd up_run)) = 5" "\<not> shuttingDown (fst (snd up_run))" by (metis fst_conv snd_conv)+
qed

lemma typed_conn: "c_socketFd (en_conn (fst (snd typed_run))) = 5"
proof -
  obtain e v where "typed_run = (Ok (), e, v)" "c_socketFd (en_conn e) = 5" using typed_eval by (auto simp: sent_ok_def)
  then show ?thesis by (metis fst_conv snd_conv)
qed

lemma output_reach:
  "tra.reach clear_sodium sample_protos sample_tprotos sample_key 0 9 (sample_passed\<lparr>tt_session := session3, tt_printed := ''ls''\<rparr>)"
proof -
  obtain e w where r: "printed_run = (Ok (), e, w)" "trace w = [Received 9 ''ls'', Sent 5 (key_frame False)]"
    using printed_eval by (auto simp: sent_ok_def)
  let ?w = "sample_world [Data ''ls'', Val 0, Val 100, Val 7]"
  have len: "length ''ls'' \<le> TS_BUF_SIZE" by (simp add: TS_BUF_SIZE_def)
  have out: "terminal_output clear_sodium sample_tprotos 9 (endpoint_of (fst (snd up_run)), ?w) = (Ok None, (e, w))"
    by (rule terminal_output_there [OF _ _ len]) (use r(1) in \<open>simp_all add: sample_world_def printed_run_def send_run_def\<close>)
  from tra.reach_step [OF passed_reach traffic_output [OF _ _ out, where bs = "''ls''" and tx = "key_frame False" and z = "''e''"]]
  show ?thesis
    using r(2) key_packed up_conn
    by (simp add: r(1) sample_passed_def sample_start_def session3_def session2_def after_read_def endpoint_of_def sends_def sample_world_def)
qed

lemma echo_shown:
  "client_packet clear_sodium sample_tprotos key_packet [] (client_side, sample_world [Val 9]) =
     (Ok ''ls'', (client_side\<lparr>keepaliveTime := 14\<rparr>, sample_world []))"
  by (simp add: client_packet_def key_packet_def mkPacket_def is_forward_packet_def packet_type_defs bnd_get_obj client_side_def
      TerminalClient.defs ClientLoop.defs outcome_prog_def stringToProto_def sample_tprotos_def two_codec_def touch_def sys_def
      time_now_def syscall_def sample_world_def mod_obj_def bnd_def ret_def get_or_def)

lemma show_eval: "case console_write ''ls'' (sample_world [Val 2]) of (r, w) \<Rightarrow> r = Ok () \<and> trace w = [Sent 1 ''ls'']"
  by code_simp

lemma shown_reach: "tra.reach clear_sodium sample_protos sample_tprotos sample_key 0 9 sample_shown"
proof -
  let ?s3 = "sample_passed\<lparr>tt_session := session3, tt_printed := ''ls''\<rparr>"
  have "session_step clear_sodium sample_protos session3 (LRead True) session4"
    using take_frame [of session3 True "key_frame False"] down_eval typed_conn up_conn unfolding session4_def down_run_def
    by (simp add: session3_def session2_def session1_def after_send_def after_read_def sample_session_def)
  then have "tra.reach clear_sodium sample_protos sample_tprotos sample_key 0 9 (?s3\<lparr>tt_session := session4, tt_down := [key_packet]\<rparr>)"
    using tra.reach_step [OF output_reach traffic_take_down [where ses' = session4]]
    by (simp add: sample_passed_def sample_start_def session4_def)
  from tra.reach_step [OF this traffic_collect [where p = key_packet and l = client_side and w = "sample_world [Val 9]"]]
  have "tra.reach clear_sodium sample_protos sample_tprotos sample_key 0 9 (?s3\<lparr>tt_session := session4, tt_down := [], tt_coalesced := ''ls''\<rparr>)"
    using echo_shown by (simp add: sample_passed_def sample_start_def client_side_def TerminalClient.defs ClientLoop.defs)
  moreover obtain w where "console_write ''ls'' (sample_world [Val 2]) = (Ok (), w)" "trace w = [Sent 1 ''ls'']"
    using show_eval by (auto split: prod.splits)
  ultimately show ?thesis
    using tra.reach_step [OF _ traffic_show [where tx = "''ls''" and w = "sample_world [Val 2]"]]
    by (fastforce simp: sample_shown_def sample_passed_def sample_start_def sends_def sample_world_def STDOUT_FILENO_def is_ok_def)
qed

lemma sample_logs_short: "length (sent_log (tt_session sample_passed) s) < 2 ^ 31"
  by (simp add: sample_passed_def session2_def session1_def after_read_def after_send_def sample_session_def)



end
