(* ===== verification/ET_Pattern.thy ===== *)
theory ET_Pattern
  imports ET_Strings "HOL-Library.Sublist"
begin

text \<open>
  The host patterns of \<^verbatim>\<open>terminal/ParseConfigFile.hpp\<close>: \<^verbatim>\<open>match_pattern\<close>, \<^verbatim>\<open>match_pattern_list\<close> and \<^verbatim>\<open>match_hostname\<close>,
  with what the C library does to the characters. A \<^verbatim>\<open>char*\<close> that may be null is a \<^typ>\<open>string option\<close>; a
  string holds no zero byte, and the end of the list is the zero byte that ends it. The reference is an
  inductive definition of what a pattern means.
\<close>

section \<open>The C library\<close>

text \<open>\<^verbatim>\<open>c_str()\<close> handed to a function that reads up to the first zero byte.\<close>

definition c_str :: "string \<Rightarrow> string" where
  "c_str s = takeWhile (\<lambda>c. c \<noteq> CHR 0x00) s"

definition c_tolower :: "char \<Rightarrow> char" where
  "c_tolower c = (if 65 \<le> (of_char c :: nat) \<and> (of_char c :: nat) \<le> 90 then char_of ((of_char c :: nat) + 32) else c)"

definition isblank :: "char \<Rightarrow> bool" where
  "isblank c \<longleftrightarrow> c = CHR '' '' \<or> c = CHR 0x09"

definition newline :: char where
  "newline = CHR 0x0A"

definition dquote :: char where
  "dquote = CHR 0x22"

definition strcasecmp_eq :: "string \<Rightarrow> string \<Rightarrow> bool" where
  "strcasecmp_eq s t \<longleftrightarrow> map c_tolower s = map c_tolower t"

definition strncasecmp_eq :: "string \<Rightarrow> string \<Rightarrow> nat \<Rightarrow> bool" where
  "strncasecmp_eq s t n \<longleftrightarrow> strcasecmp_eq (take n s) (take n t)"

definition ssh_lowercase :: "string option \<Rightarrow> string option" where
  "ssh_lowercase str = map_option (map c_tolower) str"

text \<open>
  \<^verbatim>\<open>strtol(s, &end, 10)\<close>: \<open>None\<close> when there are no digits, and then the value is 0. The value is cut to
  the range of a \<^verbatim>\<open>long\<close> of 64 bits.
\<close>

definition clamp_long :: "int \<Rightarrow> int" where
  "clamp_long v = max (- (2 ^ 63)) (min (2 ^ 63 - 1) v)"

definition strtol :: "string \<Rightarrow> int option" where
  "strtol s =
     (let t = dropWhile is_space s;
          neg = (t \<noteq> [] \<and> hd t = CHR ''-'');
          u = (if t \<noteq> [] \<and> (hd t = CHR ''-'' \<or> hd t = CHR ''+'') then tl t else t);
          ds = takeWhile is_digit u;
          v = (if neg then - int (dec_val ds) else int (dec_val ds))
      in if ds = [] then None else Some (clamp_long v))"

definition atoi :: "string \<Rightarrow> int" where
  "atoi s = (case strtol s of None \<Rightarrow> 0 | Some v \<Rightarrow> to_int32 v)"

text \<open>All the pieces that repeated calls of \<^verbatim>\<open>strtok\<close> give: empty pieces are skipped.\<close>

definition strtok_all :: "char \<Rightarrow> string \<Rightarrow> string list" where
  "strtok_all d s = filter (\<lambda>t. t \<noteq> []) (split s d)"

lemma c_str_id: "CHR 0x00 \<notin> set s \<Longrightarrow> c_str s = s"
  unfolding c_str_def by (rule takeWhile_eq_all_conv [THEN iffD2]) auto

lemma c_str_length: "length (c_str s) \<le> length s"
  by (simp add: c_str_def length_takeWhile_le)

lemma c_str_no_zero: "CHR 0x00 \<notin> set (c_str s)"
  unfolding c_str_def using set_takeWhileD by fastforce

lemma c_tolower_idem [simp]: "c_tolower (c_tolower c) = c_tolower c"
proof (cases "65 \<le> (of_char c :: nat) \<and> (of_char c :: nat) \<le> 90")
  case True
  then have "(of_char c :: nat) + 32 < 256" by linarith
  then have "(of_char (char_of ((of_char c :: nat) + 32) :: char) :: nat) = of_char c + 32" by simp
  then show ?thesis using True by (simp add: c_tolower_def)
qed (auto simp: c_tolower_def)

section \<open>match\_pattern\<close>

text \<open>The loop \<^verbatim>\<open>for (; *s; s++) if (P(s)) return 1;\<close>.\<close>

primrec some_suffix :: "(string \<Rightarrow> bool) \<Rightarrow> string \<Rightarrow> bool" where
  "some_suffix P [] = False"
| "some_suffix P (c # s) = (P (c # s) \<or> some_suffix P s)"

lemma some_suffix_iff: "some_suffix P s \<longleftrightarrow> (\<exists>u t. s = u @ t \<and> t \<noteq> [] \<and> P t)"
proof (induction s)
  case (Cons c s)
  show ?case (is "?l \<longleftrightarrow> ?r")
  proof
    assume ?l
    then show ?r using Cons by (auto intro: exI [of _ "[]"]) (metis append_Cons)
  next
    assume ?r
    then obtain u t where "c # s = u @ t" "t \<noteq> []" "P t" by blast
    then show ?l using Cons by (cases u) auto
  qed
qed simp

fun match_loop :: "string \<Rightarrow> string \<Rightarrow> bool" where
  "match_loop s [] = (s = [])"
| "match_loop s (c # pattern) =
     (if c = CHR ''*'' then
        (case pattern of
           [] \<Rightarrow> True
         | d # rest \<Rightarrow>
             if d \<noteq> CHR ''?'' \<and> d \<noteq> CHR ''*'' then some_suffix (\<lambda>t. hd t = d \<and> match_loop (tl t) rest) s
             else some_suffix (\<lambda>t. match_loop t (d # rest)) s)
      else if s = [] then False
      else if c \<noteq> CHR ''?'' \<and> c \<noteq> hd s then False
      else match_loop (tl s) pattern)"

definition match_pattern :: "string option \<Rightarrow> string \<Rightarrow> bool" where
  "match_pattern s pattern = (case s of None \<Rightarrow> False | Some s' \<Rightarrow> match_loop s' pattern)"

section \<open>match\_pattern\_list and match\_hostname\<close>

definition SUB_SIZE :: nat where "SUB_SIZE = 1024"

lemma piece_shrinks: "p \<noteq> [] \<Longrightarrow> length (tl (dropWhile P (if n then tl p else p))) < length p"
  using length_dropWhile_le [of P p] length_dropWhile_le [of P "tl p"] by (cases p) auto

text \<open>\<open>pattern\<close> is what is left of it at position \<open>i\<close>.\<close>

function match_list_loop :: "string option \<Rightarrow> bool \<Rightarrow> string \<Rightarrow> int \<Rightarrow> int" where
  "match_list_loop string dolower pattern got_positive =
     (if pattern = [] then got_positive
      else let negated = (hd pattern = CHR ''!'');
               q = (if negated then tl pattern else pattern);
               raw = takeWhile (\<lambda>c. c \<noteq> CHR '','') q;
               rest = tl (dropWhile (\<lambda>c. c \<noteq> CHR '','') q)
           in if SUB_SIZE - 1 \<le> length raw then 0
              else if match_pattern string (if dolower then map c_tolower raw else raw) then
                (if negated then -1 else match_list_loop string dolower rest 1)
              else match_list_loop string dolower rest got_positive)"
  by pat_completeness auto
termination
proof (relation "measure (\<lambda>(s, d, p, g). length p)")
  fix s dl g pattern negated q raw rest
  assume "pattern \<noteq> []" "q = (if negated then tl pattern else pattern)" "rest = tl (dropWhile (\<lambda>c. c \<noteq> CHR '','') (q :: string))"
  then have "length rest < length pattern" using piece_shrinks by blast
  then show "((s, dl, rest, 1), s, dl, pattern, g) \<in> measure (\<lambda>(s, d, p, g). length p)"
    and "((s, dl, rest, g), s, dl, pattern, g) \<in> measure (\<lambda>(s, d, p, g). length p)" by simp_all
qed simp

declare match_list_loop.simps [simp del]

definition match_pattern_list :: "string option \<Rightarrow> string \<Rightarrow> bool \<Rightarrow> int" where
  "match_pattern_list string pattern dolower = match_list_loop string dolower pattern 0"

definition match_hostname :: "string option \<Rightarrow> string \<Rightarrow> int" where
  "match_hostname host pattern = match_pattern_list host pattern True"

section \<open>What a pattern means\<close>

inductive glob :: "string \<Rightarrow> string \<Rightarrow> bool" where
  glob_end: "glob [] []"
| glob_star: "glob p s \<Longrightarrow> glob (CHR ''*'' # p) (u @ s)"
| glob_any: "glob p s \<Longrightarrow> glob (CHR ''?'' # p) (c # s)"
| glob_char: "glob p s \<Longrightarrow> c \<noteq> CHR ''*'' \<Longrightarrow> c \<noteq> CHR ''?'' \<Longrightarrow> glob (c # p) (c # s)"

inductive_simps glob_Nil [simp]: "glob [] s"
inductive_simps glob_star_iff: "glob (CHR ''*'' # p) s"
inductive_simps glob_any_iff: "glob (CHR ''?'' # p) s"
inductive_simps glob_Cons: "glob (c # p) s"

text \<open>The meaning the code gives to a pattern: two or more stars at its end ask for one character at least.\<close>

definition stars_off :: "string \<Rightarrow> string" where
  "stars_off p = rev (dropWhile (\<lambda>c. c = CHR ''*'') (rev p))"

definition code_pattern :: "string \<Rightarrow> string" where
  "code_pattern p = (if suffix ''**'' p then stars_off p @ ''?*'' else p)"

lemma stars_off_Cons:
  "stars_off (c # p) = (if \<forall>x\<in>set p. x = CHR ''*'' then (if c = CHR ''*'' then [] else [c]) else c # stars_off p)"
  by (auto simp: stars_off_def dropWhile_append dropWhile_eq_Nil_conv)

lemma suffix_stars_Cons: "suffix ''**'' (c # p) \<longleftrightarrow> c # p = ''**'' \<or> suffix ''**'' p"
  by (auto simp: suffix_Cons)

lemma code_pattern_star:
  assumes "p \<noteq> []" and "\<forall>x\<in>set p. x = CHR ''*''"
  shows "code_pattern (CHR ''*'' # p) = ''?*''"
proof -
  obtain n where "length p = Suc n" using assms(1) by (cases "length p") auto
  then have "p = replicate n CHR ''*'' @ ''*''"
    using assms(2) replicate_append_same [of n "CHR ''*''"] by (metis replicate_Suc replicate_length_same)
  then have "CHR ''*'' # p = replicate n CHR ''*'' @ ''**''" by (simp add: replicate_app_Cons_same)
  then have "suffix ''**'' (CHR ''*'' # p)" by (metis suffixI)
  then show ?thesis using assms by (simp add: code_pattern_def stars_off_Cons)
qed

lemma code_pattern_Cons:
  assumes "c \<noteq> CHR ''*'' \<or> (\<exists>x\<in>set p. x \<noteq> CHR ''*'')"
  shows "code_pattern (c # p) = c # code_pattern p"
proof -
  have "stars_off p = []" if "\<forall>x\<in>set p. x = CHR ''*''"
    using that by (auto simp: stars_off_def dropWhile_eq_Nil_conv)
  then show ?thesis
    using assms by (auto simp: code_pattern_def suffix_stars_Cons stars_off_Cons)
qed

lemma code_pattern_short [simp]: "code_pattern [] = []" "code_pattern [c] = [c]"
  by (simp_all add: code_pattern_def suffix_stars_Cons)

lemma glob_one_or_more: "glob ''?*'' s \<longleftrightarrow> s \<noteq> []"
  by (cases s) (auto simp: glob_any_iff glob_star_iff)

lemma glob_needs_char: "glob p s \<Longrightarrow> \<exists>x\<in>set p. x \<noteq> CHR ''*'' \<Longrightarrow> s \<noteq> []"
  by (induction rule: glob.induct) auto

lemma code_pattern_keeps_char: "\<exists>x\<in>set p. x \<noteq> CHR ''*'' \<Longrightarrow> \<exists>x\<in>set (code_pattern p). x \<noteq> CHR ''*''"
  by (auto simp: code_pattern_def stars_off_def)

lemma match_loop_glob: "match_loop s p \<longleftrightarrow> glob (code_pattern p) s"
proof (induction p arbitrary: s rule: length_induct)
  case (1 p)
  then have IH: "match_loop s q \<longleftrightarrow> glob (code_pattern q) s" if "length q < length p" for q s
    using that by blast
  show ?case
  proof (cases p)
    case (Cons c q)
    show ?thesis
    proof (cases "c = CHR ''*''")
      case False
      then have "glob (code_pattern p) s \<longleftrightarrow> (\<exists>x t. s = x # t \<and> (c = CHR ''?'' \<or> c = x) \<and> glob (code_pattern q) t)"
        by (auto simp: Cons code_pattern_Cons glob_Cons)
      then show ?thesis using False IH [of q] by (cases s) (auto simp: Cons)
    next
      case star: True
      show ?thesis
      proof (cases "\<forall>x\<in>set q. x = CHR ''*''")
        case True
        then show ?thesis
        proof (cases q)
          case Nil
          then show ?thesis by (simp add: Cons star glob_star_iff)
        next
          case (Cons d r)
          have "glob (code_pattern q) t" if "t \<noteq> []" for t
          proof (cases r)
            case Nil
            then show ?thesis using Cons True by (simp add: glob_star_iff)
          next
            case (Cons e r')
            then show ?thesis using \<open>q = d # r\<close> True that by (simp add: code_pattern_star glob_one_or_more)
          qed
          then have "some_suffix (\<lambda>t. match_loop t q) s \<longleftrightarrow> s \<noteq> []"
            using IH [of q] \<open>p = c # q\<close> by (auto simp: some_suffix_iff)
          then show ?thesis
            using star True Cons \<open>p = c # q\<close> by (simp add: code_pattern_star glob_one_or_more)
        qed
      next
        case False
        then have cp: "code_pattern p = CHR ''*'' # code_pattern q" by (auto simp: Cons star code_pattern_Cons)
        have m: "match_loop t q \<longleftrightarrow> glob (code_pattern q) t" for t using IH [of q] Cons by simp
        have ne: "t \<noteq> []" if "glob (code_pattern q) t" for t
          using that False code_pattern_keeps_char glob_needs_char by blast
        have "glob (code_pattern p) s \<longleftrightarrow> some_suffix (\<lambda>t. match_loop t q) s"
          unfolding cp glob_star_iff some_suffix_iff m using ne by blast
        moreover obtain d r where q: "q = d # r" using False by (cases q) auto
        moreover have "match_loop t q \<longleftrightarrow> hd t = d \<and> match_loop (tl t) r"
          if "t \<noteq> []" "d \<noteq> CHR ''?''" "d \<noteq> CHR ''*''" for t using that q by (cases t) auto
        ultimately show ?thesis by (auto simp: Cons star some_suffix_iff)
      qed
    qed
  qed simp
qed

text \<open>
  C37: \<^verbatim>\<open>match_pattern\<close> decides what the pattern means: \<^verbatim>\<open>*\<close> stands for any text, \<^verbatim>\<open>?\<close> for one character, every
  other character for itself. Only two or more stars at the end of a pattern differ: they ask for
  one character at least. A null string matches nothing.\<close>

theorem match_pattern_glob:
  "match_pattern s p \<longleftrightarrow> (\<exists>t. s = Some t \<and> glob (if suffix ''**'' p then stars_off p @ ''?*'' else p) t)"
  using match_loop_glob by (auto simp: match_pattern_def code_pattern_def split: option.split)

section \<open>What a list of patterns means\<close>

text \<open>A piece of the list: whether it is negated, and its pattern.\<close>

definition read_piece :: "string \<Rightarrow> bool \<times> string" where
  "read_piece q = (if q \<noteq> [] \<and> hd q = CHR ''!'' then (True, map c_tolower (tl q)) else (False, map c_tolower q))"

definition host_pieces :: "string \<Rightarrow> (bool \<times> string) list" where
  "host_pieces pattern = map read_piece (split pattern CHR '','')"

definition pieces_short :: "string \<Rightarrow> bool" where
  "pieces_short pattern \<longleftrightarrow> (\<forall>q\<in>set (split pattern CHR '',''). length q < SUB_SIZE - 1)"

definition says :: "bool \<Rightarrow> string option \<Rightarrow> (bool \<times> string) list \<Rightarrow> bool" where
  "says neg host pieces \<longleftrightarrow> (\<exists>p. (neg, p) \<in> set pieces \<and> match_pattern host p)"

lemma split_Nil [simp]: "split [] d = []"
  by (simp add: split_def)

lemma split_unfold: "s \<noteq> [] \<Longrightarrow> split s d = takeWhile (\<lambda>c. c \<noteq> d) s # split (tl (dropWhile (\<lambda>c. c \<noteq> d) s)) d"
proof (cases "d \<in> set s")
  case True
  then obtain a b where s: "s = a @ d # b" "d \<notin> set a" by (meson split_list_first)
  then have "takeWhile (\<lambda>c. c \<noteq> d) s = a" and "dropWhile (\<lambda>c. c \<noteq> d) s = d # b"
    by (auto simp: takeWhile_append dropWhile_append)
  then show ?thesis using s by (simp add: split_Cons)
next
  case False
  then have tw: "takeWhile (\<lambda>c. c \<noteq> d) s = s" and dw: "dropWhile (\<lambda>c. c \<noteq> d) s = []"
    by (auto simp: takeWhile_eq_all_conv dropWhile_eq_Nil_conv)
  assume "s \<noteq> []"
  then show ?thesis unfolding tw dw using False by (simp add: split_none)
qed

text \<open>The list says no when a negated piece matches, and yes when none does and another piece matches.\<close>

lemma match_list_loop_eq:
  assumes "pieces_short pattern"
  shows "match_list_loop host True pattern got =
    (if says True host (host_pieces pattern) then -1 else if says False host (host_pieces pattern) then 1 else got)"
  using assms
proof (induction pattern arbitrary: got rule: length_induct)
  case (1 pattern)
  show ?case
  proof (cases "pattern = []")
    case True
    then show ?thesis by (simp add: match_list_loop.simps says_def host_pieces_def)
  next
    case False
    define negated where "negated \<longleftrightarrow> hd pattern = CHR ''!''"
    define q where "q = (if negated then tl pattern else pattern)"
    define raw where "raw = takeWhile (\<lambda>c. c \<noteq> CHR '','') q"
    define rest where "rest = tl (dropWhile (\<lambda>c. c \<noteq> CHR '','') q)"
    have cut: "tl (dropWhile (\<lambda>c. c \<noteq> CHR '','') pattern) = rest"
      and piece: "takeWhile (\<lambda>c. c \<noteq> CHR '','') pattern = (if negated then CHR ''!'' # raw else raw)"
      using False by (cases pattern; simp add: rest_def raw_def q_def negated_def)+
    have sp: "split pattern CHR '','' = (if negated then CHR ''!'' # raw else raw) # split rest CHR '',''"
      using split_unfold [OF False, of "CHR '',''"] cut piece by simp
    have "raw = [] \<or> hd raw \<noteq> CHR ''!''" if "\<not> negated"
      using that False by (cases pattern) (auto simp: raw_def q_def negated_def)
    then have hp: "host_pieces pattern = (negated, map c_tolower raw) # host_pieces rest"
      by (auto simp: host_pieces_def sp read_piece_def)
    have short: "length raw < SUB_SIZE - 1" "pieces_short rest"
      using 1(2) by (auto simp: pieces_short_def sp split: if_splits)
    have "length rest < length pattern" using False piece_shrinks [of pattern] by (simp add: rest_def q_def)
    then have IH: "match_list_loop host True rest g =
      (if says True host (host_pieces rest) then -1 else if says False host (host_pieces rest) then 1 else g)" for g
      using 1(1) short(2) by blast
    have "match_list_loop host True pattern got =
      (if match_pattern host (map c_tolower raw) then if negated then -1 else match_list_loop host True rest 1
       else match_list_loop host True rest got)"
      using False short(1)
      by (subst match_list_loop.simps) (simp add: Let_def rest_def raw_def q_def negated_def)
    then show ?thesis unfolding IH hp by (auto simp: says_def)
  qed
qed

lemma match_hostname_eq:
  "pieces_short pattern \<Longrightarrow> match_hostname host pattern =
    (if says True host (host_pieces pattern) then -1 else if says False host (host_pieces pattern) then 1 else 0)"
  by (simp add: match_hostname_def match_pattern_list_def match_list_loop_eq)

end
