(* ===== verification/ET_Config.thy ===== *)
theory ET_Config
  imports ET_Pattern ET_Kernel
begin

text \<open>
  The reader of ssh configuration files, \<^verbatim>\<open>terminal/ParseConfigFile.hpp\<close>: tokens, the options with
  \<^verbatim>\<open>ssh_options_set\<close>, the expansion of paths, and the parser of lines and files. The user database and
  the file system are a record of functions the programs take as an argument. Memory is never short,
  so \<^verbatim>\<open>strdup\<close> and \<^verbatim>\<open>malloc\<close> return; reading a null pointer or memory nobody has written stops the model.
\<close>

section \<open>The system the parser asks\<close>

text \<open>\<^verbatim>\<open>getpwuid_r\<close> for the own user: an entry (name and directory), a return value that is not 0, or 0 without an entry.\<close>

datatype pw_answer = PwEntry string string | PwError | PwNone

text \<open>
  \<open>read_file\<close> gives the lines of a file that can be opened, \<open>read_dir\<close> the names in a directory in the order
  of \<^verbatim>\<open>directory_iterator\<close>. \<open>gethostname_0\<close> is the return value of \<^verbatim>\<open>gethostname\<close> for a buffer of length 0.
  \<open>regex_other\<close> answers for regular expressions outside of the fragment of \<open>regex_match\<close>.
\<close>

record config_env =
  getpwuid :: pw_answer
  getenv_HOME :: "string option"
  getpwnam :: "string \<Rightarrow> string option"
  gethostname_0 :: int
  read_file :: "string \<Rightarrow> string list option"
  read_dir :: "string \<Rightarrow> string list option"
  regex_other :: "string \<Rightarrow> string \<Rightarrow> bool option"

definition NSS_BUFLEN_PASSWD :: nat where "NSS_BUFLEN_PASSWD = 4096"

definition ssh_get_user_home_dir :: "config_env \<Rightarrow> ('s, string option) prog" where
  "ssh_get_user_home_dir E = (case getpwuid E of
      PwError \<Rightarrow> ret (map_option (take (NSS_BUFLEN_PASSWD - 1)) (getenv_HOME E))
    | PwNone \<Rightarrow> fail (Abort ''undefined: passwd entry not set'')
    | PwEntry name dir \<Rightarrow> ret (Some dir))"

definition ssh_get_local_username :: "config_env \<Rightarrow> ('s, string option) prog" where
  "ssh_get_local_username E = (case getpwuid E of
      PwError \<Rightarrow> ret None
    | PwNone \<Rightarrow> fail (Abort ''undefined: passwd entry not set'')
    | PwEntry name dir \<Rightarrow> ret (Some name))"

section \<open>Options\<close>

record Options =
  o_username :: "string option"
  o_host :: "string option"
  o_sshdir :: "string option"
  o_knownhosts :: "string option"
  o_ProxyCommand :: "string option"
  o_ProxyJump :: "string option"
  o_timeout :: int
  o_port :: int
  o_StrictHostKeyChecking :: int
  o_ssh2 :: int
  o_ssh1 :: int
  o_gss_server_identity :: "string option"
  o_gss_client_identity :: "string option"
  o_gss_delegate_creds :: int
  o_forward_agent :: int
  o_identity_agent :: "string option"
  o_local_forwards :: "(int \<times> int) list"
  o_env_vars :: "(string \<times> string) list"

definition Options_empty :: Options where
  "Options_empty = \<lparr>o_username = None, o_host = None, o_sshdir = None, o_knownhosts = None, o_ProxyCommand = None,
     o_ProxyJump = None, o_timeout = 0, o_port = 0, o_StrictHostKeyChecking = 0, o_ssh2 = 0, o_ssh1 = 0,
     o_gss_server_identity = None, o_gss_client_identity = None, o_gss_delegate_creds = 0, o_forward_agent = 0,
     o_identity_agent = None, o_local_forwards = [], o_env_vars = []\<rparr>"

datatype ssh_config_opcode_e =
    SOC_UNSUPPORTED | SOC_HOST | SOC_HOSTNAME | SOC_MATCH | SOC_PORT | SOC_USERNAME | SOC_TIMEOUT | SOC_PROTOCOL
  | SOC_STRICTHOSTKEYCHECK | SOC_KNOWNHOSTS | SOC_PROXYCOMMAND | SOC_GSSAPISERVERIDENTITY
  | SOC_GSSAPICLIENTIDENTITY | SOC_GSSAPIDELEGATECREDENTIALS | SOC_INCLUDE | SOC_PROXYJUMP | SOC_FORWARDAGENT
  | SOC_IDENTITYAGENT | SOC_LOCALFORWARD | SOC_SETENV | SOC_END

datatype ssh_options_e =
    SSH_OPTIONS_HOST | SSH_OPTIONS_PORT | SSH_OPTIONS_PORT_STR | SSH_OPTIONS_FD | SSH_OPTIONS_USER
  | SSH_OPTIONS_SSH_DIR | SSH_OPTIONS_IDENTITY | SSH_OPTIONS_ADD_IDENTITY | SSH_OPTIONS_KNOWNHOSTS
  | SSH_OPTIONS_TIMEOUT | SSH_OPTIONS_TIMEOUT_USEC | SSH_OPTIONS_SSH1 | SSH_OPTIONS_SSH2
  | SSH_OPTIONS_LOG_VERBOSITY | SSH_OPTIONS_LOG_VERBOSITY_STR | SSH_OPTIONS_CIPHERS_C_S | SSH_OPTIONS_CIPHERS_S_C
  | SSH_OPTIONS_COMPRESSION_C_S | SSH_OPTIONS_COMPRESSION_S_C | SSH_OPTIONS_PROXYCOMMAND | SSH_OPTIONS_BINDADDR
  | SSH_OPTIONS_STRICTHOSTKEYCHECK | SSH_OPTIONS_COMPRESSION | SSH_OPTIONS_COMPRESSION_LEVEL
  | SSH_OPTIONS_KEY_EXCHANGE | SSH_OPTIONS_HOSTKEYS | SSH_OPTIONS_GSSAPI_SERVER_IDENTITY
  | SSH_OPTIONS_GSSAPI_CLIENT_IDENTITY | SSH_OPTIONS_GSSAPI_DELEGATE_CREDENTIALS | SSH_OPTIONS_HMAC_C_S
  | SSH_OPTIONS_HMAC_S_C | SSH_OPTIONS_PROXYJUMP | SSH_OPTIONS_FORWARDAGENT | SSH_OPTIONS_IDENTITYAGENT
  | SSH_OPTIONS_LOCALFORWARD | SSH_OPTIONS_SETENV

definition ssh_config_keyword_table :: "(string \<times> ssh_config_opcode_e) list" where
  "ssh_config_keyword_table =
     [(''host'', SOC_HOST), (''hostname'', SOC_HOSTNAME), (''match'', SOC_MATCH), (''port'', SOC_PORT),
      (''user'', SOC_USERNAME), (''connecttimeout'', SOC_TIMEOUT), (''protocol'', SOC_PROTOCOL),
      (''stricthostkeychecking'', SOC_STRICTHOSTKEYCHECK), (''userknownhostsfile'', SOC_KNOWNHOSTS),
      (''proxycommand'', SOC_PROXYCOMMAND), (''gssapiserveridentity'', SOC_GSSAPISERVERIDENTITY),
      (''gssapiclientidentity'', SOC_GSSAPICLIENTIDENTITY),
      (''gssapidelegatecredentials'', SOC_GSSAPIDELEGATECREDENTIALS), (''include'', SOC_INCLUDE),
      (''proxyjump'', SOC_PROXYJUMP), (''forwardagent'', SOC_FORWARDAGENT), (''identityagent'', SOC_IDENTITYAGENT),
      (''localforward'', SOC_LOCALFORWARD), (''setenv'', SOC_SETENV)]"

primrec opcode_in :: "(string \<times> ssh_config_opcode_e) list \<Rightarrow> string \<Rightarrow> ssh_config_opcode_e" where
  "opcode_in [] keyword = SOC_UNSUPPORTED"
| "opcode_in (e # es) keyword = (if strcasecmp_eq keyword (fst e) then snd e else opcode_in es keyword)"

definition ssh_config_get_opcode :: "string \<Rightarrow> ssh_config_opcode_e" where
  "ssh_config_get_opcode keyword = opcode_in ssh_config_keyword_table keyword"

section \<open>Expanding paths\<close>

definition TILDE_USER_SIZE :: nat where "TILDE_USER_SIZE = 128"

definition ssh_path_expand_tilde :: "config_env \<Rightarrow> string \<Rightarrow> ('s, string option) prog" where
  "ssh_path_expand_tilde E d0 =
     (if d0 = [] \<or> hd d0 \<noteq> CHR ''~'' then ret (Some d0)
      else let d = tl d0 in
        case str_find CHR ''/'' d of
          Some (Suc k) \<Rightarrow>
            (if TILDE_USER_SIZE \<le> Suc k then ret None
             else case getpwnam E (take (Suc k) d) of
               None \<Rightarrow> ret None
             | Some dir \<Rightarrow> ret (Some (dir @ drop (Suc k) d)))
        | _ \<Rightarrow> bnd (ssh_get_user_home_dir E) (\<lambda>h. ret (map_option (\<lambda>dir. dir @ d) h)))"

definition MAX_BUF_SIZE :: nat where "MAX_BUF_SIZE = 4096"

text \<open>\<^verbatim>\<open>strdup\<close> of a member that may be null.\<close>

definition strdup_member :: "string option \<Rightarrow> ('s, string option) prog" where
  "strdup_member m = (case m of None \<Rightarrow> fail (Abort ''undefined: strdup of a null pointer'') | Some s \<Rightarrow> ret (Some s))"

text \<open>
  The value of an escape; \<open>None\<close> makes the whole expansion fail. \<^verbatim>\<open>gethostname(host, sizeof(host) == 0)\<close>
  is asked to fill no byte: when it fails, \<^verbatim>\<open>host\<close> is read without having been written.
\<close>

definition escape_value :: "config_env \<Rightarrow> Options \<Rightarrow> char \<Rightarrow> ('s, string option) prog" where
  "escape_value E options c =
     (if c = CHR ''d'' then strdup_member (o_sshdir options)
      else if c = CHR ''u'' then ssh_get_local_username E
      else if c = CHR ''l'' then
        (if gethostname_0 E \<noteq> 0 then fail (Abort ''undefined: host name not written'') else ret None)
      else if c = CHR ''h'' then strdup_member (o_host options)
      else if c = CHR ''r'' then strdup_member (o_username options)
      else if c = CHR ''p'' then ret (if o_port options < 65536 then Some (decimal (o_port options)) else None)
      else ret None)"

fun expand_loop :: "config_env \<Rightarrow> Options \<Rightarrow> string \<Rightarrow> string \<Rightarrow> ('s, string option) prog" where
  "expand_loop E options [] buf = ret (Some buf)"
| "expand_loop E options (c # p) buf =
     (if c \<noteq> CHR ''%'' then
        (if MAX_BUF_SIZE \<le> length buf + 1 then ret None else expand_loop E options p (buf @ [c]))
      else (case p of
          [] \<Rightarrow> ret (Some buf)
        | e # p' \<Rightarrow> bnd (escape_value E options e) (\<lambda>x. case x of
              None \<Rightarrow> ret None
            | Some v \<Rightarrow>
                if MAX_BUF_SIZE \<le> length buf + length v then ret None
                else expand_loop E options p' (buf @ v))))"

definition ssh_path_expand_escape :: "config_env \<Rightarrow> Options \<Rightarrow> string \<Rightarrow> ('s, string option) prog" where
  "ssh_path_expand_escape E options s = bnd (ssh_path_expand_tilde E s) (\<lambda>r. case r of
      None \<Rightarrow> ret None
    | Some p \<Rightarrow> if MAX_BUF_SIZE < length p then ret None else expand_loop E options p [])"

section \<open>Setting an option\<close>

text \<open>
  The \<^verbatim>\<open>const void*\<close> with what it points to. Reading it as another type than it was written with is undefined.
\<close>

datatype opt_value = NullV | StrV string | IntV int | LongV int

definition str_value :: "opt_value \<Rightarrow> ('s, string option) prog" where
  "str_value v = (case v of NullV \<Rightarrow> ret None | StrV s \<Rightarrow> ret (Some s) | _ \<Rightarrow> fail (Abort ''undefined: value of another type''))"

definition int_value :: "opt_value \<Rightarrow> ('s, int option) prog" where
  "int_value v = (case v of NullV \<Rightarrow> ret None | IntV n \<Rightarrow> ret (Some n) | _ \<Rightarrow> fail (Abort ''undefined: value of another type''))"

definition long_value :: "opt_value \<Rightarrow> ('s, int option) prog" where
  "long_value v = (case v of NullV \<Rightarrow> ret None | LongV n \<Rightarrow> ret (Some n) | _ \<Rightarrow> fail (Abort ''undefined: value of another type''))"

type_synonym 'a options_prog = "(Options, 'a) prog"

definition mod_options :: "(Options \<Rightarrow> Options) \<Rightarrow> int options_prog" where
  "mod_options f options = (Ok 0, f options)"

text \<open>The branches for a text that must not be empty, and for a number with its check.\<close>

definition with_text :: "opt_value \<Rightarrow> (string \<Rightarrow> Options \<Rightarrow> Options) \<Rightarrow> int options_prog" where
  "with_text v f = bnd (str_value v) (\<lambda>t. case t of
      None \<Rightarrow> ret (-1)
    | Some s \<Rightarrow> if s = [] then ret (-1) else mod_options (f s))"

definition with_number :: "(int option) options_prog \<Rightarrow> (int \<Rightarrow> bool) \<Rightarrow> (int \<Rightarrow> Options \<Rightarrow> Options) \<Rightarrow> int options_prog" where
  "with_number m bad f = bnd m (\<lambda>t. case t of
      None \<Rightarrow> ret (-1)
    | Some n \<Rightarrow> if bad n then ret (-1) else mod_options (f n))"

definition set_host :: "string \<Rightarrow> Options \<Rightarrow> Options" where
  "set_host v options = (case str_find CHR ''@'' v of
      Some i \<Rightarrow> options\<lparr>o_host := Some (drop (i + 1) v), o_username := Some (take i v)\<rparr>
    | None \<Rightarrow> options\<lparr>o_host := Some v\<rparr>)"

definition set_port_str :: "opt_value \<Rightarrow> int options_prog" where
  "set_port_str v = bnd (str_value v) (\<lambda>t. case t of
      None \<Rightarrow> ret (-1)
    | Some s \<Rightarrow>
        if s = [] then ret (-1)
        else let i = (case strtol s of None \<Rightarrow> 0 | Some n \<Rightarrow> n) in
          if i \<le> 0 then ret (-1) else mod_options (\<lambda>options. options\<lparr>o_port := i mod 2 ^ 16\<rparr>))"

text \<open>The old value is freed before the new one is looked at.\<close>

definition set_user :: "config_env \<Rightarrow> opt_value \<Rightarrow> int options_prog" where
  "set_user E v = bnd (str_value v) (\<lambda>t. bnd (mod_options (\<lambda>options. options\<lparr>o_username := None\<rparr>)) (\<lambda>_.
     case t of
       None \<Rightarrow> bnd (ssh_get_local_username E) (\<lambda>q. case q of
           None \<Rightarrow> ret (-1)
         | Some name \<Rightarrow> mod_options (\<lambda>options. options\<lparr>o_username := Some name\<rparr>))
     | Some s \<Rightarrow> if s = [] then ret (-1) else mod_options (\<lambda>options. options\<lparr>o_username := Some s\<rparr>)))"

definition set_proxyjump :: "opt_value \<Rightarrow> int options_prog" where
  "set_proxyjump v = bnd (mod_options (\<lambda>options. options\<lparr>o_ProxyJump := None\<rparr>)) (\<lambda>_.
     with_text v (\<lambda>s options. options\<lparr>o_ProxyJump := Some s\<rparr>))"

definition set_knownhosts :: "config_env \<Rightarrow> opt_value \<Rightarrow> int options_prog" where
  "set_knownhosts E v = bnd (str_value v) (\<lambda>t. bnd (mod_options (\<lambda>options. options\<lparr>o_knownhosts := None\<rparr>)) (\<lambda>_.
     case t of
       None \<Rightarrow> (\<lambda>options. bnd (ssh_path_expand_escape E options ''%d/known_hosts'') (\<lambda>q. case q of
           None \<Rightarrow> ret (-1)
         | Some f \<Rightarrow> mod_options (\<lambda>options. options\<lparr>o_knownhosts := Some f\<rparr>)) options)
     | Some s \<Rightarrow> if s = [] then ret (-1) else mod_options (\<lambda>options. options\<lparr>o_knownhosts := Some s\<rparr>)))"

definition after_last :: "char \<Rightarrow> string \<Rightarrow> string option" where
  "after_last c s = (if c \<in> set s then Some (rev (takeWhile (\<lambda>x. x \<noteq> c) (rev s))) else None)"

definition add_forward :: "string \<Rightarrow> Options \<Rightarrow> Options" where
  "add_forward v options = (case strtok_all CHR '' '' v of
      local_port_str # remote_part # _ \<Rightarrow>
        (case after_last CHR '':'' remote_part of
           Some remote_port \<Rightarrow> options\<lparr>o_local_forwards := o_local_forwards options @ [(atoi local_port_str, atoi remote_port)]\<rparr>
         | None \<Rightarrow> options)
    | _ \<Rightarrow> options)"

definition add_env :: "string \<Rightarrow> Options \<Rightarrow> Options" where
  "add_env v options = (case str_find CHR ''='' v of
      Some i \<Rightarrow> options\<lparr>o_env_vars := o_env_vars options @ [(take i v, drop (i + 1) v)]\<rparr>
    | None \<Rightarrow> options)"

definition ssh_options_set :: "config_env \<Rightarrow> ssh_options_e \<Rightarrow> opt_value \<Rightarrow> int options_prog" where
  "ssh_options_set E typ v = (case typ of
      SSH_OPTIONS_HOST \<Rightarrow> with_text v set_host
    | SSH_OPTIONS_PORT \<Rightarrow> with_number (int_value v) (\<lambda>x. x \<le> 0) (\<lambda>x options. options\<lparr>o_port := x mod 2 ^ 16\<rparr>)
    | SSH_OPTIONS_PORT_STR \<Rightarrow> set_port_str v
    | SSH_OPTIONS_USER \<Rightarrow> set_user E v
    | SSH_OPTIONS_PROXYJUMP \<Rightarrow> set_proxyjump v
    | SSH_OPTIONS_KNOWNHOSTS \<Rightarrow> set_knownhosts E v
    | SSH_OPTIONS_TIMEOUT \<Rightarrow> with_number (long_value v) (\<lambda>x. x < 0) (\<lambda>x options. options\<lparr>o_timeout := x mod 2 ^ 32\<rparr>)
    | SSH_OPTIONS_SSH1 \<Rightarrow> with_number (int_value v) (\<lambda>x. x < 0) (\<lambda>x options. options\<lparr>o_ssh1 := x\<rparr>)
    | SSH_OPTIONS_SSH2 \<Rightarrow> with_number (int_value v) (\<lambda>x. x < 0) (\<lambda>x options. options\<lparr>o_ssh2 := x mod 2 ^ 16\<rparr>)
    | SSH_OPTIONS_STRICTHOSTKEYCHECK \<Rightarrow>
        with_number (int_value v) (\<lambda>_. False) (\<lambda>x options. options\<lparr>o_StrictHostKeyChecking := x\<rparr>)
    | SSH_OPTIONS_PROXYCOMMAND \<Rightarrow>
        with_text v (\<lambda>s options. options\<lparr>o_ProxyCommand := (if strcasecmp_eq s ''none'' then None else Some s)\<rparr>)
    | SSH_OPTIONS_GSSAPI_SERVER_IDENTITY \<Rightarrow> with_text v (\<lambda>s options. options\<lparr>o_gss_server_identity := Some s\<rparr>)
    | SSH_OPTIONS_GSSAPI_CLIENT_IDENTITY \<Rightarrow> with_text v (\<lambda>s options. options\<lparr>o_gss_client_identity := Some s\<rparr>)
    | SSH_OPTIONS_GSSAPI_DELEGATE_CREDENTIALS \<Rightarrow>
        with_number (int_value v) (\<lambda>_. False) (\<lambda>x options. options\<lparr>o_gss_delegate_creds := x mod 2 ^ 8\<rparr>)
    | SSH_OPTIONS_FORWARDAGENT \<Rightarrow>
        with_number (int_value v) (\<lambda>_. False) (\<lambda>x options. options\<lparr>o_forward_agent := x mod 2 ^ 8\<rparr>)
    | SSH_OPTIONS_IDENTITYAGENT \<Rightarrow> with_text v (\<lambda>s options. options\<lparr>o_identity_agent := Some s\<rparr>)
    | SSH_OPTIONS_LOCALFORWARD \<Rightarrow> with_text v add_forward
    | SSH_OPTIONS_SETENV \<Rightarrow> with_text v add_env
    | _ \<Rightarrow> ret (-1))"

section \<open>Tokens\<close>

text \<open>
  Each reads from \<^verbatim>\<open>*str\<close> and gives its result with what \<^verbatim>\<open>*str\<close> points to afterwards. \<^verbatim>\<open>ssh_config_get_cmd\<close>
  leaves a pointer nobody reads.
\<close>

definition ssh_config_get_cmd :: "string \<Rightarrow> string" where
  "ssh_config_get_cmd str =
     (let c = dropWhile isblank str in
      if c \<noteq> [] \<and> hd c = dquote then
        (if dquote \<in> set (tl c) then takeWhile (\<lambda>x. x \<noteq> dquote) (tl c) else [])
      else takeWhile (\<lambda>x. x \<noteq> newline) c)"

fun skip_between :: "bool \<Rightarrow> string \<Rightarrow> string" where
  "skip_between had_equal [] = []"
| "skip_between had_equal (c # cs) =
     (if isblank c \<or> c = newline \<or> (\<not> had_equal \<and> c = CHR ''='') then
        skip_between (had_equal \<or> c = CHR ''='') cs
      else c # cs)"

definition ends_word :: "char \<Rightarrow> bool" where
  "ends_word c \<longleftrightarrow> isblank c \<or> c = CHR ''='' \<or> c = newline"

definition ends_quoted :: "char \<Rightarrow> bool" where
  "ends_quoted c \<longleftrightarrow> c = dquote \<or> c = newline"

definition ssh_config_get_token :: "string \<Rightarrow> string \<times> string" where
  "ssh_config_get_token str =
     (let c = dropWhile isblank str in
      if c \<noteq> [] \<and> hd c = dquote then
        (takeWhile (\<lambda>x. \<not> ends_quoted x) (tl c),
         skip_between False (tl (dropWhile (\<lambda>x. \<not> ends_quoted x) (tl c))))
      else
        (let rest = dropWhile (\<lambda>x. \<not> ends_word x) c in
         (takeWhile (\<lambda>x. \<not> ends_word x) c, skip_between (rest \<noteq> [] \<and> hd rest = CHR ''='') (tl rest))))"

definition ssh_config_get_int :: "string \<Rightarrow> int \<Rightarrow> int" where
  "ssh_config_get_int str notfound =
     (let p = fst (ssh_config_get_token str) in
      if p = [] then notfound else case strtol p of None \<Rightarrow> notfound | Some v \<Rightarrow> to_int32 v)"

definition ssh_config_get_str_tok :: "string \<Rightarrow> string option \<times> string" where
  "ssh_config_get_str_tok str =
     (case ssh_config_get_token str of (p, rest) \<Rightarrow> (if p = [] then None else Some p, rest))"

definition ssh_config_get_yesno :: "string \<Rightarrow> int \<Rightarrow> int" where
  "ssh_config_get_yesno str notfound = (case fst (ssh_config_get_str_tok str) of
      None \<Rightarrow> notfound
    | Some p \<Rightarrow> if strncasecmp_eq p ''yes'' 3 then 1 else if strncasecmp_eq p ''no'' 2 then 0 else notfound)"

lemma skip_between_length: "length (skip_between h s) \<le> length s"
  by (induction h s rule: skip_between.induct) auto

lemma get_token_shrinks:
  assumes "ssh_config_get_token str = (p, rest)" and "p \<noteq> []"
  shows "length rest < length str"
proof -
  define c where "c = dropWhile isblank str"
  have c: "length c \<le> length str" by (simp add: c_def length_dropWhile_le)
  have tail: "length (skip_between h (tl (dropWhile P u))) < length u" if "u \<noteq> []" for h P u
  proof -
    have "length (dropWhile P u) \<le> length u" by (rule length_dropWhile_le)
    then show ?thesis using skip_between_length [of h "tl (dropWhile P u)"] that by (cases u) auto
  qed
  show ?thesis
  proof (cases "c \<noteq> [] \<and> hd c = dquote")
    case True
    then have "tl c \<noteq> []" and "rest = skip_between False (tl (dropWhile (\<lambda>x. \<not> ends_quoted x) (tl c)))"
      using assms by (auto simp: ssh_config_get_token_def c_def [symmetric] Let_def)
    then show ?thesis using tail [of "tl c"] c by (metis diff_le_self length_tl order_less_le_trans order_trans)
  next
    case False
    then have "c \<noteq> []" and "\<exists>h. rest = skip_between h (tl (dropWhile (\<lambda>x. \<not> ends_word x) c))"
      using assms by (auto simp: ssh_config_get_token_def c_def [symmetric] Let_def)
    then show ?thesis using tail [of c] c by (metis order_less_le_trans)
  qed
qed

lemma get_str_tok_shrinks: "ssh_config_get_str_tok str = (Some p, rest) \<Longrightarrow> length rest < length str"
  using get_token_shrinks by (auto simp: ssh_config_get_str_tok_def split: prod.splits if_splits)

section \<open>Include\<close>

text \<open>
  The part of the regular expressions of \<^verbatim>\<open>std::regex\<close> that file name patterns lead to: characters, the dot,
  escaped punctuation, each with \<^verbatim>\<open>*\<close>, \<^verbatim>\<open>+\<close> or \<^verbatim>\<open>?\<close> and the \<^verbatim>\<open>?\<close> that makes it lazy, which does not change what
  matches as a whole. \<open>BadRegex\<close> is \<^verbatim>\<open>regex_error\<close>; the rest is left to the environment.
\<close>

datatype atom = AnyChar | Lit char
datatype quantifier = One | Star | Plus | Opt
datatype regex = Items "(atom \<times> quantifier) list" | BadRegex | OtherRegex

definition regex_special :: string where
  "regex_special = ''^$()[]{}|''"

definition is_word :: "char \<Rightarrow> bool" where
  "is_word c \<longleftrightarrow> is_digit c \<or> c = CHR ''_'' \<or> (97 \<le> (of_char (c_tolower c) :: nat) \<and> (of_char (c_tolower c) :: nat) \<le> 122)"

fun quantify :: "atom \<Rightarrow> string \<Rightarrow> (atom \<times> quantifier) \<times> string" where
  "quantify a (c # d # r) =
     (let q = (if c = CHR ''*'' then Star else if c = CHR ''+'' then Plus else Opt) in
      if c \<notin> set ''*+?'' then ((a, One), c # d # r)
      else if d = CHR ''?'' then ((a, q), r) else ((a, q), d # r))"
| "quantify a [c] =
     (if c \<notin> set ''*+?'' then ((a, One), [c])
      else ((a, if c = CHR ''*'' then Star else if c = CHR ''+'' then Plus else Opt), []))"
| "quantify a [] = ((a, One), [])"

lemma quantify_length: "quantify a s = (x, r) \<Longrightarrow> length r \<le> length s"
  by (cases s; cases "tl s") (auto simp: Let_def split: if_splits)

definition add_item :: "(atom \<times> quantifier) \<Rightarrow> regex \<Rightarrow> regex" where
  "add_item i r = (case r of Items xs \<Rightarrow> Items (i # xs) | _ \<Rightarrow> r)"

function regex_compile :: "string \<Rightarrow> regex" where
  "regex_compile s =
     (if s = [] then Items []
      else let c = hd s; r = tl s in
        if c \<in> set ''*+?'' then BadRegex
        else if c \<in> set regex_special then OtherRegex
        else if c = CHR 0x5C then
          (if r = [] then BadRegex
           else if is_word (hd r) then OtherRegex
           else (case quantify (Lit (hd r)) (tl r) of (i, r') \<Rightarrow> add_item i (regex_compile r')))
        else (case quantify (if c = CHR ''.'' then AnyChar else Lit c) r of (i, r') \<Rightarrow> add_item i (regex_compile r')))"
  by pat_completeness auto
termination
proof (relation "measure length")
  fix s :: string and c r x i r'
  assume "s \<noteq> []" "r = tl s" and e: "(i, r') = quantify (Lit (hd r)) (tl r)"
  then show "(r', s) \<in> measure length"
    using quantify_length [OF e [symmetric]] by (cases s) auto
next
  fix s :: string and c r x i r'
  assume "s \<noteq> []" "r = tl s" and e: "(i, r') = quantify (if c = CHR ''.'' then AnyChar else Lit c) r"
  then show "(r', s) \<in> measure length"
    using quantify_length [OF e [symmetric]] by (cases s) auto
qed simp

declare regex_compile.simps [simp del]

definition atom_ok :: "atom \<Rightarrow> char \<Rightarrow> bool" where
  "atom_ok a c = (case a of AnyChar \<Rightarrow> c \<noteq> newline \<and> c \<noteq> CHR 0x0D | Lit d \<Rightarrow> c = d)"

function items_match :: "(atom \<times> quantifier) list \<Rightarrow> string \<Rightarrow> bool" where
  "items_match [] s = (s = [])"
| "items_match ((a, One) # xs) s = (case s of [] \<Rightarrow> False | c # t \<Rightarrow> atom_ok a c \<and> items_match xs t)"
| "items_match ((a, Opt) # xs) s = (items_match xs s \<or> (case s of [] \<Rightarrow> False | c # t \<Rightarrow> atom_ok a c \<and> items_match xs t))"
| "items_match ((a, Star) # xs) s =
     (items_match xs s \<or> (case s of [] \<Rightarrow> False | c # t \<Rightarrow> atom_ok a c \<and> items_match ((a, Star) # xs) t))"
| "items_match ((a, Plus) # xs) s = (case s of [] \<Rightarrow> False | c # t \<Rightarrow> atom_ok a c \<and> items_match ((a, Star) # xs) t)"
  by pat_completeness auto
termination
  by (relation "measure (\<lambda>(xs, s). length xs + length s)") auto

definition regex_match :: "config_env \<Rightarrow> string \<Rightarrow> string \<Rightarrow> ('s, bool) prog" where
  "regex_match E pattern name = (case regex_compile pattern of
      Items xs \<Rightarrow> ret (items_match xs name)
    | BadRegex \<Rightarrow> fail (Throw (RuntimeError ''regex_error''))
    | OtherRegex \<Rightarrow> (case regex_other E pattern name of
          None \<Rightarrow> fail (Throw (RuntimeError ''regex_error''))
        | Some b \<Rightarrow> ret b))"

definition pattern_regex :: "string \<Rightarrow> string" where
  "pattern_regex pattern = snd (replaceAll (snd (replaceAll pattern ''.'' [CHR 0x5C, CHR ''.''])) ''*'' ''.*'')"

text \<open>\<^verbatim>\<open>filename()\<close>, \<^verbatim>\<open>parent_path()\<close> and \<^verbatim>\<open>operator/\<close> of \<^verbatim>\<open>std::filesystem::path\<close>.\<close>

definition path_filename :: "string \<Rightarrow> string" where
  "path_filename f = rev (takeWhile (\<lambda>c. c \<noteq> CHR ''/'') (rev f))"

definition path_parent :: "string \<Rightarrow> string" where
  "path_parent f =
     (let up = rev (dropWhile (\<lambda>c. c \<noteq> CHR ''/'') (rev f));
          trimmed = rev (dropWhile (\<lambda>c. c = CHR ''/'') (rev up))
      in if trimmed = [] \<and> up \<noteq> [] then ''/'' else trimmed)"

definition path_join :: "string \<Rightarrow> string \<Rightarrow> string" where
  "path_join dir name = (if dir \<noteq> [] \<and> last dir = CHR ''/'' then dir @ name else dir @ ''/'' @ name)"

section \<open>The parser\<close>

text \<open>\<open>c_parsing\<close> is \<^verbatim>\<open>*parsing\<close>, \<open>c_seen\<close> the array \<^verbatim>\<open>seen\<close>.\<close>

record config_state =
  c_options :: Options
  c_parsing :: bool
  c_seen :: "ssh_config_opcode_e \<Rightarrow> bool"

type_synonym 'a config_prog = "(config_state, 'a) prog"

definition get_options :: "Options config_prog" where
  "get_options st = (Ok (c_options st), st)"

definition get_parsing :: "bool config_prog" where
  "get_parsing st = (Ok (c_parsing st), st)"

definition set_parsing :: "bool \<Rightarrow> unit config_prog" where
  "set_parsing b st = (Ok (), st\<lparr>c_parsing := b\<rparr>)"

text \<open>A call of \<^verbatim>\<open>ssh_options_set\<close> whose result is dropped.\<close>

definition do_set :: "config_env \<Rightarrow> ssh_options_e \<Rightarrow> opt_value \<Rightarrow> unit config_prog" where
  "do_set E typ v st = (case ssh_options_set E typ v (c_options st) of
      (Ok _, options) \<Rightarrow> (Ok (), st\<lparr>c_options := options\<rparr>)
    | (r, options) \<Rightarrow> (lift_bad r, st\<lparr>c_options := options\<rparr>))"

definition guarded :: "bool \<Rightarrow> unit config_prog \<Rightarrow> unit config_prog" where
  "guarded b m = (if b then m else ret ())"

text \<open>\<^verbatim>\<open>if (p && *parsing)\<close> for a token \<open>p\<close>.\<close>

definition if_token :: "string option \<Rightarrow> (string \<Rightarrow> unit config_prog) \<Rightarrow> unit config_prog" where
  "if_token p f = (case p of None \<Rightarrow> ret () | Some s \<Rightarrow> bnd get_parsing (\<lambda>parsing. guarded parsing (f s)))"

definition single_valued :: "ssh_config_opcode_e \<Rightarrow> bool" where
  "single_valued opcode \<longleftrightarrow> opcode \<notin> {SOC_HOST, SOC_MATCH, SOC_UNSUPPORTED, SOC_INCLUDE, SOC_LOCALFORWARD, SOC_SETENV}"

text \<open>The test of \<^verbatim>\<open>seen\<close>: \<open>True\<close> when the line is to be skipped.\<close>

definition check_seen :: "ssh_config_opcode_e \<Rightarrow> bool config_prog" where
  "check_seen opcode st =
     (if c_parsing st \<and> single_valued opcode then
        (if c_seen st opcode then (Ok True, st) else (Ok False, st\<lparr>c_seen := (c_seen st)(opcode := True)\<rparr>))
      else (Ok False, st))"

text \<open>The loop over the patterns of a \<^verbatim>\<open>Host\<close> line; the result is \<^verbatim>\<open>*parsing\<close>.\<close>

function host_loop :: "string option \<Rightarrow> string \<Rightarrow> int \<Rightarrow> bool \<Rightarrow> bool" where
  "host_loop lowertargethost s ok parsing =
     (case ssh_config_get_str_tok s of
        (None, _) \<Rightarrow> parsing
      | (Some p, s') \<Rightarrow>
          if 0 \<le> ok then
            (let ok' = match_hostname lowertargethost p in
             host_loop lowertargethost s' ok' (if ok' < 0 then False else if 0 < ok' then True else parsing))
          else host_loop lowertargethost s' ok parsing)"
  by pat_completeness auto
termination
  by (relation "measure (\<lambda>(t, s, ok, p). length s)") (auto dest: get_str_tok_shrinks [OF sym])

declare host_loop.simps [simp del]

primrec include_each :: "config_env \<Rightarrow> (string \<Rightarrow> unit config_prog) \<Rightarrow> string \<Rightarrow> string \<Rightarrow> string list \<Rightarrow> unit config_prog" where
  "include_each E parse_file dir pattern [] = ret ()"
| "include_each E parse_file dir pattern (name # names) =
     bnd (regex_match E pattern name) (\<lambda>ok.
     bnd (guarded ok (parse_file (path_join dir name))) (\<lambda>_. include_each E parse_file dir pattern names))"

definition directory_iterator :: "config_env \<Rightarrow> string \<Rightarrow> ('s, string list) prog" where
  "directory_iterator E dir = (case read_dir E dir of
      None \<Rightarrow> fail (Throw (RuntimeError ''filesystem error''))
    | Some names \<Rightarrow> ret names)"

definition include_file :: "config_env \<Rightarrow> (string \<Rightarrow> unit config_prog) \<Rightarrow> string \<Rightarrow> unit config_prog" where
  "include_file E parse_file p = bnd (ssh_path_expand_tilde E p) (\<lambda>f. case f of
      None \<Rightarrow> ret ()
    | Some filename \<Rightarrow>
        if CHR ''*'' \<in> set filename \<or> CHR ''?'' \<in> set filename then
          (let dir = (if path_parent filename = [] then ''.'' else path_parent filename) in
           bnd (directory_iterator E dir) (include_each E parse_file dir (pattern_regex (path_filename filename))))
        else parse_file filename)"

definition FORWARD_STR_SIZE :: nat where "FORWARD_STR_SIZE = 1024"

primrec set_protocols :: "config_env \<Rightarrow> string list \<Rightarrow> unit config_prog" where
  "set_protocols E [] = ret ()"
| "set_protocols E (a # as) =
     bnd (if atoi a = 1 then do_set E SSH_OPTIONS_SSH1 (IntV 1)
          else if atoi a = 2 then do_set E SSH_OPTIONS_SSH2 (IntV 1) else ret ()) (\<lambda>_. set_protocols E as)"

text \<open>A directive that takes one token and hands it on, and one that takes yes or no.\<close>

definition token_directive :: "config_env \<Rightarrow> ssh_options_e \<Rightarrow> string \<Rightarrow> unit config_prog" where
  "token_directive E typ s = if_token (fst (ssh_config_get_str_tok s)) (\<lambda>p. do_set E typ (StrV p))"

definition yesno_directive :: "config_env \<Rightarrow> ssh_options_e \<Rightarrow> string \<Rightarrow> unit config_prog" where
  "yesno_directive E typ s = bnd get_parsing (\<lambda>parsing.
     let i = ssh_config_get_yesno s (-1) in guarded (0 \<le> i \<and> parsing) (do_set E typ (IntV i)))"

definition host_directive :: "string option \<Rightarrow> string \<Rightarrow> unit config_prog" where
  "host_directive targethost s = set_parsing (host_loop (ssh_lowercase targethost) s 0 False)"

definition hostname_directive :: "config_env \<Rightarrow> string \<Rightarrow> unit config_prog" where
  "hostname_directive E s = if_token (fst (ssh_config_get_str_tok s)) (\<lambda>p.
     bnd get_options (\<lambda>options. bnd (ssh_path_expand_escape E options p) (\<lambda>z.
       do_set E SSH_OPTIONS_HOST (StrV (case z of None \<Rightarrow> p | Some e \<Rightarrow> e)))))"

definition protocol_directive :: "config_env \<Rightarrow> string \<Rightarrow> unit config_prog" where
  "protocol_directive E s = if_token (fst (ssh_config_get_str_tok s)) (\<lambda>p.
     bnd (do_set E SSH_OPTIONS_SSH1 (IntV 0)) (\<lambda>_. bnd (do_set E SSH_OPTIONS_SSH2 (IntV 0)) (\<lambda>_.
       set_protocols E (strtok_all CHR '','' p))))"

definition agent_directive :: "config_env \<Rightarrow> string \<Rightarrow> unit config_prog" where
  "agent_directive E s = if_token (fst (ssh_config_get_str_tok s)) (\<lambda>p.
     bnd (ssh_path_expand_tilde E p) (\<lambda>filename. case filename of
         None \<Rightarrow> ret ()
       | Some f \<Rightarrow> do_set E SSH_OPTIONS_IDENTITYAGENT (StrV f)))"

definition forward_directive :: "config_env \<Rightarrow> string \<Rightarrow> unit config_prog" where
  "forward_directive E s = (case ssh_config_get_str_tok s of (p, s') \<Rightarrow> if_token p (\<lambda>p'.
     case fst (ssh_config_get_str_tok s') of
       None \<Rightarrow> ret ()
     | Some remote_part \<Rightarrow>
         do_set E SSH_OPTIONS_LOCALFORWARD (StrV (take (FORWARD_STR_SIZE - 1) (p' @ '' '' @ remote_part)))))"

definition directive :: "config_env \<Rightarrow> (string \<Rightarrow> unit config_prog) \<Rightarrow> string option \<Rightarrow> ssh_config_opcode_e \<Rightarrow> string \<Rightarrow> int config_prog" where
  "directive E parse_file targethost opcode s = (case opcode of
      SOC_INCLUDE \<Rightarrow> bnd (case fst (ssh_config_get_str_tok s) of None \<Rightarrow> ret () | Some p \<Rightarrow> include_file E parse_file p) (\<lambda>_. ret 0)
    | SOC_HOST \<Rightarrow> bnd (host_directive targethost s) (\<lambda>_. ret 0)
    | SOC_HOSTNAME \<Rightarrow> bnd (hostname_directive E s) (\<lambda>_. ret 0)
    | SOC_PORT \<Rightarrow> bnd get_options (\<lambda>options. bnd (guarded (o_port options = 0) (token_directive E SSH_OPTIONS_PORT_STR s)) (\<lambda>_. ret 0))
    | SOC_USERNAME \<Rightarrow> bnd get_options (\<lambda>options. bnd (guarded (o_username options = None) (token_directive E SSH_OPTIONS_USER s)) (\<lambda>_. ret 0))
    | SOC_PROXYJUMP \<Rightarrow> bnd get_options (\<lambda>options. bnd (guarded (o_ProxyJump options = None) (token_directive E SSH_OPTIONS_PROXYJUMP s)) (\<lambda>_. ret 0))
    | SOC_PROTOCOL \<Rightarrow> bnd (protocol_directive E s) (\<lambda>_. ret 0)
    | SOC_TIMEOUT \<Rightarrow> bnd get_parsing (\<lambda>parsing.
        let timeout = ssh_config_get_int s (-1) in
        bnd (guarded (0 \<le> timeout \<and> parsing) (do_set E SSH_OPTIONS_TIMEOUT (LongV timeout))) (\<lambda>_. ret 0))
    | SOC_STRICTHOSTKEYCHECK \<Rightarrow> bnd (yesno_directive E SSH_OPTIONS_STRICTHOSTKEYCHECK s) (\<lambda>_. ret 0)
    | SOC_KNOWNHOSTS \<Rightarrow> bnd (token_directive E SSH_OPTIONS_KNOWNHOSTS s) (\<lambda>_. ret 0)
    | SOC_PROXYCOMMAND \<Rightarrow> bnd (if_token (Some (ssh_config_get_cmd s)) (\<lambda>p. do_set E SSH_OPTIONS_PROXYCOMMAND (StrV p))) (\<lambda>_. ret 0)
    | SOC_GSSAPISERVERIDENTITY \<Rightarrow> bnd (token_directive E SSH_OPTIONS_GSSAPI_SERVER_IDENTITY s) (\<lambda>_. ret 0)
    | SOC_GSSAPICLIENTIDENTITY \<Rightarrow> bnd (token_directive E SSH_OPTIONS_GSSAPI_CLIENT_IDENTITY s) (\<lambda>_. ret 0)
    | SOC_GSSAPIDELEGATECREDENTIALS \<Rightarrow> bnd (yesno_directive E SSH_OPTIONS_GSSAPI_DELEGATE_CREDENTIALS s) (\<lambda>_. ret 0)
    | SOC_FORWARDAGENT \<Rightarrow> bnd (yesno_directive E SSH_OPTIONS_FORWARDAGENT s) (\<lambda>_. ret 0)
    | SOC_IDENTITYAGENT \<Rightarrow> bnd (agent_directive E s) (\<lambda>_. ret 0)
    | SOC_LOCALFORWARD \<Rightarrow> bnd (forward_directive E s) (\<lambda>_. ret 0)
    | SOC_SETENV \<Rightarrow> bnd (token_directive E SSH_OPTIONS_SETENV s) (\<lambda>_. ret 0)
    | SOC_UNSUPPORTED \<Rightarrow> ret 0
    | _ \<Rightarrow> ret (-1))"

text \<open>Trailing white space goes, but the first character always stays.\<close>

definition strip_trailing :: "string \<Rightarrow> string" where
  "strip_trailing s = take 1 s @ rev (dropWhile is_space (rev (drop 1 s)))"

lemma strip_trailing_length: "length (strip_trailing s) \<le> length s"
proof -
  have "length (dropWhile is_space (rev (drop 1 s))) \<le> length (drop 1 s)"
    using length_dropWhile_le [of is_space "rev (drop 1 s)"] by simp
  then show ?thesis by (cases s) (simp_all add: strip_trailing_def)
qed

function ssh_config_parse_line :: "config_env \<Rightarrow> (string \<Rightarrow> unit config_prog) \<Rightarrow> string option \<Rightarrow> string \<Rightarrow> int config_prog" where
  "ssh_config_parse_line E parse_file targethost line =
     (case ssh_config_get_token (strip_trailing (c_str line)) of (keyword, s) \<Rightarrow>
        if keyword = [] \<or> hd keyword = CHR ''#'' \<or> hd keyword = newline then ret 0
        else let opcode = ssh_config_get_opcode keyword in
          bnd (check_seen opcode) (\<lambda>skip.
            if skip then ret 0
            else if opcode = SOC_MATCH then ssh_config_parse_line E parse_file targethost s
            else directive E parse_file targethost opcode s))"
  by pat_completeness auto
termination
proof (relation "measure (\<lambda>(E, f, t, line). length line)")
  fix E :: config_env and f :: "string \<Rightarrow> unit config_prog" and t :: "string option" and line keyword s
  assume "(keyword, s) = ssh_config_get_token (strip_trailing (c_str line))"
    and "\<not> (keyword = [] \<or> hd keyword = CHR ''#'' \<or> hd keyword = newline)"
  then have "length s < length (strip_trailing (c_str line))" by (metis get_token_shrinks)
  then show "((E, f, t, s), E, f, t, line) \<in> measure (\<lambda>(E, f, t, line). length line)"
    using strip_trailing_length [of "c_str line"] c_str_length [of line] by simp
qed simp

declare ssh_config_parse_line.simps [simp del]

text \<open>The loop over the lines of a file: \<open>False\<close> when a line gave a negative result.\<close>

primrec parse_lines :: "(string \<Rightarrow> int config_prog) \<Rightarrow> string list \<Rightarrow> bool config_prog" where
  "parse_lines parse_line [] = ret True"
| "parse_lines parse_line (line # lines) = bnd (parse_line line) (\<lambda>r. if r < 0 then ret False else parse_lines parse_line lines)"

text \<open>\<open>depth\<close> is how many nested calls the stack has room for.\<close>

primrec local_parse_file :: "nat \<Rightarrow> config_env \<Rightarrow> string option \<Rightarrow> string \<Rightarrow> unit config_prog" where
  "local_parse_file 0 E targethost filename = fail (Abort ''stack overflow'')"
| "local_parse_file (Suc depth) E targethost filename = (case read_file E filename of
      None \<Rightarrow> ret ()
    | Some lines \<Rightarrow> bnd (parse_lines (ssh_config_parse_line E (local_parse_file depth E targethost) targethost) lines) (\<lambda>_. ret ()))"

definition config_start :: "Options \<Rightarrow> config_state" where
  "config_start options = \<lparr>c_options = options, c_parsing = True, c_seen = (\<lambda>_. False)\<rparr>"

definition parse_ssh_config_file :: "nat \<Rightarrow> config_env \<Rightarrow> string option \<Rightarrow> string \<Rightarrow> int options_prog" where
  "parse_ssh_config_file depth E targethost filename = bnd (ssh_path_expand_tilde E (c_str filename)) (\<lambda>f. case f of
      None \<Rightarrow> ret 0
    | Some expandedFilename \<Rightarrow> (case read_file E expandedFilename of
        None \<Rightarrow> ret 0
      | Some lines \<Rightarrow> (\<lambda>options.
          case parse_lines (ssh_config_parse_line E (local_parse_file depth E targethost) targethost) lines (config_start options) of
            (r, st) \<Rightarrow> (case r of Ok b \<Rightarrow> Ok (if b then 0 else -1) | _ \<Rightarrow> lift_bad r, c_options st))))"

end
