(* ===== verification/ET_ConfigFile.thy ===== *)
theory ET_ConfigFile
  imports ET_Config
begin

text \<open>
  What the reader of ssh configuration files promises: which hosts a \<^verbatim>\<open>Host\<close> line selects, that the
  first value of an option wins within a file, and the range of every option. What every part of the
  parser keeps of its state is proved once in a locale and used for each such relation.
\<close>

section \<open>Lines made of words\<close>

text \<open>A word stands for itself in a line: no white space, no equals sign, no quote.\<close>

definition plain_word :: "string \<Rightarrow> bool" where
  "plain_word w \<longleftrightarrow> w \<noteq> [] \<and> (\<forall>c\<in>set w. \<not> is_space c \<and> c \<noteq> CHR ''='' \<and> c \<noteq> dquote \<and> c \<noteq> CHR 0x00)"

fun unwords :: "string list \<Rightarrow> string" where
  "unwords [] = []"
| "unwords [w] = w"
| "unwords (w # v # ws) = w @ CHR '' '' # unwords (v # ws)"

lemma isblank_space: "isblank c \<Longrightarrow> is_space c" "is_space newline"
  by (auto simp: isblank_def is_space_def newline_def)

lemma plain_char:
  assumes "plain_word w" and "c \<in> set w"
  shows "\<not> isblank c" "\<not> is_space c" "\<not> ends_word c" "c \<noteq> dquote" "c \<noteq> newline" "c \<noteq> CHR ''=''" "c \<noteq> CHR 0x00"
  using assms isblank_space by (auto simp: plain_word_def ends_word_def)

lemma unwords_start: "plain_word w \<Longrightarrow> \<exists>r. unwords (w # ws) = hd w # r"
  by (cases ws; cases w) (auto simp: plain_word_def)

lemma skip_between_plain: "\<forall>w\<in>set ws. plain_word w \<Longrightarrow> skip_between h (unwords ws) = unwords ws"
proof (cases ws)
  case (Cons w vs)
  moreover assume "\<forall>w\<in>set ws. plain_word w"
  ultimately have w: "plain_word w" by simp
  then have "hd w \<in> set w" by (simp add: plain_word_def)
  then show ?thesis using unwords_start [OF w, of vs] plain_char [OF w] Cons by auto
qed simp

lemma token_of_word:
  assumes "plain_word w" and "ends_word d"
  shows "ssh_config_get_token (w @ d # r) = (w, skip_between (d = CHR ''='') r)"
    and "ssh_config_get_token w = (w, [])"
proof -
  note c = plain_char [OF assms(1)]
  have "hd w \<in> set w" "w \<noteq> []" using assms(1) by (auto simp: plain_word_def)
  then have b: "dropWhile isblank (w @ t) = w @ t" "w @ t \<noteq> [] \<and> hd (w @ t) \<noteq> dquote" for t
    using c by (cases w; simp)+
  have tw: "takeWhile (\<lambda>x. \<not> ends_word x) (w @ d # r) = w" "dropWhile (\<lambda>x. \<not> ends_word x) (w @ d # r) = d # r"
    "takeWhile (\<lambda>x. \<not> ends_word x) w = w" "dropWhile (\<lambda>x. \<not> ends_word x) w = []"
    using c assms(2) by (auto simp: takeWhile_append dropWhile_append takeWhile_eq_all_conv dropWhile_eq_Nil_conv)
  show "ssh_config_get_token (w @ d # r) = (w, skip_between (d = CHR ''='') r)"
    using b [of "d # r"] tw by (simp add: ssh_config_get_token_def Let_def)
  show "ssh_config_get_token w = (w, [])"
    using b [of "[]"] unfolding ssh_config_get_token_def by (simp add: Let_def tw(3,4) del: takeWhile_eq_all_conv)
qed

lemma token_unwords:
  assumes "plain_word w" and "\<forall>v\<in>set ws. plain_word v"
  shows "ssh_config_get_token (unwords (w # ws)) = (w, unwords ws)"
proof (cases ws)
  case (Cons v vs)
  have "ends_word CHR '' ''" by (simp add: ends_word_def isblank_def)
  then show ?thesis using token_of_word(1) [OF assms(1)] skip_between_plain [OF assms(2)] Cons by simp
qed (simp add: token_of_word [OF assms(1), of newline] ends_word_def)

lemma str_tok_unwords:
  assumes "plain_word w" and "\<forall>v\<in>set ws. plain_word v"
  shows "ssh_config_get_str_tok (unwords (w # ws)) = (Some w, unwords ws)"
  using token_unwords [OF assms] assms(1) by (simp add: ssh_config_get_str_tok_def plain_word_def)

lemma str_tok_Nil [simp]: "ssh_config_get_str_tok [] = (None, [])"
  by (simp add: ssh_config_get_str_tok_def ssh_config_get_token_def Let_def)

lemma unwords_chars: "c \<in> set (unwords ws) \<Longrightarrow> c = CHR '' '' \<or> (\<exists>w\<in>set ws. c \<in> set w)"
  by (induction ws rule: unwords.induct) auto

lemma unwords_last: "ws \<noteq> [] \<Longrightarrow> \<forall>w\<in>set ws. plain_word w \<Longrightarrow> unwords ws \<noteq> [] \<and> \<not> is_space (last (unwords ws))"
  by (induction ws rule: unwords.induct) (auto simp: plain_word_def)

lemma strip_trailing_id: "s = [] \<or> \<not> is_space (last s) \<Longrightarrow> strip_trailing s = s"
proof (cases s)
  case (Cons c cs)
  moreover assume "s = [] \<or> \<not> is_space (last s)"
  ultimately have "dropWhile is_space (rev cs) = rev cs"
    by (cases cs rule: rev_cases) auto
  then show ?thesis using Cons by (simp add: strip_trailing_def)
qed (simp add: strip_trailing_def)

text \<open>The line the parser works with.\<close>

definition cleaned :: "string \<Rightarrow> string" where
  "cleaned line = strip_trailing (c_str line)"

lemma cleaned_unwords:
  assumes "\<forall>w\<in>set ws. plain_word w"
  shows "cleaned (unwords ws) = unwords ws"
proof -
  have "CHR 0x00 \<notin> set (unwords ws)" using assms unwords_chars plain_char(7) by fastforce
  moreover have "unwords ws = [] \<or> \<not> is_space (last (unwords ws))"
    using unwords_last [OF _ assms] by (cases ws) auto
  ultimately show ?thesis by (simp add: cleaned_def c_str_id strip_trailing_id)
qed

definition keyword_of :: "string \<Rightarrow> string" where
  "keyword_of line = fst (ssh_config_get_token (cleaned line))"

text \<open>The opcode of a line that is not empty and not a comment.\<close>

definition has_opcode :: "string \<Rightarrow> ssh_config_opcode_e \<Rightarrow> bool" where
  "has_opcode line k \<longleftrightarrow> keyword_of line \<noteq> [] \<and> hd (keyword_of line) \<noteq> CHR ''#'' \<and> hd (keyword_of line) \<noteq> newline \<and>
     ssh_config_get_opcode (keyword_of line) = k"

lemma parse_line_opcode:
  assumes "has_opcode line k"
  shows "ssh_config_parse_line E f t line = bnd (check_seen k) (\<lambda>skip. if skip then ret 0
     else if k = SOC_MATCH then ssh_config_parse_line E f t (snd (ssh_config_get_token (cleaned line)))
     else directive E f t k (snd (ssh_config_get_token (cleaned line))))"
  using assms
  by (subst ssh_config_parse_line.simps) (auto simp: has_opcode_def keyword_of_def cleaned_def Let_def split: prod.split cong: if_cong)

lemma parse_line_words:
  assumes "plain_word w" and "\<forall>v\<in>set ws. plain_word v" and "hd w \<noteq> CHR ''#''" and "ssh_config_get_opcode w = k"
  shows "ssh_config_parse_line E f t (unwords (w # ws)) = bnd (check_seen k) (\<lambda>skip. if skip then ret 0
     else if k = SOC_MATCH then ssh_config_parse_line E f t (unwords ws) else directive E f t k (unwords ws))"
proof -
  have "cleaned (unwords (w # ws)) = unwords (w # ws)" using assms(1,2) by (intro cleaned_unwords) auto
  moreover have "w \<noteq> []" "hd w \<noteq> newline" using assms(1) plain_char(5) by (auto simp: plain_word_def)
  ultimately show ?thesis
    using parse_line_opcode [of "unwords (w # ws)" k E f t] assms token_unwords [OF assms(1,2)]
    by (simp add: has_opcode_def keyword_of_def cong: if_cong)
qed

section \<open>Host\<close>

lemma host_loop_words:
  assumes "\<forall>p\<in>set ps. plain_word p"
  shows "host_loop t (unwords ps) ok b =
    (if ok < 0 then b else if \<exists>p\<in>set ps. match_hostname t p < 0 then False
     else if \<exists>p\<in>set ps. 0 < match_hostname t p then True else b)"
  using assms
proof (induction ps arbitrary: ok b)
  case Nil
  then show ?case by (simp add: host_loop.simps)
next
  case (Cons p ps)
  have "ssh_config_get_str_tok (unwords (p # ps)) = (Some p, unwords ps)"
    using Cons.prems by (intro str_tok_unwords) auto
  then show ?case using Cons by (subst host_loop.simps) (auto simp: Let_def)
qed

lemma host_plain: "plain_word ''Host''" "ssh_config_get_opcode ''Host'' = SOC_HOST"
  by (code_simp)+

text \<open>Some piece of the patterns \<open>ps\<close>, negated or not, stands for the target.\<close>

definition piece_matches :: "bool \<Rightarrow> string list \<Rightarrow> string \<Rightarrow> bool" where
  "piece_matches neg ps target \<longleftrightarrow>
     (\<exists>p\<in>set ps. \<exists>q. (neg, q) \<in> set (host_pieces p) \<and> glob (code_pattern q) (map c_tolower target))"

lemma says_pieces: "says neg (Some (map c_tolower target)) (host_pieces p) \<longleftrightarrow> piece_matches neg [p] target"
  by (auto simp: says_def piece_matches_def match_pattern_def match_loop_glob)

lemma piece_matches_code:
  "piece_matches neg ps target \<longleftrightarrow>
     (\<exists>p\<in>set ps. \<exists>x\<in>set (host_pieces p). fst x = neg \<and> match_loop (map c_tolower target) (snd x))"
  by (force simp: piece_matches_def match_loop_glob)

text \<open>
  C22: A \<^verbatim>\<open>Host\<close> line makes the lines after it count exactly when one of its patterns matches the target
  and no negated pattern does, whatever the order of the patterns, without regard to upper and lower
  case; it changes nothing else.\<close>

theorem host_line_decides:
  assumes "\<forall>p\<in>set ps. plain_word p \<and> pieces_short p"
  shows "ssh_config_parse_line E parse_file (Some target) (unwords (''Host'' # ps)) st =
    (Ok 0, st\<lparr>c_parsing := piece_matches False ps target \<and> \<not> piece_matches True ps target\<rparr>)"
proof -
  have val: "match_hostname (Some (map c_tolower target)) p =
      (if piece_matches True [p] target then -1 else if piece_matches False [p] target then 1 else 0)" if "p \<in> set ps" for p
    using match_hostname_eq [of p] assms that by (simp add: says_pieces)
  have "host_loop (Some (map c_tolower target)) (unwords ps) 0 False
      \<longleftrightarrow> piece_matches False ps target \<and> \<not> piece_matches True ps target"
  proof -
    have "piece_matches neg ps target \<longleftrightarrow> (\<exists>p\<in>set ps. piece_matches neg [p] target)" for neg
      by (auto simp: piece_matches_def)
    then show ?thesis using val assms by (subst host_loop_words) (auto split: if_splits)
  qed
  then show ?thesis
    using assms parse_line_words [OF host_plain(1) _ _ host_plain(2), of ps]
    by (simp add: check_seen_def single_valued_def bnd_def directive_def host_directive_def set_parsing_def ssh_lowercase_def)
qed

definition no_system :: config_env where
  "no_system = \<lparr>getpwuid = PwEntry ''me'' ''/home/me'', getenv_HOME = None, getpwnam = (\<lambda>_. None), gethostname_0 = -1,
     read_file = (\<lambda>_. None), read_dir = (\<lambda>_. None), regex_other = (\<lambda>_ _. None)\<rparr>"

theorem host_line_decides_witness:
  "ssh_config_parse_line no_system (\<lambda>_. ret ()) (Some ''DB.example.org'')
      (unwords (''Host'' # [''*.example.org'', ''!web*''])) (config_start Options_empty) =
    (Ok 0, (config_start Options_empty)\<lparr>c_parsing := True\<rparr>)"
proof -
  have "piece_matches False [''*.example.org'', ''!web*''] ''DB.example.org''"
    unfolding piece_matches_code by code_simp
  moreover have "\<not> piece_matches True [''*.example.org'', ''!web*''] ''DB.example.org''"
    unfolding piece_matches_code by code_simp
  moreover have "\<forall>p\<in>set [''*.example.org'', ''!web*'']. plain_word p \<and> pieces_short p" by code_simp
  ultimately show ?thesis
    using host_line_decides [of "[''*.example.org'', ''!web*'']" no_system "\<lambda>_. ret ()" "''DB.example.org''"
        "config_start Options_empty"] by simp
qed

section \<open>What every part of the parser keeps\<close>

text \<open>The values the parser hands to \<^verbatim>\<open>ssh_options_set\<close>.\<close>

definition parser_value :: "ssh_options_e \<Rightarrow> opt_value \<Rightarrow> bool" where
  "parser_value typ v \<longleftrightarrow> (case v of
      NullV \<Rightarrow> False
    | StrV s \<Rightarrow> typ \<in> {SSH_OPTIONS_HOST, SSH_OPTIONS_PORT_STR, SSH_OPTIONS_USER, SSH_OPTIONS_PROXYJUMP, SSH_OPTIONS_KNOWNHOSTS,
        SSH_OPTIONS_PROXYCOMMAND, SSH_OPTIONS_GSSAPI_SERVER_IDENTITY, SSH_OPTIONS_GSSAPI_CLIENT_IDENTITY,
        SSH_OPTIONS_IDENTITYAGENT, SSH_OPTIONS_LOCALFORWARD, SSH_OPTIONS_SETENV}
    | IntV n \<Rightarrow> n \<in> {0, 1} \<and> typ \<in> {SSH_OPTIONS_SSH1, SSH_OPTIONS_SSH2, SSH_OPTIONS_STRICTHOSTKEYCHECK,
        SSH_OPTIONS_GSSAPI_DELEGATE_CREDENTIALS, SSH_OPTIONS_FORWARDAGENT}
    | LongV n \<Rightarrow> 0 \<le> n \<and> n < 2 ^ 31 \<and> typ = SSH_OPTIONS_TIMEOUT)"

locale config_frame = frame R for R :: "config_state \<Rightarrow> config_state \<Rightarrow> bool" +
  assumes R_parsing: "R st (st\<lparr>c_parsing := b\<rparr>)"
    and R_seen: "R st (st\<lparr>c_seen := (c_seen st)(k := True)\<rparr>)"
    and R_set: "parser_value typ v \<Longrightarrow> R st (snd (do_set E typ v st))"
begin

lemma keeps_Pair: "keeps (Pair r)"
  by (simp add: keeps_def R_refl)

lemma keeps_state: "keeps get_options" "keeps get_parsing" "keeps (set_parsing b)" "keeps (check_seen k)"
  by (auto simp: keeps_def get_options_def get_parsing_def set_parsing_def check_seen_def R_refl R_parsing R_seen)

lemma keeps_do_set: "parser_value typ v \<Longrightarrow> keeps (do_set E typ v)"
  by (simp add: keeps_def R_set)

lemma keeps_system: "keeps (ssh_path_expand_tilde E p)" "keeps (ssh_path_expand_escape E options p)" "keeps (regex_match E r p)"
    "keeps (directory_iterator E p)"
proof -
  have user: "keeps (ssh_get_user_home_dir E)" "keeps (ssh_get_local_username E)"
    by (auto simp: ssh_get_user_home_dir_def ssh_get_local_username_def intro!: keeps_Pair keeps_structure split: pw_answer.split)
  then show tilde: "keeps (ssh_path_expand_tilde E p)" for p
    unfolding ssh_path_expand_tilde_def Let_def
    by (intro keeps_if keeps_ret) (auto intro!: keeps_Pair keeps_structure split: option.split nat.split)
  have "keeps (escape_value E options c)" for c
    unfolding escape_value_def strdup_member_def by (intro keeps_if user keeps_option keeps_fail keeps_ret)
  then have "keeps (expand_loop E options p buf)" for p buf
    by (induction E options p buf rule: expand_loop.induct) (auto intro!: keeps_Pair keeps_structure split: list.split)
  then show "keeps (ssh_path_expand_escape E options p)"
    unfolding ssh_path_expand_escape_def by (intro keeps_bnd tilde keeps_option keeps_ret keeps_if)
  show "keeps (regex_match E r p)"
    unfolding regex_match_def by (auto intro!: keeps_Pair keeps_structure split: regex.split)
  show "keeps (directory_iterator E p)"
    unfolding directory_iterator_def by (intro keeps_option keeps_fail keeps_ret)
qed

lemma keeps_guarded: "(b \<Longrightarrow> keeps m) \<Longrightarrow> keeps (guarded b m)"
  unfolding guarded_def by (intro keeps_if keeps_ret)

lemma keeps_if_token: "(\<And>s. keeps (f s)) \<Longrightarrow> keeps (if_token p f)"
  unfolding if_token_def by (intro keeps_option keeps_ret keeps_bnd keeps_state keeps_guarded)

lemma yesno_value: "0 \<le> ssh_config_get_yesno s (-1) \<Longrightarrow> ssh_config_get_yesno s (-1) \<in> {0, 1}"
  by (auto simp: ssh_config_get_yesno_def split: option.splits if_splits)

lemma timeout_value: "ssh_config_get_int s (-1) < 2147483648"
  using to_int32_bounds by (auto simp: ssh_config_get_int_def Let_def split: option.split)

lemmas keeps_parts = keeps_Pair keeps_structure keeps_state keeps_system keeps_guarded keeps_if_token

lemma keeps_directives:
  "typ \<in> {SSH_OPTIONS_PORT_STR, SSH_OPTIONS_USER, SSH_OPTIONS_PROXYJUMP, SSH_OPTIONS_KNOWNHOSTS,
     SSH_OPTIONS_GSSAPI_SERVER_IDENTITY, SSH_OPTIONS_GSSAPI_CLIENT_IDENTITY, SSH_OPTIONS_SETENV} \<Longrightarrow> keeps (token_directive E typ s)"
  "typ \<in> {SSH_OPTIONS_STRICTHOSTKEYCHECK, SSH_OPTIONS_GSSAPI_DELEGATE_CREDENTIALS, SSH_OPTIONS_FORWARDAGENT} \<Longrightarrow>
     keeps (yesno_directive E typ s)"
  "keeps (host_directive t s)" "keeps (hostname_directive E s)" "keeps (agent_directive E s)" "keeps (forward_directive E s)"
  "keeps (protocol_directive E s)"
proof -
  have "keeps (set_protocols E as)" for as
    by (induction as) (auto simp: parser_value_def intro!: keeps_parts keeps_do_set)
  then show "keeps (protocol_directive E s)"
    unfolding protocol_directive_def by (intro keeps_if_token keeps_bnd keeps_do_set) (auto simp: parser_value_def)
qed (unfold token_directive_def yesno_directive_def host_directive_def hostname_directive_def agent_directive_def
    forward_directive_def Let_def, (intro keeps_parts keeps_do_set; use yesno_value in \<open>auto simp: parser_value_def\<close>)+)

lemma keeps_include: "(\<And>f. keeps (parse_file f)) \<Longrightarrow> keeps (include_file E parse_file p)"
proof -
  assume f: "\<And>f. keeps (parse_file f)"
  then have "keeps (include_each E parse_file dir pattern names)" for dir pattern names
    by (induction names) (auto intro!: keeps_parts)
  then show ?thesis unfolding include_file_def Let_def using f by (intro keeps_parts)
qed

lemma keeps_directive: "(\<And>f. keeps (parse_file f)) \<Longrightarrow> keeps (directive E parse_file t k s)"
  unfolding directive_def Let_def
  by (cases k) (auto intro!: keeps_Pair keeps_structure keeps_state keeps_guarded keeps_if_token keeps_directives keeps_include keeps_do_set
      simp: parser_value_def timeout_value)

lemma keeps_parse_line: "(\<And>f. keeps (parse_file f)) \<Longrightarrow> keeps (ssh_config_parse_line E parse_file t line)"
proof (induction E parse_file t line rule: ssh_config_parse_line.induct)
  case (1 E parse_file t line)
  show ?case
    by (subst ssh_config_parse_line.simps)
      (use 1 in \<open>auto simp: Let_def intro!: keeps_Pair keeps_structure keeps_state keeps_directive split: prod.split\<close>)
qed

lemma keeps_parse_lines: "(\<And>line. keeps (g line)) \<Longrightarrow> keeps (parse_lines g lines)"
  by (induction lines) (auto intro!: keeps_Pair keeps_structure)

lemma keeps_local_parse_file: "keeps (local_parse_file depth E t filename)"
  by (induction depth arbitrary: filename) (auto intro!: keeps_Pair keeps_structure keeps_parse_lines keeps_parse_line)

end

text \<open>An option that has been seen stays seen.\<close>

interpretation cseen: config_frame "\<lambda>st st'. \<forall>k. c_seen st k \<longrightarrow> c_seen st' k"
proof unfold_locales
  show "\<forall>k. c_seen st k \<longrightarrow> c_seen (snd (do_set E ty v st)) k" for E ty v st
    by (auto simp: do_set_def split: prod.split outcome.split)
qed auto

section \<open>The first value wins\<close>

lemma opcode_not_end: "ssh_config_get_opcode keyword \<noteq> SOC_END"
  by (simp add: ssh_config_get_opcode_def ssh_config_keyword_table_def)

lemma inactive_directive:
  assumes "single_valued k" and "k \<noteq> SOC_END" and "\<not> c_parsing st"
  shows "directive E f t k s st = (Ok 0, st)"
  using assms
  by (cases k) (auto simp: single_valued_def directive_def token_directive_def yesno_directive_def hostname_directive_def
      protocol_directive_def agent_directive_def if_token_def get_parsing_def get_options_def guarded_def bnd_def Let_def
      split: option.split)

lemma repeated_line:
  assumes "has_opcode line k" and "single_valued k" and "c_seen st k"
  shows "ssh_config_parse_line E f t line st = (Ok 0, st)"
proof -
  have "k \<noteq> SOC_MATCH" and "k \<noteq> SOC_END"
    using assms opcode_not_end by (auto simp: single_valued_def has_opcode_def)
  then show ?thesis
    using assms inactive_directive [of k st E f t] unfolding parse_line_opcode [OF assms(1)]
    by (simp add: check_seen_def bnd_def)
qed

lemma first_line_seen:
  assumes "has_opcode line k" and "single_valued k" and "c_parsing st"
    and "ssh_config_parse_line E (local_parse_file d E t) t line st = (r, st')"
  shows "c_seen st' k"
proof (cases "c_seen st k")
  case True
  have "cseen.keeps (ssh_config_parse_line E (local_parse_file d E t) t line)"
    by (intro cseen.keeps_parse_line cseen.keeps_local_parse_file)
  from cseen.keepsD [OF this assms(4)] show ?thesis using True by blast
next
  case False
  define st1 where "st1 = st\<lparr>c_seen := (c_seen st)(k := True)\<rparr>"
  define m where "m = (if k = SOC_MATCH then ssh_config_parse_line E (local_parse_file d E t) t (snd (ssh_config_get_token (cleaned line)))
    else directive E (local_parse_file d E t) t k (snd (ssh_config_get_token (cleaned line))))"
  have "m st1 = (r, st')"
    using assms(2-4) False unfolding parse_line_opcode [OF assms(1)] by (simp add: check_seen_def bnd_def st1_def m_def)
  moreover have "cseen.keeps m"
    unfolding m_def by (intro cseen.keeps_if cseen.keeps_parse_line cseen.keeps_directive cseen.keeps_local_parse_file)
  ultimately show ?thesis using cseen.keepsD by (fastforce simp: st1_def)
qed

lemma parse_lines_append:
  "parse_lines g (xs @ ys) = bnd (parse_lines g xs) (\<lambda>go. if go then parse_lines g ys else ret False)"
  by (induction xs) (auto simp: bnd_assoc fun_eq_iff intro!: bnd_cong)

lemma drop_repeated_line:
  fixes d E t
  defines "g \<equiv> ssh_config_parse_line E (local_parse_file d E t) t"
  assumes "has_opcode l1 k" and "has_opcode l2 k" and "single_valued k"
    and "parse_lines g as st0 = (Ok True, st1)" and "c_parsing st1"
  shows "parse_lines g (as @ l1 # bs @ l2 # cs) st0 = parse_lines g (as @ l1 # bs @ cs) st0"
proof -
  obtain r st2 where l1: "g l1 st1 = (r, st2)" by force
  have s2: "c_seen st2 k" using first_line_seen assms l1 unfolding g_def by blast
  have "parse_lines g (bs @ l2 # cs) st2 = parse_lines g (bs @ cs) st2"
  proof -
    obtain r3 st3 where bs: "parse_lines g bs st2 = (r3, st3)" by force
    have "cseen.keeps (parse_lines g bs)"
      unfolding g_def by (intro cseen.keeps_parse_lines cseen.keeps_parse_line cseen.keeps_local_parse_file)
    then have "c_seen st3 k" using bs s2 cseen.keepsD by fastforce
    then have "g l2 st3 = (Ok 0, st3)" using repeated_line assms(3,4) unfolding g_def by blast
    then show ?thesis unfolding parse_lines_append using bs by (cases r3) (auto simp: bnd_def)
  qed
  then have "parse_lines g (l1 # bs @ l2 # cs) st1 = parse_lines g (l1 # bs @ cs) st1"
    using l1 by (cases r) (auto simp: bnd_def)
  then show ?thesis using assms(5) by (simp add: parse_lines_append [of g as] bnd_def)
qed

lemma parse_file_eq:
  assumes "filename = [] \<or> hd filename \<noteq> CHR ''~''" and "CHR 0x00 \<notin> set filename" and "read_file E filename = Some lines"
  shows "parse_ssh_config_file d E t filename options =
    (case parse_lines (ssh_config_parse_line E (local_parse_file d E t) t) lines (config_start options) of
       (r, st) \<Rightarrow> (case r of Ok b \<Rightarrow> Ok (if b then 0 else -1) | _ \<Rightarrow> lift_bad r, c_options st))"
  using assms by (auto simp: parse_ssh_config_file_def c_str_id ssh_path_expand_tilde_def bnd_def)

text \<open>A path that is taken as it is.\<close>

definition plain_path :: "string \<Rightarrow> bool" where
  "plain_path f \<longleftrightarrow> f \<noteq> [] \<and> hd f \<noteq> CHR ''~'' \<and> CHR 0x00 \<notin> set f"

text \<open>
  C23: Within a file the first value of an option wins: once a line for an option has counted, every
  later line for the same option, in this file or after the files it includes, can be taken out
  without any change to the result. \<^verbatim>\<open>LocalForward\<close> and \<^verbatim>\<open>SetEnv\<close> add up instead.\<close>

theorem first_line_wins:
  assumes "plain_path file" and "plain_path shorter"
    and "read_file E file = Some (as @ l1 # bs @ l2 # cs)"
    and "read_file E shorter = Some (as @ l1 # bs @ cs)"
    and "has_opcode l1 k" and "has_opcode l2 k" and "single_valued k"
    and "parse_lines (ssh_config_parse_line E (local_parse_file d E t) t) as (config_start options) = (Ok True, st)"
    and "c_parsing st"
  shows "parse_ssh_config_file d E t file options = parse_ssh_config_file d E t shorter options"
  using assms drop_repeated_line [of l1 k l2 E d t as "config_start options" st bs cs]
  by (simp add: parse_file_eq plain_path_def)

definition example_env :: config_env where
  "example_env = no_system\<lparr>read_file := (\<lambda>f.
     if f = ''config'' then Some [''  User alice'', ''Port 22'', ''User bob'']
     else if f = ''shorter'' then Some [''  User alice'', ''Port 22''] else None)\<rparr>"

theorem first_line_wins_witness:
  "parse_ssh_config_file 1 example_env (Some ''h'') ''config'' Options_empty =
   parse_ssh_config_file 1 example_env (Some ''h'') ''shorter'' Options_empty"
proof (rule first_line_wins [where as = "[]" and ?l1.0 = "''  User alice''" and bs = "[''Port 22'']"
      and ?l2.0 = "''User bob''" and cs = "[]" and k = SOC_USERNAME])
  show "plain_path ''config''" "plain_path ''shorter''" by code_simp+
  show "read_file example_env ''config'' = Some ([] @ ''  User alice'' # [''Port 22''] @ ''User bob'' # [])"
    "read_file example_env ''shorter'' = Some ([] @ ''  User alice'' # [''Port 22''] @ [])"
    by (simp_all add: example_env_def)
  show "has_opcode ''  User alice'' SOC_USERNAME" "has_opcode ''User bob'' SOC_USERNAME" "single_valued SOC_USERNAME"
    by code_simp+
  show "parse_lines (ssh_config_parse_line example_env (local_parse_file 1 example_env (Some ''h'')) (Some ''h''))
      [] (config_start Options_empty) = (Ok True, config_start Options_empty)" by simp
  show "c_parsing (config_start Options_empty)" by (simp add: config_start_def)
qed

section \<open>The range of every option\<close>

text \<open>
  The types the options have: flags are 0 or 1, numbers lie in their range, and a variable name holds no equals sign.
\<close>

definition is_int32 :: "int \<Rightarrow> bool" where
  "is_int32 x \<longleftrightarrow> - (2 ^ 31) \<le> x \<and> x < 2 ^ 31"

definition options_ok :: "Options \<Rightarrow> bool" where
  "options_ok options \<longleftrightarrow> 0 \<le> o_port options \<and> o_port options < 2 ^ 16 \<and> 0 \<le> o_timeout options \<and> o_timeout options < 2 ^ 31 \<and>
     {o_StrictHostKeyChecking options, o_ssh1 options, o_ssh2 options, o_gss_delegate_creds options, o_forward_agent options} \<subseteq> {0, 1} \<and>
     (\<forall>(a, b)\<in>set (o_local_forwards options). is_int32 a \<and> is_int32 b) \<and>
     (\<forall>(name, val)\<in>set (o_env_vars options). CHR ''='' \<notin> set name)"

lemma strtok_int32: "is_int32 (atoi s)"
  using to_int32_bounds by (auto simp: atoi_def is_int32_def split: option.split)

lemma flag_mod [simp]: "n \<in> {0, 1} \<Longrightarrow> (n :: int) mod 2 ^ 16 = n" "n \<in> {0, 1} \<Longrightarrow> (n :: int) mod 2 ^ 8 = n"
  by auto

lemma options_ok_update [simp]:
  "options_ok (p\<lparr>o_username := x\<rparr>) = options_ok p" "options_ok (p\<lparr>o_host := x\<rparr>) = options_ok p"
  "options_ok (p\<lparr>o_knownhosts := x\<rparr>) = options_ok p" "options_ok (p\<lparr>o_ProxyCommand := x\<rparr>) = options_ok p"
  "options_ok (p\<lparr>o_ProxyJump := x\<rparr>) = options_ok p" "options_ok (p\<lparr>o_gss_server_identity := x\<rparr>) = options_ok p"
  "options_ok (p\<lparr>o_gss_client_identity := x\<rparr>) = options_ok p" "options_ok (p\<lparr>o_identity_agent := x\<rparr>) = options_ok p"
  by (simp_all add: options_ok_def)

lemma options_ok_number:
  assumes "options_ok p"
  shows "options_ok (p\<lparr>o_port := n mod 2 ^ 16\<rparr>)" "0 \<le> n \<Longrightarrow> n < 2 ^ 31 \<Longrightarrow> options_ok (p\<lparr>o_timeout := n mod 2 ^ 32\<rparr>)"
    "n \<in> {0, 1} \<Longrightarrow> options_ok (p\<lparr>o_StrictHostKeyChecking := n\<rparr>)" "n \<in> {0, 1} \<Longrightarrow> options_ok (p\<lparr>o_ssh1 := n\<rparr>)"
    "n \<in> {0, 1} \<Longrightarrow> options_ok (p\<lparr>o_ssh2 := n mod 2 ^ 16\<rparr>)" "n \<in> {0, 1} \<Longrightarrow> options_ok (p\<lparr>o_gss_delegate_creds := n mod 2 ^ 8\<rparr>)"
    "n \<in> {0, 1} \<Longrightarrow> options_ok (p\<lparr>o_forward_agent := n mod 2 ^ 8\<rparr>)"
  using assms by (auto simp: options_ok_def)

lemma options_ok_text:
  assumes "options_ok options"
  shows "options_ok (set_host s options)" "options_ok (add_forward s options)" "options_ok (add_env s options)"
proof -
  show "options_ok (set_host s options)" using assms by (simp add: set_host_def split: option.split)
  show "options_ok (add_forward s options)"
    using assms strtok_int32 by (auto simp: add_forward_def options_ok_def split: option.split list.split)
  show "options_ok (add_env s options)"
    using assms str_find_Some by (auto simp: add_env_def options_ok_def split: option.split)
qed

lemma options_ok_str:
  assumes "options_ok options"
    and "ty \<in> {SSH_OPTIONS_HOST, SSH_OPTIONS_PORT_STR, SSH_OPTIONS_USER, SSH_OPTIONS_PROXYJUMP, SSH_OPTIONS_KNOWNHOSTS,
        SSH_OPTIONS_PROXYCOMMAND, SSH_OPTIONS_GSSAPI_SERVER_IDENTITY, SSH_OPTIONS_GSSAPI_CLIENT_IDENTITY,
        SSH_OPTIONS_IDENTITYAGENT, SSH_OPTIONS_LOCALFORWARD, SSH_OPTIONS_SETENV}"
  shows "options_ok (snd (ssh_options_set E ty (StrV s) options))"
proof -
  have tx: "options_ok (snd (with_text (StrV s) f options))" if "options_ok (f s options)" for f
    using that assms(1) by (simp add: with_text_def str_value_def mod_options_def)
  have port: "options_ok (snd (set_port_str (StrV s) options))"
    using options_ok_number(1) [OF assms(1)] assms(1)
    by (simp add: set_port_str_def str_value_def mod_options_def Let_def split: option.split)
  have "options_ok (snd (set_user E (StrV s) options))" "options_ok (snd (set_knownhosts E (StrV s) options))"
      "options_ok (snd (set_proxyjump (StrV s) options))"
    using assms(1) by (simp_all add: set_user_def set_knownhosts_def set_proxyjump_def with_text_def str_value_def mod_options_def bnd_def)
  then show ?thesis
    using assms(2) tx port options_ok_text [OF assms(1)] assms(1)
    by (elim insertE emptyE) (simp_all add: ssh_options_set_def)
qed

lemma options_ok_int:
  assumes "options_ok options" and "n \<in> {0, 1}"
    and "ty \<in> {SSH_OPTIONS_SSH1, SSH_OPTIONS_SSH2, SSH_OPTIONS_STRICTHOSTKEYCHECK, SSH_OPTIONS_GSSAPI_DELEGATE_CREDENTIALS,
        SSH_OPTIONS_FORWARDAGENT}"
  shows "options_ok (snd (ssh_options_set E ty (IntV n) options))"
  using assms(3) options_ok_number(3-7) [OF assms(1), OF assms(2)] assms(1)
  by (elim insertE emptyE) (simp_all add: ssh_options_set_def with_number_def int_value_def mod_options_def)

lemma options_ok_set:
  assumes "options_ok options" and "parser_value ty v"
  shows "options_ok (snd (ssh_options_set E ty v options))"
proof (cases v)
  case (LongV n)
  then show ?thesis
    using assms options_ok_number(2) [OF assms(1), of n]
    by (simp add: parser_value_def ssh_options_set_def with_number_def long_value_def mod_options_def)
qed (use assms options_ok_str [OF assms(1)] options_ok_int [OF assms(1)] in \<open>simp_all add: parser_value_def\<close>)

interpretation cok: config_frame "\<lambda>st st'. options_ok (c_options st) \<longrightarrow> options_ok (c_options st')"
proof unfold_locales
  show "options_ok (c_options st) \<longrightarrow> options_ok (c_options (snd (do_set E ty v st)))" if "parser_value ty v" for E ty v st
    using options_ok_set [OF _ that, of "c_options st" E] by (auto simp: do_set_def split: prod.split outcome.split)
qed auto

lemma expand_tilde_pure: "\<exists>q. ssh_path_expand_tilde E d s = (q, s)"
proof -
  have "\<exists>q. ssh_get_user_home_dir E s = (q, s)" by (cases "getpwuid E") (simp_all add: ssh_get_user_home_dir_def)
  then obtain q where "ssh_get_user_home_dir E s = (q, s)" by blast
  then show ?thesis
    by (cases q) (simp_all add: ssh_path_expand_tilde_def bnd_def Let_def split: option.split nat.split)
qed

text \<open>
  C24: Whatever a configuration file holds and however the reading of it ends, the options stay
  well-typed: the port within 16 bits, the time limit within 31, the flags 0 or 1, the ports of the
  forwards within an \<^verbatim>\<open>int\<close>, and no variable name with an equals sign.\<close>

theorem config_options_typed:
  assumes "options_ok options"
  shows "options_ok (snd (parse_ssh_config_file depth E target filename options))"
proof -
  define g where "g = ssh_config_parse_line E (local_parse_file depth E target) target"
  have keeps: "cok.keeps (parse_lines g lines)" for lines
    unfolding g_def by (intro cok.keeps_parse_lines cok.keeps_parse_line cok.keeps_local_parse_file)
  have *: "options_ok (c_options st)" if run: "parse_lines g lines (config_start options) = (r, st)" for lines r st
    using cok.keepsD [OF keeps [of lines] run] assms by (simp add: config_start_def)
  obtain q where tilde: "ssh_path_expand_tilde E (c_str filename) options = (q, options)"
    using expand_tilde_pure [of E "c_str filename" options] by blast
  show ?thesis
  proof (cases "\<exists>f lines. q = Ok (Some f) \<and> read_file E f = Some lines")
    case True
    then obtain f lines where f: "q = Ok (Some f)" "read_file E f = Some lines" by blast
    obtain r st where st: "parse_lines g lines (config_start options) = (r, st)" by force
    then have "snd (parse_ssh_config_file depth E target filename options) = c_options st"
      unfolding parse_ssh_config_file_def g_def [symmetric] using tilde f by (simp add: bnd_def)
    then show ?thesis using * [OF st] by simp
  next
    case False
    then have "snd (parse_ssh_config_file depth E target filename options) = options"
      unfolding parse_ssh_config_file_def bnd_def tilde by (cases q) (auto split: option.split)
    then show ?thesis using assms by simp
  qed
qed

theorem config_options_typed_witness:
  "options_ok (snd (parse_ssh_config_file 1 example_env (Some ''h'') ''config'' Options_empty))"
  by (rule config_options_typed) (simp add: options_ok_def Options_empty_def)

section \<open>Where the code differs from ssh\<close>

text \<open>A host name without escapes, user and tilde.\<close>

definition plain_name :: "string \<Rightarrow> bool" where
  "plain_name n \<longleftrightarrow> plain_word n \<and> length n < MAX_BUF_SIZE \<and> (\<forall>c\<in>set n. c \<noteq> CHR ''%'' \<and> c \<noteq> CHR ''~'' \<and> c \<noteq> CHR ''@'')"

lemma expand_loop_plain:
  "\<forall>c\<in>set p. c \<noteq> CHR ''%'' \<Longrightarrow> length buf + length p < MAX_BUF_SIZE \<Longrightarrow>
     expand_loop E options p buf s = (Ok (Some (buf @ p)), s)"
  by (induction p arbitrary: buf) auto

lemma expand_plain_name: "plain_name n \<Longrightarrow> ssh_path_expand_escape E options n s = (Ok (Some n), s)"
proof -
  assume n: "plain_name n"
  then have "n \<noteq> []" "hd n \<in> set n" by (auto simp: plain_name_def plain_word_def)
  then have "ssh_path_expand_tilde E n s = (Ok (Some n), s)"
    using n by (auto simp: ssh_path_expand_tilde_def plain_name_def)
  then show ?thesis
    using n expand_loop_plain [of n "[]" E options s] by (simp add: ssh_path_expand_escape_def plain_name_def bnd_def)
qed

lemma hostname_line:
  assumes "plain_name n" and "c_parsing st" and "\<not> c_seen st SOC_HOSTNAME"
  shows "ssh_config_parse_line E f t (unwords [''HostName'', n]) st =
    (Ok 0, st\<lparr>c_seen := (c_seen st)(SOC_HOSTNAME := True), c_options := (c_options st)\<lparr>o_host := Some n\<rparr>\<rparr>)"
proof -
  have w: "plain_word ''HostName''" "ssh_config_get_opcode ''HostName'' = SOC_HOSTNAME" by code_simp+
  have n: "plain_word n" "n \<noteq> []" "str_find CHR ''@'' n = None"
    using assms(1) by (auto simp: plain_name_def plain_word_def str_find_None_iff)
  have "ssh_config_get_str_tok n = (Some n, [])" using str_tok_unwords [of n "[]"] n by simp
  then have "directive E f t SOC_HOSTNAME n st' = (Ok 0, st'\<lparr>c_options := (c_options st')\<lparr>o_host := Some n\<rparr>\<rparr>)" if "c_parsing st'" for st'
    using that n
    by (simp add: expand_plain_name [OF assms(1)] directive_def hostname_directive_def if_token_def get_parsing_def get_options_def guarded_def bnd_def
        do_set_def ssh_options_set_def with_text_def str_value_def mod_options_def set_host_def)
  then show ?thesis
    using assms(2,3) parse_line_words [OF w(1) _ _ w(2), of "[n]" E f t] n
    by (simp add: check_seen_def single_valued_def bnd_def)
qed

text \<open>
  The user's configuration does not win over that of the system: \<^verbatim>\<open>main\<close> reads the user's file first and
  the system's second, but what has been seen is forgotten between the files, so that the second
  \<^verbatim>\<open>HostName\<close> replaces the first.\<close>

lemma second_file_overrides:
  assumes "plain_name n" and "plain_name m" and "plain_path user_file" and "plain_path system_file"
    and "read_file E user_file = Some [unwords [''HostName'', n]]"
    and "read_file E system_file = Some [unwords [''HostName'', m]]"
  shows "bnd (parse_ssh_config_file d E t user_file) (\<lambda>_. parse_ssh_config_file d E t system_file) options =
    (Ok 0, options\<lparr>o_host := Some m\<rparr>)"
  using assms hostname_line [of n "config_start options" E "local_parse_file d E t" t]
    hostname_line [of m "config_start (options\<lparr>o_host := Some n\<rparr>)" E "local_parse_file d E t" t]
  by (simp add: bnd_def parse_file_eq plain_path_def config_start_def del: unwords.simps)

lemma second_file_overrides_example:
  "bnd (parse_ssh_config_file 1 (no_system\<lparr>read_file := \<lambda>f. if f = ''/u'' then Some [unwords [''HostName'', ''mine'']]
      else if f = ''/s'' then Some [unwords [''HostName'', ''theirs'']] else None\<rparr>) (Some ''h'') ''/u'')
    (\<lambda>_. parse_ssh_config_file 1 (no_system\<lparr>read_file := \<lambda>f. if f = ''/u'' then Some [unwords [''HostName'', ''mine'']]
      else if f = ''/s'' then Some [unwords [''HostName'', ''theirs'']] else None\<rparr>) (Some ''h'') ''/s'') Options_empty =
    (Ok 0, Options_empty\<lparr>o_host := Some ''theirs''\<rparr>)"
  by (rule second_file_overrides [where n = "''mine''"]) (code_simp | simp)+

text \<open>A \<^verbatim>\<open>Match\<close> line is read as the line of its criterion: \<open>Match user bob\<close> sets the user name.\<close>

lemma match_line_is_directive:
  assumes "plain_word name" and "c_parsing st" and "\<not> c_seen st SOC_USERNAME" and "o_username (c_options st) = None"
  shows "c_options (snd (ssh_config_parse_line E f t (unwords [''Match'', ''user'', name]) st)) =
    (c_options st)\<lparr>o_username := Some name\<rparr>"
proof -
  have w: "plain_word ''Match''" "ssh_config_get_opcode ''Match'' = SOC_MATCH" "plain_word ''user''"
    "ssh_config_get_opcode ''user'' = SOC_USERNAME" by code_simp+
  have "ssh_config_get_str_tok name = (Some name, [])" "name \<noteq> []"
    using str_tok_unwords [of name "[]"] assms(1) by (simp_all add: plain_word_def)
  moreover have "ssh_config_parse_line E f t (unwords [''Match'', ''user'', name]) st = ssh_config_parse_line E f t (unwords [''user'', name]) st"
    using parse_line_words [OF w(1) _ _ w(2), of "[''user'', name]" E f t] w assms(1)
    by (simp add: check_seen_def single_valued_def bnd_def del: unwords.simps)
  ultimately show ?thesis
    using parse_line_words [OF w(3) _ _ w(4), of "[name]" E f t] assms
    by (simp add: check_seen_def single_valued_def bnd_def directive_def token_directive_def if_token_def get_parsing_def
        get_options_def guarded_def do_set_def ssh_options_set_def set_user_def str_value_def mod_options_def)
qed

text \<open>A file that includes itself overflows the stack, however large it is.\<close>

lemma include_cycle_overflows:
  assumes "plain_word name" and "plain_path name" and "CHR ''*'' \<notin> set name" and "CHR ''?'' \<notin> set name"
    and "read_file E name = Some (unwords [''Include'', name] # lines)"
  shows "fst (parse_ssh_config_file depth E t name options) = Abort ''stack overflow''"
proof -
  have w: "plain_word ''Include''" "ssh_config_get_opcode ''Include'' = SOC_INCLUDE" by code_simp+
  have "ssh_config_get_str_tok name = (Some name, [])" using str_tok_unwords [of name "[]"] assms(1) by simp
  then have line: "ssh_config_parse_line E f t (unwords [''Include'', name]) st = bnd (f name) (\<lambda>_. ret 0) st" for f st
    using parse_line_words [OF w(1) _ _ w(2), of "[name]" E f t] assms(1-4)
    by (simp add: check_seen_def single_valued_def bnd_def directive_def include_file_def ssh_path_expand_tilde_def plain_path_def)
  have nest: "local_parse_file k E t name st = (Abort ''stack overflow'', st)" for k st
    by (induction k arbitrary: st) (simp_all add: assms(5) line bnd_def del: unwords.simps)
  show ?thesis
    using assms(2,5) by (simp add: parse_file_eq plain_path_def line nest bnd_def del: unwords.simps)
qed

text \<open>A variable without quotes is dropped: the token of \<open>SetEnv NAME=value\<close> ends at the equals sign.\<close>

lemma setenv_dropped:
  assumes "plain_word name" and "plain_word val"
  shows "ssh_config_parse_line E f t (unwords [''SetEnv'', name] @ ''='' @ val) st = (Ok 0, st)"
proof -
  have w: "plain_word ''SetEnv''" "ssh_config_get_opcode ''SetEnv'' = SOC_SETENV" "ends_word CHR ''=''" "ends_word CHR '' ''"
    by code_simp+
  define line where "line = unwords [''SetEnv'', name] @ ''='' @ val"
  have "set line \<subseteq> set ''SetEnv ='' \<union> set name \<union> set val" by (auto simp: line_def)
  moreover have "CHR 0x00 \<notin> set ''SetEnv =''" by code_simp
  ultimately have "CHR 0x00 \<notin> set line"
    using plain_char(7) [OF assms(1), of "CHR 0x00"] plain_char(7) [OF assms(2), of "CHR 0x00"] by blast
  moreover have "\<not> is_space (last line)" "line \<noteq> []"
    using assms plain_char(2) [OF assms(2)] by (simp_all add: line_def plain_word_def)
  ultimately have "cleaned line = line" by (auto simp: cleaned_def c_str_id strip_trailing_id)
  moreover have "ssh_config_get_token line = (''SetEnv'', name @ CHR ''='' # val)"
  proof -
    have "hd name \<in> set name" "name \<noteq> []" using assms(1) by (auto simp: plain_word_def)
    then have "skip_between h (name @ r) = name @ r" for h r
      using plain_char [OF assms(1)] by (cases name) auto
    then show ?thesis using token_of_word(1) [OF w(1,4), of "name @ CHR ''='' # val"] by (simp add: line_def)
  qed
  ultimately have "ssh_config_parse_line E f t line st = directive E f t SOC_SETENV (name @ CHR ''='' # val) st"
    using parse_line_opcode [of line SOC_SETENV E f t] w(2)
    by (simp add: has_opcode_def keyword_of_def check_seen_def single_valued_def bnd_def newline_def)
  moreover have "fst (ssh_config_get_str_tok (name @ CHR ''='' # val)) = Some name"
    using token_of_word(1) [OF assms(1) w(3), of val] assms(1) by (simp add: ssh_config_get_str_tok_def plain_word_def)
  moreover have "CHR ''='' \<notin> set name" "name \<noteq> []" using assms(1) by (auto simp: plain_word_def)
  ultimately show ?thesis
    unfolding line_def [symmetric]
    by (simp add: directive_def token_directive_def if_token_def get_parsing_def guarded_def bnd_def do_set_def ssh_options_set_def
        with_text_def str_value_def mod_options_def add_env_def str_find_None_iff [THEN iffD2])
qed

end
