(* ===== verification/ET_Setup.thy ===== *)
theory ET_Setup
  imports ET_Client ET_ConfigFile
begin

text \<open>
  How a session starts: the ssh call of the client (\<^verbatim>\<open>terminal/SshSetupHandler.cpp\<close>, \<^verbatim>\<open>base/SubprocessUtils.cpp\<close>),
  the id at its other end (\<^verbatim>\<open>terminal/TerminalMain.cpp\<close>), and what the programs make of their arguments
  (\<^verbatim>\<open>terminal/TerminalClientMain.cpp\<close>, \<^verbatim>\<open>base/DaemonCreator.cpp\<close>). The parsed command
  line, which a library gives, is a record of the values the code asks for; the usage and the reason that are
  printed before an exit on a wrong command line are left out. The lemmas show that both
  ends agree on the id and the passkey.
\<close>

section \<open>Random names\<close>

definition alphanum :: string where
  "alphanum = ''0123456789ABCDEFGHIJKLMNOPQRSTUVWXYZabcdefghijklmnopqrstuvwxyz''"

text \<open>\<^verbatim>\<open>randombytes_uniform(n)\<close> of libsodium: a number below \<open>n\<close>.\<close>

definition randombytes_uniform :: "nat \<Rightarrow> (world, nat) prog" where
  "randombytes_uniform n = bnd sys_int (\<lambda>v. ret (nat v mod n))"

primrec genRandomAlphaNum :: "nat \<Rightarrow> (world, string) prog" where
  "genRandomAlphaNum 0 = ret []"
| "genRandomAlphaNum (Suc len) = bnd (randombytes_uniform (length alphanum)) (\<lambda>i.
     bnd (genRandomAlphaNum len) (\<lambda>s. ret (alphanum ! i # s)))"

lemma alphanum_chars: "c \<in> set alphanum \<Longrightarrow> c \<noteq> CHR ''/'' \<and> c \<noteq> CHR ''_'' \<and> c \<noteq> CHR '':'' \<and> \<not> is_space c"
proof -
  have "\<forall>c\<in>set alphanum. c \<noteq> CHR ''/'' \<and> c \<noteq> CHR ''_'' \<and> c \<noteq> CHR '':'' \<and> \<not> is_space c" by code_simp
  then show "c \<in> set alphanum \<Longrightarrow> c \<noteq> CHR ''/'' \<and> c \<noteq> CHR ''_'' \<and> c \<noteq> CHR '':'' \<and> \<not> is_space c" by blast
qed

lemma genRandomAlphaNum_result:
  "genRandomAlphaNum len w = (Ok s, w') \<Longrightarrow> length s = len \<and> set s \<subseteq> set alphanum"
proof (induction len arbitrary: s w)
  case (Suc len)
  have "length alphanum > 0" by code_simp
  then have "alphanum ! (v mod length alphanum) \<in> set alphanum" for v by simp
  then show ?case using Suc.prems by (auto simp: randombytes_uniform_def elim!: bnd_eq_OkE dest!: Suc.IH) (metis subsetD)
qed simp

section \<open>A child process and its output\<close>

function read_output :: "int \<Rightarrow> string \<Rightarrow> (world, string) prog" where
  "read_output fd sshBuffer w = bnd (sys_read fd 4096) (\<lambda>rd w1.
     if fst rd \<le> 0 then (Ok sshBuffer, w1) else read_output fd (sshBuffer @ snd rd) w1) w"
  by pat_completeness auto
termination
  by (relation "measure (\<lambda>(fd, b, w). length (script w))") (auto dest: script_shrinks(5))

declare read_output.simps [simp del]

text \<open>In the child, the process becomes the command, or ends with \<^verbatim>\<open>exit(1)\<close>.\<close>

definition SubprocessToStringInteractive :: "string \<Rightarrow> string list \<Rightarrow> (world, string) prog" where
  "SubprocessToStringInteractive command args = bnd sys_open (\<lambda>link_client.
     if link_client = -1 then fail (Abort ''pipe'')
     else bnd (emit (Note (unwords (command # args)))) (\<lambda>_. bnd sys_int (\<lambda>pid.
       if pid = 0 then fail (Exit 1)
       else if pid > 0 then bnd sys_int (\<lambda>_. bnd sys_int (\<lambda>_. read_output link_client []))
       else fail (Exit 1))))"

section \<open>SshSetupHandler\<close>

definition ETTERMINAL_BIN :: string where "ETTERMINAL_BIN = ''etterminal''"

definition genCommand :: "string \<Rightarrow> string \<Rightarrow> string \<Rightarrow> string \<Rightarrow> bool \<Rightarrow> string \<Rightarrow> string \<Rightarrow> string" where
  "genCommand passkey i clientTerm user kill etterminal_path options =
     (if kill then ''pkill etterminal -u '' @ user @ ''; sleep 0.5; '' else []) @
     ''echo '' @ quote @ i @ ''/'' @ passkey @ ''_'' @ clientTerm @ quote @ '' | '' @
     (if etterminal_path = [] then ETTERMINAL_BIN else etterminal_path) @ '' '' @ options"

definition MARKER :: string where "MARKER = ''IDPASSKEY:''"

text \<open>The length of \<open>id/passkey\<close>.\<close>

definition IDPASSKEY_LENGTH :: nat where "IDPASSKEY_LENGTH = 16 + 1 + 32"

definition split_idpasskey :: "string \<Rightarrow> (string \<times> string) outcome" where
  "split_idpasskey s = (case vec_at (split s CHR ''/'') 0 of
      Ok i \<Rightarrow> (case vec_at (split s CHR ''/'') 1 of Ok k \<Rightarrow> Ok (i, k) | q \<Rightarrow> lift_bad q)
    | q \<Rightarrow> lift_bad q)"

text \<open>What the client makes of the output of ssh.\<close>

definition read_idpasskey :: "string \<Rightarrow> (string \<times> string) outcome" where
  "read_idpasskey sshBuffer =
     (if sshBuffer = [] then
        Throw (RuntimeError ''Error starting ET process through ssh, please make sure your ssh works first'')
      else case str_find_sub MARKER sshBuffer of
          None \<Rightarrow> Throw (RuntimeError (''Error in authentication with etserver, please make sure you don'' @ quote @ ''t print anything in server'' @
            quote @ ''s .bashrc/.zshrc. Server output: '' @ sshBuffer))
        | Some passKeyIndex \<Rightarrow> split_idpasskey (take IDPASSKEY_LENGTH (drop (passKeyIndex + 10) sshBuffer)))"

text \<open>\<^verbatim>\<open>s.erase(s.find_last_not_of(" \n\r\t") + 1)\<close>.\<close>

definition trim_end :: "string \<Rightarrow> string" where
  "trim_end s = rev (dropWhile (\<lambda>c. c \<in> {CHR '' '', CHR 0x0A, CHR 0x0D, CHR 0x09}) (rev s))"

definition read_jump_idpasskey :: "string \<Rightarrow> (string \<times> string) outcome" where
  "read_jump_idpasskey sshLinkBuffer = (case vec_at (split sshLinkBuffer CHR '':'') 1 of
      Ok s \<Rightarrow> split_idpasskey (take IDPASSKEY_LENGTH (trim_end s))
    | q \<Rightarrow> lift_bad q)"

definition fifo_option :: "string \<Rightarrow> string" where
  "fifo_option f = (if f = [] then [] else '' --serverfifo='' @ f)"

text \<open>The destination and the port of the jump host for ssh, whose brackets ssh does not take.\<close>

definition jump_destination :: "ParsedHostString \<Rightarrow> string" where
  "jump_destination p =
     (let h = hs_host p;
          addr = (if 2 \<le> length h \<and> hd h = CHR ''['' \<and> last h = CHR '']'' then butlast (tl h) else h)
      in if hs_user p = [] then addr else hs_user p @ ''@'' @ addr)"

record SshSetup =
  ss_user :: string
  ss_host :: string
  ss_host_alias :: string
  ss_port :: int
  ss_jumphost :: string
  ss_jServerFifo :: string
  ss_kill :: bool
  ss_vlevel :: int
  ss_cmd_prefix :: string
  ss_serverFifo :: string
  ss_ssh_options :: "string list"

definition ssh_args :: "SshSetup \<Rightarrow> string \<Rightarrow> string list" where
  "ssh_args a script_dst = (if ss_jumphost a \<noteq> [] then [''-J'', ss_jumphost a] else []) @
     [(if ss_user a \<noteq> [] then ss_user a @ ''@'' else []) @ ss_host_alias a] @
     map (\<lambda>o'. ''-o'' @ o') (ss_ssh_options a) @ [script_dst]"

definition jump_ssh_args :: "SshSetup \<Rightarrow> string \<Rightarrow> string list" where
  "jump_ssh_args a script_jump = (let p = parseHostString (ss_jumphost a) in
     (if hs_portSuffix p \<noteq> [] then [''-p'', drop 1 (hs_portSuffix p)] else []) @
     map (\<lambda>o'. ''-o'' @ o') (ss_ssh_options a) @ [jump_destination p, script_jump])"

text \<open>An error is printed and the pair \<open>own\<close> stays as it is.\<close>

definition or_keep :: "(string \<times> string) \<Rightarrow> (string \<times> string) outcome \<Rightarrow> (world, string \<times> string) prog" where
  "or_keep own r = catch_runtime (outcome_prog r) (\<lambda>e. bnd (emit (Console (''Error initializing connection'' @ e @ [newline]))) (\<lambda>_. ret own))"

text \<open>What is printed before an error is thrown.\<close>

definition ssh_complaint :: "string \<Rightarrow> (world, unit) prog" where
  "ssh_complaint sshBuffer =
     (if sshBuffer = [] then
        emit (Console (''Error starting ET process through ssh, please make sure your ssh works first'' @ [newline]))
      else if str_find_sub MARKER sshBuffer = None then
        emit (Console (''Error in authentication with etserver: '' @ sshBuffer @ '', please make sure you don'' @ quote @
          ''t print anything in server'' @ quote @ ''s .bashrc/.zshrc'' @ [newline]))
      else ret ())"

definition start_jump :: "SshSetup \<Rightarrow> string \<Rightarrow> string \<times> string \<Rightarrow> (world, string \<times> string) prog" where
  "start_jump a clientTerm own =
     (if ss_jumphost a = [] then ret own
      else bnd (SubprocessToStringInteractive ''ssh'' (jump_ssh_args a
             (genCommand (snd own) (fst own) clientTerm (ss_user a) (ss_kill a) (ss_cmd_prefix a)
               (''--verbose='' @ decimal (ss_vlevel a) @ fifo_option (ss_jServerFifo a) @ '' --jump --dsthost='' @ ss_host a @
                '' --dstport='' @ decimal (ss_port a))))) (\<lambda>sshLinkBuffer.
        if sshLinkBuffer = [] then
          bnd (emit (Console (''etserver jumpclient failed to start'' @ [newline]))) (\<lambda>_. fail (Throw (RuntimeError ''etserver jumpclient failed to start'')))
        else or_keep own (read_jump_idpasskey sshLinkBuffer)))"

definition SetupSsh :: "SshSetup \<Rightarrow> (world, string \<times> string) prog" where
  "SetupSsh a = bnd sys_getenv (\<lambda>envString.
     let clientTerm = get_or ''xterm-256color'' envString in
     bnd (genRandomAlphaNum 32) (\<lambda>passkey.
     bnd (genRandomAlphaNum 16) (\<lambda>gen.
     let own = (''XXX'' @ drop 3 gen, passkey) in
     bnd (SubprocessToStringInteractive ''ssh'' (ssh_args a
            (genCommand (snd own) (fst own) clientTerm (ss_user a) (ss_kill a) (ss_cmd_prefix a)
              (''--verbose='' @ decimal (ss_vlevel a) @ fifo_option (ss_serverFifo a))))) (\<lambda>sshBuffer.
     bnd (ssh_complaint sshBuffer) (\<lambda>_.
     bnd (or_keep own (read_idpasskey sshBuffer)) (\<lambda>got.
     bnd (start_jump a clientTerm got) (\<lambda>final.
     if fst final = [] \<or> snd final = [] then fail (Abort ''Somehow missing id or passkey'') else ret final)))))))"

section \<open>TerminalMain: the id and the passkey of a terminal\<close>

function select_stdin :: "(world, int) prog" where
  "select_stdin w = bnd sys_int (\<lambda>n w1.
     if n < 0 \<and> errno_now w1 = EINTR then select_stdin w1 else (Ok n, w1)) w"
  by pat_completeness auto
termination
  by (relation "measure (\<lambda>w. length (script w))") (auto dest: script_shrinks(3))

declare select_stdin.simps [simp del]

text \<open>\<^verbatim>\<open>getline(cin, stdinData)\<close>: a line, or the end of the input.\<close>

definition sys_getline :: "(world, string option) prog" where
  "sys_getline = bnd syscall (\<lambda>a. case a of Ret _ s \<Rightarrow> ret (Some s) | Err _ \<Rightarrow> ret None)"

definition new_idpasskey :: "(world, string) prog" where
  "new_idpasskey = bnd (genRandomAlphaNum 32) (\<lambda>passkey. bnd (genRandomAlphaNum 16) (\<lambda>i. ret (i @ ''/'' @ passkey)))"

text \<open>The line a client sends: \<open>id/passkey_TERM\<close>. An id that starts with \<open>XXX\<close> asks for new values.\<close>

definition line_idpasskey :: "string \<Rightarrow> (world, string) prog" where
  "line_idpasskey stdinData = (case split stdinData CHR ''_'' of
      [idpasskey, clientTerm] \<Rightarrow>
        bnd (if take 3 idpasskey = ''XXX'' then new_idpasskey else ret idpasskey) (\<lambda>ip.
        bnd (emit (Note (''TERM='' @ clientTerm))) (\<lambda>_. bnd (FATAL_FAIL sys_int) (\<lambda>_. ret ip)))
    | _ \<Rightarrow> fail (Abort ''Invalid number of tokens''))"

definition stdin_idpasskey :: "(world, string) prog" where
  "stdin_idpasskey = bnd (FATAL_FAIL select_stdin) (\<lambda>n.
     if n = 0 then fail (Exit 1)
     else bnd sys_getline (\<lambda>l. case l of None \<Rightarrow> fail (Exit 1) | Some stdinData \<Rightarrow> line_idpasskey stdinData))"

record TerminalArgs =
  ta_help :: bool
  ta_idpasskey :: "string option"
  ta_idpasskeyfile :: "string option"
  ta_jump :: bool
  ta_dsthost :: string
  ta_dstport :: int
  ta_logdir :: string
  ta_logtostdout :: bool
  ta_serverfifo :: string

text \<open>
  With one of the two options a variable of the same name in the inner block takes the value, and the
  outer one stays empty.
\<close>

definition terminal_idpasskey :: "TerminalArgs \<Rightarrow> (world, string) prog" where
  "terminal_idpasskey a = (if ta_idpasskey a = None \<and> ta_idpasskeyfile a = None then stdin_idpasskey else ret [])"

definition terminal_router :: "TerminalArgs \<Rightarrow> SocketEndpoint option outcome" where
  "terminal_router a = (if ta_serverfifo a = [] then Ok (getEndpointForConnect ServerFifoPath_new)
     else case setPathOverride (ta_serverfifo a) ServerFifoPath_new of Ok f \<Rightarrow> Ok (getEndpointForConnect f) | q \<Rightarrow> lift_bad q)"

text \<open>\<^verbatim>\<open>DaemonCreator::createSessionLeader\<close> is the call of \<^verbatim>\<open>daemon\<close>.\<close>

definition createSessionLeader :: "(world, int) prog" where
  "createSessionLeader = sys_int"

definition become_daemon :: "(world, unit) prog" where
  "become_daemon = bnd createSessionLeader (\<lambda>rc. if rc = -1 then fail (Abort ''Error creating daemon'') else ret ())"

definition print_idpasskey :: "string \<Rightarrow> (world, unit) prog" where
  "print_idpasskey idpasskey = emit (Console (MARKER @ idpasskey @ [newline]))"

text \<open>\<open>string(nullptr)\<close> is undefined.\<close>

definition local_username :: "config_env \<Rightarrow> (world, string) prog" where
  "local_username E = bnd (ssh_get_local_username E) (\<lambda>u. case u of None \<Rightarrow> fail (Abort ''undefined: string of a null pointer'') | Some n \<Rightarrow> ret n)"

section \<open>TerminalClientMain\<close>

text \<open>What the command line asks for. An option that may come once only is the list of its values.\<close>

record EtArgs =
  ea_help :: bool
  ea_version :: bool
  ea_username :: "string option"
  ea_port :: int
  ea_host :: "string option"
  ea_jumphost :: "string list"
  ea_keepalive :: "int list"
  ea_jport :: int
  ea_jserverfifo :: string
  ea_serverfifo :: string
  ea_ssh_option :: "string list"
  ea_macserver :: bool
  ea_terminal_path :: "string option"
  ea_no_terminal :: bool
  ea_forward_ssh_agent :: bool
  ea_ssh_socket :: "string option"
  ea_tunnel :: "string list"
  ea_reversetunnel :: "string list"
  ea_kill_other_sessions :: bool
  ea_verbose :: int
  ea_logdir :: string
  ea_logtostdout :: bool
  ea_silent :: bool
  ea_telemetry :: bool
  ea_command :: "string option"
  ea_noexit :: bool

definition extractSingleOptionWithDefault :: "'a list \<Rightarrow> 'a \<Rightarrow> 'a outcome" where
  "extractSingleOptionWithDefault vals defaultValue = (case vals of [] \<Rightarrow> Ok defaultValue | [v] \<Rightarrow> Ok v | _ \<Rightarrow> Exit 0)"

text \<open>The port after the last colon, and the host before it.\<close>

definition with_port :: "string \<Rightarrow> string \<Rightarrow> (string \<times> string \<times> int) outcome" where
  "with_port username host_arg = (case stoi (get_or [] (after_last CHR '':'' host_arg)) of
      Ok p \<Rightarrow> Ok (username, rev (tl (dropWhile (\<lambda>c. c \<noteq> CHR '':'') (rev host_arg))), p)
    | q \<Rightarrow> lift_bad q)"

text \<open>User, host and port of \<^verbatim>\<open>[user@]host[:port]\<close>; the arguments are the values so far.\<close>

definition parse_host_arg :: "string \<Rightarrow> int \<Rightarrow> string \<Rightarrow> (string \<times> string \<times> int) outcome" where
  "parse_host_arg username0 destinationPort host_arg0 =
     (let (username, host_arg) = (case str_find CHR ''@'' host_arg0 of
            None \<Rightarrow> (username0, host_arg0) | Some i \<Rightarrow> (take i host_arg0, drop (i + 1) host_arg0));
          colon_count = length (filter (\<lambda>c. c = CHR '':'') host_arg)
      in if colon_count = 0 then Ok (username, host_arg, destinationPort)
         else if colon_count = 1 then with_port username host_arg
         else if str_find_sub ''::'' host_arg \<noteq> None then Ok (username, host_arg, destinationPort)
         else if colon_count = 7 then Ok (username, host_arg, destinationPort)
         else if colon_count = 8 then with_port username host_arg
         else Exit 1)"

definition USER_SSH_CONFIG_PATH :: string where "USER_SSH_CONFIG_PATH = ''/.ssh/config''"
definition SYSTEM_SSH_CONFIG_PATH :: string where "SYSTEM_SSH_CONFIG_PATH = ''/etc/ssh/ssh_config''"
definition MAX_CLIENT_KEEP_ALIVE_DURATION :: int where "MAX_CLIENT_KEEP_ALIVE_DURATION = 5"

text \<open>The options for a host: first the user's file, then that of the system. \<open>d\<close> is the room on the stack.\<close>

definition read_ssh_config :: "nat \<Rightarrow> config_env \<Rightarrow> string \<Rightarrow> (world, Options) prog" where
  "read_ssh_config d E host = bnd (ssh_get_user_home_dir E) (\<lambda>home_dir. case home_dir of
      None \<Rightarrow> fail (Abort ''undefined: string of a null pointer'')
    | Some home \<Rightarrow> (\<lambda>w.
        case bnd (ssh_options_set E SSH_OPTIONS_HOST (StrV (c_str host))) (\<lambda>_.
             bnd (parse_ssh_config_file d E (Some (c_str host)) (home @ USER_SSH_CONFIG_PATH)) (\<lambda>_.
             parse_ssh_config_file d E (Some (c_str host)) SYSTEM_SSH_CONFIG_PATH)) Options_empty of
          (Ok _, options) \<Rightarrow> (Ok options, w)
        | (q, options) \<Rightarrow> (lift_bad q, w)))"

text \<open>\<^verbatim>\<open>resolveSshConfigHost\<close>: host name and user.\<close>

definition resolveSshConfigHost :: "nat \<Rightarrow> config_env \<Rightarrow> string \<Rightarrow> (world, string \<times> string) prog" where
  "resolveSshConfigHost d E hostAlias = bnd (read_ssh_config d E hostAlias) (\<lambda>opts.
     ret (get_or hostAlias (o_host opts), get_or [] (o_username opts)))"

text \<open>The jump host as ssh wants it, and the endpoint of its server.\<close>

definition resolve_jumphost :: "nat \<Rightarrow> config_env \<Rightarrow> int \<Rightarrow> string \<Rightarrow> (world, string \<times> SocketEndpoint) prog" where
  "resolve_jumphost d E jport jump = (let parsed = parseHostString jump in
     bnd (resolveSshConfigHost d E (hs_host parsed)) (\<lambda>(hostname, username).
     bnd (if hs_user parsed \<noteq> [] then ret (hs_user parsed)
          else if username \<noteq> [] then ret username
          else local_username E) (\<lambda>jumpUser.
     ret (jumpUser @ ''@'' @ hostname @ hs_portSuffix parsed, \<lparr>ep_name = Some hostname, ep_port = Some jport\<rparr>))))"

definition ping :: "SocketEndpoint \<Rightarrow> nat \<Rightarrow> (world, bool) prog" where
  "ping socketEndpoint h = bnd (sh_connect h socketEndpoint) (\<lambda>socketFd.
     if socketFd = -1 then ret False else bnd (Unix_close h socketFd) (\<lambda>_. ret True))"

text \<open>The tunnels of the command line with those of the \<^verbatim>\<open>LocalForward\<close> lines.\<close>

definition add_local_forwards :: "(int \<times> int) list \<Rightarrow> string \<Rightarrow> string" where
  "add_local_forwards fs tunnel_arg = foldl (\<lambda>t (a, b).
     let e = decimal a @ '':'' @ decimal b in if t = [] then e else t @ '','' @ e) tunnel_arg fs"

definition pick_endpoint :: "nat \<Rightarrow> config_env \<Rightarrow> EtArgs \<Rightarrow> string \<Rightarrow> Options \<Rightarrow> string \<Rightarrow> int \<Rightarrow> (world, string \<times> SocketEndpoint) prog" where
  "pick_endpoint d E a jump0 opts destinationHost destinationPort =
     (let jump = (if o_ProxyJump opts \<noteq> None \<and> jump0 = [] then get_or [] (o_ProxyJump opts) else jump0) in
      if jump \<noteq> [] then resolve_jumphost d E (ea_jport a) jump
      else ret ([], \<lparr>ep_name = Some destinationHost, ep_port = Some destinationPort\<rparr>))"

text \<open>The arguments of the two calls that start the session.\<close>

definition setup_of :: "EtArgs \<Rightarrow> string \<Rightarrow> string \<Rightarrow> string \<Rightarrow> int \<Rightarrow> string \<Rightarrow> SshSetup" where
  "setup_of a username destinationHost host_alias destinationPort jump =
     \<lparr>ss_user = username, ss_host = destinationHost, ss_host_alias = host_alias, ss_port = destinationPort, ss_jumphost = jump,
      ss_jServerFifo = ea_jserverfifo a, ss_kill = ea_kill_other_sessions a, ss_vlevel = ea_verbose a,
      ss_cmd_prefix = get_or (if ea_macserver a then ''/usr/local/bin/etterminal'' else []) (ea_terminal_path a),
      ss_serverFifo = ea_serverfifo a, ss_ssh_options = ea_ssh_option a\<rparr>"

definition client_args :: "EtArgs \<Rightarrow> nat \<Rightarrow> nat \<Rightarrow> SocketEndpoint \<Rightarrow> string \<times> string \<Rightarrow> string \<Rightarrow> string \<Rightarrow> string \<Rightarrow> int \<Rightarrow> Options \<Rightarrow> ClientArgs" where
  "client_args a h ph ep idpasskey jump tunnel_arg r_tunnel_arg keepalive opts =
     \<lparr>ca_socketHandler = h, ca_pipeSocketHandler = ph, ca_socketEndpoint = ep, ca_id = fst idpasskey, ca_passkey = snd idpasskey,
      ca_console = (\<not> ea_no_terminal a), ca_jumphost = (jump \<noteq> []), ca_tunnels = tunnel_arg, ca_reverseTunnels = r_tunnel_arg,
      ca_forwardSshAgent = (ea_forward_ssh_agent a \<or> o_forward_agent opts \<noteq> 0),
      ca_identityAgent = get_or (get_or [] (o_identity_agent opts)) (ea_ssh_socket a),
      ca_keepaliveDuration = keepalive, ca_envVars = o_env_vars opts\<rparr>"

text \<open>\<^verbatim>\<open>catch (TunnelParseException&)\<close>.\<close>

definition catch_tunnel :: "('s, 'a) prog \<Rightarrow> ('s, 'a) prog" where
  "catch_tunnel m s = (case m s of (Throw (TunnelParseException e), t) \<Rightarrow> (Exit 1, t) | r \<Rightarrow> r)"

definition et_session :: "sodium \<Rightarrow> protos \<Rightarrow> tprotos \<Rightarrow> EtArgs \<Rightarrow> SshSetup \<Rightarrow> (string \<times> string \<Rightarrow> ClientArgs) \<Rightarrow> (world, unit) prog" where
  "et_session na P T a setup args = bnd (SetupSsh setup) (\<lambda>idpasskeypair.
     bnd (TerminalClient_new na P T (args idpasskeypair)) (\<lambda>client.
     bnd (TerminalClient_run na P T (get_or [] (ea_command a)) (ea_noexit a) client) (\<lambda>l.
     TerminalClient_destroy (TerminalClient.truncate l))))"

section \<open>DaemonCreator\<close>

definition DAEMON_PARENT :: int where "DAEMON_PARENT = 1"
definition DAEMON_CHILD :: int where "DAEMON_CHILD = 2"

definition write_pidfile :: "string \<Rightarrow> (world, unit) prog" where
  "write_pidfile childPidFile =
     (if childPidFile = [] then ret ()
      else bnd sys_open (\<lambda>pidFilehandle.
        if pidFilehandle = -1 then fail (Abort ''Error opening pidfile for writing'')
        else bnd sys_int (\<lambda>pid.
          let pid_str = decimal pid @ [newline] in
          bnd (FATAL_FAIL (sys_send pidFilehandle pid_str)) (\<lambda>bytesWritten.
          if nat bytesWritten \<noteq> length pid_str then fail (Abort ''Error writing pidfile'')
          else bnd (FATAL_FAIL (sys_close pidFilehandle)) (\<lambda>_. ret ())))))"

definition DaemonCreator_create :: "bool \<Rightarrow> string \<Rightarrow> (world, int) prog" where
  "DaemonCreator_create parentExit childPidFile = bnd sys_int (\<lambda>pid.
     if pid < 0 then fail (Exit 1)
     else if pid > 0 then (if parentExit then fail (Exit 0) else ret DAEMON_PARENT)
     else bnd sys_int (\<lambda>sid. if sid < 0 then fail (Exit 1)
       else bnd sys_int (\<lambda>_. bnd sys_int (\<lambda>pid2.
         if pid2 < 0 then fail (Exit 1)
         else if pid2 > 0 then fail (Exit 0)
         else bnd (write_pidfile childPidFile) (\<lambda>_.
           bnd (FATAL_FAIL sys_int) (\<lambda>_.
           bnd sys_open (\<lambda>fd. bnd sys_int (\<lambda>_. bnd sys_int (\<lambda>_.
           bnd sys_open (\<lambda>fd2. bnd sys_int (\<lambda>_. ret DAEMON_CHILD)))))))))))"

section \<open>The argument that names the server\<close>

definition colons :: "string \<Rightarrow> nat" where
  "colons s = length (filter (\<lambda>c. c = CHR '':'') s)"

text \<open>What the argument is printed from: a user, a host and a port, of which the first and the last may be missing.\<close>

definition show_target :: "string \<Rightarrow> string \<Rightarrow> int option \<Rightarrow> string" where
  "show_target user host port = (if user = [] then [] else user @ ''@'') @ host @
     (case port of None \<Rightarrow> [] | Some p \<Rightarrow> '':'' @ decimal p)"

text \<open>The hosts of the usage text: a name or an IPv4 address, an IPv6 address in full, or a shortened one without a port.\<close>

definition wf_target :: "string \<Rightarrow> int option \<Rightarrow> bool" where
  "wf_target host port \<longleftrightarrow> CHR ''@'' \<notin> set host \<and>
     (colons host = 0 \<or> port = None \<and> str_find_sub ''::'' host \<noteq> None \<or>
      colons host = 7 \<and> str_find_sub ''::'' host = None \<and> last host \<noteq> CHR '':'') \<and>
     (\<forall>p. port = Some p \<longrightarrow> 0 \<le> p \<and> p < 2 ^ 31)"

lemma double_colon: "str_find_sub ''::'' s \<noteq> None \<Longrightarrow> 2 \<le> colons s"
proof (induction s)
  case (Cons x s)
  show ?case
  proof (cases "take 2 (x # s) = ''::''")
    case True
    then obtain t where "x # s = CHR '':'' # CHR '':'' # t" by (metis append_take_drop_id append_Cons append_Nil)
    then show ?thesis by (simp add: colons_def)
  next
    case False
    then show ?thesis using Cons by (auto simp: colons_def)
  qed
qed simp

lemma no_double_colon:
  "str_find_sub ''::'' h = None \<Longrightarrow> h = [] \<or> last h \<noteq> CHR '':'' \<Longrightarrow> CHR '':'' \<notin> set d \<Longrightarrow> str_find_sub ''::'' (h @ CHR '':'' # d) = None"
proof (induction h)
  case Nil
  have "colons d = 0" using Nil(3) by (auto simp: colons_def filter_empty_conv)
  then have "str_find_sub ''::'' d = None" using double_colon [of d] by fastforce
  then show ?case using Nil(3) by (cases d) auto
next
  case (Cons x h)
  then show ?case by (cases h) (auto split: if_splits)
qed

lemma decimal_no_colon: "0 \<le> p \<Longrightarrow> CHR '':'' \<notin> set (decimal p) \<and> CHR ''@'' \<notin> set (decimal p)"
  by (auto simp: decimal_def dest!: nat_dec_digits simp: is_digit_def)

lemma with_port_show:
  assumes "0 \<le> p" and "p < 2 ^ 31"
  shows "with_port user (host @ CHR '':'' # decimal p) = Ok (user, host, p)"
proof -
  have "takeWhile (\<lambda>x. x \<noteq> CHR '':'') (rev (decimal p) @ CHR '':'' # rev host) = rev (decimal p)"
    "dropWhile (\<lambda>x. x \<noteq> CHR '':'') (rev (decimal p) @ CHR '':'' # rev host) = CHR '':'' # rev host"
    using decimal_no_colon [OF assms(1)] by (auto simp: takeWhile_append dropWhile_append)
  then show ?thesis using assms by (simp add: with_port_def after_last_def stoi_decimal)
qed

text \<open>
  C39: The user, the host and the port of the argument \<^verbatim>\<open>[user@]host[:port]\<close> are read back from what they were
  printed as, for every form of host the usage text allows; what is missing keeps the value of the options.\<close>

theorem parse_host_arg_show:
  assumes "CHR ''@'' \<notin> set user" and "wf_target host port"
  shows "parse_host_arg username0 port0 (show_target user host port) =
    Ok (if user = [] then username0 else user, host, get_or port0 port)"
proof -
  let ?u = "if user = [] then username0 else user"
  define tail where "tail = host @ (case port of None \<Rightarrow> [] | Some p \<Rightarrow> '':'' @ decimal p)"
  have at: "CHR ''@'' \<notin> set tail"
    using assms(2) decimal_no_colon by (auto simp: tail_def wf_target_def split: option.splits)
  have "(case str_find CHR ''@'' (show_target user host port) of None \<Rightarrow> (username0, show_target user host port)
      | Some i \<Rightarrow> (take i (show_target user host port), drop (i + 1) (show_target user host port))) = (?u, tail)"
    using assms(1) at by (simp add: show_target_def tail_def [symmetric] str_find_None_iff [THEN iffD2] str_find_append)
  then have step: "parse_host_arg username0 port0 (show_target user host port) =
     (if colons tail = 0 then Ok (?u, tail, port0) else if colons tail = 1 then with_port ?u tail
      else if str_find_sub ''::'' tail \<noteq> None then Ok (?u, tail, port0) else if colons tail = 7 then Ok (?u, tail, port0)
      else if colons tail = 8 then with_port ?u tail else Exit 1)"
    by (simp only: parse_host_arg_def Let_def colons_def prod.case)
  show ?thesis
  proof (cases port)
    case None
    then have "tail = host" by (simp add: tail_def)
    then show ?thesis using step None assms(2) double_colon [of host] by (auto simp: wf_target_def)
  next
    case (Some p)
    then have p: "0 \<le> p" "p < 2 ^ 31" and t: "tail = host @ CHR '':'' # decimal p"
      using assms(2) by (auto simp: wf_target_def tail_def)
    have "colons (decimal p) = 0" using decimal_no_colon [OF p(1)] by (auto simp: colons_def filter_empty_conv)
    then have "colons tail = Suc (colons host)" by (simp add: t colons_def)
    moreover have "str_find_sub ''::'' tail = None" if "colons host = 7"
      unfolding t using that assms(2) Some decimal_no_colon [OF p(1)] by (intro no_double_colon) (auto simp: wf_target_def)
    ultimately show ?thesis
      using step Some assms(2) with_port_show [OF p] by (auto simp: t wf_target_def)
  qed
qed

theorem parse_host_arg_show_witness:
  "parse_host_arg ''me'' 2022 (show_target ''root'' ''2001:db8:0:0:0:0:0:1'' (Some 8080)) = Ok (''root'', ''2001:db8:0:0:0:0:0:1'', 8080)"
proof -
  have "wf_target ''2001:db8:0:0:0:0:0:1'' (Some 8080)" by (simp add: wf_target_def colons_def)
  from parse_host_arg_show [OF _ this, of "''root''" "''me''" 2022] show ?thesis by simp
qed

section \<open>An error on the way\<close>

lemma ssh_failure_ignored:
  "read_idpasskey sshBuffer = Throw (RuntimeError e) \<Longrightarrow> fst (or_keep own (read_idpasskey sshBuffer) w) = Ok own"
  by (simp add: or_keep_def catch_runtime_def outcome_prog_def bnd_def emit_def ret_def)

section \<open>Both ends agree on the id and the passkey\<close>

lemma str_find_sub_first:
  assumes "\<not> sublist p (butlast (pre @ p))" and "p \<noteq> []"
  shows "str_find_sub p (pre @ p @ rest) = Some (length pre)"
  using assms(1)
proof (induction pre)
  case Nil
  obtain c cs where "p = c # cs" using assms(2) by (cases p) auto
  then show ?case by simp
next
  case (Cons x pre)
  have b: "butlast ((x # pre) @ p) = x # butlast (pre @ p)" using assms(2) by (simp add: butlast_append)
  then have IH: "str_find_sub p (pre @ p @ rest) = Some (length pre)"
    using Cons by (auto simp: sublist_Cons_right)
  have "take (length p) (x # pre @ p @ rest) \<noteq> p"
  proof
    assume t: "take (length p) (x # pre @ p @ rest) = p"
    define front where "front = butlast ((x # pre) @ p)"
    have "(x # pre) @ p = front @ [last p]"
      using assms(2) append_butlast_last_id [of "(x # pre) @ p"] by (simp add: front_def)
    then have all: "x # pre @ p @ rest = front @ last p # rest" by (metis append_Cons append_assoc append_Nil)
    have "length p \<le> length front" by (simp add: front_def)
    then have "take (length p) (butlast ((x # pre) @ p)) = p" using t unfolding all front_def [symmetric] by simp
    then show False using Cons.prems by (metis sublist_take)
  qed
  then show ?case using IH by simp
qed

lemma split_pair: "d \<notin> set a \<Longrightarrow> d \<notin> set b \<Longrightarrow> b \<noteq> [] \<Longrightarrow> split (a @ d # b) d = [a, b]"
  by (simp add: split_Cons split_none)

lemma split_idpasskey_pair:
  assumes "set i \<subseteq> set alphanum" and "set k \<subseteq> set alphanum" and "k \<noteq> []"
  shows "split_idpasskey (i @ ''/'' @ k) = Ok (i, k)"
proof -
  have "CHR ''/'' \<notin> set i" "CHR ''/'' \<notin> set k" using assms alphanum_chars by blast+
  then show ?thesis using split_pair [of "CHR ''/''" i k] assms(3) by (simp add: split_idpasskey_def vec_at_def)
qed

lemma read_idpasskey_line:
  assumes "set i \<subseteq> set alphanum" and "set k \<subseteq> set alphanum" and "length i = 16" and "length k = 32"
    and "\<not> sublist MARKER (butlast (pre @ MARKER))"
  shows "read_idpasskey (pre @ MARKER @ i @ ''/'' @ k @ rest) = Ok (i, k)"
proof -
  let ?s = "pre @ MARKER @ i @ ''/'' @ k @ rest"
  have m: "length MARKER = 10" "MARKER \<noteq> []" by (simp_all add: MARKER_def)
  have "str_find_sub MARKER ?s = Some (length pre)" by (rule str_find_sub_first [OF assms(5) m(2)])
  moreover have "drop (length pre + 10) ?s = (i @ ''/'' @ k) @ rest" using m by simp
  moreover have "take IDPASSKEY_LENGTH ((i @ ''/'' @ k) @ rest) = i @ ''/'' @ k"
    using assms(3,4) by (simp add: IDPASSKEY_LENGTH_def)
  moreover have "?s \<noteq> []" using m(2) by simp
  moreover have "split_idpasskey (i @ ''/'' @ k) = Ok (i, k)" using assms by (intro split_idpasskey_pair) auto
  ultimately show ?thesis unfolding read_idpasskey_def by (simp only: option.case if_False refl)
qed

lemma user_info_pair:
  assumes "set i \<subseteq> set alphanum" and "set k \<subseteq> set alphanum" and "k \<noteq> []" and "user_info (i @ ''/'' @ k) w = (Ok tui, w')"
  shows "tui_id tui = Some i \<and> tui_passkey tui = Some k"
proof -
  have "CHR ''/'' \<notin> set i" "CHR ''/'' \<notin> set k" using assms alphanum_chars by blast+
  then show ?thesis
    using split_pair [of "CHR ''/''" i k] assms(3,4)
    by (auto simp: user_info_def vec_at_def outcome_prog_def elim!: bnd_eq_OkE)
qed

lemma line_idpasskey_new:
  assumes "line_idpasskey line w = (Ok idpasskey, w')" and "take 3 line = ''XXX''"
  obtains i k where "idpasskey = i @ ''/'' @ k" "length i = 16" "length k = 32" "set i \<subseteq> set alphanum" "set k \<subseteq> set alphanum"
proof -
  obtain a b where ab: "split line CHR ''_'' = [a, b]"
    using assms(1) by (auto simp: line_idpasskey_def split: list.splits)
  have "line \<noteq> []" using assms(2) by auto
  then have "a = takeWhile (\<lambda>c. c \<noteq> CHR ''_'') line" using split_unfold [of line "CHR ''_''"] ab by simp
  moreover obtain r where "line = ''XXX'' @ r" using assms(2) by (metis append_take_drop_id)
  ultimately have "take 3 a = ''XXX''" by simp
  then obtain w1 where "new_idpasskey w = (Ok idpasskey, w1)"
    using assms(1) ab by (auto simp: line_idpasskey_def elim!: bnd_eq_OkE)
  then show ?thesis
    using that genRandomAlphaNum_result unfolding new_idpasskey_def by (elim bnd_eq_OkE) (metis ret_simp prod.inject outcome.inject(1))
qed


lemma sample_line:
  "fst (line_idpasskey ''XXX4/secret_xterm'' (sample_world (replicate 48 (Val 1) @ [Val 0]))) =
    Ok (replicate 16 CHR ''1'' @ ''/'' @ replicate 32 CHR ''1'')"
  by code_simp

lemma sample_user_info:
  "fst (user_info (replicate 16 CHR ''1'' @ ''/'' @ replicate 32 CHR ''1'') (sample_world [Val 1000, Val 1000])) =
    Ok \<lparr>tui_id = Some (replicate 16 CHR ''1''), tui_passkey = Some (replicate 32 CHR ''1''),
        tui_uid = Some 1000, tui_gid = Some 1000, tui_fd = None\<rparr>"
  by code_simp


end
