(* ===== verification/ET_Log.thy ===== *)
theory ET_Log
  imports ET_Kernel ET_Pattern
begin

text \<open>
  \<^verbatim>\<open>base/LogHandler.cpp\<close> and the handlers of \<^verbatim>\<open>base/Headers.hpp\<close> that end a program. The logging library is outside: a
  configuration is the sequence of the settings made on it, and a call that changes the library itself is a
  note in the trace. The lemmas show which files are made, that their names differ, and that the descriptors
  they are made with stay open.
\<close>

section \<open>Settings of the logging library\<close>

datatype log_level = Global | Trace | Debug | Fatal | Error | Warning | Verbose | Info | Unknown

datatype conf_type = Format | Enabled | SubsecondPrecision | PerformanceTracking | LogFlushThreshold
  | Filename | ToFile | MaxLogFileSize | ToStandardOutput

datatype conf_setting = SetToDefault | SetGlobally conf_type string | SetLevel log_level conf_type string

type_synonym Configurations = "conf_setting list"

definition setupLogHandler :: Configurations where
  "setupLogHandler =
     [SetToDefault,
      SetGlobally Format ''[%level %datetime %thread %fbase:%line] %msg'',
      SetGlobally Enabled ''true'',
      SetGlobally SubsecondPrecision ''3'',
      SetGlobally PerformanceTracking ''false'',
      SetGlobally LogFlushThreshold ''1'',
      SetLevel Verbose Format ''[%levshort%vlevel %datetime %thread %fbase:%line] %msg'']"

text \<open>\<^verbatim>\<open>Loggers::reconfigureLogger\<close>.\<close>

datatype logger_call = Reconfigure string Configurations

definition setupStdoutLogger :: logger_call where
  "setupStdoutLogger = Reconfigure ''stdout''
     [SetToDefault, SetGlobally Format ''%msg'', SetGlobally ToStandardOutput ''true'', SetGlobally ToFile ''false'']"

section \<open>Log files\<close>

text \<open>
  \<^verbatim>\<open>fs::create_directories\<close> throws when it fails. \<^verbatim>\<open>::open\<close> with \<^verbatim>\<open>O_EXCL | O_CREAT\<close> fails when the name exists; the
  descriptor it returns is not kept.
\<close>

definition createLogFile :: "string \<Rightarrow> string \<Rightarrow> (world, string) prog" where
  "createLogFile path filename =
     (let fullFname = path @ ''/'' @ filename in
      bnd syscall (\<lambda>a. case a of
          Err _ \<Rightarrow> fail (Throw (RuntimeError ''Cannot create logfile directory: filesystem error''))
        | Ret _ _ \<Rightarrow> bnd (FATAL_FAIL sys_open) (\<lambda>_. bnd (emit (Note (''created '' @ fullFname))) (\<lambda>_. ret fullFname))))"

definition stderrToFile :: "string \<Rightarrow> string \<Rightarrow> (world, unit) prog" where
  "stderrToFile path stderrFilename = bnd (createLogFile path stderrFilename) (\<lambda>fullFname.
     bnd sys_int (\<lambda>stderr_stream.
       if stderr_stream = -1 then fail (Abort (''Invalid filename '' @ stderrFilename))
       else emit (Note (''stderr to '' @ fullFname))))"

text \<open>
  The clock: microseconds since the epoch, and the local time as \<^verbatim>\<open>strftime\<close> prints it by
  \<^verbatim>\<open>%Y-%m-%d_%H-%M-%S\<close>.
\<close>

definition sys_clock :: "(world, int \<times> string) prog" where
  "sys_clock = bnd syscall (\<lambda>a. case a of Ret us stamp \<Rightarrow> ret (us, stamp) | Err _ \<Rightarrow> ret (-1, []))"

text \<open>\<^verbatim>\<open>setw(6) << setfill('0')\<close>.\<close>

definition pad6 :: "int \<Rightarrow> string" where
  "pad6 n = replicate (6 - length (decimal n)) CHR ''0'' @ decimal n"

definition current_time :: "int \<Rightarrow> string \<Rightarrow> string" where
  "current_time us stamp = stamp @ ''.'' @ pad6 (us mod 1000000)"

definition pid_suffix :: "int option \<Rightarrow> string" where
  "pid_suffix p = (case p of None \<Rightarrow> [] | Some pid \<Rightarrow> ''_'' @ decimal pid)"

definition log_filename :: "string \<Rightarrow> int \<Rightarrow> string \<Rightarrow> int option \<Rightarrow> string" where
  "log_filename filenamePrefix us stamp p = filenamePrefix @ ''-'' @ current_time us stamp @ pid_suffix p @ ''.log''"

definition stderr_filename :: "string \<Rightarrow> int \<Rightarrow> string \<Rightarrow> int option \<Rightarrow> string" where
  "stderr_filename filenamePrefix us stamp p = filenamePrefix @ ''-stderr-'' @ current_time us stamp @ pid_suffix p @ ''.log''"

definition DEFAULT_MAX_LOG_SIZE :: string where "DEFAULT_MAX_LOG_SIZE = ''20971520''"

definition file_settings :: "string \<Rightarrow> string \<Rightarrow> bool \<Rightarrow> Configurations" where
  "file_settings fullFname maxlogsize logToStdout =
     [SetGlobally Filename fullFname, SetGlobally ToFile ''true'', SetGlobally MaxLogFileSize maxlogsize,
      SetGlobally ToStandardOutput (if logToStdout then ''true'' else ''false'')]"

definition setupLogFiles ::
  "Configurations \<Rightarrow> string \<Rightarrow> string \<Rightarrow> bool \<Rightarrow> bool \<Rightarrow> bool \<Rightarrow> string \<Rightarrow> (world, Configurations) prog" where
  "setupLogFiles defaultConf path filenamePrefix logToStdout redirectStderrToFile appendPid maxlogsize =
     bnd sys_clock (\<lambda>(us, stamp).
     bnd (if appendPid then bnd sys_int (\<lambda>pid. ret (Some pid)) else ret None) (\<lambda>p.
     bnd (createLogFile path (log_filename filenamePrefix us stamp p)) (\<lambda>fullFname.
     bnd (emit (Note ''StrictLogFileSizeCheck'')) (\<lambda>_.
     bnd (if redirectStderrToFile then stderrToFile path (stderr_filename filenamePrefix us stamp p) else ret ()) (\<lambda>_.
       ret (defaultConf @ file_settings fullFname maxlogsize logToStdout))))))"

definition rolloutHandler :: "string \<Rightarrow> (world, unit) prog" where
  "rolloutHandler filename = bnd sys_int (\<lambda>removed. if removed = 0 then emit (Note (''removed '' @ filename)) else ret ())"

section \<open>The end of a program\<close>

text \<open>
  \<^verbatim>\<open>HandleTerminate\<close> keeps a flag of its own and the function the run-time system calls for an exception nobody
  caught; the flag is looked at when the function is installed, not when it runs.
\<close>

record terminate_state =
  tm_first :: bool
  tm_installed :: bool

definition HandleTerminate :: "terminate_state \<Rightarrow> terminate_state" where
  "HandleTerminate s = (if tm_first s then s\<lparr>tm_first := False, tm_installed := True\<rparr> else s)"

definition terminate_handler :: "exn option \<Rightarrow> unit outcome" where
  "terminate_handler eptr = (case eptr of
      Some (RuntimeError e) \<Rightarrow> Abort (''Uncaught c++ exception: '' @ e)
    | Some (TunnelParseException e) \<Rightarrow> Abort (''Uncaught c++ exception: '' @ e)
    | Some _ \<Rightarrow> Abort ''Uncaught c++ exception: ''
    | None \<Rightarrow> Abort ''Uncaught c++ exception (unknown)'')"

definition InterruptSignalHandler :: "int \<Rightarrow> (world, unit) prog" where
  "InterruptSignalHandler signum =
     bnd (emit (Console ([newline] @ ''Got interrupt (perhaps ctrl+c?): '' @ decimal signum @ ''.  Exiting.'' @ [newline]))) (\<lambda>_. fail (Exit signum))"

definition TerminateSignalHandler :: "int \<Rightarrow> (world, unit) prog" where
  "TerminateSignalHandler signum =
     bnd (emit (Console ([newline] @ ''Got terminate signal: '' @ decimal signum @ ''.  Exiting.'' @ [newline]))) (\<lambda>_. fail (Exit signum))"

section \<open>Names and files\<close>

lemma decimal_inj:
  assumes "decimal a = decimal b" and "0 \<le> a" "a < 2 ^ 31" "0 \<le> b" "b < 2 ^ 31"
  shows "a = b"
proof -
  have "Ok a = stoi (decimal a)" using assms by (intro stoi_decimal [symmetric]) auto
  also have "\<dots> = stoi (decimal b)" by (simp only: assms(1))
  also have "\<dots> = Ok b" using assms by (intro stoi_decimal) auto
  finally show ?thesis by simp
qed

text \<open>Two processes of one machine that ask for their number in the name never share a log file.\<close>

lemma log_filename_pid:
  assumes "log_filename name us stamp (Some p) = log_filename name us' stamp' (Some q)"
    and "length (current_time us stamp) = length (current_time us' stamp')"
    and "0 \<le> p" "p < 2 ^ 31" "0 \<le> q" "q < 2 ^ 31"
  shows "p = q \<and> current_time us stamp = current_time us' stamp'"
proof -
  from assms(1,2) have "current_time us stamp = current_time us' stamp'" "decimal p = decimal q"
    by (auto simp: log_filename_def pid_suffix_def)
  then show ?thesis using decimal_inj assms(3-) by blast
qed

lemma stderr_filename_apart:
  assumes "stamp \<noteq> []" and "is_digit (hd stamp)"
  shows "stderr_filename name us stamp p \<noteq> log_filename name us stamp p"
proof
  assume "stderr_filename name us stamp p = log_filename name us stamp p"
  then have "hd stamp = CHR ''s''" using assms(1) by (cases stamp) (auto simp: stderr_filename_def log_filename_def current_time_def)
  then show False using assms(2) by (simp add: is_digit_def)
qed

text \<open>A log file that is there afterwards was made by this call, and the descriptor of the call stays open.\<close>

lemma createLogFile_made:
  assumes "createLogFile path filename w = (Ok f, w')"
  shows "f = path @ ''/'' @ filename \<and> (\<exists>fd. 0 \<le> fd \<and> trace w' = trace w @ [OpenedFd fd, Note (''created '' @ f)])"
  using assms
  by (auto simp: createLogFile_def FATAL_FAIL_def sys_open_def syscall_def emit_def bnd_def ret_def fail_def Let_def
      split: list.splits answer.splits if_splits)

lemma createLogFile_exists: "script w = Ret n s # Err EEXIST # rest \<Longrightarrow> fst (createLogFile path filename w) = Abort ''Error''"
  by (simp add: createLogFile_def FATAL_FAIL_def sys_open_def syscall_def emit_def bnd_def ret_def fail_def Let_def)

text \<open>After a set-up that succeeds the file in the settings is one that was made for it.\<close>

lemma setupLogFiles_file:
  assumes "setupLogFiles conf path name out redirect pid maxsize w = (Ok conf', w')"
  shows "\<exists>us stamp p. conf' = conf @ file_settings (path @ ''/'' @ log_filename name us stamp p) maxsize out"
  using assms unfolding setupLogFiles_def by (fastforce simp: ret_def dest!: createLogFile_made elim!: bnd_eq_OkE split: if_splits prod.splits)

end
