(* ===== verification/ET_HtmMain.thy ===== *)
theory ET_HtmMain
  imports ET_HtmServer ET_Setup ET_Log
begin

text \<open>
  The programs of the multiplexer: \<^verbatim>\<open>htm/HtmClientMain.cpp\<close>, which starts the daemon when there is none and then
  serves the terminal, and \<^verbatim>\<open>htm/HtmServerMain.cpp\<close>, the daemon. \<^verbatim>\<open>SystemToStr\<close> is from \<^verbatim>\<open>base/SubprocessUtils.hpp\<close>.
\<close>

section \<open>The output of a command\<close>

text \<open>Before each \<^verbatim>\<open>fgets\<close> the answer to \<^verbatim>\<open>feof\<close>; the bytes of a line count up to the first null byte.\<close>

function system_lines :: "string \<Rightarrow> (world, string) prog" where
  "system_lines result w = bnd read_flag (\<lambda>eof w1.
     if eof then (Ok result, w1)
     else bnd sys_getline (\<lambda>l w2. system_lines (result @ (case l of None \<Rightarrow> [] | Some s \<Rightarrow> c_str (take 127 s))) w2) w1) w"
  by pat_completeness auto
termination
proof (relation "measure (\<lambda>(r, w). length (script w))", goal_cases)
  case (2 r w eof w1 l w2)
  have "length (script w1) < length (script w)" by (rule read_flag_shrinks [OF 2(1)])
  moreover have "length (script w2) < length (script w1)"
    using 2(3) by (auto simp: sys_getline_def elim!: bnd_eq_OkE dest!: script_shrinks(1) split: answer.splits)
  ultimately show ?case by simp
qed simp

declare system_lines.simps [simp del]

text \<open>A null pointer of \<^verbatim>\<open>popen\<close> is given to \<^verbatim>\<open>pclose\<close> when the error is thrown.\<close>

definition SystemToStr :: "string \<Rightarrow> (world, string) prog" where
  "SystemToStr cmd = bnd (emit (Note cmd)) (\<lambda>_. bnd sys_open (\<lambda>p.
     if p = -1 then fail (Abort ''undefined: pclose of a null pointer'')
     else bnd (system_lines []) (\<lambda>result. bnd sys_int (\<lambda>_. ret result))))"

section \<open>htm\<close>

text \<open>What tells the terminal that the multiplexer is gone.\<close>

definition EXIT_CODE :: string where
  "EXIT_CODE = [CHR 0x1B, CHR 0x5B] @ ''$$$q''"

definition htm_leave :: "(world, unit) prog" where
  "htm_leave = bnd (Raw_writeAll STDOUT_FILENO EXIT_CODE) (\<lambda>_. console_teardown)"

text \<open>The handler of \<^verbatim>\<open>SIGTERM\<close>.\<close>

definition htm_term :: "(world, unit) prog" where
  "htm_term = bnd htm_leave (\<lambda>_. fail (Exit 1))"

definition system_call :: "string \<Rightarrow> (world, int) prog" where
  "system_call command = bnd (emit (Note command)) (\<lambda>_. sys_int)"

definition htm_daemon :: "int \<Rightarrow> (world, unit) prog" where
  "htm_daemon myuid = bnd (SystemToStr (''pgrep -x -U '' @ decimal myuid @ '' htmd'')) (\<lambda>pgrepOutput.
     if pgrepOutput = [] then
       bnd (DaemonCreator_create False []) (\<lambda>r.
         if r = DAEMON_CHILD then bnd (system_call ''htmd'') (\<lambda>rc. fail (Exit rc)) else ret ())
     else ret ())"

definition htm_endpoint_of :: "int \<Rightarrow> SocketEndpoint" where
  "htm_endpoint_of myuid = no_endpoint\<lparr>ep_name := Some (getPipeName myuid)\<rparr>"

text \<open>The client: its loop, and its destructor, which closes an endpoint that is still open.\<close>

definition htm_client :: "nat \<Rightarrow> SocketEndpoint \<Rightarrow> (world, unit) prog" where
  "htm_client h ep = bnd (IpcPairClient_new h ep) (\<lambda>c w. case HtmClient_run (c, w) of (r, (_, w')) \<Rightarrow> (r, w'))"

definition htm_log :: "string \<Rightarrow> (world, Configurations) prog" where
  "htm_log filenamePrefix = setupLogFiles setupLogHandler GetTempDirectory filenamePrefix False True False DEFAULT_MAX_LOG_SIZE"

definition htm_main :: "bool \<Rightarrow> bool \<Rightarrow> nat \<Rightarrow> (world, unit) prog" where
  "htm_main help kill_others h =
     (if help then fail (Exit 0)
      else bnd console_setup (\<lambda>_. bnd sys_int (\<lambda>_. bnd (htm_log ''htm'') (\<lambda>_. bnd sys_int (\<lambda>myuid.
        bnd (if kill_others then bnd (system_call (''pkill -x -U '' @ decimal myuid @ '' htmd'')) (\<lambda>_. ret ()) else ret ()) (\<lambda>_.
        bnd (htm_daemon myuid) (\<lambda>_.
        bnd sys_int (\<lambda>uid.
        bnd (htm_client h (htm_endpoint_of uid)) (\<lambda>_. htm_leave)))))))))"

section \<open>htmd\<close>

definition htmd_main :: "base64 \<Rightarrow> (json \<Rightarrow> string) \<Rightarrow> nat \<Rightarrow> (world, unit) prog" where
  "htmd_main B dump h = bnd (htm_log ''htmd'') (\<lambda>_. bnd sys_int (\<lambda>uid. bnd (HtmServer_new h (htm_endpoint_of uid)) (\<lambda>s w.
     case bnd (HtmServer_run B dump) (\<lambda>_. IpcPairServer_destroy) (s, w) of (r, (_, w')) \<Rightarrow> (r, w'))))"

section \<open>How the programs end\<close>

text \<open>The loop of the client ends by itself only without an endpoint, so that its destructor has nothing to close.\<close>

lemma HtmClient_run_closed: "HtmClient_run s = (Ok (), t) \<Longrightarrow> hc_endpointFd (fst t) = -1"
proof (induction s rule: HtmClient_run.induct)
  case (1 s)
  from 1(2) obtain more s1 where round: "HtmClient_round s = (Ok more, s1)"
    and rest: "(if more then HtmClient_run s1 else (Ok (), s1)) = (Ok (), t)"
    by (subst (asm) HtmClient_run.simps) (erule bnd_eq_OkE)
  show ?case
  proof (cases more)
    case True
    then show ?thesis using 1(1) [OF round] rest by simp
  next
    case False
    then have "HtmClient_round s = (Ok False, t)" using round rest by simp
    then show ?thesis unfolding HtmClient_round_def client_endpoint_def bnd_get_obj
      by (auto simp: bnd_get_obj mod_obj_def elim!: bnd_eq_OkE split: if_splits)
  qed
qed

text \<open>A run of the client that ends tells the terminal so, as its last output.\<close>

lemma htm_main_leaves:
  assumes "htm_main help kill_others h w = (Ok (), w')"
  shows "\<exists>before. sent_on STDOUT_FILENO (trace w') = before @ EXIT_CODE"
proof -
  obtain w1 where "htm_leave w1 = (Ok (), w')"
    using assms unfolding htm_main_def by (auto elim!: bnd_eq_OkE split: if_splits)
  then obtain w2 where wr: "Raw_writeAll STDOUT_FILENO EXIT_CODE w1 = (Ok (), w2)" and td: "console_teardown w2 = (Ok (), w')"
    unfolding htm_leave_def by (auto elim!: bnd_eq_OkE)
  have "sends STDOUT_FILENO EXIT_CODE w1 w2" by (rule Raw_writeAll_sends [OF wr])
  moreover have "snn.keeps console_teardown" unfolding console_teardown_def by (auto intro!: keeps_intros)
  then have "sent_on STDOUT_FILENO (trace w') = sent_on STDOUT_FILENO (trace w2)"
    using snn.keepsD td by (fastforce simp: sends_nothing_def)
  ultimately show ?thesis by (auto simp: sends_def)
qed

end
