(* ===== verification/ET_Telemetry.thy ===== *)
theory ET_Telemetry
  imports ET_Multiplexer ET_Setup ET_Log
begin

text \<open>
  \<^verbatim>\<open>terminal/TelemetryService.cpp\<close>: errors are collected in a buffer that a thread of its own sends away. The web
  services are outside: an entry is posted when it is given to the HTTP client, whose result the code
  ignores; sentry is a library the events are handed to. The lemmas show that the buffer is bounded and that what was accepted before
  \<^verbatim>\<open>shutdown\<close> has been posted, once and in order, when the thread ends.
\<close>

section \<open>Entries\<close>

definition logLevelToString :: "log_level \<Rightarrow> string" where
  "logLevelToString l = (case l of Global \<Rightarrow> ''Global'' | Trace \<Rightarrow> ''Trace'' | Debug \<Rightarrow> ''Debug'' | Fatal \<Rightarrow> ''Fatal'' |
     Error \<Rightarrow> ''Error'' | Warning \<Rightarrow> ''Warning'' | Verbose \<Rightarrow> ''Verbose'' | Info \<Rightarrow> ''Info'' | Unknown \<Rightarrow> ''Unknown'')"

text \<open>With sentry built in, a report is an event of that library.\<close>

datatype sentry_level = SENTRY_LEVEL_DEBUG | SENTRY_LEVEL_INFO | SENTRY_LEVEL_WARNING | SENTRY_LEVEL_ERROR | SENTRY_LEVEL_FATAL

type_synonym sentry_event = "sentry_level \<times> string"

definition logLevelToSentry :: "log_level \<Rightarrow> sentry_level" where
  "logLevelToSentry l = (case l of Info \<Rightarrow> SENTRY_LEVEL_INFO | Warning \<Rightarrow> SENTRY_LEVEL_WARNING | Error \<Rightarrow> SENTRY_LEVEL_ERROR |
     Fatal \<Rightarrow> SENTRY_LEVEL_FATAL | _ \<Rightarrow> SENTRY_LEVEL_DEBUG)"

type_synonym log_entry = "(string \<times> string) list"

record TelemetryService =
  ts_allowed :: bool
  ts_environment :: string
  ts_logBuffer :: "log_entry list"
  ts_shuttingDown :: bool
  ts_thread :: reconnect_thread
  ts_telemetryId :: string

section \<open>The service\<close>

text \<open>
  The file with the id: it is there or not; \<^verbatim>\<open>LoadFile\<close> and \<^verbatim>\<open>GetValue\<close> of the ini library answer, \<open>rebuild\<close> reads an
  id.
\<close>

definition telemetry_id :: "(string \<Rightarrow> string) \<Rightarrow> (world, string) prog" where
  "telemetry_id rebuild = bnd uuid4 (\<lambda>fresh. bnd read_flag (\<lambda>there.
     if there then
       bnd sys_int (\<lambda>rc.
         if rc = 0 then bnd sys_getline (\<lambda>v. case v of
             None \<Rightarrow> fail (Abort ''Invalid telemetry config'')
           | Some s \<Rightarrow> ret (rebuild s))
         else fail (Abort ''Invalid config file''))
     else
       bnd sys_int (\<lambda>created. if created = -1 then fail (Throw (RuntimeError ''filesystem error''))
         else bnd sys_int (\<lambda>_. ret fresh))))"

definition TelemetryService_new :: "(string \<Rightarrow> string) \<Rightarrow> bool \<Rightarrow> string \<Rightarrow> (world, TelemetryService) prog" where
  "TelemetryService_new rebuild allow environment = bnd sys_getenv (\<lambda>disableTelemetry.
     if allow \<and> disableTelemetry = None then
       bnd (telemetry_id rebuild) (\<lambda>i. ret \<lparr>ts_allowed = True, ts_environment = environment, ts_logBuffer = [],
         ts_shuttingDown = False, ts_thread = Running, ts_telemetryId = i\<rparr>)
     else ret \<lparr>ts_allowed = False, ts_environment = environment, ts_logBuffer = [], ts_shuttingDown = False,
       ts_thread = NoThread, ts_telemetryId = []\<rparr>)"

text \<open>The singleton.\<close>

definition telemetry_get :: "TelemetryService option \<Rightarrow> TelemetryService outcome" where
  "telemetry_get instance' = (case instance' of Some t \<Rightarrow> Ok t | None \<Rightarrow> Abort ''Tried to get a singleton before it was created!'')"

definition log_entry_of :: "string \<Rightarrow> TelemetryService \<Rightarrow> string \<Rightarrow> log_level \<Rightarrow> string \<Rightarrow> int \<Rightarrow> log_entry" where
  "log_entry_of ver t logText logLevel filename line = foldl (\<lambda>m (k, v). om_insert str_less k v m) []
     [(''message'', logText), (''level'', logLevelToString logLevel), (''Environment'', ts_environment t),
      (''Application'', ''Eternal Terminal''), (''Version'', ver), (''TelemetryId'', ts_telemetryId t),
      (''File'', filename), (''Line'', decimal line)]"

definition MAX_LOG_BUFFER :: nat where "MAX_LOG_BUFFER = 16 * 1024"

definition buffer_full :: "TelemetryService \<Rightarrow> bool" where
  "buffer_full t \<longleftrightarrow> MAX_LOG_BUFFER < length (ts_logBuffer t)"

definition logToDatadog :: "string \<Rightarrow> string \<Rightarrow> log_level \<Rightarrow> string \<Rightarrow> int \<Rightarrow> TelemetryService \<Rightarrow> TelemetryService" where
  "logToDatadog ver logText logLevel filename line t =
     (if buffer_full t then t
      else t\<lparr>ts_logBuffer := ts_logBuffer t @ [log_entry_of ver t logText logLevel filename line]\<rparr>)"

definition logToSentry :: "log_level \<Rightarrow> string \<Rightarrow> TelemetryService \<Rightarrow> sentry_event list" where
  "logToSentry level message t = (if \<not> ts_allowed t then [] else [(logLevelToSentry level, message)])"

text \<open>
  \<^verbatim>\<open>TelemetryDispatcher::handle\<close>: errors, with the message on the first line; \<open>built\<close> is the line of the log. What is
  fatal is reported to sentry as well.
\<close>

definition dispatch_log ::
  "string \<Rightarrow> bool \<Rightarrow> string \<Rightarrow> log_level \<Rightarrow> string \<Rightarrow> string \<Rightarrow> string \<Rightarrow> int \<Rightarrow> TelemetryService option \<Rightarrow>
   sentry_event list \<times> TelemetryService option" where
  "dispatch_log ver normal logger level message built filename line instance' =
     (case instance' of
        Some t \<Rightarrow> if normal \<and> logger \<noteq> ''stdout''
          then let logText = message @ [newline] @ built in
            (if level = Fatal then logToSentry level logText t else [],
             Some (if level = Fatal \<or> level = Error then logToDatadog ver logText level filename line t else t))
          else ([], Some t)
      | None \<Rightarrow> ([], None))"

section \<open>The thread that sends\<close>

text \<open>Where the thread is: before it looks, with what it saw, before it sleeps, at its end.\<close>

datatype sender = Looking | Seen bool nat | Sleeping bool | Ended

definition sender_look :: "TelemetryService \<Rightarrow> sender" where
  "sender_look t = Seen (ts_shuttingDown t) (length (ts_logBuffer t))"

text \<open>\<open>due\<close>: the time of the next dump is over. The result is what is posted.\<close>

definition sender_send :: "bool \<Rightarrow> bool \<Rightarrow> nat \<Rightarrow> TelemetryService \<Rightarrow> log_entry list \<times> TelemetryService" where
  "sender_send due lastRun logBufferSize t =
     (if logBufferSize \<noteq> 0 \<and> (1024 \<le> logBufferSize \<or> due \<or> lastRun) then (ts_logBuffer t, t\<lparr>ts_logBuffer := []\<rparr>) else ([], t))"

definition sender_next :: "bool \<Rightarrow> sender" where
  "sender_next lastRun = (if lastRun then Ended else Looking)"

section \<open>The end of the service\<close>

text \<open>The part of \<^verbatim>\<open>shutdown\<close> under the mutex, and the rest, once the thread has ended.\<close>

definition telemetry_stop :: "TelemetryService \<Rightarrow> TelemetryService" where
  "telemetry_stop t = t\<lparr>ts_shuttingDown := True\<rparr>"

definition telemetry_joined :: "TelemetryService \<Rightarrow> TelemetryService" where
  "telemetry_joined t = t\<lparr>ts_thread := NoThread\<rparr>"

text \<open>\<^verbatim>\<open>shutdown\<close> as its caller sees it: \<^verbatim>\<open>join\<close> returns when the thread has ended, which is the answer it waits for.\<close>

definition telemetry_shutdown :: "TelemetryService \<Rightarrow> (world, TelemetryService) prog" where
  "telemetry_shutdown t =
     (if ts_shuttingDown t then ret t
      else if ts_thread t = NoThread then ret (telemetry_stop t)
      else bnd sys_int (\<lambda>_. ret (telemetry_joined (telemetry_stop t))))"

definition TelemetryService_destroy :: "TelemetryService \<Rightarrow> (world, unit) prog" where
  "TelemetryService_destroy t =
     (if \<not> ts_shuttingDown t then emit (Note ''Destroyed telemetryService without a shutdown'') else ret ())"

text \<open>\<^verbatim>\<open>shutdownTelemetry\<close>, which \<^verbatim>\<open>atexit\<close> and the handlers of signals call, takes the singleton away first.\<close>

definition shutdownTelemetry :: "TelemetryService option \<Rightarrow> (world, TelemetryService option) prog" where
  "shutdownTelemetry instance' = (case instance' of
      None \<Rightarrow> ret None
    | Some t \<Rightarrow> bnd (emit (Note ''Shutting down sentry'')) (\<lambda>_. bnd (telemetry_shutdown t) (\<lambda>t'.
        bnd (TelemetryService_destroy t') (\<lambda>_. ret None))))"

definition sentry_crash_handler :: "TelemetryService option \<Rightarrow> int \<Rightarrow> (world, TelemetryService option) prog" where
  "sentry_crash_handler instance' signum = shutdownTelemetry instance'"

definition sentry_sigterm :: "TelemetryService option \<Rightarrow> int \<Rightarrow> (world, unit) prog" where
  "sentry_sigterm instance' signum = bnd (shutdownTelemetry instance') (\<lambda>_. TerminateSignalHandler signum)"

definition sentry_sigint :: "TelemetryService option \<Rightarrow> int \<Rightarrow> (world, unit) prog" where
  "sentry_sigint instance' signum = bnd (shutdownTelemetry instance') (\<lambda>_. InterruptSignalHandler signum)"

section \<open>Interleavings\<close>

text \<open>
  Beside the service and the thread, what was accepted so far, what was posted, and what had been accepted when
  \<^verbatim>\<open>shutdown\<close> was called.
\<close>

record telemetry_state =
  tl_service :: TelemetryService
  tl_sender :: sender
  tl_accepted :: "log_entry list"
  tl_posted :: "log_entry list"
  tl_before :: "log_entry list option"

datatype telemetry_label = LLog | LStop | LSender | LJoin

inductive telemetry_step :: "telemetry_state \<Rightarrow> telemetry_label \<Rightarrow> telemetry_state \<Rightarrow> bool" where
  step_log: "telemetry_step st LLog (st\<lparr>tl_service := logToDatadog v txt l f n (tl_service st),
     tl_accepted := tl_accepted st @ (if buffer_full (tl_service st) then [] else [log_entry_of v (tl_service st) txt l f n])\<rparr>)"
| step_stop: "\<not> ts_shuttingDown (tl_service st) \<Longrightarrow>
     telemetry_step st LStop (st\<lparr>tl_service := telemetry_stop (tl_service st), tl_before := Some (tl_accepted st)\<rparr>)"
| step_look: "tl_sender st = Looking \<Longrightarrow> telemetry_step st LSender (st\<lparr>tl_sender := sender_look (tl_service st)\<rparr>)"
| step_send: "tl_sender st = Seen lastRun n \<Longrightarrow> sender_send due lastRun n (tl_service st) = (out, t') \<Longrightarrow>
     telemetry_step st LSender (st\<lparr>tl_service := t', tl_posted := tl_posted st @ out, tl_sender := Sleeping lastRun\<rparr>)"
| step_next: "tl_sender st = Sleeping lastRun \<Longrightarrow> telemetry_step st LSender (st\<lparr>tl_sender := sender_next lastRun\<rparr>)"
| step_join: "ts_shuttingDown (tl_service st) \<Longrightarrow> tl_sender st = Ended \<Longrightarrow>
     telemetry_step st LJoin (st\<lparr>tl_service := telemetry_joined (tl_service st)\<rparr>)"

inductive_cases telemetry_stepE: "telemetry_step st l st'"

definition telemetry_init :: "telemetry_state \<Rightarrow> bool" where
  "telemetry_init st \<longleftrightarrow> ts_logBuffer (tl_service st) = [] \<and> \<not> ts_shuttingDown (tl_service st) \<and> ts_thread (tl_service st) = Running \<and> tl_sender st = Looking \<and>
     tl_accepted st = [] \<and> tl_posted st = [] \<and> tl_before st = None"

text \<open>What was accepted before \<^verbatim>\<open>shutdown\<close> is out.\<close>

definition flushed :: "telemetry_state \<Rightarrow> bool" where
  "flushed st \<longleftrightarrow> (\<exists>m. tl_before st = Some m \<and> prefix m (tl_posted st))"

definition telemetry_inv :: "telemetry_state \<Rightarrow> bool" where
  "telemetry_inv st \<longleftrightarrow> tl_posted st @ ts_logBuffer (tl_service st) = tl_accepted st \<and>
     length (ts_logBuffer (tl_service st)) \<le> Suc MAX_LOG_BUFFER \<and> (ts_thread (tl_service st) = NoThread \<longrightarrow> tl_sender st = Ended) \<and>
     (case tl_before st of None \<Rightarrow> \<not> ts_shuttingDown (tl_service st) | Some m \<Rightarrow> ts_shuttingDown (tl_service st) \<and> prefix m (tl_accepted st)) \<and>
     (case tl_sender st of
        Looking \<Rightarrow> True
      | Seen lastRun n \<Rightarrow> lastRun \<longrightarrow> tl_before st \<noteq> None \<and> (n = 0 \<longrightarrow> flushed st)
      | Sleeping lastRun \<Rightarrow> lastRun \<longrightarrow> flushed st
      | Ended \<Rightarrow> flushed st)"

lemmas telemetry_defs = telemetry_inv_def flushed_def logToDatadog_def buffer_full_def telemetry_stop_def telemetry_joined_def sender_look_def sender_send_def
  sender_next_def

lemma telemetry_step_inv: "telemetry_inv st \<Longrightarrow> telemetry_step st l st' \<Longrightarrow> telemetry_inv st'"
  by (erule telemetry_stepE)
    (auto simp: telemetry_defs prefix_def split: option.splits sender.splits if_splits)

interpretation tel: inductive_invariant telemetry_init telemetry_step telemetry_inv
  by unfold_locales (simp add: telemetry_init_def telemetry_inv_def, erule (1) telemetry_step_inv)

text \<open>
  C40: However the threads that log, the thread that sends and \<^verbatim>\<open>shutdown\<close> interleave, what was posted and what is still in the
  buffer is exactly what was accepted, in order; the buffer never holds more than 16385 entries; and once
  the thread has ended, or \<^verbatim>\<open>shutdown\<close> has waited for it, everything accepted before \<^verbatim>\<open>shutdown\<close> was called has been posted.\<close>

theorem telemetry_flushed:
  assumes "tel.reach st"
  shows "tl_posted st @ ts_logBuffer (tl_service st) = tl_accepted st \<and> length (ts_logBuffer (tl_service st)) \<le> 16385 \<and>
    (tl_sender st = Ended \<or> ts_thread (tl_service st) = NoThread \<longrightarrow> (\<exists>m. tl_before st = Some m \<and> prefix m (tl_posted st)))"
  using tel.reach_inv [OF assms] by (auto simp: telemetry_inv_def flushed_def MAX_LOG_BUFFER_def)

text \<open>
  The handler of a crash returns. After \<^verbatim>\<open>SIGSEGV\<close> the same instruction runs again, the handler is called again, finds no
  singleton and returns at once: the process neither ends nor goes on.
\<close>

lemma crash_handler_returns: "sentry_crash_handler None signum w = (Ok None, w)"
  by (simp add: sentry_crash_handler_def shutdownTelemetry_def ret_def)

lemma crash_handler_forgets: "sentry_crash_handler instance' signum w = (Ok i, w') \<Longrightarrow> i = None"
  by (auto simp: sentry_crash_handler_def shutdownTelemetry_def ret_def split: option.splits elim!: bnd_eq_OkE)

text \<open>An error is logged, the service is shut down, and the thread has its last round.\<close>

definition sample_service :: TelemetryService where
  "sample_service = \<lparr>ts_allowed = True, ts_environment = ''Client'', ts_logBuffer = [], ts_shuttingDown = False,
     ts_thread = Running, ts_telemetryId = ''id''\<rparr>"

definition sample_entry :: log_entry where
  "sample_entry = log_entry_of ''6'' sample_service ''lost'' Error ''a.cpp'' 7"

definition sample_stopped :: telemetry_state where
  "sample_stopped = \<lparr>tl_service = sample_service\<lparr>ts_logBuffer := [sample_entry], ts_shuttingDown := True\<rparr>, tl_sender = Looking,
     tl_accepted = [sample_entry], tl_posted = [], tl_before = Some [sample_entry]\<rparr>"

definition sample_ended :: telemetry_state where
  "sample_ended = sample_stopped\<lparr>tl_service := sample_service\<lparr>ts_shuttingDown := True\<rparr>, tl_sender := Ended, tl_posted := [sample_entry]\<rparr>"

lemma sample_ended_reach: "tel.reach sample_ended"
proof -
  let ?s0 = "\<lparr>tl_service = sample_service, tl_sender = Looking, tl_accepted = [], tl_posted = [], tl_before = None\<rparr>"
  let ?s1 = "?s0\<lparr>tl_service := sample_service\<lparr>ts_logBuffer := [sample_entry]\<rparr>, tl_accepted := [sample_entry]\<rparr>"
  have 0: "tel.reach ?s0" by (rule tel.reach_init) (simp add: telemetry_init_def sample_service_def)
  have "tel.reach ?s1"
    using tel.reach_step [OF 0 step_log [of _ "''6''" "''lost''" Error "''a.cpp''" 7]]
    by (simp add: logToDatadog_def buffer_full_def sample_service_def sample_entry_def)
  from tel.reach_step [OF this step_stop] have "tel.reach sample_stopped"
    by (simp add: telemetry_stop_def sample_stopped_def sample_service_def)
  from tel.reach_step [OF this step_look] have "tel.reach (sample_stopped\<lparr>tl_sender := Seen True 1\<rparr>)"
    by (simp add: sender_look_def sample_stopped_def)
  from tel.reach_step [OF this step_send [of _ True 1 False "[sample_entry]" "sample_service\<lparr>ts_shuttingDown := True\<rparr>"]]
  have "tel.reach (sample_stopped\<lparr>tl_service := sample_service\<lparr>ts_shuttingDown := True\<rparr>, tl_posted := [sample_entry], tl_sender := Sleeping True\<rparr>)"
    by (simp add: sender_send_def sample_stopped_def sample_service_def)
  from tel.reach_step [OF this step_next [of _ True]] show ?thesis
    by (simp add: sender_next_def sample_ended_def sample_stopped_def)
qed

theorem telemetry_flushed_witness: "\<exists>m. tl_before sample_ended = Some m \<and> prefix m (tl_posted sample_ended) \<and> m = [sample_entry]"
proof -
  have "tl_sender sample_ended = Ended" "tl_before sample_ended = Some [sample_entry]" by (simp_all add: sample_ended_def sample_stopped_def)
  then show ?thesis using telemetry_flushed [OF sample_ended_reach] by auto
qed

end
