(* ===== verification/ET_Mains.thy ===== *)
theory ET_Mains
  imports ET_HtmMain ET_Telemetry
begin

text \<open>
  The main programs \<^verbatim>\<open>etterminal\<close>, \<^verbatim>\<open>et\<close> and \<^verbatim>\<open>etserver\<close> (\<^verbatim>\<open>terminal/TerminalMain.cpp\<close>, \<^verbatim>\<open>terminal/TerminalClientMain.cpp\<close>,
  \<^verbatim>\<open>terminal/TerminalServerMain.cpp\<close>) from the parsed command line to the end, with their log files and the telemetry
  service. The lemmas show what decides the settings of the server, and an option that cannot work.
\<close>

section \<open>etterminal\<close>

definition terminal_log :: "TerminalArgs \<Rightarrow> string \<Rightarrow> (world, Configurations) prog" where
  "terminal_log a filenamePrefix = setupLogFiles setupLogHandler (ta_logdir a) filenamePrefix (ta_logtostdout a) False False DEFAULT_MAX_LOG_SIZE"

text \<open>\<open>th\<close> and \<open>ih\<close> are the handlers of the sockets to the destination and of the pipes.\<close>

definition etterminal_main :: "sodium \<Rightarrow> protos \<Rightarrow> tprotos \<Rightarrow> config_env \<Rightarrow> nat \<Rightarrow> nat \<Rightarrow> TerminalArgs \<Rightarrow> (world, unit) prog" where
  "etterminal_main na P T E th ih a =
     (if ta_help a then fail (Exit 0) else
     bnd (outcome_prog (terminal_router a)) (\<lambda>router.
     bnd (terminal_idpasskey a) (\<lambda>idpasskey.
     bnd (outcome_prog (vec_at (split idpasskey CHR ''/'') 0)) (\<lambda>i.
     bnd (local_username E) (\<lambda>username.
     if ta_jump a then
       bnd (terminal_log a (''etjump-'' @ username @ ''-'' @ i)) (\<lambda>_.
       bnd (print_idpasskey idpasskey) (\<lambda>_. bnd become_daemon (\<lambda>_.
       bnd (UserJumphostHandler_new th idpasskey \<lparr>ep_name = Some (ta_dsthost a), ep_port = Some (ta_dstport a)\<rparr> ih router) (\<lambda>ujh.
       UserJumphostHandler_run na P T ujh))))
     else
       bnd (terminal_log a (''etterminal-'' @ username @ ''-'' @ i)) (\<lambda>_.
       bnd (UserTerminalHandler_new T ih PseudoUserTerminal_new True router idpasskey) (\<lambda>uth.
       bnd (print_idpasskey idpasskey) (\<lambda>_. bnd become_daemon (\<lambda>_.
       bnd (UserTerminalHandler_run T uth) (\<lambda>_. ret ()))))))))))"

section \<open>et\<close>

text \<open>From the argument that names the server to the end of the session.\<close>

definition et_connect :: "sodium \<Rightarrow> protos \<Rightarrow> tprotos \<Rightarrow> nat \<Rightarrow> config_env \<Rightarrow> nat \<Rightarrow> nat \<Rightarrow> EtArgs \<Rightarrow> (world, unit) prog" where
  "et_connect na P T d E h ph a =
     (case ea_host a of
        None \<Rightarrow> fail (Exit 0)
      | Some host_arg \<Rightarrow>
          bnd (outcome_prog (parse_host_arg (get_or [] (ea_username a)) (ea_port a) host_arg)) (\<lambda>(username0, host_alias, destinationPort).
          bnd (outcome_prog (extractSingleOptionWithDefault (ea_jumphost a) [])) (\<lambda>jump0.
          bnd (outcome_prog (extractSingleOptionWithDefault (ea_keepalive a) MAX_CLIENT_KEEP_ALIVE_DURATION)) (\<lambda>keepalive.
          if keepalive < 1 \<or> MAX_CLIENT_KEEP_ALIVE_DURATION < keepalive then fail (Exit 0)
          else
            bnd (read_ssh_config d E host_alias) (\<lambda>opts.
            let destinationHost = get_or host_alias (o_host opts) in
            bnd (if username0 \<noteq> [] then ret username0
                 else case o_username opts of Some u \<Rightarrow> ret u | None \<Rightarrow> local_username E) (\<lambda>username.
            bnd (pick_endpoint d E a jump0 opts destinationHost destinationPort) (\<lambda>(jump, ep).
            bnd (ping ep h) (\<lambda>reachable.
            if \<not> reachable then fail (Exit 1)
            else
              bnd (if ea_no_terminal a then ret () else console_new) (\<lambda>_.
              bnd (outcome_prog (extractSingleOptionWithDefault (ea_tunnel a) [])) (\<lambda>tunnel_arg.
              bnd (outcome_prog (extractSingleOptionWithDefault (ea_reversetunnel a) [])) (\<lambda>r_tunnel_arg.
              et_session na P T a (setup_of a username destinationHost host_alias destinationPort jump)
                (\<lambda>ids. client_args a h ph ep ids jump (add_local_forwards (o_local_forwards opts) tunnel_arg) r_tunnel_arg
                   keepalive opts))))))))))))"

definition client_conf :: "EtArgs \<Rightarrow> Configurations" where
  "client_conf a = setupLogHandler @ (if ea_silent a then [SetGlobally Enabled ''false''] else [])"

text \<open>
  \<open>rebuild\<close> reads the id of the telemetry file. What is logged to the service meanwhile is a step of
  \<open>telemetry_step\<close> and is not repeated here. An \<^verbatim>\<open>exit\<close> on the way leaves by \<open>Exit\<close>, with its \<^verbatim>\<open>atexit\<close> functions left out.
\<close>

definition et_main :: "sodium \<Rightarrow> protos \<Rightarrow> tprotos \<Rightarrow> nat \<Rightarrow> config_env \<Rightarrow> (string \<Rightarrow> string) \<Rightarrow> nat \<Rightarrow> nat \<Rightarrow> EtArgs \<Rightarrow> (world, unit) prog" where
  "et_main na P T d E rebuild h ph a =
     (if ea_help a \<or> ea_version a then fail (Exit 0)
      else bnd (catch_tunnel
        (bnd (setupLogFiles (client_conf a) (ea_logdir a) ''etclient'' (ea_logtostdout a) (\<not> ea_logtostdout a) False DEFAULT_MAX_LOG_SIZE) (\<lambda>_.
         bnd (TelemetryService_new rebuild (ea_telemetry a) ''Client'') (\<lambda>t.
         bnd (et_connect na P T d E h ph a) (\<lambda>_. ret t))))) (\<lambda>t.
        bnd (telemetry_shutdown t) TelemetryService_destroy))"

section \<open>etserver\<close>

record ServerArgs =
  sa_help :: bool
  sa_version :: bool
  sa_port :: "int option"
  sa_bindip :: "string option"
  sa_daemon :: bool
  sa_pidfile :: string
  sa_cfgfile :: "string option"
  sa_logdir :: "string option"
  sa_logtostdout :: bool
  sa_verbose :: "int option"
  sa_telemetry :: "bool option"
  sa_serverfifo :: string

text \<open>
  A configuration file: its keys by section, and the library's reading of a key as a truth value, where the
  default is false. \<open>None\<close> is a file that cannot be loaded.
\<close>

record ini_file =
  ini_value :: "string \<Rightarrow> string \<Rightarrow> string option"
  ini_bool :: "string \<Rightarrow> string \<Rightarrow> bool"

type_synonym ini = "ini_file option"

record ServerSettings =
  st_port :: int
  st_bindIp :: string
  st_fifo :: ServerFifoPath
  st_telemetry :: bool
  st_verbose :: int
  st_silent :: bool
  st_maxlogsize :: string
  st_logDirectory :: string

definition initial_settings :: "ServerArgs \<Rightarrow> ServerSettings" where
  "initial_settings a = \<lparr>st_port = 0, st_bindIp = [], st_fifo = ServerFifoPath_new, st_telemetry = False, st_verbose = get_or 0 (sa_verbose a),
     st_silent = False, st_maxlogsize = ''20971520'', st_logDirectory = GetTempDirectory\<rparr>"

definition cfgfile_port :: "ServerArgs \<Rightarrow> ini_file \<Rightarrow> int outcome" where
  "cfgfile_port a f = (if sa_port a = None then (case ini_value f ''Networking'' ''port'' of None \<Rightarrow> Ok 0 | Some s \<Rightarrow> stoi s) else Ok 0)"

definition cfgfile_fifo :: "ini_file \<Rightarrow> ServerFifoPath outcome" where
  "cfgfile_fifo f = (case ini_value f ''Debug'' ''serverfifo'' of
      None \<Rightarrow> Ok ServerFifoPath_new
    | Some fifoName \<Rightarrow> if fifoName = [] then Ok ServerFifoPath_new else setPathOverride fifoName ServerFifoPath_new)"

text \<open>A number in the file that counts when it is not 0.\<close>

definition nonzero :: "string option \<Rightarrow> string option" where
  "nonzero v = (case v of Some s \<Rightarrow> if atoi s \<noteq> 0 then Some s else None | None \<Rightarrow> None)"

definition cfgfile_settings :: "ServerArgs \<Rightarrow> (string \<Rightarrow> ini) \<Rightarrow> ServerSettings outcome" where
  "cfgfile_settings a load =
     (case sa_cfgfile a of
        None \<Rightarrow> Ok (initial_settings a)
      | Some cfgfilename \<Rightarrow> (case load cfgfilename of
          None \<Rightarrow> Abort ''Invalid config file''
        | Some f \<Rightarrow> (case cfgfile_port a f of
            Ok p \<Rightarrow> (case cfgfile_fifo f of
              Ok fifo \<Rightarrow> Ok ((initial_settings a)\<lparr>
                st_port := p,
                st_bindIp := (if sa_bindip a = None then get_or [] (ini_value f ''Networking'' ''bind_ip'') else []),
                st_fifo := fifo,
                st_telemetry := ini_bool f ''Debug'' ''telemetry'',
                st_verbose := (case sa_verbose a of Some v \<Rightarrow> v | None \<Rightarrow>
                  (case ini_value f ''Debug'' ''verbose'' of Some vlevel \<Rightarrow> atoi vlevel | None \<Rightarrow> 0)),
                st_silent := nonzero (ini_value f ''Debug'' ''silent'') \<noteq> None,
                st_maxlogsize := get_or ''20971520'' (nonzero (ini_value f ''Debug'' ''logsize'')),
                st_logDirectory := get_or GetTempDirectory (ini_value f ''Debug'' ''logdirectory'')\<rparr>)
            | q \<Rightarrow> lift_bad q)
          | q \<Rightarrow> lift_bad q)))"

definition server_settings :: "ServerArgs \<Rightarrow> (string \<Rightarrow> ini) \<Rightarrow> ServerSettings outcome" where
  "server_settings a load = (case cfgfile_settings a load of
      Ok s \<Rightarrow>
        (case (if sa_serverfifo a = [] then Ok (st_fifo s) else setPathOverride (sa_serverfifo a) (st_fifo s)) of
           Ok f \<Rightarrow>
             (let p = get_or (st_port s) (sa_port a) in
              Ok (s\<lparr>st_port := (if p = 0 then 2022 else p), st_bindIp := get_or (st_bindIp s) (sa_bindip a), st_fifo := f,
                st_telemetry := get_or (st_telemetry s) (sa_telemetry a), st_logDirectory := get_or (st_logDirectory s) (sa_logdir a)\<rparr>))
         | q \<Rightarrow> lift_bad q)
    | q \<Rightarrow> lift_bad q)"

definition server_endpoint :: "ServerSettings \<Rightarrow> SocketEndpoint" where
  "server_endpoint s = \<lparr>ep_name = (if st_bindIp s = [] then None else Some (st_bindIp s)), ep_port = Some (st_port s)\<rparr>"

definition server_log :: "ServerArgs \<Rightarrow> ServerSettings \<Rightarrow> (world, Configurations) prog" where
  "server_log a s = setupLogFiles (setupLogHandler @ (if st_silent s then [SetGlobally Enabled ''false''] else []))
     (st_logDirectory s) ''etserver'' (sa_logtostdout a) (\<not> sa_logtostdout a) True (st_maxlogsize s)"

text \<open>The function that \<^verbatim>\<open>atexit\<close> keeps, or the destructor of the singleton.\<close>

definition telemetry_at_exit :: "TelemetryService \<Rightarrow> (world, unit) prog" where
  "telemetry_at_exit t = (if ts_allowed t then bnd (shutdownTelemetry (Some t)) (\<lambda>_. ret ()) else TelemetryService_destroy t)"

definition etserver_main :: "tprotos \<Rightarrow> (string \<Rightarrow> ini) \<Rightarrow> (string \<Rightarrow> string) \<Rightarrow> nat \<Rightarrow> nat \<Rightarrow> ServerArgs \<Rightarrow> (world, unit) prog" where
  "etserver_main T load rebuild h ph a =
     (if sa_help a \<or> sa_version a then fail (Exit 0)
      else bnd (if sa_daemon a then
                  bnd (DaemonCreator_create True (sa_pidfile a)) (\<lambda>r. if r = -1 then fail (Abort ''Error creating daemon'') else ret ())
                else ret ()) (\<lambda>_.
        bnd (outcome_prog (server_settings a load)) (\<lambda>s.
        bnd (server_log a s) (\<lambda>_.
        bnd (TelemetryService_new rebuild (st_telemetry s) ''Server'') (\<lambda>t.
        bnd (createDirectoriesIfRequired (st_fifo s)) (\<lambda>_.
        bnd (getPathForCreation (st_fifo s)) (\<lambda>path.
        bnd (TerminalServer_new h (server_endpoint s) ph \<lparr>ep_name = Some path, ep_port = None\<rparr>) (\<lambda>sv.
        bnd (\<lambda>w. case TerminalServer_run T (sv, w) of (r, (_, w')) \<Rightarrow> (r, w')) (\<lambda>_. telemetry_at_exit t)))))))))"

section \<open>Options\<close>

text \<open>What is on the command line wins over the file, and the server never listens on port 0.\<close>

lemma command_line_wins:
  assumes "server_settings a load = Ok s"
  shows "(\<forall>p. sa_port a = Some p \<and> p \<noteq> 0 \<longrightarrow> st_port s = p) \<and> (\<forall>b. sa_bindip a = Some b \<longrightarrow> st_bindIp s = b) \<and>
    (\<forall>d. sa_logdir a = Some d \<longrightarrow> st_logDirectory s = d) \<and> (\<forall>t. sa_telemetry a = Some t \<longrightarrow> st_telemetry s = t) \<and> st_port s \<noteq> 0"
  using assms by (auto simp: server_settings_def Let_def get_or_def split: outcome.splits if_splits option.splits)

lemma cfgfile_verbose: "cfgfile_settings a load = Ok s \<Longrightarrow> sa_verbose a = Some v \<Longrightarrow> st_verbose s = v"
  unfolding cfgfile_settings_def initial_settings_def get_or_def by (auto split: outcome.splits option.splits)

lemma command_line_verbose: "server_settings a load = Ok s \<Longrightarrow> sa_verbose a = Some v \<Longrightarrow> st_verbose s = v"
  unfolding server_settings_def Let_def by (auto dest: cfgfile_verbose split: outcome.splits if_splits)

text \<open>Nothing catches the exception for a port in the file that is not a number.\<close>

lemma bad_port_ends_server:
  assumes "\<not> sa_help a" "\<not> sa_version a" "\<not> sa_daemon a" and "sa_cfgfile a = Some c" "load c = Some f" "sa_port a = None"
    and "ini_value f ''Networking'' ''port'' = Some ''ssh''"
  shows "etserver_main T load rebuild h ph a w = (Throw InvalidArgument, w)"
proof -
  have "stoi ''ssh'' = Throw InvalidArgument" by code_simp
  then have "server_settings a load = Throw InvalidArgument"
    using assms by (simp add: server_settings_def cfgfile_settings_def cfgfile_port_def)
  then show ?thesis using assms by (simp add: etserver_main_def outcome_prog_def bnd_def ret_def fail_def)
qed

lemma idpasskey_option_crashes:
  assumes "\<not> ta_help a" and "ta_idpasskey a = Some idpasskey" and "ta_serverfifo a = []"
  shows "fst (etterminal_main na P T E th ih a w) = Abort ''undefined: vector index''"
  using assms by (simp add: etterminal_main_def terminal_router_def terminal_idpasskey_def outcome_prog_def vec_at_def bnd_def ret_def)

end
