(* ===== verification/Spec2Isabelle.thy ===== *)
theory Spec2Isabelle
  imports ET_EndToEnd ET_Mains
begin

text \<open>
  Eternal Terminal, a remote shell that survives lost connections, and HTM, its terminal multiplexer.
  This library models the C++ code under \<^verbatim>\<open>src/src\<close> and proves what makes it correct. File names below are
  relative to that directory.

  \<^bold>\<open>The program.\<close> A client (\<^verbatim>\<open>et\<close>) asks, over ssh, for a terminal process (\<^verbatim>\<open>etterminal\<close>) on the server's host,
  which registers an id and a passkey with the server (\<^verbatim>\<open>etserver\<close>) through a pipe. The client then
  connects to the server with that id. Each direction of the connection is a stream of encrypted
  packets that both ends number and back up, so that after a lost socket both sides exchange what the other has
  missed and go on. Packets carry keys, output, window sizes, keepalives and forwarded sockets. A
  jump host relays packets between two servers. HTM keeps a layout of panes in a daemon (\<^verbatim>\<open>htmd\<close>) that a client
  (\<^verbatim>\<open>htm\<close>) steers with short messages over a pipe.

  \<^bold>\<open>Programs and the system.\<close> A method is a program \<open>'s \<Rightarrow> 'a outcome \<times> 's\<close> over the object and the
  environment (\<open>ET_Prelude\<close>). An \<open>outcome\<close> is a value, an exception, an abort (\<^verbatim>\<open>STFATAL\<close>, undefined behaviour as
  \<open>Abort ''undefined: ...''\<close>, an exception that leaves a thread as \<open>Abort ''std::terminate''\<close>), a call of \<^verbatim>\<open>exit\<close>, or
  \<open>Blocked\<close>. The operating system (\<open>ET_Kernel\<close>) is a script of answers, over which every theorem quantifies, and a trace of
  what was sent, received, opened and closed. A call takes one answer; without one it has not returned, which is
  \<open>Blocked\<close>. Loops that wait use up answers, so they are total functions with the length of the script as
  measure (with the bytes a reader still holds, where a round can go without a call); no fuel is
  needed. The one bound is the room on the stack for \<^verbatim>\<open>Include\<close> lines, an argument of the parser of configuration
  files, whose exhaustion is an abort. Objects shared between threads live in stores under their addresses; a mutex makes
  the methods it guards atomic, and threads interleave between them: by step relations for the server,
  and by answers that say how many rounds the reconnect thread has before the next round of a client's loop.
  \<^verbatim>\<open>int\<close>, \<^verbatim>\<open>int64_t\<close> and the fields of messages keep their width where it matters.

  \<^bold>\<open>Parameters.\<close> libsodium (\<open>sodium\<close>, with its contract \<open>sodium_ok\<close>), the generated protobuf codecs (\<open>codec\<close>, \<open>codec_ok\<close>),
  Base64, the JSON printer, the uuid source, the option parser and the ini files are not in the repository's
  own code: they are arguments, and theorems that rely on them say so in a hypothesis with a witness.

  \<^bold>\<open>Theories and sources.\<close>
  \<^item> \<open>ET_Prelude\<close>, \<open>ET_Strings\<close>: outcomes, bytes, maps, strings (\<^verbatim>\<open>base/Headers.hpp\<close>); the locales \<open>transition_system\<close>,
    \<open>inductive_invariant\<close> and \<open>frame\<close>, which carry the invariants and the facts a program keeps.
  \<^item> \<open>ET_Kernel\<close>, \<open>ET_Socket\<close>, \<open>ET_Transfer\<close>: \<^verbatim>\<open>base/UnixSocketHandler\<close>, \<^verbatim>\<open>TcpSocketHandler\<close>, \<^verbatim>\<open>PipeSocketHandler\<close>, \<^verbatim>\<open>SocketHandler\<close>,
    \<^verbatim>\<open>RawSocketUtils\<close>. The lemmas account for every byte of the transfers.
  \<^item> \<open>ET_Packet\<close>: \<^verbatim>\<open>base/CryptoHandler\<close>, \<^verbatim>\<open>Packet\<close>. Sealing and opening, and that no nonce is used twice.
  \<^item> \<open>ET_Backed\<close>, \<open>ET_Connection\<close>, \<open>ET_Reconnect\<close>: \<^verbatim>\<open>base/BackedReader\<close>, \<^verbatim>\<open>BackedWriter\<close>, \<^verbatim>\<open>Connection\<close>, \<^verbatim>\<open>ClientConnection\<close>,
    \<^verbatim>\<open>ServerClientConnection\<close>. Backup, recovery, the reconnect thread, agreement on the socket.
  \<^item> \<open>ET_Session\<close>, \<open>ET_Channel\<close>: two connections and the network between them as a step relation; each packet is
    delivered exactly once and in order, and a session refines a pair of queues.
  \<^item> \<open>ET_EndToEnd\<close>: the loops of the client and the server, the session and the terminal process together, by a step relation
    over the parts of the loops. What is typed reaches the shell, what the shell prints reaches the console, in order and
    without a gap, and all of it once everything has been read.
  \<^item> \<open>ET_Server\<close>, \<open>ET_Router\<close>, \<open>ET_Loop\<close>, \<open>ET_Terminal\<close>, \<open>ET_Threads\<close>: \<^verbatim>\<open>base/ServerConnection\<close>, \<^verbatim>\<open>terminal/UserTerminalRouter\<close>,
    \<^verbatim>\<open>terminal/TerminalServer\<close>. The registry (locale \<open>new_client_callback\<close> for what the base class leaves to the derived
    one) and the interleaved server: strangers change nothing, each session finds its own terminal.
  \<^item> \<open>ET_Messages\<close>, \<open>ET_Forward\<close>: \<^verbatim>\<open>src/proto/*.proto\<close>, \<^verbatim>\<open>terminal/forwarding\<close>. A tunnel carries its stream, the maps stay consistent.
  \<^item> \<open>ET_Tunnel\<close>: \<^verbatim>\<open>base/TunnelUtils\<close>, \<^verbatim>\<open>terminal/HostParsing.hpp\<close>. Arguments printed from their meaning are parsed back.
  \<^item> \<open>ET_UserTerminal\<close>: \<^verbatim>\<open>terminal/ServerFifoPath\<close>, \<^verbatim>\<open>UserTerminalHandler\<close>, \<^verbatim>\<open>PseudoUserTerminal.hpp\<close>. The loop copies in order.
  \<^item> \<open>ET_Client\<close>, \<open>ET_ClientLoop\<close>: \<^verbatim>\<open>terminal/TerminalClient\<close>, \<^verbatim>\<open>PseudoTerminalConsole.hpp\<close>, \<^verbatim>\<open>UserJumphostHandler\<close>. A client keeps its session
    through its loop (locale \<open>holds_connection\<close>), and what becomes of one that could not connect.
  \<^item> \<open>ET_Pattern\<close>, \<open>ET_Config\<close>, \<open>ET_ConfigFile\<close>: \<^verbatim>\<open>terminal/ParseConfigFile.hpp\<close>. Patterns against their meaning, \<^verbatim>\<open>Host\<close> lines,
    the first value wins, options stay in range (locale \<open>config_frame\<close>).
  \<^item> \<open>ET_Setup\<close>: \<^verbatim>\<open>terminal/SshSetupHandler\<close>, \<^verbatim>\<open>base/SubprocessUtils\<close>, \<^verbatim>\<open>base/DaemonCreator\<close> and what the programs make of
    their arguments. Both ends agree on the id and the passkey, and the argument that names the server is read back.
  \<^item> \<open>ET_Log\<close>: \<^verbatim>\<open>base/LogHandler\<close> and the handlers of \<^verbatim>\<open>base/Headers.hpp\<close> that end a program. The names of the log files differ,
    and the file in the settings is one made for it.
  \<^item> \<open>ET_Telemetry\<close>: \<^verbatim>\<open>terminal/TelemetryService\<close>. What was accepted is posted before the thread ends.
  \<^item> \<open>ET_Mains\<close>: the programs \<^verbatim>\<open>TerminalClientMain\<close>, \<^verbatim>\<open>TerminalMain\<close> and \<^verbatim>\<open>TerminalServerMain\<close> as a whole. The command line wins
    over the configuration file.
  \<^item> \<open>ET_Pane\<close>, \<open>ET_Multiplexer\<close>, \<open>ET_Layout\<close>, \<open>ET_HtmServer\<close>, \<open>ET_HtmMain\<close>: \<^verbatim>\<open>htm/*\<close>. The layout is a forest under every sequence of
    requests, keys reach their pane, the lines kept are the end of what was printed.

  \<^bold>\<open>Not modelled.\<close> The log statements everywhere, and what the libraries for logging, sentry and HTTP do with what
  they are handed, on which no behaviour depends; the branches for Windows and NetBSD, and login records; the usage texts of the
  programs; \<^verbatim>\<open>ProcessHelper.hpp\<close>, a declaration without a definition. The handlers of signals are modelled, not the moment a signal comes.
  Time is what the calls of \<^verbatim>\<open>time\<close> answer, without an assumption that it grows. Regular expressions
  are modelled as far as \<^verbatim>\<open>Include\<close> patterns produce them.
\<close>

end
